(* ===== verification/Vfi_Prelude.thy ===== *)
theory Vfi_Prelude
  imports Main "HOL-Library.Word"
begin

unbundle bit_operations_syntax

text \<open>
  Shared vocabulary of the development: the machine integers of the driver's 32-bit target, the
  kernel error numbers the sources return, C strings (as values and as regions of a byte buffer),
  and the general facts on lists the components use.

  The C library and kernel primitives the sources call on strings (\<open>strchr\<close>, \<open>strstr\<close>,
  \<open>strncmp\<close>, \<open>simple_strtoul\<close>) are written out here once, with the behaviour the kernel documents.
\<close>

section \<open>Machine integers and error numbers\<close>

type_synonym u8 = "8 word"
type_synonym u16 = "16 word"
type_synonym u32 = "32 word"
type_synonym u64 = "64 word"

text \<open>Every function of the driver that can fail returns a C \<open>int\<close>: 0, or a negated error number.\<close>

type_synonym errno = int

abbreviation EIO :: errno where "EIO \<equiv> 5"
abbreviation EAGAIN :: errno where "EAGAIN \<equiv> 11"
abbreviation ENOMEM :: errno where "ENOMEM \<equiv> 12"
abbreviation EFAULT :: errno where "EFAULT \<equiv> 14"
abbreviation EBUSY :: errno where "EBUSY \<equiv> 16"
abbreviation EEXIST :: errno where "EEXIST \<equiv> 17"
abbreviation ENODEV :: errno where "ENODEV \<equiv> 19"
abbreviation EINVAL :: errno where "EINVAL \<equiv> 22"
abbreviation ESPIPE :: errno where "ESPIPE \<equiv> 29"
abbreviation ELNRNG :: errno where "ELNRNG \<equiv> 48"
abbreviation ERESTARTSYS :: errno where "ERESTARTSYS \<equiv> 512"

text \<open>
  What a C expression can come to: a value, or undefined behaviour (a read through a null or a stray
  pointer, a write outside an array). A theorem that a call is a \<open>Val\<close> shows that it is free of it.
\<close>

datatype 'a cres = Val 'a | Undef

fun cres_bind :: "'a cres \<Rightarrow> ('a \<Rightarrow> 'b cres) \<Rightarrow> 'b cres" where
  "cres_bind (Val x) f = f x"
| "cres_bind Undef f = Undef"

lemma cres_bind_assoc: "cres_bind (cres_bind m f) h = cres_bind m (\<lambda>x. cres_bind (f x) h)"
  by (cases m) auto

lemma cres_bind_eq_Val: "cres_bind m f = Val y \<longleftrightarrow> (\<exists>x. m = Val x \<and> f x = Val y)"
  by (cases m) auto

section \<open>Fact collections\<close>

named_theorems inv_intros "invariant preservation, one rule per operation"
named_theorems abs_simps "abstraction function after each operation"
named_theorems frame_simps "what an operation leaves unchanged"

section \<open>Lists\<close>

lemma map_nth_upt_take: "n \<le> length xs \<Longrightarrow> map (\<lambda>i. xs ! i) [0..<n] = take n xs"
  by (simp add: list_eq_iff_nth_eq)

lemma upt_rec_left: "i < j \<Longrightarrow> [i..<j] = i # [Suc i..<j]"
  by (rule upt_conv_Cons)

lemma update_next_split:
  "Suc i < length qs \<Longrightarrow> qs ! i = x \<Longrightarrow> qs[Suc i := y] = take i qs @ x # y # drop (Suc (Suc i)) qs"
  by (simp add: upd_conv_take_nth_drop take_Suc_conv_app_nth)

lemma mod_diff_cases:
  fixes r w n :: int
  assumes "0 \<le> r" "r < n" "0 \<le> w" "w < n"
  shows "(w - r) mod n = (if r \<le> w then w - r else w - r + n)"
proof (cases "r \<le> w")
  case True
  with assms show ?thesis by simp
next
  case False
  have "(w - r) mod n = (w - r + n) mod n" by simp
  also have "\<dots> = w - r + n" using assms False by (intro mod_pos_pos_trivial) auto
  finally show ?thesis using False by simp
qed

lemma mod_add_cases:
  fixes r k n :: int
  assumes "0 \<le> r" "r < n" "0 \<le> k" "k \<le> n"
  shows "(r + k) mod n = (if r + k < n then r + k else r + k - n)"
proof (cases "r + k < n")
  case True
  with assms show ?thesis by simp
next
  case False
  have "(r + k) mod n = (r + k - n) mod n" by simp
  also have "\<dots> = r + k - n" using assms False by (intro mod_pos_pos_trivial) auto
  finally show ?thesis using False by simp
qed

lemma takeWhile_append_hit: "c \<notin> set xs \<Longrightarrow> takeWhile (\<lambda>x. x \<noteq> c) (xs @ c # ys) = xs"
  by (induction xs) auto

lemma dropWhile_append_hit: "c \<notin> set xs \<Longrightarrow> dropWhile (\<lambda>x. x \<noteq> c) (xs @ c # ys) = c # ys"
  by (induction xs) auto

lemma takeWhile_neq_id: "c \<notin> set xs \<Longrightarrow> takeWhile (\<lambda>x. x \<noteq> c) xs = xs"
  by (induction xs) auto

lemma dropWhile_neq_Nil: "c \<notin> set xs \<Longrightarrow> dropWhile (\<lambda>x. x \<noteq> c) xs = []"
  by (induction xs) auto

lemma split_at_first:
  assumes "c \<in> set xs"
  shows "xs = takeWhile (\<lambda>x. x \<noteq> c) xs @ c # tl (dropWhile (\<lambda>x. x \<noteq> c) xs)"
  using assms by (induction xs) auto

lemma count_list_takeWhile_dropWhile:
  assumes "c \<in> set xs"
  shows "count_list xs d = count_list (takeWhile (\<lambda>x. x \<noteq> c) xs) d + (if c = d then 1 else 0)
           + count_list (tl (dropWhile (\<lambda>x. x \<noteq> c) xs)) d"
  using assms by (induction xs) auto

section \<open>C strings\<close>

abbreviation NUL :: char where "NUL \<equiv> CHR 0x00"

text \<open>
  A buffer is the list of its bytes; a pointer into it is an index. The C string at a pointer runs to
  the first \<open>NUL\<close>; it is well formed when that \<open>NUL\<close> lies inside the buffer.
\<close>

definition cstr :: "string \<Rightarrow> nat \<Rightarrow> string" where
  "cstr b p = takeWhile (\<lambda>c. c \<noteq> NUL) (drop p b)"

definition c_ok :: "string \<Rightarrow> nat \<Rightarrow> bool" where
  "c_ok b p \<longleftrightarrow> p + length (cstr b p) < length b"

text \<open>\<open>strchr\<close> as a pointer, \<open>strstr\<close> as the index of the first match.\<close>

definition strchr :: "string \<Rightarrow> nat \<Rightarrow> char \<Rightarrow> nat option" where
  "strchr b p c =
     (if c \<in> set (cstr b p) then Some (p + length (takeWhile (\<lambda>x. x \<noteq> c) (cstr b p))) else None)"

fun strstr :: "string \<Rightarrow> string \<Rightarrow> nat option" where
  "strstr [] n = (if n = [] then Some 0 else None)"
| "strstr (c # cs) n = (if take (length n) (c # cs) = n then Some 0 else map_option Suc (strstr cs n))"

text \<open>\<open>strncmp(s, t, strlen(t)) == 0\<close>: the string starts with \<open>t\<close>.\<close>

definition starts_with :: "string \<Rightarrow> string \<Rightarrow> bool" where
  "starts_with s t \<longleftrightarrow> take (length t) s = t"

subsection \<open>Reading and writing inside a buffer\<close>

lemma cstr_no_NUL [simp]: "NUL \<notin> set (cstr b p)"
  by (auto simp: cstr_def dest: set_takeWhileD)

lemma cstr_terminated: "c_ok b p \<Longrightarrow> b ! (p + length (cstr b p)) = NUL"
proof -
  assume ok: "c_ok b p"
  then have lt: "length (cstr b p) < length (drop p b)" by (simp add: c_ok_def)
  then have "\<not> (drop p b ! length (cstr b p) \<noteq> NUL)"
    unfolding cstr_def by (rule nth_length_takeWhile)
  with ok show ?thesis by (simp add: c_ok_def)
qed

lemma nth_cstr: "k < length (cstr b p) \<Longrightarrow> p \<le> length b \<Longrightarrow> b ! (p + k) = cstr b p ! k"
  unfolding cstr_def by (metis takeWhile_nth nth_drop)

lemma c_ok_le: "c_ok b p \<Longrightarrow> p \<le> length b"
  by (simp add: c_ok_def)

lemma cstr_eqI:
  assumes "p + length s < length b" "\<And>k. k < length s \<Longrightarrow> b ! (p + k) = s ! k" "b ! (p + length s) = NUL"
    "NUL \<notin> set s"
  shows "cstr b p = s"
proof -
  have "drop p b = s @ NUL # drop (Suc (p + length s)) b"
  proof (rule nth_equalityI)
    show "length (drop p b) = length (s @ NUL # drop (Suc (p + length s)) b)" using assms(1) by simp
  next
    fix i assume "i < length (drop p b)"
    then have "drop p b ! i = b ! (p + i)" by simp
    then show "drop p b ! i = (s @ NUL # drop (Suc (p + length s)) b) ! i"
      using assms \<open>i < length (drop p b)\<close>
      by (cases "i < length s"; cases "i = length s") (auto simp: nth_append nth_Cons' add.commute)
  qed
  then show ?thesis using assms(4) by (simp add: cstr_def takeWhile_append_hit)
qed

lemma cstr_hd: "c_ok b p \<Longrightarrow> b ! p = NUL \<longleftrightarrow> cstr b p = []"
  using cstr_terminated [of b p] nth_cstr [of 0 b p] c_ok_le [of b p]
  by (metis add.right_neutral cstr_no_NUL length_greater_0_conv list.size(3) nth_mem)

lemma cstr_write_frame:
  assumes ok: "c_ok b r" and out: "i < r \<or> r + length (cstr b r) < i"
  shows "cstr (b[i := x]) r = cstr b r \<and> c_ok (b[i := x]) r"
proof -
  have "cstr (b[i := x]) r = cstr b r"
  proof (rule cstr_eqI)
    show "r + length (cstr b r) < length (b[i := x])" using ok by (simp add: c_ok_def)
    show "b[i := x] ! (r + k) = cstr b r ! k" if "k < length (cstr b r)" for k
      using that out nth_cstr [OF that c_ok_le [OF ok]] by (subst nth_list_update_neq) auto
    show "b[i := x] ! (r + length (cstr b r)) = NUL"
      using out cstr_terminated [OF ok] by (subst nth_list_update_neq) auto
  qed simp
  with ok show ?thesis by (simp add: c_ok_def)
qed

lemma cstr_write_NUL:
  assumes ok: "c_ok b p" and k: "k < length (cstr b p)"
  shows "cstr (b[p + k := NUL]) p = take k (cstr b p) \<and> c_ok (b[p + k := NUL]) p
    \<and> cstr (b[p + k := NUL]) (Suc (p + k)) = drop (Suc k) (cstr b p) \<and> c_ok (b[p + k := NUL]) (Suc (p + k))"
proof -
  let ?b = "b[p + k := NUL]"
  have len: "p + length (cstr b p) < length b" using ok by (simp add: c_ok_def)
  have one: "cstr ?b p = take k (cstr b p)"
  proof (rule cstr_eqI)
    show "?b ! (p + j) = take k (cstr b p) ! j" if "j < length (take k (cstr b p))" for j
      using that k nth_cstr [of j b p] c_ok_le [OF ok] by simp
    show "NUL \<notin> set (take k (cstr b p))" using cstr_no_NUL [of b p] set_take_subset [of k "cstr b p"] by blast
  qed (use k len in auto)
  have two: "cstr ?b (Suc (p + k)) = drop (Suc k) (cstr b p)"
  proof (rule cstr_eqI)
    show "?b ! (Suc (p + k) + j) = drop (Suc k) (cstr b p) ! j" if "j < length (drop (Suc k) (cstr b p))" for j
      using that nth_cstr [of "Suc (k + j)" b p] c_ok_le [OF ok] by (simp add: add.assoc)
    have "Suc (p + k) + length (drop (Suc k) (cstr b p)) = p + length (cstr b p)" using k by simp
    then show "?b ! (Suc (p + k) + length (drop (Suc k) (cstr b p))) = NUL"
      using cstr_terminated [OF ok] k by simp
    show "NUL \<notin> set (drop (Suc k) (cstr b p))" using cstr_no_NUL [of b p] set_drop_subset [of "Suc k" "cstr b p"] by blast
  qed (use k len in auto)
  show ?thesis using one two k len by (simp add: c_ok_def)
qed

lemma cstr_write_char:
  assumes ok: "c_ok b p" and k: "k < length (cstr b p)" and x: "x \<noteq> NUL"
  shows "cstr (b[p + k := x]) p = (cstr b p)[k := x] \<and> c_ok (b[p + k := x]) p"
proof -
  have len: "p + length (cstr b p) < length b" using ok by (simp add: c_ok_def)
  have "cstr (b[p + k := x]) p = (cstr b p)[k := x]"
  proof (rule cstr_eqI)
    show "b[p + k := x] ! (p + j) = (cstr b p)[k := x] ! j" if "j < length ((cstr b p)[k := x])" for j
      using that k len nth_cstr [of j b p] c_ok_le [OF ok] by (auto simp: nth_list_update)
    show "NUL \<notin> set ((cstr b p)[k := x])"
      using cstr_no_NUL [of b p] x set_update_subset_insert [of "cstr b p" k x] by blast
  qed (use k len cstr_terminated [OF ok] in auto)
  with len show ?thesis by (simp add: c_ok_def)
qed

lemma cstr_whole: "NUL \<notin> set s \<Longrightarrow> 0 < n \<Longrightarrow> cstr (s @ replicate n NUL) 0 = s \<and> c_ok (s @ replicate n NUL) 0"
  by (cases n) (auto simp: cstr_def c_ok_def takeWhile_append_hit)

lemma cstr_shift: "c_ok b p \<Longrightarrow> k \<le> length (cstr b p) \<Longrightarrow> cstr b (p + k) = drop k (cstr b p) \<and> c_ok b (p + k)"
proof -
  assume ok: "c_ok b p" and k: "k \<le> length (cstr b p)"
  have "cstr b (p + k) = drop k (cstr b p)"
  proof (rule cstr_eqI)
    show "b ! (p + k + j) = drop k (cstr b p) ! j" if "j < length (drop k (cstr b p))" for j
      using that nth_cstr [of "k + j" b p] c_ok_le [OF ok] by (simp add: add.assoc)
    show "b ! (p + k + length (drop k (cstr b p))) = NUL" using cstr_terminated [OF ok] k by simp
    show "NUL \<notin> set (drop k (cstr b p))" using cstr_no_NUL [of b p] set_drop_subset [of k "cstr b p"] by blast
  qed (use ok k in \<open>auto simp: c_ok_def\<close>)
  with ok k show ?thesis by (simp add: c_ok_def)
qed

section \<open>Hexadecimal numbers\<close>

definition hex_digit_val :: "char \<Rightarrow> nat option" where
  "hex_digit_val c =
     (let n = of_char c :: nat
      in if 48 \<le> n \<and> n \<le> 57 then Some (n - 48)
         else if 97 \<le> n \<and> n \<le> 102 then Some (n - 87)
         else if 65 \<le> n \<and> n \<le> 70 then Some (n - 55) else None)"

text \<open>
  The kernel's \<open>simple_strtoul(s, &end, 16)\<close> on a 32-bit machine: an optional \<open>0x\<close>, then hexadecimal
  digits accumulated modulo \<open>2^32\<close>; the value and the number of characters consumed.
\<close>

fun hex_scan :: "u32 \<Rightarrow> nat \<Rightarrow> string \<Rightarrow> u32 \<times> nat" where
  "hex_scan v n [] = (v, n)"
| "hex_scan v n (c # cs) =
     (case hex_digit_val c of None \<Rightarrow> (v, n) | Some d \<Rightarrow> hex_scan (v * 16 + of_nat d) (Suc n) cs)"

definition simple_strtoul16 :: "string \<Rightarrow> u32 \<times> nat" where
  "simple_strtoul16 s =
     (if take 2 s = ''0x'' \<or> take 2 s = ''0X'' then hex_scan 0 2 (drop 2 s) else hex_scan 0 0 s)"

text \<open>\<open>%x\<close> and \<open>%llx\<close>: lower-case digits, no prefix, \<open>0\<close> for zero.\<close>

definition hex_char :: "nat \<Rightarrow> char" where
  "hex_char d = (if d < 10 then char_of (48 + d) else char_of (87 + d))"

fun hex_of_nat :: "nat \<Rightarrow> string" where
  "hex_of_nat n = (if n < 16 then [hex_char n] else hex_of_nat (n div 16) @ [hex_char (n mod 16)])"

declare hex_of_nat.simps [simp del]

lemma hex_digit_val_hex_char: "d < 16 \<Longrightarrow> hex_digit_val (hex_char d) = Some d"
proof -
  assume "d < 16"
  then have "d \<in> set [0..<16]" by simp
  then show ?thesis by (simp add: upt_rec hex_digit_val_def hex_char_def) auto
qed

lemma hex_scan_append:
  "\<forall>c\<in>set xs. hex_digit_val c \<noteq> None \<Longrightarrow> hex_scan v n (xs @ ys) = (let (w, m) = hex_scan v n xs in hex_scan w m ys)"
  by (induction xs arbitrary: v n) (auto split: option.splits)

lemma hex_of_nat_digits: "\<forall>c\<in>set (hex_of_nat n). hex_digit_val c \<noteq> None"
proof (induction n rule: hex_of_nat.induct)
  case (1 n)
  show ?case
  proof (cases "n < 16")
    case True
    then show ?thesis by (simp add: hex_of_nat.simps [of n] hex_digit_val_hex_char)
  next
    case False
    with 1 show ?thesis by (auto simp: hex_of_nat.simps [of n] hex_digit_val_hex_char)
  qed
qed

lemma hex_scan_hex_of_nat: "hex_scan 0 0 (hex_of_nat n) = (of_nat n, length (hex_of_nat n))"
proof (induction n rule: hex_of_nat.induct)
  case (1 n)
  show ?case
  proof (cases "n < 16")
    case True
    then show ?thesis by (simp add: hex_of_nat.simps [of n] hex_digit_val_hex_char)
  next
    case False
    have "of_nat (n div 16) * 16 + of_nat (n mod 16) = (of_nat n :: u32)"
      by (metis div_mult_mod_eq of_nat_add of_nat_mult of_nat_numeral)
    with False 1 show ?thesis
      by (simp add: hex_of_nat.simps [of n] hex_scan_append hex_of_nat_digits hex_digit_val_hex_char)
  qed
qed

lemma hex_digit_not: "hex_digit_val c = None \<Longrightarrow> c \<notin> set (hex_of_nat n)"
  using hex_of_nat_digits [of n] by auto

lemma hex_of_nat_no_prefix: "take 2 (hex_of_nat n) \<noteq> ''0x'' \<and> take 2 (hex_of_nat n) \<noteq> ''0X''"
proof -
  have "CHR ''x'' \<notin> set (hex_of_nat n)" "CHR ''X'' \<notin> set (hex_of_nat n)"
    by (rule hex_digit_not, simp add: hex_digit_val_def)+
  then show ?thesis
    by (metis in_set_takeD list.set_intros(1) list.set_intros(2))
qed

text \<open>Printing and reading back a number is the identity, on the 32 bits that are read.\<close>

lemma strtoul_hex_of_nat: "simple_strtoul16 (hex_of_nat n) = (of_nat n, length (hex_of_nat n))"
  using hex_of_nat_no_prefix [of n] by (simp add: simple_strtoul16_def hex_scan_hex_of_nat)

section \<open>Reading 64-bit page arithmetic as numbers\<close>

lemma unat_widen: "unat (ucast (z :: u32) :: u64) = unat z"
  by transfer simp

lemma unat_narrow: "unat (ucast (x :: u64) :: u32) = unat x mod 2 ^ 32"
  by (simp add: unsigned_ucast_eq take_bit_eq_mod)

lemma unat_page_number: "unat (drop_bit 12 (x :: u64)) = unat x div 4096"
  by (simp add: unat_drop_bit_eq drop_bit_eq_div unat_div)

lemma unat_page_offset: "unat ((x :: u64) AND 0xfff) = unat x mod 4096"
proof -
  have m: "(0xfff :: u64) = mask 12" by (simp add: mask_eq_exp_minus_1)
  show ?thesis unfolding m by (simp add: take_bit_eq_mask [symmetric] unsigned_take_bit_eq take_bit_eq_mod unat_mod)
qed

lemma unat_lt32: "unat (z :: u32) < 2 ^ 32"
  using unsigned_less [of z] by simp

end
