(* ===== verification/Ringbuf.thy ===== *)
theory Ringbuf
  imports Vfi_Prelude "HOL-Library.Multiset"
begin

text \<open>
  The ring buffer of \<open>ringbuf.c\<close>: an array of pointers with a read and a write index. A pointer is
  an \<open>'a option\<close>, with \<open>None\<close> for \<open>NULL\<close>; the array, which the caller owns and passes to
  \<open>ringbuf_init\<close>, is a list that may be longer than the ring. The indices are C \<open>int\<close>s; they stay
  below \<open>iLen\<close>, so \<open>int\<close> without a width represents them. The theory shows that the ring is a bounded
  first-in first-out queue holding one element less than \<open>iLen\<close>, and states that contract as the
  locale \<open>bounded_fifo\<close>, on which the DMA engine's completion events rest.
\<close>

section \<open>The structure and its operations\<close>

record 'a ringbuf =
  ppArray :: "'a option list"
  iRead :: int
  iWrite :: int
  iLen :: int

definition ringbuf_init :: "'a option list \<Rightarrow> int \<Rightarrow> bool \<Rightarrow> 'a ringbuf" where
  "ringbuf_init arr len full =
     \<lparr>ppArray = arr, iRead = 0, iWrite = (if full then len - 1 else 0), iLen = len\<rparr>"

definition ringbuf_empty :: "'a ringbuf \<Rightarrow> bool" where
  "ringbuf_empty r \<longleftrightarrow> iRead r = iWrite r"

definition ringbuf_get :: "'a ringbuf \<Rightarrow> 'a option \<times> 'a ringbuf" where
  "ringbuf_get r =
     (if iRead r = iWrite r then (None, r)
      else (ppArray r ! nat (iRead r), r\<lparr>iRead := (iRead r + 1) mod iLen r\<rparr>))"

definition ringbuf_put :: "'a ringbuf \<Rightarrow> 'a option \<Rightarrow> 'a option \<times> 'a ringbuf" where
  "ringbuf_put r pData =
     (let next = (iWrite r + 1) mod iLen r
      in if next = iRead r then (None, r)
         else (pData, r\<lparr>ppArray := (ppArray r)[nat (iWrite r) := pData], iWrite := next\<rparr>))"

section \<open>Invariant and abstraction\<close>

definition ring_ok :: "'a ringbuf \<Rightarrow> bool" where
  "ring_ok r \<longleftrightarrow> 0 < iLen r \<and> nat (iLen r) \<le> length (ppArray r)
     \<and> 0 \<le> iRead r \<and> iRead r < iLen r \<and> 0 \<le> iWrite r \<and> iWrite r < iLen r"

definition ring_count :: "'a ringbuf \<Rightarrow> nat" where
  "ring_count r = nat ((iWrite r - iRead r) mod iLen r)"

definition ring_slot :: "'a ringbuf \<Rightarrow> nat \<Rightarrow> nat" where
  "ring_slot r k = nat ((iRead r + int k) mod iLen r)"

definition ring_list :: "'a ringbuf \<Rightarrow> 'a option list" where
  "ring_list r = map (\<lambda>k. ppArray r ! ring_slot r k) [0..<ring_count r]"

lemma ring_ok_init [inv_intros]:
  "0 < len \<Longrightarrow> nat len \<le> length arr \<Longrightarrow> ring_ok (ringbuf_init arr len full)"
  by (simp add: ring_ok_def ringbuf_init_def)

lemma ring_ok_get [inv_intros]: "ring_ok r \<Longrightarrow> ring_ok (snd (ringbuf_get r))"
  by (simp add: ring_ok_def ringbuf_get_def)

lemma ring_ok_put [inv_intros]: "ring_ok r \<Longrightarrow> ring_ok (snd (ringbuf_put r x))"
  by (simp add: ring_ok_def ringbuf_put_def Let_def)

lemma length_ring_list [simp]: "length (ring_list r) = ring_count r"
  by (simp add: ring_list_def)

lemma ring_count_cases:
  "ring_ok r \<Longrightarrow> ring_count r =
     nat (if iRead r \<le> iWrite r then iWrite r - iRead r else iWrite r - iRead r + iLen r)"
  by (simp add: ring_count_def ring_ok_def mod_diff_cases)

lemma ring_slot_cases:
  "ring_ok r \<Longrightarrow> int k \<le> iLen r \<Longrightarrow> ring_slot r k =
     nat (if iRead r + int k < iLen r then iRead r + int k else iRead r + int k - iLen r)"
  by (simp add: ring_slot_def ring_ok_def mod_add_cases)

lemma ring_succ_cases:
  "0 < n \<Longrightarrow> 0 \<le> i \<Longrightarrow> i < n \<Longrightarrow> (i + 1) mod n = (if i + 1 = n then 0 else i + (1::int))"
  using mod_add_cases [of i n 1] by simp

lemma ring_count_less: "ring_ok r \<Longrightarrow> ring_count r < nat (iLen r)"
  by (auto simp: ring_count_cases) (auto simp: ring_ok_def)

lemma ring_count_zero_iff: "ring_ok r \<Longrightarrow> ring_count r = 0 \<longleftrightarrow> iRead r = iWrite r"
  by (auto simp: ring_count_cases) (auto simp: ring_ok_def)

lemma ring_list_Nil_iff: "ring_ok r \<Longrightarrow> ring_list r = [] \<longleftrightarrow> iRead r = iWrite r"
  by (metis length_0_conv length_ring_list ring_count_zero_iff)

section \<open>Functional behaviour\<close>

lemma ring_list_get_empty [abs_simps]:
  "ring_ok r \<Longrightarrow> ring_list r = [] \<Longrightarrow> ringbuf_get r = (None, r)"
  by (simp add: ring_list_Nil_iff ringbuf_get_def)

lemma ring_list_get:
  assumes ok: "ring_ok r" and ne: "ring_list r \<noteq> []"
  shows "ringbuf_get r = (hd (ring_list r), snd (ringbuf_get r))
       \<and> ring_list (snd (ringbuf_get r)) = tl (ring_list r)"
proof -
  let ?r' = "snd (ringbuf_get r)"
  have neq: "iRead r \<noteq> iWrite r" using ok ne by (simp add: ring_list_Nil_iff)
  have r': "?r' = r\<lparr>iRead := (iRead r + 1) mod iLen r\<rparr>"
    using neq by (simp add: ringbuf_get_def)
  have ok': "ring_ok ?r'" by (rule ring_ok_get [OF ok])
  have pos: "0 < ring_count r" using ring_count_zero_iff [OF ok] neq by auto
  have cnt: "ring_count r = Suc (ring_count ?r')"
    using ok neq unfolding ring_count_cases [OF ok'] ring_count_cases [OF ok] unfolding r'
    by (auto simp: ring_ok_def ring_succ_cases)
  have slot: "ring_slot ?r' k = ring_slot r (Suc k)" for k
    by (simp add: ring_slot_def r' mod_simps algebra_simps)
  have hd: "hd (ring_list r) = ppArray r ! nat (iRead r)"
    using pos ok by (simp add: ring_list_def hd_map ring_slot_def ring_ok_def upt_rec_left)
  have arr: "ppArray ?r' = ppArray r" by (simp add: r')
  have tl: "ring_list ?r' = tl (ring_list r)"
    by (simp add: ring_list_def cnt upt_rec_left slot arr map_Suc_upt [symmetric] del: upt_Suc)
  show ?thesis using hd tl neq by (simp add: ringbuf_get_def)
qed

lemma ring_full_iff:
  assumes ok: "ring_ok r"
  shows "(iWrite r + 1) mod iLen r = iRead r \<longleftrightarrow> Suc (ring_count r) = nat (iLen r)"
  using ok by (auto simp: ring_count_cases ring_ok_def ring_succ_cases)

lemma ring_list_put_full:
  "ring_ok r \<Longrightarrow> Suc (ring_count r) = nat (iLen r) \<Longrightarrow> ringbuf_put r x = (None, r)"
  by (simp add: ring_full_iff [symmetric] ringbuf_put_def Let_def)

lemma ring_list_put:
  assumes ok: "ring_ok r" and room: "Suc (ring_count r) < nat (iLen r)"
  shows "fst (ringbuf_put r x) = x \<and> ring_list (snd (ringbuf_put r x)) = ring_list r @ [x]"
proof -
  let ?r' = "snd (ringbuf_put r x)"
  have nf: "(iWrite r + 1) mod iLen r \<noteq> iRead r" using ring_full_iff [OF ok] room by simp
  have r': "?r' = r\<lparr>ppArray := (ppArray r)[nat (iWrite r) := x], iWrite := (iWrite r + 1) mod iLen r\<rparr>"
    using nf by (simp add: ringbuf_put_def Let_def)
  have ok': "ring_ok ?r'" by (rule ring_ok_put [OF ok])
  have cnt: "ring_count ?r' = Suc (ring_count r)"
    using ok nf unfolding ring_count_cases [OF ok'] ring_count_cases [OF ok] unfolding r'
    by (auto simp: ring_ok_def ring_succ_cases)
  have slot: "ring_slot ?r' k = ring_slot r k" for k by (simp add: ring_slot_def r')
  have last: "ring_slot r (ring_count r) = nat (iWrite r)"
    using ok ring_count_less [OF ok] by (auto simp: ring_slot_cases ring_count_cases ring_ok_def)
  have other: "ring_slot r k \<noteq> nat (iWrite r)" if "k < ring_count r" for k
    using that ok by (auto simp: ring_slot_cases ring_count_cases ring_ok_def split: if_splits)
  have bound: "nat (iWrite r) < length (ppArray r)" using ok by (auto simp: ring_ok_def)
  have "map (\<lambda>k. (ppArray r)[nat (iWrite r) := x] ! ring_slot r k) [0..<ring_count r] = ring_list r"
    unfolding ring_list_def by (intro map_cong refl) (simp add: other [symmetric] nth_list_update_neq)
  then have "ring_list ?r' = ring_list r @ [x]"
    unfolding ring_list_def [of ?r'] cnt slot by (simp add: r' last bound)
  then show ?thesis using nf by (simp add: ringbuf_put_def Let_def)
qed

lemma ring_list_init_empty: "0 < len \<Longrightarrow> ring_list (ringbuf_init arr len False) = []"
  by (simp add: ring_list_def ring_count_def ringbuf_init_def)

lemma ring_list_init_full:
  assumes "0 < len" "nat len \<le> length arr"
  shows "ring_list (ringbuf_init arr len True) = take (nat len - 1) arr"
proof -
  let ?r = "ringbuf_init arr len True"
  have ok: "ring_ok ?r" using assms by (rule ring_ok_init)
  have cnt: "ring_count ?r = nat len - 1"
    using assms by (simp add: ring_count_cases [OF ok]) (simp add: ringbuf_init_def nat_diff_distrib)
  have "ring_list ?r = map (\<lambda>k. arr ! k) [0..<nat len - 1]"
    unfolding ring_list_def cnt using assms
    by (intro map_cong refl) (auto simp: ring_slot_def ringbuf_init_def)
  also have "\<dots> = take (nat len - 1) arr" using assms by (intro map_nth_upt_take) simp
  finally show ?thesis .
qed

section \<open>The contract: a bounded first-in first-out queue\<close>

text \<open>A client's operations on a queue, and what they do on a plain list of capacity \<open>n\<close>.\<close>

datatype 'a fifo_op = Get | Put "'a option"

fun fifo_run :: "('q \<Rightarrow> 'a option \<times> 'q) \<Rightarrow> ('q \<Rightarrow> 'a option \<Rightarrow> 'a option \<times> 'q)
    \<Rightarrow> 'q \<Rightarrow> 'a fifo_op list \<Rightarrow> 'a option list \<times> 'q" where
  "fifo_run get put q [] = ([], q)"
| "fifo_run get put q (Get # os) =
     (let (x, q') = get q; (xs, q'') = fifo_run get put q' os in (x # xs, q''))"
| "fifo_run get put q (Put y # os) =
     (let (x, q') = put q y; (xs, q'') = fifo_run get put q' os in (x # xs, q''))"

fun list_fifo_run :: "nat \<Rightarrow> 'a option list \<Rightarrow> 'a fifo_op list \<Rightarrow> 'a option list \<times> 'a option list" where
  "list_fifo_run n l [] = ([], l)"
| "list_fifo_run n l (Get # os) =
     (case l of
        [] \<Rightarrow> (let (xs, l') = list_fifo_run n [] os in (None # xs, l'))
      | x # t \<Rightarrow> (let (xs, l') = list_fifo_run n t os in (x # xs, l')))"
| "list_fifo_run n l (Put y # os) =
     (if length l < n
      then (let (xs, l') = list_fifo_run n (l @ [y]) os in (y # xs, l'))
      else (let (xs, l') = list_fifo_run n l os in (None # xs, l')))"

locale bounded_fifo =
  fixes get :: "'q \<Rightarrow> 'a option \<times> 'q"
    and put :: "'q \<Rightarrow> 'a option \<Rightarrow> 'a option \<times> 'q"
    and contents :: "'q \<Rightarrow> 'a option list"
    and capacity :: "'q \<Rightarrow> nat"
    and ok :: "'q \<Rightarrow> bool"
  assumes get_empty: "ok q \<Longrightarrow> contents q = [] \<Longrightarrow> get q = (None, q)"
    and get_head: "ok q \<Longrightarrow> contents q = x # xs \<Longrightarrow> fst (get q) = x \<and> contents (snd (get q)) = xs"
    and put_full: "ok q \<Longrightarrow> length (contents q) = capacity q \<Longrightarrow> put q x = (None, q)"
    and put_room: "ok q \<Longrightarrow> length (contents q) < capacity q
                    \<Longrightarrow> fst (put q x) = x \<and> contents (snd (put q x)) = contents q @ [x]"
    and bounded: "ok q \<Longrightarrow> length (contents q) \<le> capacity q"
    and ok_get: "ok q \<Longrightarrow> ok (snd (get q))"
    and ok_put: "ok q \<Longrightarrow> ok (snd (put q x))"
    and capacity_get: "ok q \<Longrightarrow> capacity (snd (get q)) = capacity q"
    and capacity_put: "ok q \<Longrightarrow> capacity (snd (put q x)) = capacity q"
begin

lemma run_refines:
  "ok q \<Longrightarrow> fifo_run get put q os = (outs, q')
    \<Longrightarrow> list_fifo_run (capacity q) (contents q) os = (outs, contents q')
        \<and> ok q' \<and> capacity q' = capacity q"
proof (induction os arbitrary: q outs)
  case Nil
  then show ?case by simp
next
  case (Cons opn os)
  show ?case
  proof (cases opn)
    case Get
    obtain xs where run: "fifo_run get put (snd (get q)) os = (xs, q')" and outs: "outs = fst (get q) # xs"
      using Cons.prems(2) Get by (auto simp: Let_def split: prod.splits)
    note IH = Cons.IH [OF ok_get [OF Cons.prems(1)] run]
    show ?thesis
      using IH Get outs get_empty [OF Cons.prems(1)] get_head [OF Cons.prems(1)] capacity_get [OF Cons.prems(1)]
      by (cases "contents q") auto
  next
    case (Put y)
    obtain xs where run: "fifo_run get put (snd (put q y)) os = (xs, q')" and outs: "outs = fst (put q y) # xs"
      using Cons.prems(2) Put by (auto simp: Let_def split: prod.splits)
    note IH = Cons.IH [OF ok_put [OF Cons.prems(1)] run]
    show ?thesis
    proof (cases "length (contents q) < capacity q")
      case True
      show ?thesis using IH Put outs put_room [OF Cons.prems(1) True, of y] capacity_put [OF Cons.prems(1)] True
        by auto
    next
      case False
      then have "length (contents q) = capacity q" using bounded [OF Cons.prems(1)] by simp
      from put_full [OF Cons.prems(1) this] show ?thesis using IH Put outs False by auto
    qed
  qed
qed

text \<open>A put that finds room loses nothing: what the queue holds afterwards is one element more.\<close>

lemma put_conserves:
  "ok q \<Longrightarrow> length (contents q) < capacity q
    \<Longrightarrow> mset (contents (snd (put q x))) = add_mset x (mset (contents q))"
  using put_room [of q x] by simp

lemma get_conserves:
  "ok q \<Longrightarrow> contents q \<noteq> []
    \<Longrightarrow> mset (contents q) = add_mset (fst (get q)) (mset (contents (snd (get q))))"
  using get_head [of q] by (cases "contents q") auto

end

definition ring_capacity :: "'a ringbuf \<Rightarrow> nat" where
  "ring_capacity r = nat (iLen r) - 1"

lemma ring_capacity_simps [simp]:
  "ring_capacity (snd (ringbuf_get r)) = ring_capacity r"
  "ring_capacity (snd (ringbuf_put r x)) = ring_capacity r"
  by (simp_all add: ring_capacity_def ringbuf_get_def ringbuf_put_def Let_def)

interpretation ring: bounded_fifo ringbuf_get ringbuf_put ring_list ring_capacity ring_ok
proof (unfold_locales, goal_cases)
  case (2 q x xs)
  then show ?case using ring_list_get [of q] by auto (metis fst_conv)
next
  case (3 q x)
  then show ?case using ring_count_less [of q] by (intro ring_list_put_full) (auto simp: ring_capacity_def)
next
  case (4 q x)
  then show ?case by (intro ring_list_put) (auto simp: ring_capacity_def)
next
  case (5 q)
  then show ?case using ring_count_less [of q] by (simp add: ring_capacity_def)
qed (simp_all add: abs_simps inv_intros)

section \<open>Properties\<close>

text \<open>C1: on every ring that satisfies the invariant, any sequence of \<open>ringbuf_get\<close> and
  \<open>ringbuf_put\<close> returns exactly what a first-in first-out list of capacity \<open>iLen - 1\<close> returns
  (\<open>NULL\<close> for a get on an empty and a put on a full ring), and leaves the ring holding that list.\<close>

theorem ringbuf_is_bounded_fifo:
  assumes "ring_ok r" and "fifo_run ringbuf_get ringbuf_put r os = (outs, r')"
  shows "list_fifo_run (nat (iLen r) - 1) (ring_list r) os = (outs, ring_list r') \<and> ring_ok r'"
  using ring.run_refines [OF assms] by (simp add: ring_capacity_def)

theorem ringbuf_is_bounded_fifo_witness:
  "list_fifo_run 2 ([] :: nat option list) [Put (Some 1), Put (Some 2), Put (Some 3), Get, Put (Some 4), Get, Get, Get]
     = ([Some 1, Some 2, None, Some 1, Some 4, Some 2, Some 4, None], [])"
proof -
  let ?r = "ringbuf_init [None, None, None] 3 False :: nat ringbuf"
  let ?os = "[Put (Some 1), Put (Some 2), Put (Some 3), Get, Put (Some 4), Get, Get, Get] :: nat fifo_op list"
  have ok: "ring_ok ?r" by (rule ring_ok_init) simp_all
  have run: "fifo_run ringbuf_get ringbuf_put ?r ?os =
    ([Some 1, Some 2, None, Some 1, Some 4, Some 2, Some 4, None],
     \<lparr>ppArray = [Some 1, Some 2, Some 4], iRead = 0, iWrite = 0, iLen = 3\<rparr>)"
    by (simp add: ringbuf_init_def ringbuf_get_def ringbuf_put_def)
  from ringbuf_is_bounded_fifo [OF ok run] show ?thesis
    by (simp add: ring_list_init_empty ringbuf_init_def ring_list_def ring_count_def)
qed

end
