(* ===== verification/Vfi_Registry.thy ===== *)
theory Vfi_Registry
  imports Vfi_Prelude
begin

text \<open>
  The two plug-in tables of the driver: the fabrics (\<open>vfi_fabric.c\<close>) and the DMA engines
  (\<open>vfi_dma.c\<close>). Each is an array of five pointers searched by name from index 0 up to the first
  \<open>NULL\<close>. Back ends register an object and the parser looks it up by name, taking a reference on the
  module that owns it (\<open>try_module_get\<close>) and on the object (the back end's \<open>get\<close>).

  A pointer is a \<open>nat\<close>; the objects live in two maps of the state. Whether \<open>try_module_get\<close> succeeds
  is the kernel's decision: it succeeds for the modules in \<open>mod_live\<close>.
\<close>

section \<open>State\<close>

abbreviation VFI_MAX_FABRICS :: nat where "VFI_MAX_FABRICS \<equiv> 5"
abbreviation VFI_MAX_DMA_ENGINES :: nat where "VFI_MAX_DMA_ENGINES \<equiv> 5"

record vfi_fabric_address =
  fa_owner :: nat
  fa_has_get :: bool
  fa_name :: string
  fa_refs :: int

record vfi_dma_engine =
  de_owner :: nat
  de_name :: string
  de_refs :: int

record registry =
  fabrics :: "nat option list"
  dma_engines :: "nat option list"
  fabs :: "nat \<Rightarrow> vfi_fabric_address"
  engs :: "nat \<Rightarrow> vfi_dma_engine"
  mod_live :: "nat \<Rightarrow> bool"
  mod_refs :: "nat \<Rightarrow> int"

text \<open>\<open>try_module_get\<close> and \<open>module_put\<close> count the users of a module.\<close>

definition try_module_get :: "nat \<Rightarrow> registry \<Rightarrow> bool \<times> registry" where
  "try_module_get m g =
     (if mod_live g m then (True, g\<lparr>mod_refs := (mod_refs g)(m := mod_refs g m + 1)\<rparr>) else (False, g))"

definition module_put :: "nat \<Rightarrow> registry \<Rightarrow> registry" where
  "module_put m g = g\<lparr>mod_refs := (mod_refs g)(m := mod_refs g m - 1)\<rparr>"

definition fab_ref :: "nat \<Rightarrow> int \<Rightarrow> registry \<Rightarrow> registry" where
  "fab_ref a d g = g\<lparr>fabs := (fabs g)(a := (fabs g a)\<lparr>fa_refs := fa_refs (fabs g a) + d\<rparr>)\<rparr>"

definition eng_ref :: "nat \<Rightarrow> int \<Rightarrow> registry \<Rightarrow> registry" where
  "eng_ref e d g = g\<lparr>engs := (engs g)(e := (engs g e)\<lparr>de_refs := de_refs (engs g e) + d\<rparr>)\<rparr>"

section \<open>The search loop\<close>

text \<open>
  \<open>for (i = 0; i < MAX && tab[i]; i++) if (!strcmp(name, tab[i]->name)) ...\<close>: the index of the first
  entry with the name, or the index at which the loop stopped.
\<close>

datatype scan = Hit nat | Stop nat

fun slot_scan :: "(nat \<Rightarrow> string) \<Rightarrow> string \<Rightarrow> nat option list \<Rightarrow> nat \<Rightarrow> scan" where
  "slot_scan nm name [] i = Stop i"
| "slot_scan nm name (None # ss) i = Stop i"
| "slot_scan nm name (Some p # ss) i = (if nm p = name then Hit i else slot_scan nm name ss (Suc i))"

section \<open>Fabrics\<close>

abbreviation fab_name :: "registry \<Rightarrow> nat \<Rightarrow> string" where
  "fab_name g a \<equiv> fa_name (fabs g a)"

definition vfi_fabric_register :: "nat \<Rightarrow> registry \<Rightarrow> errno \<times> registry" where
  "vfi_fabric_register addr g =
     (case slot_scan (fab_name g) (fab_name g addr) (fabrics g) 0 of
        Hit i \<Rightarrow> (- EEXIST, g)
      | Stop i \<Rightarrow>
          if i = VFI_MAX_FABRICS then (- ENOMEM, g)
          else (0, g\<lparr>fabrics := (fabrics g)[i := Some addr]\<rparr>))"

definition vfi_fabric_unregister :: "string \<Rightarrow> registry \<Rightarrow> registry" where
  "vfi_fabric_unregister name g =
     (case slot_scan (fab_name g) name (fabrics g) 0 of
        Hit i \<Rightarrow> g\<lparr>fabrics := (fabrics g)[i := None]\<rparr>
      | Stop i \<Rightarrow> g)"

definition vfi_fabric_find :: "string option \<Rightarrow> registry \<Rightarrow> nat option \<times> registry" where
  "vfi_fabric_find name g =
     (case name of
        None \<Rightarrow> (None, g)
      | Some n \<Rightarrow>
         (case slot_scan (fab_name g) n (fabrics g) 0 of
            Stop i \<Rightarrow> (None, g)
          | Hit i \<Rightarrow>
             (case fabrics g ! i of
                None \<Rightarrow> (None, g)
              | Some a \<Rightarrow>
                  (let (ok, g') = try_module_get (fa_owner (fabs g a)) g
                   in if ok then (Some a, fab_ref a 1 g') else (None, g')))))"

definition vfi_fabric_get :: "nat option \<Rightarrow> registry \<Rightarrow> nat option \<times> registry" where
  "vfi_fabric_get addr g =
     (case addr of
        None \<Rightarrow> (None, g)
      | Some a \<Rightarrow>
          (let (ok, g') = try_module_get (fa_owner (fabs g a)) g
           in if ok \<and> fa_has_get (fabs g a) then (Some a, fab_ref a 1 g') else (None, g')))"

definition vfi_fabric_put :: "nat option \<Rightarrow> registry \<Rightarrow> registry" where
  "vfi_fabric_put addr g =
     (case addr of None \<Rightarrow> g | Some a \<Rightarrow> module_put (fa_owner (fabs g a)) (fab_ref a (- 1) g))"

section \<open>DMA engines\<close>

abbreviation eng_name :: "registry \<Rightarrow> nat \<Rightarrow> string" where
  "eng_name g e \<equiv> de_name (engs g e)"

definition vfi_dma_register :: "nat \<Rightarrow> registry \<Rightarrow> errno \<times> registry" where
  "vfi_dma_register rde g =
     (case slot_scan (eng_name g) (eng_name g rde) (dma_engines g) 0 of
        Hit i \<Rightarrow> (- EEXIST, g)
      | Stop i \<Rightarrow>
          if i = VFI_MAX_DMA_ENGINES then (- ENOMEM, g)
          else (0, g\<lparr>dma_engines := (dma_engines g)[i := Some rde]\<rparr>))"

definition vfi_dma_unregister :: "string \<Rightarrow> registry \<Rightarrow> registry" where
  "vfi_dma_unregister name g =
     (case slot_scan (eng_name g) name (dma_engines g) 0 of
        Hit i \<Rightarrow> g\<lparr>dma_engines := (dma_engines g)[i := None]\<rparr>
      | Stop i \<Rightarrow> g)"

text \<open>
  \<open>vfi_dma_find\<close> does not step through the table: it starts at the engine of slot 0 and increments a
  pointer to that engine object (\<open>rdp++\<close>), so from the second round on it reads past the object.
  The result is then undefined.
\<close>

definition vfi_dma_find :: "string \<Rightarrow> registry \<Rightarrow> (nat option \<times> registry) cres" where
  "vfi_dma_find name g =
     (case dma_engines g ! 0 of
        None \<Rightarrow> Val (None, g)
      | Some e \<Rightarrow>
          if name = eng_name g e then
            (let (ok, g') = try_module_get (de_owner (engs g e)) g
             in if ok then Val (Some e, eng_ref e 1 g') else Undef)
          else Undef)"

definition vfi_dma_get :: "nat option \<Rightarrow> registry \<Rightarrow> nat option \<times> registry" where
  "vfi_dma_get rde g =
     (case rde of
        None \<Rightarrow> (None, g)
      | Some e \<Rightarrow>
          (let (ok, g') = try_module_get (de_owner (engs g e)) g
           in if ok then (Some e, eng_ref e 1 g') else (None, g')))"

definition vfi_dma_put :: "nat option \<Rightarrow> registry \<Rightarrow> registry" where
  "vfi_dma_put rde g =
     (case rde of None \<Rightarrow> g | Some e \<Rightarrow> module_put (de_owner (engs g e)) (eng_ref e (- 1) g))"

section \<open>What the search loop sees\<close>

definition slot_entries :: "nat option list \<Rightarrow> nat list" where
  "slot_entries ss = map the (takeWhile (\<lambda>s. s \<noteq> None) ss)"

definition slots_dense :: "nat option list \<Rightarrow> bool" where
  "slots_dense ss \<longleftrightarrow> (\<forall>s \<in> set (dropWhile (\<lambda>s. s \<noteq> None) ss). s = None)"

lemma slot_entries_simps [simp]:
  "slot_entries [] = []" "slot_entries (None # ss) = []" "slot_entries (Some p # ss) = p # slot_entries ss"
  by (simp_all add: slot_entries_def)

lemma slots_dense_simps [simp]:
  "slots_dense []" "slots_dense (Some p # ss) = slots_dense ss"
  "slots_dense (None # ss) \<longleftrightarrow> (\<forall>s \<in> set ss. s = None)"
  by (auto simp: slots_dense_def)

lemma length_slot_entries: "length (slot_entries ss) \<le> length ss"
  by (simp add: slot_entries_def length_takeWhile_le)

lemma slot_scan_miss:
  "name \<notin> nm ` set (slot_entries ss) \<Longrightarrow> slot_scan nm name ss i = Stop (i + length (slot_entries ss))"
  by (induction nm name ss i rule: slot_scan.induct) auto

lemma slot_scan_hit:
  "name \<in> nm ` set (slot_entries ss) \<Longrightarrow>
     \<exists>k p. slot_scan nm name ss i = Hit (i + k) \<and> ss ! k = Some p \<and> k < length ss
         \<and> find (\<lambda>p. nm p = name) (slot_entries ss) = Some p"
proof (induction nm name ss i rule: slot_scan.induct)
  case (3 nm name p ss i)
  show ?case
  proof (cases "nm p = name")
    case True
    then show ?thesis by (intro exI [of _ 0] exI [of _ p]) simp
  next
    case False
    with 3 obtain k q where "slot_scan nm name ss (Suc i) = Hit (Suc i + k)" "ss ! k = Some q"
      "k < length ss" "find (\<lambda>p. nm p = name) (slot_entries ss) = Some q"
      by auto
    with False show ?thesis by (intro exI [of _ "Suc k"] exI [of _ q]) simp
  qed
qed auto

lemma slot_entries_append:
  "slots_dense ss \<Longrightarrow> length (slot_entries ss) < length ss
    \<Longrightarrow> slot_entries (ss[length (slot_entries ss) := Some p]) = slot_entries ss @ [p]
      \<and> slots_dense (ss[length (slot_entries ss) := Some p])"
proof (induction ss)
  case (Cons s ss)
  then show ?case
    by (cases s) (cases ss; auto)+
qed simp

section \<open>The contract of a registry\<close>

locale named_registry =
  fixes register :: "nat \<Rightarrow> 'g \<Rightarrow> errno \<times> 'g"
    and entries :: "'g \<Rightarrow> nat list"
    and label :: "'g \<Rightarrow> nat \<Rightarrow> string"
    and capacity :: nat
    and ok :: "'g \<Rightarrow> bool"
  assumes register_duplicate:
      "ok g \<Longrightarrow> label g p \<in> label g ` set (entries g) \<Longrightarrow> register p g = (- EEXIST, g)"
    and register_full:
      "ok g \<Longrightarrow> label g p \<notin> label g ` set (entries g) \<Longrightarrow> length (entries g) = capacity
        \<Longrightarrow> register p g = (- ENOMEM, g)"
    and register_new:
      "ok g \<Longrightarrow> label g p \<notin> label g ` set (entries g) \<Longrightarrow> length (entries g) < capacity
        \<Longrightarrow> fst (register p g) = 0 \<and> entries (snd (register p g)) = entries g @ [p]
          \<and> label (snd (register p g)) = label g \<and> ok (snd (register p g))"
    and within_capacity: "ok g \<Longrightarrow> length (entries g) \<le> capacity"
begin

lemma register_keeps_ok: "ok g \<Longrightarrow> ok (snd (register p g))"
  using register_duplicate [of g p] register_full [of g p] register_new [of g p] within_capacity [of g]
  by (cases "label g p \<in> label g ` set (entries g)"; cases "length (entries g) < capacity") auto

lemma register_all:
  "ok g \<Longrightarrow> distinct (map (label g) ps) \<Longrightarrow> label g ` set ps \<inter> label g ` set (entries g) = {}
    \<Longrightarrow> length (entries g) + length ps \<le> capacity
    \<Longrightarrow> entries (fold (\<lambda>p h. snd (register p h)) ps g) = entries g @ ps
      \<and> ok (fold (\<lambda>p h. snd (register p h)) ps g)
      \<and> label (fold (\<lambda>p h. snd (register p h)) ps g) = label g"
proof (induction ps arbitrary: g)
  case (Cons p ps)
  have new: "entries (snd (register p g)) = entries g @ [p]" "ok (snd (register p g))"
    "label (snd (register p g)) = label g"
    using register_new [of g p] Cons.prems by auto
  have "label g ` set ps \<inter> label g ` set (entries g @ [p]) = {}"
    using Cons.prems by auto
  with Cons.IH [of "snd (register p g)"] Cons.prems new show ?case by simp
qed simp

end

definition fabrics_ok :: "registry \<Rightarrow> bool" where
  "fabrics_ok g \<longleftrightarrow> length (fabrics g) = VFI_MAX_FABRICS \<and> slots_dense (fabrics g)"

definition engines_ok :: "registry \<Rightarrow> bool" where
  "engines_ok g \<longleftrightarrow> length (dma_engines g) = VFI_MAX_DMA_ENGINES \<and> slots_dense (dma_engines g)"

interpretation fabric: named_registry vfi_fabric_register "\<lambda>g. slot_entries (fabrics g)" fab_name
  VFI_MAX_FABRICS fabrics_ok
proof (unfold_locales, goal_cases)
  case (1 g p)
  then show ?case using slot_scan_hit [of "fab_name g p" "fab_name g" "fabrics g" 0]
    by (auto simp: vfi_fabric_register_def)
next
  case (2 g p)
  then show ?case by (simp add: vfi_fabric_register_def slot_scan_miss)
next
  case (3 g p)
  then show ?case using slot_entries_append [of "fabrics g" p]
    by (simp add: vfi_fabric_register_def slot_scan_miss fabrics_ok_def)
next
  case (4 g)
  then show ?case using length_slot_entries [of "fabrics g"] by (simp add: fabrics_ok_def)
qed

interpretation dma: named_registry vfi_dma_register "\<lambda>g. slot_entries (dma_engines g)" eng_name
  VFI_MAX_DMA_ENGINES engines_ok
proof (unfold_locales, goal_cases)
  case (1 g p)
  then show ?case using slot_scan_hit [of "eng_name g p" "eng_name g" "dma_engines g" 0]
    by (auto simp: vfi_dma_register_def)
next
  case (2 g p)
  then show ?case by (simp add: vfi_dma_register_def slot_scan_miss)
next
  case (3 g p)
  then show ?case using slot_entries_append [of "dma_engines g" p]
    by (simp add: vfi_dma_register_def slot_scan_miss engines_ok_def)
next
  case (4 g)
  then show ?case using length_slot_entries [of "dma_engines g"] by (simp add: engines_ok_def)
qed

section \<open>Lookup and reference counts\<close>

lemma fabric_find_present:
  assumes "n \<in> fab_name g ` set (slot_entries (fabrics g))"
  obtains a where "find (\<lambda>p. fab_name g p = n) (slot_entries (fabrics g)) = Some a"
    and "vfi_fabric_find (Some n) g =
      (if mod_live g (fa_owner (fabs g a))
       then (Some a, fab_ref a 1 (snd (try_module_get (fa_owner (fabs g a)) g))) else (None, g))"
proof -
  from slot_scan_hit [OF assms, of 0] obtain k a where
    "slot_scan (fab_name g) n (fabrics g) 0 = Hit k" "fabrics g ! k = Some a"
    "find (\<lambda>p. fab_name g p = n) (slot_entries (fabrics g)) = Some a"
    by auto
  then show ?thesis by (intro that [of a]) (simp_all add: vfi_fabric_find_def try_module_get_def)
qed

lemma fabric_find_absent:
  "n \<notin> fab_name g ` set (slot_entries (fabrics g)) \<Longrightarrow> vfi_fabric_find (Some n) g = (None, g)"
  by (simp add: vfi_fabric_find_def slot_scan_miss)

lemma find_append_new: "\<forall>x\<in>set xs. \<not> P x \<Longrightarrow> find P (xs @ ys) = find P ys"
  by (induction xs) auto

text \<open>registering a fabric under a new name, while the table has room and no holes, succeeds, and
  a lookup by that name then returns it, with one reference more on the fabric and on its module.\<close>

theorem fabric_register_then_find:
  assumes ok: "fabrics_ok g" and new: "fab_name g a \<notin> fab_name g ` set (slot_entries (fabrics g))"
    and room: "length (slot_entries (fabrics g)) < VFI_MAX_FABRICS"
    and live: "mod_live g (fa_owner (fabs g a))"
    and reg: "vfi_fabric_register a g = (ret, g')"
    and lookup: "vfi_fabric_find (Some (fab_name g a)) g' = (res, g'')"
  shows "ret = 0 \<and> res = Some a \<and> fa_refs (fabs g'' a) = fa_refs (fabs g a) + 1
       \<and> mod_refs g'' (fa_owner (fabs g a)) = mod_refs g (fa_owner (fabs g a)) + 1"
proof -
  have r: "ret = 0" "slot_entries (fabrics g') = slot_entries (fabrics g) @ [a]"
    using fabric.register_new [OF ok new room] reg by auto
  have g': "fabs g' = fabs g" "mod_live g' = mod_live g" "mod_refs g' = mod_refs g"
    using reg by (auto simp: vfi_fabric_register_def split: scan.splits if_splits)
  have "fab_name g' a \<in> fab_name g' ` set (slot_entries (fabrics g'))" by (simp add: r)
  then obtain b where b: "find (\<lambda>p. fab_name g' p = fab_name g' a) (slot_entries (fabrics g')) = Some b"
    "vfi_fabric_find (Some (fab_name g' a)) g' =
      (if mod_live g' (fa_owner (fabs g' b))
       then (Some b, fab_ref b 1 (snd (try_module_get (fa_owner (fabs g' b)) g'))) else (None, g'))"
    by (rule fabric_find_present)
  have "\<forall>x\<in>set (slot_entries (fabrics g)). fab_name g' x \<noteq> fab_name g' a"
    unfolding g' using new by (metis imageI)
  then have "find (\<lambda>p. fab_name g' p = fab_name g' a) (slot_entries (fabrics g')) = Some a"
    unfolding r by (subst find_append_new) auto
  with b(1) have "b = a" by simp
  with b(2) lookup live show ?thesis
    by (auto simp: r g' fab_ref_def try_module_get_def)
qed

definition demo_registry :: registry where
  "demo_registry =
     \<lparr>fabrics = [None, None, None, None, None], dma_engines = [None, None, None, None, None],
      fabs = (\<lambda>a. \<lparr>fa_owner = a, fa_has_get = True, fa_name = (if a = 1 then ''net'' else ''rionet''), fa_refs = 1\<rparr>),
      engs = (\<lambda>e. \<lparr>de_owner = e, de_name = (if e = 1 then ''dma_a'' else ''dma_b''), de_refs = 0\<rparr>),
      mod_live = (\<lambda>_. True), mod_refs = (\<lambda>_. 0)\<rparr>"

theorem fabric_register_then_find_witness:
  "fst (vfi_fabric_find (Some ''net'') (snd (vfi_fabric_register 1 demo_registry))) = Some 1"
proof -
  obtain ret g' where reg: "vfi_fabric_register 1 demo_registry = (ret, g')" by fastforce
  obtain res g'' where lookup: "vfi_fabric_find (Some (fab_name demo_registry 1)) g' = (res, g'')" by fastforce
  have "res = Some 1"
    using fabric_register_then_find [OF _ _ _ _ reg lookup]
    by (simp add: demo_registry_def fabrics_ok_def)
  with reg lookup show ?thesis by (simp add: demo_registry_def)
qed

text \<open>registration reports every error without touching the table: a name already present gives
  \<open>-EEXIST\<close>, a new name on a full table gives \<open>-ENOMEM\<close>; and it never breaks the table's invariant.\<close>

theorem fabric_register_errors:
  assumes "fabrics_ok g"
  shows "(fab_name g a \<in> fab_name g ` set (slot_entries (fabrics g)) \<longrightarrow> vfi_fabric_register a g = (- EEXIST, g))
    \<and> (fab_name g a \<notin> fab_name g ` set (slot_entries (fabrics g))
        \<longrightarrow> length (slot_entries (fabrics g)) = VFI_MAX_FABRICS \<longrightarrow> vfi_fabric_register a g = (- ENOMEM, g))
    \<and> fabrics_ok (snd (vfi_fabric_register a g))"
  using fabric.register_duplicate [OF assms] fabric.register_full [OF assms] fabric.register_keeps_ok [OF assms]
  by auto

theorem fabric_register_errors_witness:
  "vfi_fabric_register 1 (demo_registry\<lparr>fabrics := [Some 1, None, None, None, None]\<rparr>)
     = (- EEXIST, demo_registry\<lparr>fabrics := [Some 1, None, None, None, None]\<rparr>)"
  using fabric_register_errors [of "demo_registry\<lparr>fabrics := [Some 1, None, None, None, None]\<rparr>" 1]
  by (simp add: fabrics_ok_def demo_registry_def)

text \<open>a successful \<open>vfi_fabric_get\<close> followed by \<open>vfi_fabric_put\<close> restores every reference
  count: the pair is balanced. (A fabric whose operations have no \<open>get\<close> is refused, but then the module
  reference taken first is not given back.)\<close>

theorem fabric_get_put_balanced:
  assumes "vfi_fabric_get (Some a) g = (res, g')"
  shows "(res \<noteq> None \<longrightarrow> vfi_fabric_put res g' = g)
    \<and> (res = None \<longrightarrow> mod_live g (fa_owner (fabs g a)) \<longrightarrow>
        mod_refs g' (fa_owner (fabs g a)) = mod_refs g (fa_owner (fabs g a)) + 1)"
  using assms
  by (auto simp: vfi_fabric_get_def try_module_get_def vfi_fabric_put_def module_put_def fab_ref_def
      split: if_splits)

theorem fabric_get_put_balanced_witness:
  "vfi_fabric_put (Some 1) (snd (vfi_fabric_get (Some 1) demo_registry)) = demo_registry"
  using fabric_get_put_balanced [of 1 demo_registry "Some 1" "snd (vfi_fabric_get (Some 1) demo_registry)"]
  by (simp add: vfi_fabric_get_def try_module_get_def demo_registry_def)

text \<open>unregistering a fabric that is not the last leaves a hole that hides every fabric behind it:
  after registering two and unregistering the first, the second, still in the table, is no longer found,
  and registering it again succeeds and enters it twice.\<close>

theorem fabric_unregister_hides_later:
  "let g = snd (vfi_fabric_register 2 (snd (vfi_fabric_register 1 demo_registry)));
       h = vfi_fabric_unregister ''net'' g
   in fst (vfi_fabric_find (Some ''rionet'') g) = Some 2
     \<and> fabrics h = [None, Some 2, None, None, None]
     \<and> fst (vfi_fabric_find (Some ''rionet'') h) = None
     \<and> fst (vfi_fabric_register 2 h) = 0
     \<and> fabrics (snd (vfi_fabric_register 2 h)) = [Some 2, Some 2, None, None, None]"
  by (simp add: vfi_fabric_register_def vfi_fabric_unregister_def vfi_fabric_find_def demo_registry_def
      try_module_get_def fab_ref_def Let_def)

text \<open>\<open>vfi_dma_find\<close> is defined for the engine of slot 0 only: with an engine registered there whose
  module is live it returns that engine for its name, and looking up any other name, even one that is
  registered in a later slot, reads past the engine object.\<close>

theorem dma_find_only_first_slot:
  assumes "dma_engines g = Some e # rest" and "mod_live g (de_owner (engs g e))"
  shows "(\<exists>g'. vfi_dma_find (eng_name g e) g = Val (Some e, g') \<and> de_refs (engs g' e) = de_refs (engs g e) + 1)
    \<and> (\<forall>n. n \<noteq> eng_name g e \<longrightarrow> vfi_dma_find n g = Undef)"
  using assms by (auto simp: vfi_dma_find_def try_module_get_def eng_ref_def)

theorem dma_find_only_first_slot_witness:
  "vfi_dma_find ''dma_b'' (snd (vfi_dma_register 2 (snd (vfi_dma_register 1 demo_registry)))) = Undef"
  using dma_find_only_first_slot [of "snd (vfi_dma_register 2 (snd (vfi_dma_register 1 demo_registry)))" 1
    "[Some 2, None, None, None]"]
  by (simp add: vfi_dma_register_def demo_registry_def)

end
