(* ===== verification/Vfi_Parse.thy ===== *)
theory Vfi_Parse
  imports Vfi_Registry
begin

text \<open>
  The command-string parser, \<open>vfi_parse.c\<close>. A descriptor string

    \<open>[op://]name[.location][#offset][:extent][?var[(val)][,var[(val)]]*]\<close>

  is copied into a fresh buffer, cut in place by writing \<open>NUL\<close>s over its separators, and described by
  a \<open>vfi_desc_param\<close> whose \<open>char *\<close> members point into that buffer. The model keeps the buffer's bytes
  and makes every pointer an index into them, so the in-place cutting, the pointer arithmetic of
  \<open>vfi_clone_desc\<close> and the size of the option array are those of the code; a read through a missing
  buffer or past the option array is \<open>Undef\<close>. The second half of the theory gives the grammar as a
  function on plain strings and shows that the in-place parser implements it.
\<close>

section \<open>Descriptors\<close>

text \<open>The two tables of operations a descriptor can select, \<open>vfi_local_ops\<close> and \<open>vfi_fabric_ops\<close>.\<close>

datatype ops_tab = Vfi_local_ops | Vfi_fabric_ops

text \<open>
  \<open>query\<close> is the array of option pointers, which ends at the first \<open>NULL\<close>; its length is the room the
  buffer has for it. \<open>end_slot\<close> is the member \<open>end\<close>, as an index into that array. The members
  \<open>soffset\<close> and \<open>sextent\<close> can hold an address outside the buffer (\<open>Stray\<close>); the others are indices.
\<close>

datatype cptr = In_buf nat | Stray nat

record vfi_desc_param =
  buf :: "string option"
  buflen :: nat
  name :: "nat option"
  location :: "nat option"
  offset :: u64
  extent :: u32
  soffset :: "cptr option"
  sextent :: "cptr option"
  query :: "nat option list option"
  end_slot :: nat
  ops :: "ops_tab option"
  rde :: "nat option"
  address :: "nat option"
  ploc :: "nat option"

record vfi_bind_param =
  xfer :: vfi_desc_param
  dst :: vfi_desc_param
  src :: vfi_desc_param

text \<open>A descriptor cleared by \<open>memset\<close>.\<close>

definition zero_desc :: vfi_desc_param where
  "zero_desc = \<lparr>buf = None, buflen = 0, name = None, location = None, offset = 0, extent = 0,
     soffset = None, sextent = None, query = None, end_slot = 0, ops = None, rde = None,
     address = None, ploc = None\<rparr>"

section \<open>Duplicating the string\<close>

text \<open>
  \<open>vfi_str_dup\<close>: room for the string and, rounded up to a word boundary, for one four-byte option
  pointer per \<open>?\<close> and \<open>,\<close> plus one. Nothing longer than a page is accepted. \<open>mem\<close> says whether
  \<open>kzalloc\<close> succeeds.
\<close>

definition text_size :: "string \<Rightarrow> nat" where
  "text_size s = (((length s + 1) div 4) + 1) * 4"

definition option_slots :: "string \<Rightarrow> nat" where
  "option_slots s = 1 + length (filter (\<lambda>c. c = CHR ''?'' \<or> c = CHR '','') s)"

definition dup_size :: "string \<Rightarrow> nat" where
  "dup_size s = text_size s + 4 * option_slots s"

definition vfi_str_dup :: "bool \<Rightarrow> string option \<Rightarrow> (string \<times> nat option list \<times> nat) option" where
  "vfi_str_dup mem nm =
     (case nm of
        None \<Rightarrow> None
      | Some s \<Rightarrow>
          if length s + 1 > 4096 then None
          else if dup_size s > 4096 then None
          else if mem then Some (s @ replicate (text_size s - length s) NUL,
                                 replicate (option_slots s) None, dup_size s)
          else None)"

section \<open>Cutting in place\<close>

definition name_remainder :: "string \<Rightarrow> nat option \<Rightarrow> char \<Rightarrow> string \<times> nat option" where
  "name_remainder b nm c =
     (case nm of
        None \<Rightarrow> (b, None)
      | Some p \<Rightarrow>
         (case strchr b p c of
            None \<Rightarrow> (b, None)
          | Some q \<Rightarrow> (b[q := NUL], Some (Suc q))))"

text \<open>\<open>var(val)\<close> becomes \<open>var=val\<close>, cut at the closing bracket.\<close>

definition option_brackets :: "string \<Rightarrow> nat \<Rightarrow> string" where
  "option_brackets b p =
     (case strstr (cstr b p) ''('' of
        None \<Rightarrow> b
      | Some k \<Rightarrow>
          (let b' = b[p + k := CHR ''='']
           in case strstr (cstr b' (p + k)) '')'' of
                None \<Rightarrow> b'
              | Some j \<Rightarrow> b'[p + k + j := NUL]))"

text \<open>The loop over the option array; \<open>i\<close> is the pointer \<open>query\<close>.\<close>

function vfi_parse_options :: "string \<Rightarrow> nat option list \<Rightarrow> nat \<Rightarrow> (string \<times> nat option list) cres" where
  "vfi_parse_options b qs i =
     (if length qs \<le> i then Undef
      else case qs ! i of
        None \<Rightarrow> Val (b, qs)
      | Some p \<Rightarrow>
          if length qs \<le> Suc i then Undef
          else (let (b', r) = name_remainder b (Some p) CHR '',''
                in vfi_parse_options (option_brackets b' p) (qs[Suc i := r]) (Suc i)))"
  by pat_completeness auto
termination
  by (relation "measure (\<lambda>(b, qs, i). length qs - i)") (auto simp: name_remainder_def split: option.splits)

declare vfi_parse_options.simps [simp del]

section \<open>Options\<close>

fun option_search :: "string \<Rightarrow> string \<Rightarrow> nat option list \<Rightarrow> nat option cres" where
  "option_search b needle [] = Undef"
| "option_search b needle (None # qs) = Val None"
| "option_search b needle (Some p # qs) =
     (case strstr (cstr b p) needle of
        None \<Rightarrow> option_search b needle qs
      | Some k \<Rightarrow>
          (case strstr (cstr b (p + k)) ''='' of
             None \<Rightarrow> Val (Some (p + k))
           | Some j \<Rightarrow> Val (Some (p + k + j + 1))))"

definition vfi_get_option :: "vfi_desc_param \<Rightarrow> string \<Rightarrow> nat option cres" where
  "vfi_get_option desc needle =
     (case query desc of
        None \<Rightarrow> Val None
      | Some qs \<Rightarrow> (case buf desc of None \<Rightarrow> Undef | Some b \<Rightarrow> option_search b needle qs))"

section \<open>Parsing a descriptor\<close>

lemma strchr_bounds: "strchr b p c = Some q \<Longrightarrow> q < length b \<and> b ! q = c"
proof -
  assume "strchr b p c = Some q"
  then have c: "c \<in> set (cstr b p)" and q: "q = p + length (takeWhile (\<lambda>x. x \<noteq> c) (cstr b p))"
    by (auto simp: strchr_def split: if_splits)
  let ?k = "length (takeWhile (\<lambda>x. x \<noteq> c) (cstr b p))"
  have k: "?k < length (cstr b p)" using split_at_first [OF c] by (metis add_less_cancel_left
        length_append length_Cons less_add_same_cancel1 zero_less_Suc)
  have "cstr b p ! ?k = c" using nth_length_takeWhile [OF k] by simp
  moreover have p: "p \<le> length b" using k by (metis cstr_def drop_all length_0_conv nle_le not_less_zero takeWhile.simps(1))
  ultimately have "b ! q = c" using nth_cstr [OF k p] q by simp
  moreover have "length (cstr b p) \<le> length b - p" by (simp add: cstr_def) (metis length_drop length_takeWhile_le)
  ultimately show ?thesis using k p q by simp
qed

text \<open>A name that starts with dots is skipped: the code's \<open>while\<close> over empty components.\<close>

function skip_dots :: "string \<Rightarrow> nat \<Rightarrow> nat option \<Rightarrow> string \<times> nat \<times> nat option" where
  "skip_dots b nm loc =
     (case loc of
        None \<Rightarrow> (b, nm, None)
      | Some l \<Rightarrow>
          if b ! nm = NUL then
            (let (b', loc') = name_remainder b (Some l) CHR ''.'' in skip_dots b' l loc')
          else (b, nm, Some l))"
  by pat_completeness auto

termination
proof (relation "measure (\<lambda>(b, nm, loc). case loc of None \<Rightarrow> 0 | Some l \<Rightarrow> Suc (count_list b CHR ''.''))")
  fix b :: string and nm :: nat and loc :: "nat option" and l x b' loc'
  assume loc: "loc = Some l" and x: "x = name_remainder b (Some l) CHR ''.''" and "(b', loc') = x"
  then have "loc' = None \<or> count_list b' CHR ''.'' < count_list b CHR ''.''"
  proof (cases "strchr b l CHR ''.''")
    case (Some q)
    then have q: "q < length b" "b ! q = CHR ''.''" using strchr_bounds by blast+
    have "b = take q b @ CHR ''.'' # drop (Suc q) b" using q by (metis id_take_nth_drop)
    then have "count_list b CHR ''.'' = count_list (take q b) CHR ''.'' + 1 + count_list (drop (Suc q) b) CHR ''.''"
      by (metis add.assoc add.commute count_list.simps(2) count_list_append)
    moreover have "b[q := NUL] = take q b @ NUL # drop (Suc q) b" using q by (simp add: upd_conv_take_nth_drop)
    ultimately show ?thesis using Some x \<open>(b', loc') = x\<close> by (simp add: name_remainder_def)
  qed (simp add: name_remainder_def)
  then show "((b', l, loc'), b, nm, loc) \<in> measure (\<lambda>(b, nm, loc). case loc of None \<Rightarrow> 0 | Some l \<Rightarrow> Suc (count_list b CHR ''.''))"
    using loc by (auto split: option.splits)
qed simp

declare skip_dots.simps [simp del]

text \<open>
  Extent and offset: cut from the location, or from the name when there is none, in either order.
\<close>

definition cut_numbers :: "string \<Rightarrow> nat \<Rightarrow> nat option \<Rightarrow> string \<times> nat option \<times> nat option" where
  "cut_numbers b nm loc =
     (let t = (case loc of Some l \<Rightarrow> l | None \<Rightarrow> nm);
          (b1, se) = name_remainder b (Some t) CHR '':'';
          (b2, so) = name_remainder b1 (Some t) CHR ''#'';
          (b3, se') = (if se = None then name_remainder b2 so CHR '':'' else (b2, se));
          (b4, so') = (if so = None then name_remainder b3 se' CHR ''#'' else (b3, so))
      in (b4, se', so'))"

text \<open>
  \<open>simple_strtoul(s, &s, 16)\<close>: the value, and the pointer where the digits stop. A pointer that does
  not stop at the end of the string is reported as the (positive) distance from the name.
\<close>

definition read_number :: "string \<Rightarrow> nat \<Rightarrow> nat option \<Rightarrow> int \<Rightarrow> u32 \<times> nat option \<times> int" where
  "read_number b nm s ret =
     (case s of
        None \<Rightarrow> (0, None, ret)
      | Some p \<Rightarrow>
          (let (v, k) = simple_strtoul16 (cstr b p); p' = p + k
           in (v, Some p', if b ! p' = NUL then ret else int p' - int nm)))"

text \<open>The options that select operations, fabric and DMA engine.\<close>

definition select_ops :: "string \<Rightarrow> ops_tab option" where
  "select_ops s =
     (if starts_with s ''private'' then Some Vfi_local_ops
      else if starts_with s ''public'' then Some Vfi_fabric_ops else None)"

definition choose_ops :: "string \<Rightarrow> vfi_desc_param \<Rightarrow> vfi_desc_param cres" where
  "choose_ops b d =
     cres_bind (vfi_get_option d ''default_ops'') (\<lambda>r. Val
       (case r of None \<Rightarrow> d
        | Some p \<Rightarrow> (case select_ops (cstr b p) of None \<Rightarrow> d | Some t \<Rightarrow> d\<lparr>ops := Some t\<rparr>)))"

definition choose_fabric :: "string \<Rightarrow> vfi_desc_param \<Rightarrow> registry \<Rightarrow> (vfi_desc_param \<times> registry) cres" where
  "choose_fabric b d g =
     cres_bind (vfi_get_option d ''fabric'') (\<lambda>r. Val
       (case r of None \<Rightarrow> (d, g)
        | Some p \<Rightarrow> (let (a, g') = vfi_fabric_find (Some (cstr b p)) g in (d\<lparr>address := a\<rparr>, g'))))"

definition choose_dma :: "string \<Rightarrow> vfi_desc_param \<Rightarrow> registry \<Rightarrow> (vfi_desc_param \<times> registry) cres" where
  "choose_dma b d g =
     cres_bind (vfi_get_option d ''dma_name'') (\<lambda>r.
       case r of None \<Rightarrow> Val (d, g)
       | Some p \<Rightarrow> cres_bind (vfi_dma_find (cstr b p) g) (\<lambda>(e, g'). Val (d\<lparr>rde := e\<rparr>, g')))"

definition select_options :: "string \<Rightarrow> vfi_desc_param \<Rightarrow> registry \<Rightarrow> (vfi_desc_param \<times> registry) cres" where
  "select_options b d g =
     cres_bind (choose_ops b d) (\<lambda>d1.
     cres_bind (choose_fabric b d1 g) (\<lambda>(d2, g2). choose_dma b d2 g2))"

text \<open>
  \<open>_vfi_parse_desc\<close>: \<open>b\<close> is the duplicated string, \<open>qs\<close> the option array behind it. The result is the
  return value, the filled-in descriptor and the registries after the lookups.
\<close>

definition parse_desc_in_place ::
  "vfi_desc_param \<Rightarrow> string \<Rightarrow> nat option list \<Rightarrow> registry \<Rightarrow> (int \<times> vfi_desc_param \<times> registry) cres" where
  "parse_desc_in_place d b qs g =
     (let nm0 = (case strstr (cstr b 0) ''://'' of None \<Rightarrow> 0 | Some k \<Rightarrow> k + 3);
          (b1, q0) = name_remainder b (Some nm0) CHR ''?'';
          (b2, loc0) = name_remainder b1 (Some nm0) CHR ''.'';
          (b3, nm, loc) = skip_dots b2 nm0 loc0;
          (b4, se, so) = cut_numbers b3 nm loc;
          (ext, se', ret1) = read_number b4 nm se 0;
          (off, so', ret2) = read_number b4 nm so ret1
      in cres_bind (vfi_parse_options b4 (qs[0 := q0]) 0) (\<lambda>(b5, qs').
         let d' = d\<lparr>buf := Some b5, name := Some nm, location := loc, offset := ucast off, extent := ext,
                    soffset := map_option In_buf so', sextent := map_option In_buf se',
                    query := Some qs', ops := None, rde := None, address := None, ploc := None\<rparr>
         in cres_bind (select_options b5 d' g) (\<lambda>(d'', g'). Val (ret2, d'', g'))))"

definition vfi_parse_desc ::
  "bool \<Rightarrow> vfi_desc_param \<Rightarrow> string option \<Rightarrow> registry \<Rightarrow> (int \<times> vfi_desc_param \<times> registry) cres" where
  "vfi_parse_desc mem d desc g =
     (case vfi_str_dup mem desc of
        None \<Rightarrow> Val (- EINVAL, d\<lparr>buflen := 0\<rparr>, g)
      | Some (b, qs, sz) \<Rightarrow>
          cres_bind (parse_desc_in_place (d\<lparr>buflen := sz, end_slot := length qs - 1\<rparr>) b qs g)
            (\<lambda>(ret, d', g'). if ret \<noteq> 0 then Val (ret, d'\<lparr>buf := None, buflen := 0\<rparr>, g')
                             else Val (ret, d', g')))"

section \<open>Parsing a bind\<close>

text \<open>
  \<open>xfer/dst=src\<close>: the copy is cut at the first \<open>/\<close> (after any \<open>op://\<close>) and at the first \<open>=\<close> behind
  it, and the three parts are parsed as descriptors, source first. \<open>mem\<close> answers the four allocations.
\<close>

definition parse_into :: "bool \<Rightarrow> string \<Rightarrow> registry \<Rightarrow> (int \<times> vfi_desc_param \<times> registry) cres" where
  "parse_into mem s g = vfi_parse_desc mem zero_desc (Some s) g"

definition vfi_parse_bind ::
  "bool \<times> bool \<times> bool \<times> bool \<Rightarrow> string option \<Rightarrow> registry \<Rightarrow> (int \<times> vfi_bind_param \<times> registry) cres" where
  "vfi_parse_bind mem desc g =
     (let zero = \<lparr>xfer = zero_desc, dst = zero_desc, src = zero_desc\<rparr>; (m0, ms, md, mx) = mem
      in case vfi_str_dup m0 desc of
        None \<Rightarrow> Val (- ENOMEM, zero, g)
      | Some (b, _, _) \<Rightarrow>
          (let p0 = (case strstr (cstr b 0) ''://'' of None \<Rightarrow> 0 | Some k \<Rightarrow> k + 3);
               (b1, mydst) = name_remainder b (Some p0) CHR ''/'';
               parse_xfer = (\<lambda>b x g. cres_bind (parse_into mx (cstr b 0) g)
                  (\<lambda>(ret, d, g'). Val (ret, x\<lparr>xfer := d\<rparr>, g')));
               parse_dst = (\<lambda>b p x g. cres_bind (parse_into md (cstr b p) g)
                  (\<lambda>(ret, d, g'). if ret \<noteq> 0 then Val (ret, x\<lparr>dst := d\<rparr>, g') else parse_xfer b (x\<lparr>dst := d\<rparr>) g'))
           in case mydst of
                None \<Rightarrow> parse_xfer b1 zero g
              | Some p \<Rightarrow>
                  (let (b2, mysrc) = name_remainder b1 (Some p) CHR ''=''
                   in case mysrc of
                        None \<Rightarrow> parse_dst b2 p zero g
                      | Some q \<Rightarrow> cres_bind (parse_into ms (cstr b2 q) g)
                          (\<lambda>(ret, d, g'). if ret \<noteq> 0 then Val (ret, zero\<lparr>src := d\<rparr>, g')
                                          else parse_dst b2 p (zero\<lparr>src := d\<rparr>) g'))))"

section \<open>Sharing, copying and releasing descriptors\<close>

text \<open>The references a descriptor holds: on a fabric, a DMA engine and a location.\<close>

record ref_state =
  reg :: registry
  loc_refs :: "nat \<Rightarrow> int"

definition vfi_location_get :: "nat option \<Rightarrow> ref_state \<Rightarrow> nat option \<times> ref_state" where
  "vfi_location_get l s =
     (case l of None \<Rightarrow> (None, s) | Some i \<Rightarrow> (Some i, s\<lparr>loc_refs := (loc_refs s)(i := loc_refs s i + 1)\<rparr>))"

definition vfi_location_put :: "nat option \<Rightarrow> ref_state \<Rightarrow> ref_state" where
  "vfi_location_put l s =
     (case l of None \<Rightarrow> s | Some i \<Rightarrow> s\<lparr>loc_refs := (loc_refs s)(i := loc_refs s i - 1)\<rparr>)"

definition on_reg :: "(registry \<Rightarrow> 'a \<times> registry) \<Rightarrow> ref_state \<Rightarrow> 'a \<times> ref_state" where
  "on_reg f s = (let (x, g) = f (reg s) in (x, s\<lparr>reg := g\<rparr>))"

definition vfi_update_ploc :: "vfi_desc_param \<Rightarrow> nat option \<Rightarrow> ref_state \<Rightarrow> vfi_desc_param \<times> ref_state" where
  "vfi_update_ploc desc loc s =
     (let (l, s') = vfi_location_get loc (vfi_location_put (ploc desc) s) in (desc\<lparr>ploc := l\<rparr>, s'))"

definition vfi_inherit :: "vfi_desc_param \<Rightarrow> vfi_desc_param \<Rightarrow> ref_state \<Rightarrow> vfi_desc_param \<times> ref_state" where
  "vfi_inherit c p s =
     (let s1 = s\<lparr>reg := vfi_fabric_put (address c) (reg s)\<rparr>;
          (a, s2) = on_reg (vfi_fabric_get (address p)) s1;
          s3 = s2\<lparr>reg := vfi_dma_put (rde c) (reg s2)\<rparr>;
          (e, s4) = on_reg (vfi_dma_get (rde p)) s3;
          (l, s5) = vfi_location_get (ploc p) (vfi_location_put (ploc c) s4)
      in (c\<lparr>address := a, rde := e, ploc := l, ops := ops p\<rparr>, s5))"

definition vfi_bind_inherit :: "vfi_bind_param \<Rightarrow> vfi_bind_param \<Rightarrow> ref_state \<Rightarrow> vfi_bind_param \<times> ref_state" where
  "vfi_bind_inherit c p s =
     (let (x, s1) = vfi_inherit (xfer c) (xfer p) s;
          (d, s2) = vfi_inherit (dst c) (dst p) s1;
          (r, s3) = vfi_inherit (src c) (src p) s2
      in (\<lparr>xfer = x, dst = d, src = r\<rparr>, s3))"

text \<open>The puts that \<open>vfi_clean_desc\<close> and \<open>vfi_clone_desc\<close> start with, and the gets of the latter.\<close>

definition put_refs :: "vfi_desc_param \<Rightarrow> ref_state \<Rightarrow> ref_state" where
  "put_refs p s =
     vfi_location_put (ploc p) (s\<lparr>reg := vfi_dma_put (rde p) (vfi_fabric_put (address p) (reg s))\<rparr>)"

definition get_refs :: "vfi_desc_param \<Rightarrow> ref_state \<Rightarrow> ref_state" where
  "get_refs p s =
     snd (vfi_location_get (ploc p)
       (s\<lparr>reg := snd (vfi_dma_get (rde p) (snd (vfi_fabric_get (address p) (reg s))))\<rparr>))"

text \<open>
  \<open>vfi_clone_desc\<close>: the copy gets its own buffer, and the pointers are moved over by their distance
  from the old one. For \<open>soffset\<close> and \<open>sextent\<close> the code stores that distance itself.
\<close>

definition clone_stray :: "cptr option \<Rightarrow> cptr option" where
  "clone_stray p = map_option (\<lambda>q. case q of In_buf i \<Rightarrow> Stray i | Stray i \<Rightarrow> Stray i) p"

definition vfi_clone_desc ::
  "bool \<Rightarrow> vfi_desc_param \<Rightarrow> vfi_desc_param \<Rightarrow> ref_state \<Rightarrow> errno \<times> vfi_desc_param \<times> ref_state" where
  "vfi_clone_desc mem new old s =
     (let s' = get_refs old (put_refs new s)
      in case buf old of
           None \<Rightarrow> (- ENOMEM, old, s')
         | Some b \<Rightarrow>
             if buflen old = 0 then (- ENOMEM, old, s')
             else if mem then
               (0, old\<lparr>buf := Some b, soffset := clone_stray (soffset old),
                       sextent := clone_stray (sextent old)\<rparr>, s')
             else (- ENOMEM, old\<lparr>buf := None\<rparr>, s'))"

definition vfi_clone_bind ::
  "bool \<times> bool \<times> bool \<Rightarrow> vfi_bind_param \<Rightarrow> vfi_bind_param \<Rightarrow> ref_state \<Rightarrow> errno \<times> vfi_bind_param \<times> ref_state" where
  "vfi_clone_bind mem new old s =
     (let (md, ms, mx) = mem; (ret, d, s1) = vfi_clone_desc md (dst new) (dst old) s; new1 = new\<lparr>dst := d\<rparr>
      in if ret \<noteq> 0 then (ret, new1, s1)
         else let (ret, r, s2) = vfi_clone_desc ms (src new) (src old) s1; new2 = new1\<lparr>src := r\<rparr>
              in if ret \<noteq> 0 then (ret, new2, s2)
                 else let (ret, x, s3) = vfi_clone_desc mx (xfer new) (xfer old) s2
                      in (ret, new2\<lparr>xfer := x\<rparr>, s3))"

definition vfi_clean_desc :: "vfi_desc_param \<Rightarrow> ref_state \<Rightarrow> ref_state" where
  "vfi_clean_desc p s = put_refs p s"

definition vfi_clean_bind :: "vfi_bind_param \<Rightarrow> ref_state \<Rightarrow> ref_state" where
  "vfi_clean_bind p s = vfi_clean_desc (src p) (vfi_clean_desc (dst p) (vfi_clean_desc (xfer p) s))"

end
