(* ===== verification/Vfi_Grammar.thy ===== *)
theory Vfi_Grammar
  imports Vfi_Parse
begin

text \<open>
  The grammar of descriptor strings as a function on plain strings, and the proof that the in-place
  parser of \<open>Vfi_Parse\<close> implements it: pieces of the buffer are tracked as disjoint C strings, each str_cut
  splits one piece in two and leaves the others alone. From it follow the memory safety of the option
  array, and that a descriptor printed the way the driver prints its requests and replies parses back
  to the same fields.
\<close>

section \<open>The grammar\<close>

definition str_cut :: "char \<Rightarrow> string \<Rightarrow> string \<times> string option" where
  "str_cut c s = (takeWhile (\<lambda>x. x \<noteq> c) s, if c \<in> set s then Some (tl (dropWhile (\<lambda>x. x \<noteq> c) s)) else None)"

record parsed =
  p_name :: string
  p_location :: "string option"
  p_extent :: "string option"
  p_offset :: "string option"
  p_options :: "string list"

definition spec_body :: "string \<Rightarrow> string" where
  "spec_body s = (case strstr s ''://'' of None \<Rightarrow> s | Some k \<Rightarrow> drop (k + 3) s)"

lemma cut_shorter: "str_cut c s = (x, Some r) \<Longrightarrow> length r < length s"
proof -
  assume "str_cut c s = (x, Some r)"
  then have "c \<in> set s" "r = tl (dropWhile (\<lambda>x. x \<noteq> c) s)" by (auto simp: str_cut_def split: if_splits)
  with split_at_first [of c s] show ?thesis
    by (metis add_less_cancel_left length_append length_Cons less_add_same_cancel1 less_add_Suc2 add.commute
        trans_less_add2 lessI)
qed

function spec_skip :: "string \<Rightarrow> string option \<Rightarrow> string \<times> string option" where
  "spec_skip nm loc =
     (case loc of
        None \<Rightarrow> (nm, None)
      | Some l \<Rightarrow> if nm = [] then (let (n, r) = str_cut CHR ''.'' l in spec_skip n r) else (nm, Some l))"
  by pat_completeness auto
termination
  by (relation "measure (\<lambda>(nm, loc). case loc of None \<Rightarrow> 0 | Some l \<Rightarrow> Suc (length l))")
    (auto split: option.splits prod.splits dest: cut_shorter)

declare spec_skip.simps [simp del]

definition spec_numbers :: "string \<Rightarrow> string \<times> string option \<times> string option" where
  "spec_numbers t =
     (let (t1, e) = str_cut CHR '':'' t; (t2, f) = str_cut CHR ''#'' t1
      in case f of
           Some x \<Rightarrow> (t2, e, Some x)
         | None \<Rightarrow> (case e of
                      None \<Rightarrow> (t2, None, None)
                    | Some x \<Rightarrow> (let (x1, f') = str_cut CHR ''#'' x in (t2, Some x1, f'))))"

function split_on :: "char \<Rightarrow> string \<Rightarrow> string list" where
  "split_on c s = (case str_cut c s of (x, None) \<Rightarrow> [x] | (x, Some r) \<Rightarrow> x # split_on c r)"
  by pat_completeness auto
termination
  by (relation "measure (\<lambda>(c, s). length s)") (auto dest: cut_shorter [OF sym])

declare split_on.simps [simp del]

definition spec_option :: "string \<Rightarrow> string" where
  "spec_option s =
     (case strstr s ''('' of
        None \<Rightarrow> s
      | Some k \<Rightarrow>
          (let s' = s[k := CHR ''='']
           in case strstr (drop k s') '')'' of None \<Rightarrow> s' | Some j \<Rightarrow> take (k + j) s'))"

definition grammar :: "string \<Rightarrow> parsed" where
  "grammar s =
     (let (h, q) = str_cut CHR ''?'' (spec_body s);
          (n0, l0) = str_cut CHR ''.'' h;
          (n, l) = spec_skip n0 l0;
          (t, e, f) = spec_numbers (case l of None \<Rightarrow> n | Some x \<Rightarrow> x)
      in \<lparr>p_name = (if l = None then t else n), p_location = (if l = None then None else Some t),
          p_extent = e, p_offset = f,
          p_options = (case q of None \<Rightarrow> [] | Some x \<Rightarrow> map spec_option (split_on CHR '','' x))\<rparr>)"

lemma split_on_last: "c \<notin> set s \<Longrightarrow> split_on c s = [s]"
  by (subst split_on.simps) (simp add: str_cut_def takeWhile_neq_id)

lemma split_on_first:
  "c \<in> set s \<Longrightarrow> split_on c s = takeWhile (\<lambda>x. x \<noteq> c) s # split_on c (tl (dropWhile (\<lambda>x. x \<noteq> c) s))"
  by (subst split_on.simps) (simp add: str_cut_def)

lemma spec_skip_simps:
  "spec_skip nm None = (nm, None)"
  "spec_skip (c # cs) (Some l) = (c # cs, Some l)"
  "spec_skip [] (Some l) = (let (n, r) = str_cut CHR ''.'' l in spec_skip n r)"
  by (subst spec_skip.simps, simp)+

lemmas grammar_simps = grammar_def spec_body_def str_cut_def split_on_first split_on_last spec_skip_simps
  spec_numbers_def spec_option_def

section \<open>Pieces of a buffer\<close>

definition lay :: "string \<Rightarrow> nat list \<Rightarrow> bool" where
  "lay b ps \<longleftrightarrow> distinct ps \<and> (\<forall>p \<in> set ps. c_ok b p
     \<and> (\<forall>r \<in> set ps. r \<noteq> p \<longrightarrow> p + length (cstr b p) < r \<or> r + length (cstr b r) < p))"

abbreviation opt_list :: "'a option \<Rightarrow> 'a list" where
  "opt_list x \<equiv> (case x of None \<Rightarrow> [] | Some y \<Rightarrow> [y])"

lemma lay_subset: "lay b ps \<Longrightarrow> set qs \<subseteq> set ps \<Longrightarrow> distinct qs \<Longrightarrow> lay b qs"
  by (auto simp: lay_def)

lemma lay_ok: "lay b ps \<Longrightarrow> p \<in> set ps \<Longrightarrow> c_ok b p"
  by (simp add: lay_def)

lemma lay_Nil [simp]: "lay b []"
  by (simp add: lay_def)

lemma lay_Cons:
  "lay b (p # ps) \<longleftrightarrow> p \<notin> set ps \<and> c_ok b p
     \<and> (\<forall>x \<in> set ps. p + length (cstr b p) < x \<or> x + length (cstr b x) < p) \<and> lay b ps"
  by (auto simp: lay_def)

lemma lay_cong: "(\<And>x. x \<in> set ps \<Longrightarrow> cstr b' x = cstr b x \<and> c_ok b' x) \<Longrightarrow> lay b ps \<Longrightarrow> lay b' ps"
  by (auto simp: lay_def)

lemma lay_write_frame:
  assumes "lay b (p # K)" and "i \<le> length (cstr b p)" and "x \<in> set K"
  shows "cstr (b[p + i := c]) x = cstr b x \<and> c_ok (b[p + i := c]) x"
proof -
  have "x \<noteq> p" and ok: "c_ok b x" and "p + length (cstr b p) < x \<or> x + length (cstr b x) < p"
    using assms by (auto simp: lay_def)
  then have "p + i < x \<or> x + length (cstr b x) < p + i" using assms(2) by linarith
  with ok show ?thesis by (rule cstr_write_frame)
qed

lemma lay_write_shrink:
  assumes lay: "lay b (p # K)" and i: "i < length (cstr b p)"
    and new: "length (cstr (b[p + i := c]) p) \<le> length (cstr b p)" "c_ok (b[p + i := c]) p"
  shows "lay (b[p + i := c]) (p # K)"
proof -
  have fr: "x \<in> set K \<Longrightarrow> cstr (b[p + i := c]) x = cstr b x \<and> c_ok (b[p + i := c]) x" for x
    using lay_write_frame [OF lay less_imp_le [OF i]] by blast
  show ?thesis unfolding lay_def
    using lay new fr by (auto simp: lay_def)
qed

lemma lay_cut:
  assumes lay: "lay b (p # K)" and nr: "name_remainder b (Some p) c = (b', r)"
  shows "lay b' (p # opt_list r @ K) \<and> length b' = length b
    \<and> (cstr b' p, map_option (cstr b') r) = str_cut c (cstr b p)
    \<and> (\<forall>x \<in> set K. cstr b' x = cstr b x)"
proof (cases "c \<in> set (cstr b p)")
  case False
  with lay nr show ?thesis by (auto simp: name_remainder_def strchr_def str_cut_def takeWhile_neq_id)
next
  case True
  let ?k = "length (takeWhile (\<lambda>x. x \<noteq> c) (cstr b p))"
  have ok: "c_ok b p" using lay by (simp add: lay_def)
  have k: "?k < length (cstr b p)" using split_at_first [OF True]
    by (metis add_less_cancel_left length_append length_Cons less_add_same_cancel1 zero_less_Suc)
  have b': "b' = b[p + ?k := NUL]" and r: "r = Some (Suc (p + ?k))"
    using nr True by (auto simp: name_remainder_def strchr_def)
  note w = cstr_write_NUL [OF ok k]
  have fr: "x \<in> set K \<Longrightarrow> cstr b' x = cstr b x \<and> c_ok b' x" for x
    using lay_write_frame [OF lay less_imp_le [OF k]] b' by blast
  have one: "cstr b' p = takeWhile (\<lambda>x. x \<noteq> c) (cstr b p)"
    using w b' by (metis takeWhile_eq_take)
  have two: "cstr b' (Suc (p + ?k)) = tl (dropWhile (\<lambda>x. x \<noteq> c) (cstr b p))"
    using w b' by (metis dropWhile_eq_drop drop_Suc tl_drop)
  have disj: "x \<in> set K \<Longrightarrow> x \<noteq> p \<and> (p + length (cstr b p) < x \<or> x + length (cstr b x) < p)" for x
    using lay by (auto simp: lay_def)
  have len1: "length (cstr b' p) = ?k" by (simp add: one)
  have len2: "length (cstr b' (Suc (p + ?k))) = length (cstr b p) - Suc ?k" using w b' by simp
  define q where "q = Suc (p + ?k)"
  have layK: "lay b' K" using lay fr by (auto simp: lay_Cons intro: lay_cong)
  have sep1: "x \<in> set K \<Longrightarrow> p + length (cstr b' p) < x \<or> x + length (cstr b' x) < p" for x
    using disj [of x] fr [of x] k unfolding len1 by fastforce
  have sep2: "x \<in> set K \<Longrightarrow> q + length (cstr b' q) < x \<or> x + length (cstr b' x) < q" for x
    using disj [of x] fr [of x] k len2 unfolding q_def by fastforce
  have notin: "p \<notin> set K" "q \<notin> set K" using disj k unfolding q_def by force+
  have sep12: "p + length (cstr b' p) < q" unfolding len1 q_def by simp
  have oks: "c_ok b' p" "c_ok b' q" using w b' by (auto simp: q_def)
  have "lay b' (p # q # K)"
    unfolding lay_Cons using layK sep1 sep2 notin sep12 oks by auto
  then show ?thesis using one two fr True by (simp add: r str_cut_def q_def b')
qed

lemma lay_rotate: "lay b (xs @ p # ys) \<longleftrightarrow> lay b (p # xs @ ys)"
  by (auto simp: lay_def)

lemma lay_swap: "lay b (p # q # ps) \<longleftrightarrow> lay b (q # p # ps)"
  by (auto simp: lay_Cons)

lemma lay_tail: "lay b (p # ps) \<Longrightarrow> lay b ps"
  by (simp add: lay_Cons)

section \<open>The searches\<close>

lemma strstr_le: "strstr s n = Some k \<Longrightarrow> k + length n \<le> length s"
proof (induction s n arbitrary: k rule: strstr.induct)
  case (2 c cs n)
  then show ?case
    by (auto split: if_splits) (metis length_Cons length_take min.cobounded1 min_def nat_le_linear)
qed (auto split: if_splits)

lemma strstr_match: "strstr s n = Some k \<Longrightarrow> take (length n) (drop k s) = n"
  by (induction s n arbitrary: k rule: strstr.induct) (auto split: if_splits)

lemma strstr_char: "strstr s [c] = (if c \<in> set s then Some (length (takeWhile (\<lambda>x. x \<noteq> c) s)) else None)"
  by (induction s) auto

section \<open>Each step of the parser on its piece\<close>

lemma lay_brackets:
  assumes lay: "lay b (p # K)"
  shows "lay (option_brackets b p) (p # K) \<and> length (option_brackets b p) = length b
    \<and> cstr (option_brackets b p) p = spec_option (cstr b p)
    \<and> (\<forall>x \<in> set K. cstr (option_brackets b p) x = cstr b x)"
proof (cases "strstr (cstr b p) ''(''")
  case None
  with lay show ?thesis by (simp add: option_brackets_def spec_option_def)
next
  case (Some k)
  let ?b1 = "b[p + k := CHR ''='']"
  have ok: "c_ok b p" using lay by (simp add: lay_Cons)
  have k: "k < length (cstr b p)" using strstr_le [OF Some] by simp
  have c1: "cstr ?b1 p = (cstr b p)[k := CHR ''='']" "c_ok ?b1 p"
    using cstr_write_char [OF ok k, of "CHR ''=''"] by simp_all
  have lay1: "lay ?b1 (p # K)" by (rule lay_write_shrink [OF lay k]) (simp_all add: c1)
  have fr1: "\<forall>x \<in> set K. cstr ?b1 x = cstr b x" using lay_write_frame [OF lay less_imp_le [OF k]] by blast
  have c1k: "cstr ?b1 (p + k) = drop k ((cstr b p)[k := CHR ''=''])"
    using cstr_shift [OF c1(2), of k] k c1(1) by simp
  show ?thesis
  proof (cases "strstr (cstr ?b1 (p + k)) '')''")
    case None
    with Some lay1 fr1 c1 c1k show ?thesis by (simp add: option_brackets_def spec_option_def)
  next
    case (Some j)
    have j: "k + j < length (cstr ?b1 p)" using strstr_le [OF Some] k by (simp add: c1 c1k)
    let ?b2 = "?b1[p + (k + j) := NUL]"
    have c2: "cstr ?b2 p = take (k + j) (cstr ?b1 p)" "c_ok ?b2 p" using cstr_write_NUL [OF c1(2) j] by simp_all
    have lay2: "lay ?b2 (p # K)" by (rule lay_write_shrink [OF lay1 j]) (simp_all add: c2)
    have fr2: "\<forall>x \<in> set K. cstr ?b2 x = cstr ?b1 x" using lay_write_frame [OF lay1 less_imp_le [OF j]] by blast
    have "option_brackets b p = ?b2"
      using \<open>strstr (cstr b p) ''('' = Some k\<close> Some by (simp add: option_brackets_def Let_def add.assoc)
    then show ?thesis
      using \<open>strstr (cstr b p) ''('' = Some k\<close> Some lay2 fr1 fr2 c2 c1 c1k by (simp add: spec_option_def Let_def)
  qed
qed

definition option_strings :: "string \<Rightarrow> nat option list \<Rightarrow> string list" where
  "option_strings b qs = map (\<lambda>q. cstr b (the q)) (takeWhile (\<lambda>q. q \<noteq> None) qs)"

lemma option_strings_map [simp]: "option_strings b (map Some ps @ None # rest) = map (cstr b) ps"
  by (induction ps) (simp_all add: option_strings_def)

lemma parse_options_correct:
  "lay b (p # K) \<Longrightarrow> i < length qs \<Longrightarrow> qs ! i = Some p
    \<Longrightarrow> i + length (split_on CHR '','' (cstr b p)) < length qs
    \<Longrightarrow> \<exists>b' qs' ps rest. vfi_parse_options b qs i = Val (b', qs')
        \<and> qs' = take i qs @ map Some ps @ None # rest
        \<and> map (cstr b') ps = map spec_option (split_on CHR '','' (cstr b p))
        \<and> lay b' (ps @ K) \<and> length b' = length b \<and> (\<forall>x \<in> set K. cstr b' x = cstr b x)"
proof (induction "length (cstr b p)" arbitrary: b p K qs i rule: less_induct)
  case less
  obtain b1 r where nr: "name_remainder b (Some p) CHR '','' = (b1, r)" by fastforce
  let ?b2 = "option_brackets b1 p" and ?qs1 = "qs[Suc i := r]"
  note c = lay_cut [OF less.prems(1) nr]
  have lay1: "lay b1 (p # opt_list r @ K)" using c by blast
  note br = lay_brackets [OF lay1]
  have n0: "0 < length (split_on CHR '','' (cstr b p))" by (subst split_on.simps) (auto split: prod.splits option.splits)
  have si: "Suc i < length qs" using less.prems(4) n0 by linarith
  have step: "vfi_parse_options b qs i = vfi_parse_options ?b2 ?qs1 (Suc i)"
    using less.prems nr si by (subst vfi_parse_options.simps) simp
  have ti: "take i ?qs1 = take i qs" by simp
  show ?case
  proof (cases r)
    case None
    with c have sp: "split_on CHR '','' (cstr b p) = [cstr b1 p]"
      by (subst split_on.simps) (auto split: prod.splits option.splits)
    with less.prems have len: "Suc i < length qs" by simp
    then have "vfi_parse_options ?b2 ?qs1 (Suc i) = Val (?b2, ?qs1)"
      using None by (subst vfi_parse_options.simps) simp
    moreover have "?qs1 = take i qs @ map Some [p] @ None # drop (Suc (Suc i)) qs"
      using update_next_split [OF len less.prems(3)] None by simp
    ultimately show ?thesis
      using None step br c sp by (intro exI [of _ ?b2] exI [of _ ?qs1] exI [of _ "[p]"]
          exI [of _ "drop (Suc (Suc i)) qs"]) auto
  next
    case (Some q)
    have cq: "str_cut CHR '','' (cstr b p) = (cstr b1 p, Some (cstr b1 q))" using c Some by simp
    have sp: "split_on CHR '','' (cstr b p) = cstr b1 p # split_on CHR '','' (cstr b1 q)"
      by (subst split_on.simps) (simp add: cq)
    have b2q: "cstr ?b2 q = cstr b1 q" using br Some by simp
    have lt: "length (cstr ?b2 q) < length (cstr b p)" using cut_shorter [OF cq] b2q by simp
    have lay2: "lay ?b2 (q # p # K)" using br Some by (simp add: lay_swap)
    obtain b' qs' ps rest where IH: "vfi_parse_options ?b2 ?qs1 (Suc i) = Val (b', qs')"
      "qs' = take (Suc i) ?qs1 @ map Some ps @ None # rest"
      "map (cstr b') ps = map spec_option (split_on CHR '','' (cstr ?b2 q))"
      "lay b' (ps @ p # K)" "length b' = length ?b2" "\<forall>x \<in> set (p # K). cstr b' x = cstr ?b2 x"
      using less.hyps [OF lt lay2, of "Suc i" ?qs1] less.prems sp b2q Some by auto
    have "take (Suc i) ?qs1 = take i qs @ [Some p]"
      using less.prems by (simp add: take_Suc_conv_app_nth)
    then have "qs' = take i qs @ map Some (p # ps) @ None # rest" using IH(2) by simp
    moreover have "lay b' ((p # ps) @ K)" using IH(4) by (simp add: lay_rotate)
    moreover have "\<forall>x \<in> set K. cstr b' x = cstr b x" using IH(6) br c Some by simp
    ultimately show ?thesis using IH step sp b2q br c
      by (intro exI [of _ b'] exI [of _ qs'] exI [of _ "p # ps"] exI [of _ rest]) auto
  qed
qed

lemma skip_dots_correct:
  "lay b (nm # opt_list loc @ K) \<Longrightarrow> skip_dots b nm loc = (b', nm', loc')
    \<Longrightarrow> lay b' (nm' # opt_list loc' @ K) \<and> length b' = length b
      \<and> (cstr b' nm', map_option (cstr b') loc') = spec_skip (cstr b nm) (map_option (cstr b) loc)
      \<and> (\<forall>x \<in> set K. cstr b' x = cstr b x)"
proof (induction b nm loc rule: skip_dots.induct)
  case (1 b nm loc)
  show ?case
  proof (cases loc)
    case None
    with 1 show ?thesis by (simp add: skip_dots.simps spec_skip.simps)
  next
    case (Some l)
    have hd: "b ! nm = NUL \<longleftrightarrow> cstr b nm = []" using 1(2) by (intro cstr_hd) (simp add: lay_Cons)
    show ?thesis
    proof (cases "b ! nm = NUL")
      case False
      with Some 1 hd show ?thesis by (auto simp: skip_dots.simps spec_skip.simps)
    next
      case True
      obtain b1 r where nr: "name_remainder b (Some l) CHR ''.'' = (b1, r)" by fastforce
      have "lay b (l # K)" using 1(2) Some by (auto dest: lay_tail)
      note c = lay_cut [OF this nr]
      have sd: "skip_dots b1 l r = (b', nm', loc')" using 1(3) Some True nr by (simp add: skip_dots.simps [of b])
      have "lay b1 (l # opt_list r @ K)" using c by blast
      note IH = "1.IH" [OF Some True nr [symmetric] refl this sd]
      have "spec_skip (cstr b nm) (map_option (cstr b) loc) = spec_skip (cstr b1 l) (map_option (cstr b1) r)"
        using True hd Some c by (subst spec_skip.simps) (simp add: case_prod_unfold, metis fst_conv snd_conv)
      with IH c show ?thesis by simp
    qed
  qed
qed

lemma str_cut_None: "str_cut c s = (x, None) \<Longrightarrow> x = s \<and> c \<notin> set s"
  by (auto simp: str_cut_def takeWhile_neq_id split: if_splits)

lemma str_cut_Some_set: "str_cut c s = (x, Some r) \<Longrightarrow> set r \<subseteq> set s \<and> set x \<subseteq> set s"
  using split_at_first [of c s] by (auto simp: str_cut_def split: if_splits)

lemma str_cut_absent: "c \<notin> set s \<Longrightarrow> str_cut c s = (s, None)"
  by (simp add: str_cut_def takeWhile_neq_id)

lemma name_remainder_None [simp]: "name_remainder b None c = (b, None)"
  by (simp add: name_remainder_def)

lemma name_remainder_absent: "c \<notin> set (cstr b p) \<Longrightarrow> name_remainder b (Some p) c = (b, None)"
  by (simp add: name_remainder_def strchr_def)

lemma cut_numbers_at:
  assumes lay: "lay b (t # K)" and cn: "cut_numbers b t None = (b', se, so)"
  shows "lay b' (t # opt_list se @ opt_list so @ K) \<and> length b' = length b
    \<and> (cstr b' t, map_option (cstr b') se, map_option (cstr b') so) = spec_numbers (cstr b t)
    \<and> (\<forall>x \<in> set K. cstr b' x = cstr b x)"
proof -
  obtain b1 e where n1: "name_remainder b (Some t) CHR '':'' = (b1, e)" by fastforce
  note c1 = lay_cut [OF lay n1]
  obtain b2 f where n2: "name_remainder b1 (Some t) CHR ''#'' = (b2, f)" by fastforce
  have "lay b1 (t # opt_list e @ K)" using c1 by blast
  note c2 = lay_cut [OF this n2]
  show ?thesis
  proof (cases f)
    case (Some q)
    have dead: "name_remainder b2 (Some q) CHR '':'' = (b2, None)" if "e = None"
    proof (rule name_remainder_absent)
      have "CHR '':'' \<notin> set (cstr b1 t)" using c1 that str_cut_None [of "CHR '':''" "cstr b t" "cstr b1 t"] by simp
      moreover have "str_cut CHR ''#'' (cstr b1 t) = (cstr b2 t, Some (cstr b2 q))" using c2 Some by simp
      ultimately show "CHR '':'' \<notin> set (cstr b2 q)" using str_cut_Some_set by blast
    qed
    have res: "b' = b2" "se = e" "so = Some q"
      using cn n1 n2 Some dead by (auto simp: cut_numbers_def Let_def split: if_splits)
    have "str_cut CHR '':'' (cstr b t) = (cstr b1 t, map_option (cstr b1) e)" using c1 by simp
    moreover have "str_cut CHR ''#'' (cstr b1 t) = (cstr b2 t, Some (cstr b2 q))" using c2 Some by simp
    moreover have "map_option (cstr b1) e = map_option (cstr b2) e" using c2 by (cases e) auto
    ultimately have "spec_numbers (cstr b t) = (cstr b2 t, map_option (cstr b2) e, Some (cstr b2 q))"
      by (simp add: spec_numbers_def)
    moreover have "lay b2 (t # opt_list e @ q # K)" using c2 Some by (cases e) (auto simp: lay_Cons)
    ultimately show ?thesis using res c1 c2 Some by simp
  next
    case None
    show ?thesis
    proof (cases e)
      case None
      have "b' = b2" "se = None" "so = None"
        using cn n1 n2 None \<open>f = None\<close> by (auto simp: cut_numbers_def Let_def)
      moreover have "spec_numbers (cstr b t) = (cstr b2 t, None, None)"
      proof -
        have "str_cut CHR '':'' (cstr b t) = (cstr b1 t, None)" using c1 None by simp
        moreover have "str_cut CHR ''#'' (cstr b1 t) = (cstr b2 t, None)" using c2 \<open>f = None\<close> by simp
        ultimately show ?thesis by (simp add: spec_numbers_def)
      qed
      ultimately show ?thesis using c1 c2 None \<open>f = None\<close> by simp
    next
      case (Some q)
      obtain b3 f' where n3: "name_remainder b2 (Some q) CHR ''#'' = (b3, f')" by fastforce
      have "lay b2 (q # t # K)" using c2 Some None by (simp add: lay_swap)
      note c3 = lay_cut [OF this n3]
      have res: "b' = b3" "se = Some q" "so = f'"
        using cn n1 n2 n3 Some None by (auto simp: cut_numbers_def Let_def)
      have "str_cut CHR '':'' (cstr b t) = (cstr b1 t, Some (cstr b1 q))" using c1 Some by simp
      moreover have "str_cut CHR ''#'' (cstr b1 t) = (cstr b2 t, None)" using c2 None by simp
      moreover have "cstr b1 q = cstr b2 q" using c2 Some by simp
      moreover have "str_cut CHR ''#'' (cstr b2 q) = (cstr b3 q, map_option (cstr b3) f')" using c3 by simp
      moreover have "cstr b3 t = cstr b2 t" using c3 by simp
      ultimately have "spec_numbers (cstr b t) = (cstr b3 t, Some (cstr b3 q), map_option (cstr b3) f')"
        by (simp add: spec_numbers_def)
      moreover have "lay b3 (t # q # opt_list f' @ K)" using c3 by (cases f') (auto simp: lay_Cons)
      ultimately show ?thesis using res c1 c2 c3 by simp
    qed
  qed
qed

lemma cut_numbers_correct:
  assumes lay: "lay b (nm # opt_list loc @ K)" and cn: "cut_numbers b nm loc = (b', se, so)"
  shows "lay b' (nm # opt_list loc @ opt_list se @ opt_list so @ K) \<and> length b' = length b
    \<and> (case loc of
         None \<Rightarrow> (cstr b' nm, map_option (cstr b') se, map_option (cstr b') so) = spec_numbers (cstr b nm)
       | Some l \<Rightarrow> cstr b' nm = cstr b nm
           \<and> (cstr b' l, map_option (cstr b') se, map_option (cstr b') so) = spec_numbers (cstr b l))
    \<and> (\<forall>x \<in> set K. cstr b' x = cstr b x)"
proof (cases loc)
  case None
  with cut_numbers_at [of b nm K] lay cn show ?thesis by simp
next
  case (Some l)
  have "cut_numbers b l None = (b', se, so)" using cn Some by (simp add: cut_numbers_def)
  moreover have "lay b (l # nm # K)" using lay Some by (simp add: lay_swap)
  ultimately have "lay b' (l # opt_list se @ opt_list so @ nm # K) \<and> length b' = length b
    \<and> (cstr b' l, map_option (cstr b') se, map_option (cstr b') so) = spec_numbers (cstr b l)
    \<and> (\<forall>x \<in> set (nm # K). cstr b' x = cstr b x)"
    by (intro cut_numbers_at)
  moreover from this have "lay b' (nm # l # opt_list se @ opt_list so @ K)"
    using lay_rotate [of b' "l # opt_list se @ opt_list so" nm K] by simp
  ultimately show ?thesis using Some by simp
qed

section \<open>The whole parser\<close>

definition number_of :: "string option \<Rightarrow> u32" where
  "number_of s = (case s of None \<Rightarrow> 0 | Some x \<Rightarrow> fst (simple_strtoul16 x))"

definition clean_number :: "string option \<Rightarrow> bool" where
  "clean_number s = (case s of None \<Rightarrow> True | Some x \<Rightarrow> snd (simple_strtoul16 x) = length x)"

text \<open>A descriptor denotes a parse result: the strings its pointers reach, its numbers, its options.\<close>

definition desc_denotes :: "vfi_desc_param \<Rightarrow> parsed \<Rightarrow> bool" where
  "desc_denotes d p =
     (case (buf d, name d, query d) of
        (Some b, Some n, Some qs) \<Rightarrow>
           cstr b n = p_name p \<and> map_option (cstr b) (location d) = p_location p
           \<and> extent d = number_of (p_extent p) \<and> offset d = ucast (number_of (p_offset p))
           \<and> None \<in> set qs \<and> option_strings b qs = p_options p
      | _ \<Rightarrow> False)"

lemma hex_scan_bounds: "n \<le> snd (hex_scan v n cs) \<and> snd (hex_scan v n cs) \<le> n + length cs"
proof (induction cs arbitrary: v n)
  case (Cons c cs)
  show ?case using Cons.IH [where n = "Suc n"] by (auto split: option.splits) (meson Suc_leD)+
qed simp

lemma strtoul_consumed: "snd (simple_strtoul16 s) \<le> length s"
proof -
  have "take 2 s = [x, y] \<Longrightarrow> 2 \<le> length s" for x y
    by (metis length_Cons length_take list.size(3) min.cobounded1 numeral_2_eq_2 One_nat_def)
  with hex_scan_bounds [of 2 0 "drop 2 s"] hex_scan_bounds [of 0 0 s] show ?thesis
    by (auto simp: simple_strtoul16_def)
qed

lemma read_number_correct:
  assumes "lay b (nm # opt_list s @ K)"
  shows "fst (read_number b nm s ret) = number_of (map_option (cstr b) s)
    \<and> (snd (snd (read_number b nm s ret)) = 0 \<longleftrightarrow>
        (if clean_number (map_option (cstr b) s) then ret = 0 else False))"
proof (cases s)
  case None
  then show ?thesis by (simp add: read_number_def number_of_def clean_number_def)
next
  case (Some p)
  obtain v k where vk: "simple_strtoul16 (cstr b p) = (v, k)" by fastforce
  have k: "k \<le> length (cstr b p)" using strtoul_consumed [of "cstr b p"] vk by simp
  have ok: "c_ok b p" and apart: "nm + length (cstr b nm) < p \<or> p + length (cstr b p) < nm"
    using assms Some by (auto simp: lay_Cons)
  have end_iff: "b ! (p + k) = NUL \<longleftrightarrow> k = length (cstr b p)"
    using cstr_hd [of b "p + k"] cstr_shift [OF ok k] k by auto
  have "p + k \<noteq> nm" using apart k by linarith
  then show ?thesis using Some vk end_iff
    by (simp add: read_number_def number_of_def clean_number_def Let_def)
qed

lemma length_split_on: "length (split_on c s) = Suc (count_list s c)"
proof (induction c s rule: split_on.induct)
  case (1 c s)
  show ?case
  proof (cases "str_cut c s")
    case (Pair x r)
    show ?thesis
    proof (cases r)
      case None
      with Pair have "c \<notin> set s" by (auto dest: str_cut_None)
      with Pair None show ?thesis by (subst split_on.simps) (simp add: count_list_0_iff)
    next
      case (Some t)
      with Pair have "c \<in> set s" and t: "t = tl (dropWhile (\<lambda>x. x \<noteq> c) s)"
        by (auto simp: str_cut_def split: if_splits)
      then have "count_list s c = Suc (count_list t c)"
        by (subst count_list_takeWhile_dropWhile [of c])
          (auto simp: count_list_0_iff dest: set_takeWhileD)
      with Pair Some 1 show ?thesis by (subst split_on.simps) simp
    qed
  qed
qed

lemma option_slots_suffix:
  "s = pre @ CHR ''?'' # opts \<Longrightarrow> Suc (count_list opts CHR '','') < option_slots s"
proof -
  assume s: "s = pre @ CHR ''?'' # opts"
  have "count_list opts CHR '','' = length (filter (\<lambda>c. c = CHR '','') opts)"
    by (induction opts) auto
  also have "\<dots> \<le> length (filter (\<lambda>c. c = CHR ''?'' \<or> c = CHR '','') opts)"
    by (induction opts) auto
  finally show ?thesis by (simp add: option_slots_def s)
qed

text \<open>Every option the array reaches is a well-formed string of the buffer.\<close>

definition options_ok :: "vfi_desc_param \<Rightarrow> bool" where
  "options_ok d =
     (case (buf d, query d) of
        (Some b, Some qs) \<Rightarrow> None \<in> set qs \<and> (\<forall>q \<in> set (takeWhile (\<lambda>q. q \<noteq> None) qs). c_ok b (the q))
          \<and> (\<forall>i. name d = Some i \<or> location d = Some i \<longrightarrow> c_ok b i)
      | _ \<Rightarrow> False)"

lemma takeWhile_map_Some: "takeWhile (\<lambda>x. x \<noteq> None) (map Some ps @ None # rest) = map Some ps"
  by (induction ps) simp_all

lemma parse_options_array:
  assumes lay: "lay b (opt_list q @ K)" and s: "q \<noteq> None \<longrightarrow> (\<exists>pre. s = pre @ CHR ''?'' # cstr b (the q))"
  shows "\<exists>b' qs'. vfi_parse_options b ((replicate (option_slots s) None)[0 := q]) 0 = Val (b', qs')
    \<and> None \<in> set qs' \<and> (\<forall>x \<in> set (takeWhile (\<lambda>x. x \<noteq> None) qs'). c_ok b' (the x))
    \<and> option_strings b' qs' = (case q of None \<Rightarrow> [] | Some p \<Rightarrow> map spec_option (split_on CHR '','' (cstr b p)))
    \<and> (\<forall>x \<in> set K. cstr b' x = cstr b x \<and> c_ok b' x)"
proof (cases q)
  case None
  have "option_slots s \<noteq> 0" by (simp add: option_slots_def)
  then have "vfi_parse_options b ((replicate (option_slots s) None)[0 := q]) 0 =
      Val (b, (replicate (option_slots s) None)[0 := q])"
    using None by (subst vfi_parse_options.simps) simp
  moreover have "(replicate (option_slots s) None)[0 := q] = None # replicate (option_slots s - 1) None"
    using None \<open>option_slots s \<noteq> 0\<close> by (cases "option_slots s") simp_all
  moreover have "\<forall>x \<in> set K. c_ok b x" using lay by (simp add: lay_def)
  ultimately show ?thesis using None by (simp add: option_strings_def)
next
  case (Some p)
  let ?qs = "(replicate (option_slots s) None)[0 := q]"
  from s Some obtain pre where pre: "s = pre @ CHR ''?'' # cstr b p" by auto
  have slots: "Suc (count_list (cstr b p) CHR '','') < option_slots s" by (rule option_slots_suffix [OF pre])
  have lay': "lay b (p # K)" using lay Some by simp
  have room: "0 < length ?qs" "?qs ! 0 = Some p" "0 + length (split_on CHR '','' (cstr b p)) < length ?qs"
    using slots Some by (simp_all add: length_split_on)
  from parse_options_correct [OF lay' room] obtain b' qs' ps rest where
    "vfi_parse_options b ?qs 0 = Val (b', qs')" "qs' = take 0 ?qs @ map Some ps @ None # rest"
    "map (cstr b') ps = map spec_option (split_on CHR '','' (cstr b p))" "lay b' (ps @ K)"
    "\<forall>x \<in> set K. cstr b' x = cstr b x" by blast
  moreover from this have "takeWhile (\<lambda>x. x \<noteq> None) qs' = map Some ps" by (simp only: takeWhile_map_Some append_Nil take_0)
  ultimately show ?thesis using Some by (simp add: lay_def)
qed

lemma spec_body_suffix: "\<exists>pre. s = pre @ spec_body s"
proof (cases "strstr s ''://''")
  case None
  then show ?thesis by (simp add: spec_body_def)
next
  case (Some k)
  then show ?thesis by (intro exI [of _ "take (k + 3) s"]) (simp add: spec_body_def)
qed

lemma str_cut_split: "str_cut c s = (x, Some r) \<Longrightarrow> s = x @ c # r"
  using split_at_first [of c s] by (auto simp: str_cut_def split: if_splits)

lemma parse_in_place_core:
  assumes s: "NUL \<notin> set s" and n: "0 < n" and b: "b = s @ replicate n NUL"
  shows "\<exists>b5 d' ret. parse_desc_in_place d b (replicate (option_slots s) None) g =
      cres_bind (select_options b5 d' g) (\<lambda>(d'', g'). Val (ret, d'', g'))
    \<and> buf d' = Some b5 \<and> desc_denotes d' (grammar s)
    \<and> (ret = 0 \<longleftrightarrow> clean_number (p_extent (grammar s)) \<and> clean_number (p_offset (grammar s)))
    \<and> options_ok d' \<and> ops d' = None \<and> address d' = None \<and> rde d' = None \<and> ploc d' = None \<and> buflen d' = buflen d"
proof -
  define nm0 where "nm0 = (case strstr (cstr b 0) ''://'' of None \<Rightarrow> 0 | Some k \<Rightarrow> k + 3)"
  have c0: "cstr b 0 = s" "c_ok b 0" using cstr_whole [OF s n] b by simp_all
  have nm0: "cstr b nm0 = spec_body s" "c_ok b nm0"
    using cstr_shift [OF c0(2), of nm0] strstr_le [of s "''://''"] c0
    by (auto simp: nm0_def spec_body_def split: option.splits)
  obtain b1 q0 where n1: "name_remainder b (Some nm0) CHR ''?'' = (b1, q0)" by fastforce
  have "lay b [nm0]" using nm0 by (simp add: lay_Cons)
  note c1 = lay_cut [OF this n1]
  obtain b2 loc0 where n2: "name_remainder b1 (Some nm0) CHR ''.'' = (b2, loc0)" by fastforce
  have "lay b1 (nm0 # opt_list q0)" using c1 by simp
  note c2 = lay_cut [OF this n2]
  obtain b3 nm loc where n3: "skip_dots b2 nm0 loc0 = (b3, nm, loc)" by (metis prod_cases3)
  have "lay b2 (nm0 # opt_list loc0 @ opt_list q0)" using c2 by blast
  note c3 = skip_dots_correct [OF this n3]
  obtain b4 se so where n4: "cut_numbers b3 nm loc = (b4, se, so)" by (metis prod_cases3)
  have "lay b3 (nm # opt_list loc @ opt_list q0)" using c3 by blast
  note c4 = cut_numbers_correct [OF this n4]
  obtain ext se' ret1 where n5: "read_number b4 nm se 0 = (ext, se', ret1)" by (metis prod_cases3)
  obtain off so' ret2 where n6: "read_number b4 nm so ret1 = (off, so', ret2)" by (metis prod_cases3)
  have lay4: "lay b4 (nm # opt_list loc @ opt_list se @ opt_list so @ opt_list q0)" using c4 by blast
  have num: "ext = number_of (map_option (cstr b4) se)" "off = number_of (map_option (cstr b4) so)"
    "ret2 = 0 \<longleftrightarrow> clean_number (map_option (cstr b4) se) \<and> clean_number (map_option (cstr b4) so)"
  proof -
    have "lay b4 (nm # opt_list se @ [])" "lay b4 (nm # opt_list so @ [])"
      using lay4 by (auto elim!: lay_subset simp: lay_def split: option.splits)
    from read_number_correct [OF this(1), of 0] read_number_correct [OF this(2), of ret1] n5 n6
    show "ext = number_of (map_option (cstr b4) se)" "off = number_of (map_option (cstr b4) so)"
      "ret2 = 0 \<longleftrightarrow> clean_number (map_option (cstr b4) se) \<and> clean_number (map_option (cstr b4) so)"
      by (auto split: if_splits)
  qed
  have qstr: "map_option (cstr b4) q0 = map_option (cstr b1) q0" using c2 c3 c4 by (cases q0) auto
  have qpre: "q0 \<noteq> None \<longrightarrow> (\<exists>pre. s = pre @ CHR ''?'' # cstr b4 (the q0))"
  proof
    assume "q0 \<noteq> None"
    then obtain q where q: "q0 = Some q" by blast
    from spec_body_suffix obtain pre where "s = pre @ spec_body s" by blast
    moreover have "spec_body s = cstr b1 nm0 @ CHR ''?'' # cstr b4 q"
      using c1 nm0 q qstr by (intro str_cut_split) simp
    ultimately show "\<exists>pre. s = pre @ CHR ''?'' # cstr b4 (the q0)"
      using q by (intro exI [of _ "pre @ cstr b1 nm0"]) (metis append.assoc option.sel)
  qed
  have lay5: "lay b4 (opt_list q0 @ nm # opt_list loc)"
    using lay4 by (auto elim!: lay_subset simp: lay_def split: option.splits)
  obtain b5 qs' where o: "vfi_parse_options b4 ((replicate (option_slots s) None)[0 := q0]) 0 = Val (b5, qs')"
    "None \<in> set qs'" "\<forall>x \<in> set (takeWhile (\<lambda>x. x \<noteq> None) qs'). c_ok b5 (the x)"
    "option_strings b5 qs' = (case q0 of None \<Rightarrow> [] | Some p \<Rightarrow> map spec_option (split_on CHR '','' (cstr b4 p)))"
    "\<forall>x \<in> set (nm # opt_list loc). cstr b5 x = cstr b4 x \<and> c_ok b5 x"
    using parse_options_array [OF lay5 qpre] by blast
  let ?d = "d\<lparr>buf := Some b5, name := Some nm, location := loc, offset := ucast off, extent := ext,
              soffset := map_option In_buf so', sextent := map_option In_buf se',
              query := Some qs', ops := None, rde := None, address := None, ploc := None\<rparr>"
  have run: "parse_desc_in_place d b (replicate (option_slots s) None) g =
      cres_bind (select_options b5 ?d g) (\<lambda>(d'', g'). Val (ret2, d'', g'))"
    unfolding parse_desc_in_place_def Let_def nm0_def [symmetric]
    by (simp add: n1 n2 n3 n4 n5 n6 o(1))
  have g1: "str_cut CHR ''?'' (spec_body s) = (cstr b1 nm0, map_option (cstr b1) q0)" using c1 nm0 by simp
  have g2: "str_cut CHR ''.'' (cstr b1 nm0) = (cstr b2 nm0, map_option (cstr b2) loc0)" using c2 by simp
  have g3: "spec_skip (cstr b2 nm0) (map_option (cstr b2) loc0) = (cstr b3 nm, map_option (cstr b3) loc)"
    using c3 by simp
  have gram: "grammar s = \<lparr>p_name = cstr b4 nm, p_location = map_option (cstr b4) loc,
     p_extent = map_option (cstr b4) se, p_offset = map_option (cstr b4) so,
     p_options = (case map_option (cstr b1) q0 of None \<Rightarrow> [] | Some x \<Rightarrow> map spec_option (split_on CHR '','' x))\<rparr>"
  proof (cases loc)
    case None
    with c4 have "spec_numbers (cstr b3 nm) = (cstr b4 nm, map_option (cstr b4) se, map_option (cstr b4) so)" by simp
    with None show ?thesis by (simp add: grammar_def g1 g2 g3)
  next
    case (Some l)
    with c4 have "spec_numbers (cstr b3 l) = (cstr b4 l, map_option (cstr b4) se, map_option (cstr b4) so)"
      "cstr b4 nm = cstr b3 nm" by simp_all
    with Some show ?thesis by (simp add: grammar_def g1 g2 g3)
  qed
  have "option_strings b5 qs' = p_options (grammar s)"
    using o(4) qstr by (cases q0) (simp_all add: gram)
  moreover have "map_option (cstr b5) loc = map_option (cstr b4) loc" using o(5) by (cases loc) auto
  ultimately have "desc_denotes ?d (grammar s)" using o num by (simp add: desc_denotes_def gram)
  moreover have "options_ok ?d" using o by (cases loc) (auto simp: options_ok_def)
  ultimately show ?thesis using run num(3)
    by (intro exI [of _ b5] exI [of _ ?d] exI [of _ ret2]) (simp add: gram)
qed

section \<open>Looking up options\<close>

text \<open>What \<open>vfi_get_option\<close> finds among the option strings: the first one that contains the needle.\<close>

fun spec_get_option :: "string list \<Rightarrow> string \<Rightarrow> string option" where
  "spec_get_option [] needle = None"
| "spec_get_option (x # xs) needle =
     (case strstr x needle of
        None \<Rightarrow> spec_get_option xs needle
      | Some k \<Rightarrow> (case strstr (drop k x) ''='' of
                    None \<Rightarrow> Some (drop k x)
                  | Some j \<Rightarrow> Some (drop (k + j + 1) x)))"

lemma option_search_correct:
  "None \<in> set qs \<Longrightarrow> \<forall>q \<in> set (takeWhile (\<lambda>q. q \<noteq> None) qs). c_ok b (the q)
    \<Longrightarrow> \<exists>r. option_search b needle qs = Val r \<and> (\<forall>i. r = Some i \<longrightarrow> c_ok b i)
        \<and> map_option (cstr b) r = spec_get_option (option_strings b qs) needle"
proof (induction b needle qs rule: option_search.induct)
  case (3 b needle p qs)
  show ?case
  proof (cases "strstr (cstr b p) needle")
    case None
    with 3 show ?thesis by (simp add: option_strings_def)
  next
    case (Some k)
    have ok: "c_ok b p" using 3(3) by simp
    have k: "k \<le> length (cstr b p)" using strstr_le [OF Some] by simp
    have pk: "cstr b (p + k) = drop k (cstr b p)" "c_ok b (p + k)" using cstr_shift [OF ok k] by simp_all
    show ?thesis
    proof (cases "strstr (drop k (cstr b p)) ''=''")
      case None
      with Some pk show ?thesis by (simp add: option_strings_def)
    next
      case (Some j)
      have "j + 1 \<le> length (cstr b (p + k))" using strstr_le [OF Some] pk by simp
      from cstr_shift [OF pk(2) this] have "cstr b (p + k + j + 1) = drop (k + j + 1) (cstr b p)" "c_ok b (p + k + (j + 1))"
        using pk by (simp_all add: add.commute add.left_commute)
      with Some \<open>strstr (cstr b p) needle = Some k\<close> pk show ?thesis by (simp add: option_strings_def)
    qed
  qed
qed (auto simp: option_strings_def)

lemma get_option_correct:
  assumes "options_ok d"
  shows "\<exists>r. vfi_get_option d needle = Val r \<and> (\<forall>i. r = Some i \<longrightarrow> c_ok (the (buf d)) i)
    \<and> map_option (cstr (the (buf d))) r = spec_get_option (option_strings (the (buf d)) (the (query d))) needle"
  using assms option_search_correct [of "the (query d)" "the (buf d)" needle]
  by (auto simp: options_ok_def vfi_get_option_def split: option.splits)

lemma option_search_total: "None \<in> set qs \<Longrightarrow> option_search b needle qs \<noteq> Undef"
  by (induction b needle qs rule: option_search.induct) (auto split: option.splits)

lemma get_option_total: "query d = Some qs \<Longrightarrow> None \<in> set qs \<Longrightarrow> buf d \<noteq> None \<Longrightarrow> vfi_get_option d n \<noteq> Undef"
  by (auto simp: vfi_get_option_def option_search_total)

lemma fabric_find_engines: "dma_engines (snd (vfi_fabric_find n g)) = dma_engines g"
  by (auto simp: vfi_fabric_find_def try_module_get_def fab_ref_def Let_def split: option.splits scan.splits)

text \<open>Selecting by options changes nothing else, and is defined when no engine sits in slot 0.\<close>

definition same_text :: "vfi_desc_param \<Rightarrow> vfi_desc_param \<Rightarrow> bool" where
  "same_text d' d \<longleftrightarrow> buf d' = buf d \<and> name d' = name d \<and> location d' = location d \<and> extent d' = extent d
     \<and> offset d' = offset d \<and> query d' = query d \<and> buflen d' = buflen d \<and> ploc d' = ploc d
     \<and> soffset d' = soffset d \<and> sextent d' = sextent d"

lemma same_text_refl [simp]: "same_text d d"
  by (simp add: same_text_def)

lemma same_text_trans: "same_text d3 d2 \<Longrightarrow> same_text d2 d1 \<Longrightarrow> same_text d3 d1"
  by (simp add: same_text_def)

lemma choose_ops_frame:
  assumes "choose_ops b d = Val d'"
  shows "same_text d' d"
proof -
  from assms obtain r where "d' = (case r of None \<Rightarrow> d
      | Some p \<Rightarrow> (case select_ops (cstr b p) of None \<Rightarrow> d | Some t \<Rightarrow> d\<lparr>ops := Some t\<rparr>))"
    unfolding choose_ops_def cres_bind_eq_Val by blast
  then show ?thesis by (cases r) (simp_all add: same_text_def split: option.split)
qed

lemma choose_fabric_frame:
  assumes "choose_fabric b d g = Val (d', g')"
  shows "same_text d' d \<and> dma_engines g' = dma_engines g"
proof -
  from assms obtain r where "(case r of None \<Rightarrow> (d, g)
      | Some p \<Rightarrow> (let (a, g') = vfi_fabric_find (Some (cstr b p)) g in (d\<lparr>address := a\<rparr>, g'))) = (d', g')"
    unfolding choose_fabric_def cres_bind_eq_Val cres.inject by blast
  then show ?thesis
    by (cases r) (auto simp: same_text_def Let_def case_prod_unfold fabric_find_engines)
qed

lemma choose_dma_frame:
  assumes "choose_dma b d g = Val (d', g')"
  shows "same_text d' d"
proof -
  from assms obtain r where r: "(case r of None \<Rightarrow> Val (d, g)
       | Some p \<Rightarrow> cres_bind (vfi_dma_find (cstr b p) g) (\<lambda>(e, g'). Val (d\<lparr>rde := e\<rparr>, g'))) = Val (d', g')"
    unfolding choose_dma_def cres_bind_eq_Val by blast
  then show ?thesis by (cases r) (auto simp: same_text_def cres_bind_eq_Val)
qed

lemma select_options_frame: "select_options b d g = Val (d', g') \<Longrightarrow> same_text d' d"
  by (auto simp: select_options_def cres_bind_eq_Val
      dest!: choose_ops_frame choose_fabric_frame choose_dma_frame intro: same_text_trans)

lemma cres_bind_Undef: "cres_bind m f = Undef \<longleftrightarrow> m = Undef \<or> (\<exists>x. m = Val x \<and> f x = Undef)"
  by (cases m) auto

definition array_ends :: "vfi_desc_param \<Rightarrow> bool" where
  "array_ends d \<longleftrightarrow> buf d \<noteq> None \<and> (case query d of None \<Rightarrow> False | Some qs \<Rightarrow> None \<in> set qs)"

lemma array_ends_same_text: "same_text d' d \<Longrightarrow> array_ends d' = array_ends d"
  by (simp add: array_ends_def same_text_def)

lemma array_ends_get_option: "array_ends d \<Longrightarrow> vfi_get_option d n \<noteq> Undef"
  by (auto simp: array_ends_def get_option_total split: option.splits)

lemma choose_ops_total: "array_ends d \<Longrightarrow> choose_ops b d \<noteq> Undef"
  by (simp add: choose_ops_def cres_bind_Undef array_ends_get_option)

lemma choose_fabric_total: "array_ends d \<Longrightarrow> choose_fabric b d g \<noteq> Undef"
  by (simp add: choose_fabric_def cres_bind_Undef array_ends_get_option)

lemma choose_dma_total: "array_ends d \<Longrightarrow> dma_engines g ! 0 = None \<Longrightarrow> choose_dma b d g \<noteq> Undef"
  by (auto simp: choose_dma_def cres_bind_Undef array_ends_get_option vfi_dma_find_def split: option.splits)

lemma select_options_total:
  assumes "array_ends d" "dma_engines g ! 0 = None"
  shows "select_options b d g \<noteq> Undef"
proof -
  obtain d1 where d1: "choose_ops b d = Val d1" using choose_ops_total [OF assms(1)] by (cases "choose_ops b d") auto
  then have a1: "array_ends d1" using assms(1) by (auto dest: choose_ops_frame simp: array_ends_same_text)
  obtain d2 g2 where d2: "choose_fabric b d1 g = Val (d2, g2)"
    using choose_fabric_total [OF a1] by (cases "choose_fabric b d1 g") auto
  then have a2: "array_ends d2" "dma_engines g2 ! 0 = None"
    using a1 assms(2) by (auto dest: choose_fabric_frame simp: array_ends_same_text)
  show ?thesis using d1 d2 choose_dma_total [OF a2] by (simp add: select_options_def)
qed

lemma desc_denotes_same_text: "same_text d' d \<Longrightarrow> desc_denotes d' p = desc_denotes d p"
  by (cases "buf d"; cases "name d"; cases "query d") (auto simp: same_text_def desc_denotes_def)

lemma desc_denotes_array_ends: "desc_denotes d p \<Longrightarrow> array_ends d"
  by (auto simp: desc_denotes_def array_ends_def split: option.splits)

text \<open>
  The operations, the fabric and the engine that a list of option strings selects, and the registries
  after the two lookups.
\<close>

definition spec_select :: "string list \<Rightarrow> registry \<Rightarrow> (ops_tab option \<times> nat option \<times> nat option \<times> registry) cres" where
  "spec_select opts g =
     (let t = (case spec_get_option opts ''default_ops'' of None \<Rightarrow> None | Some x \<Rightarrow> select_ops x);
          (a, g1) = (case spec_get_option opts ''fabric'' of None \<Rightarrow> (None, g) | Some x \<Rightarrow> vfi_fabric_find (Some x) g)
      in case spec_get_option opts ''dma_name'' of
           None \<Rightarrow> Val (t, a, None, g1)
         | Some x \<Rightarrow> cres_bind (vfi_dma_find x g1) (\<lambda>(e, g2). Val (t, a, e, g2)))"

lemma get_option_text:
  assumes "options_ok d" and "buf d = Some b" and "query d = Some qs"
  obtains r where "vfi_get_option d needle = Val r"
    and "map_option (cstr b) r = spec_get_option (option_strings b qs) needle" and "\<And>i. r = Some i \<Longrightarrow> c_ok b i"
  using get_option_correct [OF assms(1), of needle] assms by auto

lemma options_ok_update [simp]:
  "options_ok (d\<lparr>ops := t\<rparr>) = options_ok d" "options_ok (d\<lparr>address := a\<rparr>) = options_ok d"
  "options_ok (d\<lparr>rde := e\<rparr>) = options_ok d"
  by (simp_all add: options_ok_def split: option.split)

lemma select_options_correct:
  assumes ok: "options_ok d" and b: "buf d = Some b" and qs: "query d = Some qs"
    and fresh: "ops d = None" "address d = None" "rde d = None"
  shows "select_options b d g = cres_bind (spec_select (option_strings b qs) g)
           (\<lambda>(t, a, e, g'). Val (d\<lparr>ops := t, address := a, rde := e\<rparr>, g'))"
proof -
  let ?os = "option_strings b qs"
  obtain r1 where r1: "vfi_get_option d ''default_ops'' = Val r1"
    "map_option (cstr b) r1 = spec_get_option ?os ''default_ops''" using get_option_text [OF ok b qs] .
  define t where "t = (case spec_get_option ?os ''default_ops'' of None \<Rightarrow> None | Some x \<Rightarrow> select_ops x)"
  let ?d1 = "d\<lparr>ops := t\<rparr>"
  have s1: "choose_ops b d = Val ?d1"
    using fresh(1) by (cases r1; cases "select_ops (cstr b (the r1))")
      (simp_all add: choose_ops_def r1(1) t_def r1(2) [symmetric])
  obtain r2 where r2: "vfi_get_option ?d1 ''fabric'' = Val r2"
    "map_option (cstr b) r2 = spec_get_option ?os ''fabric''"
    using get_option_text [of ?d1 b qs "''fabric''"] ok b qs by auto
  obtain a g1 where ag: "(case spec_get_option ?os ''fabric'' of None \<Rightarrow> (None, g)
      | Some x \<Rightarrow> vfi_fabric_find (Some x) g) = (a, g1)" by fastforce
  let ?d2 = "?d1\<lparr>address := a\<rparr>"
  have s2: "choose_fabric b ?d1 g = Val (?d2, g1)"
    using fresh(2) ag by (cases r2) (simp_all add: choose_fabric_def r2(1) r2(2) [symmetric])
  obtain r3 where r3: "vfi_get_option ?d2 ''dma_name'' = Val r3"
    "map_option (cstr b) r3 = spec_get_option ?os ''dma_name''"
    using get_option_text [of ?d2 b qs "''dma_name''"] ok b qs by auto
  show ?thesis
    using fresh(3) by (cases r3)
      (auto simp: select_options_def spec_select_def s1 s2 choose_dma_def r3(1) r3(2) [symmetric] ag
        t_def [symmetric] cres_bind_assoc case_prod_unfold)
qed

section \<open>The parser implements the grammar\<close>

lemma text_size_room: "length s < text_size s"
  unfolding text_size_def by (metis add.commute add_mult_distrib dividend_less_div_times less_Suc_eq_le
      mult_1 nat_add_left_cancel_le plus_1_eq_Suc zero_less_numeral Suc_lessD)

lemma str_dup_accepts:
  "dup_size s \<le> 4096 \<Longrightarrow> vfi_str_dup True (Some s) =
     Some (s @ replicate (text_size s - length s) NUL, replicate (option_slots s) None, dup_size s)"
  using text_size_room [of s] by (auto simp: vfi_str_dup_def dup_size_def)

text \<open>The whole of \<open>vfi_parse_desc\<close> as the selection its options make on a parsed descriptor.\<close>

lemma parse_desc_run:
  assumes nul: "NUL \<notin> set s" and fits: "dup_size s \<le> 4096"
  obtains d' ret where
    "vfi_parse_desc True d (Some s) g = cres_bind (spec_select (p_options (grammar s)) g) (\<lambda>(t, a, e, g').
      if ret \<noteq> 0 then Val (ret, d'\<lparr>ops := t, address := a, rde := e, buf := None, buflen := 0\<rparr>, g')
      else Val (ret, d'\<lparr>ops := t, address := a, rde := e\<rparr>, g'))"
    and "ret = 0 \<longleftrightarrow> clean_number (p_extent (grammar s)) \<and> clean_number (p_offset (grammar s))"
    and "\<And>t a e. desc_denotes (d'\<lparr>ops := t, address := a, rde := e\<rparr>) (grammar s)"
    and "ploc d' = None" "buflen d' = dup_size s"
    and "\<And>t a e. options_ok (d'\<lparr>ops := t, address := a, rde := e\<rparr>)"
proof -
  let ?b = "s @ replicate (text_size s - length s) NUL" and ?sel = "spec_select (p_options (grammar s)) g"
  let ?d = "d\<lparr>buflen := dup_size s, end_slot := length (replicate (option_slots s) (None :: nat option)) - 1\<rparr>"
  have "0 < text_size s - length s" using text_size_room [of s] by simp
  from parse_in_place_core [OF nul this refl, of ?d g] obtain b5 d' ret where
    run: "parse_desc_in_place ?d ?b (replicate (option_slots s) None) g =
       cres_bind (select_options b5 d' g) (\<lambda>(d'', g'). Val (ret, d'', g'))"
    and b5: "buf d' = Some b5" and den: "desc_denotes d' (grammar s)"
    and ret: "ret = 0 \<longleftrightarrow> clean_number (p_extent (grammar s)) \<and> clean_number (p_offset (grammar s))"
    and ok: "options_ok d'" and fresh: "ops d' = None" "address d' = None" "rde d' = None"
    and rest: "ploc d' = None" "buflen d' = buflen ?d" by blast
  obtain qs where qs: "query d' = Some qs" "option_strings b5 qs = p_options (grammar s)"
    using den b5 by (auto simp: desc_denotes_def split: option.splits)
  have all: "vfi_parse_desc True d (Some s) g = cres_bind ?sel (\<lambda>(t, a, e, g').
      if ret \<noteq> 0 then Val (ret, d'\<lparr>ops := t, address := a, rde := e, buf := None, buflen := 0\<rparr>, g')
      else Val (ret, d'\<lparr>ops := t, address := a, rde := e\<rparr>, g'))"
    unfolding vfi_parse_desc_def str_dup_accepts [OF fits] option.case prod.case run
      select_options_correct [OF ok b5 qs(1) fresh] qs(2) cres_bind_assoc
    by (intro arg_cong2 [where f = cres_bind]) (auto simp: fun_eq_iff)
  have same: "desc_denotes (d'\<lparr>ops := t, address := a, rde := e\<rparr>) (grammar s)" for t a e
    using den by (subst desc_denotes_same_text [of _ d']) (simp_all add: same_text_def)
  show ?thesis using that all ret same rest ok by simp
qed

text \<open>C2: For every string that fits a page, \<open>vfi_parse_desc\<close> runs within its buffer and option array
  (its only undefined step is the engine lookup) and implements the grammar: it returns 0 exactly when
  the extent and the offset are hexadecimal to their end; then the descriptor denotes the parse of the
  string, with the operations, fabric and engine its options select. Otherwise the buffer is released.\<close>

theorem parse_desc_implements_grammar:
  assumes nul: "NUL \<notin> set s" and fits: "dup_size s \<le> 4096"
  shows "(vfi_parse_desc True d (Some s) g = Undef \<longleftrightarrow> spec_select (p_options (grammar s)) g = Undef)
    \<and> (\<forall>t a e g'. spec_select (p_options (grammar s)) g = Val (t, a, e, g') \<longrightarrow>
        (\<exists>ret d'. vfi_parse_desc True d (Some s) g = Val (ret, d', g')
          \<and> (ret = 0 \<longleftrightarrow> clean_number (p_extent (grammar s)) \<and> clean_number (p_offset (grammar s)))
          \<and> (ret = 0 \<longrightarrow> desc_denotes d' (grammar s) \<and> buflen d' = dup_size s
               \<and> ops d' = t \<and> address d' = a \<and> rde d' = e \<and> ploc d' = None)
          \<and> (ret \<noteq> 0 \<longrightarrow> buf d' = None \<and> buflen d' = 0)))"
proof -
  obtain d' ret where all: "vfi_parse_desc True d (Some s) g =
      cres_bind (spec_select (p_options (grammar s)) g) (\<lambda>(t, a, e, g').
      if ret \<noteq> 0 then Val (ret, d'\<lparr>ops := t, address := a, rde := e, buf := None, buflen := 0\<rparr>, g')
      else Val (ret, d'\<lparr>ops := t, address := a, rde := e\<rparr>, g'))"
    and rest: "ret = 0 \<longleftrightarrow> clean_number (p_extent (grammar s)) \<and> clean_number (p_offset (grammar s))"
      "\<And>t a e. desc_denotes (d'\<lparr>ops := t, address := a, rde := e\<rparr>) (grammar s)"
      "ploc d' = None" "buflen d' = dup_size s"
    by (rule parse_desc_run [OF nul fits, where d = d and g = g]) (rule that)
  show ?thesis
  proof (intro conjI allI impI)
    show "vfi_parse_desc True d (Some s) g = Undef \<longleftrightarrow> spec_select (p_options (grammar s)) g = Undef"
      unfolding all by (cases "spec_select (p_options (grammar s)) g") (auto split: if_splits)
  next
    fix t a e g'
    assume "spec_select (p_options (grammar s)) g = Val (t, a, e, g')"
    then show "\<exists>ret d'. vfi_parse_desc True d (Some s) g = Val (ret, d', g')
          \<and> (ret = 0 \<longleftrightarrow> clean_number (p_extent (grammar s)) \<and> clean_number (p_offset (grammar s)))
          \<and> (ret = 0 \<longrightarrow> desc_denotes d' (grammar s) \<and> buflen d' = dup_size s
               \<and> ops d' = t \<and> address d' = a \<and> rde d' = e \<and> ploc d' = None)
          \<and> (ret \<noteq> 0 \<longrightarrow> buf d' = None \<and> buflen d' = 0)"
      unfolding all using rest by (cases "ret = 0") simp_all
  qed
qed

theorem parse_desc_implements_grammar_witness:
  "\<exists>ret d'. vfi_parse_desc True zero_desc (Some ''ctl.loc#10:20?map(x),q'') demo_registry = Val (ret, d', demo_registry)
     \<and> ret = 0 \<and> desc_denotes d' \<lparr>p_name = ''ctl'', p_location = Some ''loc'', p_extent = Some ''20'',
                    p_offset = Some ''10'', p_options = [''map=x'', ''q'']\<rparr>"
proof -
  let ?s = "''ctl.loc#10:20?map(x),q''"
  have g: "grammar ?s = \<lparr>p_name = ''ctl'', p_location = Some ''loc'', p_extent = Some ''20'',
                    p_offset = Some ''10'', p_options = [''map=x'', ''q'']\<rparr>"
    by (simp add: grammar_simps)
  have sel: "spec_select (p_options (grammar ?s)) demo_registry = Val (None, None, None, demo_registry)"
    unfolding g by (simp add: spec_select_def)
  have cl: "clean_number (p_extent (grammar ?s))" "clean_number (p_offset (grammar ?s))"
    unfolding g by (simp_all add: clean_number_def simple_strtoul16_def hex_digit_val_def)
  have "NUL \<notin> set ?s" "dup_size ?s \<le> 4096" by (simp_all add: dup_size_def text_size_def option_slots_def)
  from parse_desc_implements_grammar [OF this, of zero_desc demo_registry] sel cl g show ?thesis
    by simp metis
qed

text \<open>A missing string, a string whose copy does not fit a page, and a failed allocation are all
  answered with \<open>-EINVAL\<close>; the descriptor keeps its fields except \<open>buflen\<close>, which becomes 0, and no
  reference is taken.\<close>

theorem parse_desc_rejects:
  assumes "desc = None \<or> (\<exists>s. desc = Some s \<and> dup_size s > 4096) \<or> \<not> mem"
  shows "vfi_parse_desc mem d desc g = Val (- EINVAL, d\<lparr>buflen := 0\<rparr>, g)"
  using assms by (auto simp: vfi_parse_desc_def vfi_str_dup_def split: option.splits)

theorem parse_desc_rejects_witness:
  "vfi_parse_desc False zero_desc (Some ''ctl.loc'') demo_registry = Val (- EINVAL, zero_desc\<lparr>buflen := 0\<rparr>, demo_registry)"
  using parse_desc_rejects [of "Some ''ctl.loc''" False zero_desc demo_registry] by simp

section \<open>Printing and parsing back\<close>

text \<open>
  The request \<open>"smb_create://%s.%s#%llx:%x"\<close> that \<open>vfi_fabric_smb_create\<close> sends to another node,
  which parses it with \<open>vfi_parse_desc\<close>.
\<close>

definition smb_create_request :: "string \<Rightarrow> string \<Rightarrow> u64 \<Rightarrow> u32 \<Rightarrow> string" where
  "smb_create_request nm l off ext =
     ''smb_create://'' @ nm @ ''.'' @ l @ ''#'' @ hex_of_nat (unat off) @ '':'' @ hex_of_nat (unat ext)"

definition plain_word :: "char set \<Rightarrow> string \<Rightarrow> bool" where
  "plain_word seps s \<longleftrightarrow> set s \<inter> (seps \<union> {CHR ''?'', CHR ''#'', CHR '':'', NUL}) = {}"

lemma str_cut_first: "c \<notin> set x \<Longrightarrow> str_cut c (x @ c # y) = (x, Some y)"
  by (simp add: str_cut_def takeWhile_append_hit dropWhile_append_hit)

lemma grammar_of_request:
  assumes nm: "plain_word {CHR ''.''} nm" "nm \<noteq> []" and l: "plain_word {} l"
  shows "grammar (smb_create_request nm l off ext) = \<lparr>p_name = nm, p_location = Some l,
     p_extent = Some (hex_of_nat (unat ext)), p_offset = Some (hex_of_nat (unat off)), p_options = []\<rparr>"
proof -
  let ?o = "hex_of_nat (unat off)" and ?e = "hex_of_nat (unat ext)"
  let ?tail = "l @ ''#'' @ ?o @ '':'' @ ?e"
  have hex: "c \<notin> set ?o \<and> c \<notin> set ?e" if "hex_digit_val c = None" for c using hex_digit_not [OF that] by blast
  have "strstr (smb_create_request nm l off ext) ''://'' = Some 10"
    by (simp add: smb_create_request_def)
  then have body: "spec_body (smb_create_request nm l off ext) = nm @ CHR ''.'' # ?tail"
    by (simp add: spec_body_def smb_create_request_def)
  have q: "str_cut CHR ''?'' (nm @ CHR ''.'' # ?tail) = (nm @ CHR ''.'' # ?tail, None)"
    using nm l hex [of "CHR ''?''"] by (intro str_cut_absent) (auto simp: plain_word_def hex_digit_val_def)
  have dot: "str_cut CHR ''.'' (nm @ CHR ''.'' # ?tail) = (nm, Some ?tail)"
    using nm by (intro str_cut_first) (auto simp: plain_word_def)
  have colon: "str_cut CHR '':'' ((l @ ''#'' @ ?o) @ CHR '':'' # ?e) = (l @ ''#'' @ ?o, Some ?e)"
    using l hex [of "CHR '':''"] by (intro str_cut_first) (auto simp: plain_word_def hex_digit_val_def)
  have hash: "str_cut CHR ''#'' (l @ CHR ''#'' # ?o) = (l, Some ?o)"
    using l by (intro str_cut_first) (auto simp: plain_word_def)
  have skip: "spec_skip nm (Some ?tail) = (nm, Some ?tail)" using nm(2) by (cases nm) (simp_all add: spec_skip_simps)
  have "spec_numbers ?tail = (l, Some ?e, Some ?o)" using colon hash by (simp add: spec_numbers_def)
  then show ?thesis using q dot skip by (simp add: grammar_def body)
qed

text \<open>C3: A request printed by \<open>vfi_fabric_smb_create\<close> parses back at the node that receives it: name,
  location and extent are those printed, and the offset is the one printed as long as it fits 32 bits;
  the upper half of a larger offset is lost, because the parser reads it with \<open>simple_strtoul\<close>.\<close>

theorem request_parses_back:
  assumes nm: "plain_word {CHR ''.''} nm" "nm \<noteq> []" and l: "plain_word {} l"
    and fits: "dup_size (smb_create_request nm l off ext) \<le> 4096"
  shows "\<exists>d' b n p. vfi_parse_desc True d (Some (smb_create_request nm l off ext)) g = Val (0, d', g)
    \<and> buf d' = Some b \<and> name d' = Some n \<and> location d' = Some p \<and> cstr b n = nm \<and> cstr b p = l
    \<and> extent d' = ext \<and> offset d' = off AND mask 32"
proof -
  let ?s = "smb_create_request nm l off ext"
  note gr = grammar_of_request [OF nm l, of off ext]
  have "NUL \<notin> set (hex_of_nat n)" for n by (rule hex_digit_not) (simp add: hex_digit_val_def)
  then have nul: "NUL \<notin> set ?s" using nm l by (auto simp: smb_create_request_def plain_word_def)
  obtain d' ret where all: "vfi_parse_desc True d (Some ?s) g = cres_bind (spec_select (p_options (grammar ?s)) g) (\<lambda>(t, a, e, g').
      if ret \<noteq> 0 then Val (ret, d'\<lparr>ops := t, address := a, rde := e, buf := None, buflen := 0\<rparr>, g')
      else Val (ret, d'\<lparr>ops := t, address := a, rde := e\<rparr>, g'))"
    and ret: "ret = 0 \<longleftrightarrow> clean_number (p_extent (grammar ?s)) \<and> clean_number (p_offset (grammar ?s))"
    and den: "\<And>t a e. desc_denotes (d'\<lparr>ops := t, address := a, rde := e\<rparr>) (grammar ?s)"
    by (rule parse_desc_run [OF nul fits, where d = d and g = g]) (rule that)
  have "spec_select (p_options (grammar ?s)) g = Val (None, None, None, g)" by (simp add: gr spec_select_def)
  moreover have "ret = 0" using ret by (simp add: gr clean_number_def strtoul_hex_of_nat)
  ultimately have run: "vfi_parse_desc True d (Some ?s) g = Val (0, d'\<lparr>ops := None, address := None, rde := None\<rparr>, g)"
    using all by simp
  have off: "ucast (ucast off :: u32) = off AND mask 32"
    by (rule bit_word_eqI) (auto simp: bit_simps)
  from den [of None None None] obtain b n where "buf d' = Some b" "name d' = Some n" "cstr b n = nm"
    "map_option (cstr b) (location d') = Some l" "extent d' = ext" "offset d' = ucast (ucast off :: u32)"
    by (auto simp: desc_denotes_def gr number_of_def strtoul_hex_of_nat split: option.splits)
  with off show ?thesis unfolding run by auto
qed

theorem request_parses_back_witness:
  "\<exists>d'. vfi_parse_desc True zero_desc (Some (smb_create_request ''b'' ''n'' (2 ^ 32 + 16) 8)) demo_registry
      = Val (0, d', demo_registry) \<and> offset d' = 16 \<and> extent d' = 8"
proof -
  have "dup_size (smb_create_request ''b'' ''n'' (2 ^ 32 + 16) 8) \<le> 4096"
    by (simp add: smb_create_request_def dup_size_def text_size_def option_slots_def hex_of_nat.simps hex_char_def)
  from request_parses_back [OF _ _ _ this, of zero_desc demo_registry] show ?thesis
    by (auto simp: plain_word_def mask_eq_exp_minus_1)
qed

section \<open>Binds\<close>

text \<open>The three strings of \<open>[op://]xfer[/dst[=src]]\<close>; a leading \<open>op://\<close> stays with the transfer.\<close>

definition spec_bind :: "string \<Rightarrow> string \<times> string option \<times> string option" where
  "spec_bind s =
     (let (x, r) = str_cut CHR ''/'' (spec_body s); pre = take (length s - length (spec_body s)) s
      in case r of
           None \<Rightarrow> (s, None, None)
         | Some y \<Rightarrow> (let (d, q) = str_cut CHR ''='' y in (pre @ x, Some d, q)))"

text \<open>Parsing one part after another, stopping at the first part that does not parse.\<close>

definition parse_part ::
  "bool \<Rightarrow> string option \<Rightarrow> (vfi_desc_param \<Rightarrow> vfi_bind_param \<Rightarrow> vfi_bind_param)
    \<Rightarrow> int \<times> vfi_bind_param \<times> registry \<Rightarrow> (int \<times> vfi_bind_param \<times> registry) cres" where
  "parse_part mem s put r =
     (case (s, r) of
        (None, _) \<Rightarrow> Val r
      | (Some t, ret, x, g) \<Rightarrow>
          if ret \<noteq> 0 then Val r
          else cres_bind (parse_into mem t g) (\<lambda>(ret, d, g'). Val (ret, put d x, g')))"

definition spec_parse_bind ::
  "bool \<times> bool \<times> bool \<Rightarrow> string \<Rightarrow> registry \<Rightarrow> (int \<times> vfi_bind_param \<times> registry) cres" where
  "spec_parse_bind mem s g =
     (let (ms, md, mx) = mem; (sx, sd, ss) = spec_bind s;
          zero = \<lparr>xfer = zero_desc, dst = zero_desc, src = zero_desc\<rparr>
      in cres_bind (parse_part ms ss (\<lambda>d x. x\<lparr>src := d\<rparr>) (0, zero, g)) (\<lambda>r1.
         cres_bind (parse_part md sd (\<lambda>d x. x\<lparr>dst := d\<rparr>) r1) (\<lambda>r2.
         parse_part mx (Some sx) (\<lambda>d x. x\<lparr>xfer := d\<rparr>) r2)))"

lemma lay_cut_tail:
  assumes ok: "c_ok b 0" and p: "p \<le> length (cstr b 0)" and nr: "name_remainder b (Some p) c = (b', r)"
  shows "(case r of
      None \<Rightarrow> b' = b \<and> str_cut c (cstr b p) = (cstr b p, None)
    | Some q \<Rightarrow> lay b' [q, 0] \<and> cstr b' 0 = take p (cstr b 0) @ fst (str_cut c (cstr b p))
        \<and> str_cut c (cstr b p) = (takeWhile (\<lambda>x. x \<noteq> c) (cstr b p), Some (cstr b' q)))"
proof (cases "c \<in> set (cstr b p)")
  case False
  with nr show ?thesis by (auto simp: name_remainder_def strchr_def str_cut_absent)
next
  case True
  let ?k = "length (takeWhile (\<lambda>x. x \<noteq> c) (cstr b p))"
  have cp: "cstr b p = drop p (cstr b 0)" using cstr_shift [OF ok, of p] p by simp
  have k: "?k < length (cstr b p)" using split_at_first [OF True]
    by (metis add_less_cancel_left length_append length_Cons less_add_same_cancel1 zero_less_Suc)
  have i: "p + ?k < length (cstr b 0)" using k p unfolding cp by simp
  have nr': "b' = b[0 + (p + ?k) := NUL]" "r = Some (Suc (p + ?k))"
    using nr True by (auto simp: name_remainder_def strchr_def)
  note w = cstr_write_NUL [OF ok i, folded nr'(1)]
  have "take (p + ?k) (cstr b 0) = take p (cstr b 0) @ take ?k (cstr b p)" by (simp add: cp take_add)
  then have c0: "cstr b' 0 = take p (cstr b 0) @ fst (str_cut c (cstr b p))"
    using w by (simp add: str_cut_def) (metis takeWhile_eq_take)
  have "cstr b' (Suc (p + ?k)) = drop (Suc ?k) (cstr b p)" using w by (simp add: cp add.commute)
  also have "\<dots> = tl (dropWhile (\<lambda>x. x \<noteq> c) (cstr b p))" by (metis dropWhile_eq_drop drop_Suc tl_drop)
  finally have c1: "cstr b' (Suc (p + ?k)) = tl (dropWhile (\<lambda>x. x \<noteq> c) (cstr b p))" .
  have "lay b' [Suc (p + ?k), 0]" using w i by (auto simp: lay_Cons)
  with c0 c1 True show ?thesis by (simp add: nr'(2) str_cut_def)
qed

text \<open>C4: \<open>vfi_parse_bind\<close>, which cuts its copy of the string in place, parses exactly the three strings
  that \<open>xfer/dst=src\<close> denotes, source first, destination next and transfer last; a part that fails to
  parse ends the parsing with its result, leaving the remaining parts cleared.\<close>

theorem parse_bind_splits:
  assumes nul: "NUL \<notin> set s" and fits: "dup_size s \<le> 4096"
  shows "vfi_parse_bind (True, ms, md, mx) (Some s) g = spec_parse_bind (ms, md, mx) s g"
proof -
  define b where "b = s @ replicate (text_size s - length s) NUL"
  have "0 < text_size s - length s" using text_size_room [of s] by simp
  then have c0: "cstr b 0 = s" "c_ok b 0" using cstr_whole [OF nul] b_def by simp_all
  define p0 where "p0 = (case strstr (cstr b 0) ''://'' of None \<Rightarrow> 0 | Some k \<Rightarrow> k + 3)"
  have p0: "p0 \<le> length s" "spec_body s = drop p0 s"
    using strstr_le [of s "''://''"] c0 by (auto simp: p0_def spec_body_def split: option.splits)
  have cp: "cstr b p0 = spec_body s" using cstr_shift [OF c0(2), of p0] p0 c0 by simp
  have pre: "take (length s - length (spec_body s)) s = take p0 s" using p0 by simp
  obtain b1 r where n1: "name_remainder b (Some p0) CHR ''/'' = (b1, r)" by fastforce
  note c1 = lay_cut_tail [OF c0(2) _ n1, unfolded c0 cp, OF p0(1)]
  note start = vfi_parse_bind_def [of "(True, ms, md, mx)" "Some s" g, unfolded str_dup_accepts [OF fits]
      Let_def prod.case option.case, folded b_def, folded p0_def, unfolded n1 prod.case]
  show ?thesis
  proof (cases r)
    case None
    with c1 have "spec_bind s = (s, None, None)" "b1 = b" by (simp_all add: spec_bind_def)
    then show ?thesis using None c0
      by (simp add: start spec_parse_bind_def parse_part_def)
  next
    case (Some p)
    with c1 have lay: "lay b1 [p, 0]" and x: "cstr b1 0 = take p0 s @ fst (str_cut CHR ''/'' (spec_body s))"
      and y: "str_cut CHR ''/'' (spec_body s) = (fst (str_cut CHR ''/'' (spec_body s)), Some (cstr b1 p))" by auto
    obtain b2 q where n2: "name_remainder b1 (Some p) CHR ''='' = (b2, q)" by fastforce
    note c2 = lay_cut [OF lay n2]
    have "spec_bind s = (cstr b2 0, Some (cstr b2 p), map_option (cstr b2) q)"
      using c2 x by (subst spec_bind_def, subst y) (auto simp: pre Let_def split: prod.splits)
    then show ?thesis
      by (cases q) (auto simp: start Some n2 spec_parse_bind_def parse_part_def cres_bind_assoc
          case_prod_unfold cong: if_cong intro!: arg_cong2 [where f = cres_bind])
  qed
qed

theorem parse_bind_splits_witness:
  "vfi_parse_bind (True, True, True, True) (Some ''x.n/d.m=s.k'') demo_registry
     = spec_parse_bind (True, True, True) ''x.n/d.m=s.k'' demo_registry
   \<and> spec_bind ''x.n/d.m=s.k'' = (''x.n'', Some ''d.m'', Some ''s.k'')"
proof
  have "NUL \<notin> set ''x.n/d.m=s.k''" "dup_size ''x.n/d.m=s.k'' \<le> 4096"
    by (simp_all add: dup_size_def text_size_def option_slots_def)
  then show "vfi_parse_bind (True, True, True, True) (Some ''x.n/d.m=s.k'') demo_registry
     = spec_parse_bind (True, True, True) ''x.n/d.m=s.k'' demo_registry" by (rule parse_bind_splits)
  show "spec_bind ''x.n/d.m=s.k'' = (''x.n'', Some ''d.m'', Some ''s.k'')"
    by (simp add: spec_bind_def spec_body_def str_cut_def)
qed

section \<open>Copies of descriptors\<close>

definition can_get :: "vfi_desc_param \<Rightarrow> registry \<Rightarrow> bool" where
  "can_get d g \<longleftrightarrow> (case address d of None \<Rightarrow> True | Some a \<Rightarrow> mod_live g (fa_owner (fabs g a)) \<and> fa_has_get (fabs g a))
     \<and> (case rde d of None \<Rightarrow> True | Some e \<Rightarrow> mod_live g (de_owner (engs g e)))"

lemmas ref_defs = put_refs_def get_refs_def vfi_fabric_get_def vfi_fabric_put_def vfi_dma_get_def vfi_dma_put_def
  vfi_location_get_def vfi_location_put_def try_module_get_def module_put_def fab_ref_def eng_ref_def

lemma put_refs_get_refs: "can_get d (reg s) \<Longrightarrow> put_refs d (get_refs d s) = s"
  by (cases "address d"; cases "rde d"; cases "ploc d") (auto simp: can_get_def ref_defs fun_eq_iff)

lemma can_get_put_refs: "can_get d (reg (put_refs n s)) = can_get d (reg s)"
  by (cases "address n"; cases "rde n"; cases "ploc n") (auto simp: can_get_def ref_defs split: option.splits)

text \<open>\<open>vfi_clone_desc\<close> makes a descriptor of the same text and numbers, in a buffer of its own:
  whatever the original denotes, the copy denotes. The references it takes are those \<open>vfi_clean_desc\<close> of
  the copy gives back. Only \<open>soffset\<close> and \<open>sextent\<close> are not carried over: the copy holds their distance
  from the old buffer as if it were an address.\<close>

theorem clone_desc_copies:
  assumes "buf old = Some b" and "buflen old \<noteq> 0" and "can_get old (reg s)"
  shows "\<exists>d' s'. vfi_clone_desc True new old s = (0, d', s')
    \<and> (\<forall>p. desc_denotes old p \<longrightarrow> desc_denotes d' p)
    \<and> vfi_clean_desc d' s' = put_refs new s
    \<and> (\<forall>i. soffset old = Some (In_buf i) \<longrightarrow> soffset d' = Some (Stray i))"
proof -
  let ?d = "old\<lparr>buf := Some b, soffset := clone_stray (soffset old), sextent := clone_stray (sextent old)\<rparr>"
  let ?s = "get_refs old (put_refs new s)"
  have "vfi_clone_desc True new old s = (0, ?d, ?s)" using assms by (simp add: vfi_clone_desc_def Let_def)
  moreover have "desc_denotes old p \<longrightarrow> desc_denotes ?d p" for p
    using assms(1) by (cases "name old"; cases "query old") (simp_all add: desc_denotes_def)
  moreover have "put_refs ?d ?s = put_refs old ?s" by (simp add: put_refs_def)
  then have "vfi_clean_desc ?d ?s = put_refs new s"
    using assms(3) by (simp add: vfi_clean_desc_def put_refs_get_refs can_get_put_refs)
  ultimately show ?thesis by (simp add: clone_stray_def)
qed

theorem clone_desc_copies_witness:
  "fst (vfi_clone_desc True zero_desc (zero_desc\<lparr>buf := Some [NUL], buflen := 8, soffset := Some (In_buf 0)\<rparr>)
      \<lparr>reg = demo_registry, loc_refs = (\<lambda>_. 0)\<rparr>) = 0"
proof -
  let ?o = "zero_desc\<lparr>buf := Some [NUL], buflen := 8, soffset := Some (In_buf 0)\<rparr>"
  have "can_get ?o (reg \<lparr>reg = demo_registry, loc_refs = (\<lambda>_. 0)\<rparr>)" by (simp add: can_get_def zero_desc_def)
  from clone_desc_copies [OF _ _ this, of "[NUL]" zero_desc] show ?thesis by auto
qed

end
