(* ===== verification/Vfi_Dma_Rio.thy ===== *)
theory Vfi_Dma_Rio
  imports Vfi_Parse Ringbuf
begin

text \<open>
  The DMA engine driver of the RapidIO platform, \<open>vfi_dma_rio.c\<close>: the hardware descriptors a transfer
  is made of and how they are chained, the four channels with their queues, the interrupt handler, the
  completion thread that hands finished transfers back through a pair of rings, load balancing and
  cancellation.

  Descriptors and transfer objects are numbered; the kernel's \<open>virt_to_phys\<close> and \<open>phys_to_virt\<close> are
  arguments of the functions that use them. A read of the channel's status register is an argument of
  the operation that reads it; writes go to the channel record. The handler, the queueing and the
  cancelling run under the channel's lock or with interrupts off, so each is one step.
\<close>

section \<open>Hardware descriptors\<close>

abbreviation DMA_ATTR_LOCAL_NOSNOOP :: u32 where "DMA_ATTR_LOCAL_NOSNOOP \<equiv> 0x00040000"
abbreviation DMA_ATTR_LOCAL_SNOOP :: u32 where "DMA_ATTR_LOCAL_SNOOP \<equiv> 0x00050000"
abbreviation DMA_ATTR_BYPASS_ATMU :: u32 where "DMA_ATTR_BYPASS_ATMU \<equiv> 0x20000000"
abbreviation DMA_ATTR_RIO :: u32 where "DMA_ATTR_RIO \<equiv> 0x00c00000"
abbreviation DMA_ATTR_HI_FLOW :: u32 where "DMA_ATTR_HI_FLOW \<equiv> 0x08000000"
abbreviation DMA_ATTR_SWRITE :: u32 where "DMA_ATTR_SWRITE \<equiv> 0x00030000"
abbreviation DMA_ATTR_NREAD :: u32 where "DMA_ATTR_NREAD \<equiv> 0x00040000"
abbreviation HIGH_LOCAL_ADDR_MASK :: u64 where "HIGH_LOCAL_ADDR_MASK \<equiv> 0xf"
abbreviation HIGH_RIO_ADDR_MASK :: u64 where "HIGH_RIO_ADDR_MASK \<equiv> 0x3"
abbreviation DMA_END_OF_CHAIN :: u32 where "DMA_END_OF_CHAIN \<equiv> 1"

definition DMA_ATTR_TID :: "u32 \<Rightarrow> u32" where
  "DMA_ATTR_TID x = push_bit 2 x"

record dma_link =
  src_attr :: u32
  saddr :: u32
  dest_attr :: u32
  daddr :: u32
  next_ext :: u32
  dl_next :: u32
  nbytes :: u32

record seg_desc =
  seg_hw :: dma_link
  seg_paddr :: u64

record dma_list =
  list_next_ext :: u32
  list_next :: u32
  link_ext :: u32
  link :: u32
  src_stride :: u32
  dest_stride :: u32

record my_xfer_object =
  xfo_hw :: dma_list
  xfo_paddr :: u64
  has_cb :: bool
  flags :: u32
  xf_len :: u32
  extra :: u32

definition vfi_is_local :: "vfi_desc_param \<Rightarrow> bool" where
  "vfi_is_local desc \<longleftrightarrow> ops desc = Some Vfi_local_ops"

definition vfi_is_bypass_atmu :: "vfi_desc_param \<Rightarrow> bool" where
  "vfi_is_bypass_atmu d \<longleftrightarrow> True"

definition vfi_rio_id :: "(nat \<Rightarrow> u32) \<Rightarrow> vfi_desc_param option \<Rightarrow> u32" where
  "vfi_rio_id get_rio_id desc =
     (case desc of None \<Rightarrow> - 1 | Some d \<Rightarrow> (case ploc d of None \<Rightarrow> - 1 | Some l \<Rightarrow> get_rio_id l))"

definition rio_to_ocn :: "u32 \<Rightarrow> u64 \<Rightarrow> u64" where
  "rio_to_ocn rid addr = 0"

text \<open>
  \<open>dma_rio_load\<close> fills in one link descriptor. \<open>d\<close> is the descriptor of the source segment
  (\<open>src->desc\<close>), \<open>dd\<close> that of its destination (\<open>src->dst->desc.dst\<close>), \<open>get_rio_id\<close> the RapidIO
  identity of a location, \<open>pa\<close> the physical address \<open>virt_to_phys\<close> gives the descriptor.
\<close>

definition load_src :: "(nat \<Rightarrow> u32) \<Rightarrow> vfi_desc_param \<Rightarrow> dma_link \<Rightarrow> dma_link" where
  "load_src get_rio_id s hw =
     (if vfi_is_local s then
        (let phys = offset s
         in hw\<lparr>saddr := ucast (phys AND 0x00000000ffffffff),
               src_attr := ucast (drop_bit 32 phys AND HIGH_LOCAL_ADDR_MASK) OR DMA_ATTR_LOCAL_SNOOP\<rparr>)
      else if vfi_is_bypass_atmu s then
        (let phys = offset s
         in hw\<lparr>saddr := ucast (phys AND 0x00000000ffffffff),
               src_attr := ucast (drop_bit 32 phys AND HIGH_RIO_ADDR_MASK)
                 OR (DMA_ATTR_BYPASS_ATMU OR DMA_ATTR_RIO OR DMA_ATTR_NREAD OR DMA_ATTR_HI_FLOW)
                 OR DMA_ATTR_TID (vfi_rio_id get_rio_id (Some s))\<rparr>)
      else
        (let phys = rio_to_ocn (vfi_rio_id get_rio_id (Some s)) (offset s)
         in hw\<lparr>saddr := ucast (phys AND 0x00000000ffffffff),
               src_attr := ucast (drop_bit 32 phys AND HIGH_LOCAL_ADDR_MASK) OR DMA_ATTR_LOCAL_NOSNOOP\<rparr>))"

definition load_dest :: "(nat \<Rightarrow> u32) \<Rightarrow> u64 \<Rightarrow> vfi_desc_param \<Rightarrow> dma_link \<Rightarrow> dma_link" where
  "load_dest get_rio_id off dd hw =
     (if vfi_is_local dd then
        hw\<lparr>daddr := ucast (off AND 0x00000000ffffffff),
           dest_attr := ucast (drop_bit 32 off AND HIGH_LOCAL_ADDR_MASK) OR DMA_ATTR_LOCAL_SNOOP\<rparr>
      else if vfi_is_bypass_atmu dd then
        hw\<lparr>daddr := ucast (off AND 0x00000000ffffffff),
           dest_attr := ucast (drop_bit 32 off AND HIGH_RIO_ADDR_MASK)
             OR (DMA_ATTR_BYPASS_ATMU OR DMA_ATTR_RIO OR DMA_ATTR_SWRITE OR DMA_ATTR_HI_FLOW)
             OR DMA_ATTR_TID (vfi_rio_id get_rio_id (Some dd))\<rparr>
      else
        (let phys = rio_to_ocn (vfi_rio_id get_rio_id (Some dd)) (offset dd)
         in hw\<lparr>daddr := ucast (phys AND 0x00000000ffffffff),
               dest_attr := ucast (drop_bit 32 phys AND HIGH_LOCAL_ADDR_MASK) OR DMA_ATTR_LOCAL_NOSNOOP\<rparr>))"

definition dma_rio_load :: "(nat \<Rightarrow> u32) \<Rightarrow> u64 \<Rightarrow> vfi_bind_param \<Rightarrow> vfi_desc_param \<Rightarrow> seg_desc \<Rightarrow> seg_desc" where
  "dma_rio_load get_rio_id pa d dd rio =
     rio\<lparr>seg_paddr := pa,
         seg_hw := (load_dest get_rio_id (offset (dst d)) dd (load_src get_rio_id (src d) (seg_hw rio)))
           \<lparr>nbytes := extent (src d), next_ext := 0, dl_next := DMA_END_OF_CHAIN\<rparr>\<rparr>"

section \<open>Chaining descriptors\<close>

text \<open>
  A \<open>dma_chain\<close> list is a list of segment numbers. Linking writes the physical address of the new
  segment, with its low five bits cleared, into the last descriptor of the chain. Reading the first
  segment of an empty list would be a read through the list head, \<open>Undef\<close>.
\<close>

definition set_next :: "nat \<Rightarrow> u64 \<Rightarrow> (nat \<Rightarrow> seg_desc) \<Rightarrow> nat \<Rightarrow> seg_desc" where
  "set_next i pa segs =
     segs(i := (segs i)\<lparr>seg_hw := (seg_hw (segs i))\<lparr>dl_next := ucast (pa AND NOT 0x1f)\<rparr>\<rparr>)"

definition dma_rio_link_src ::
  "nat list \<Rightarrow> nat \<Rightarrow> (nat \<Rightarrow> seg_desc) \<Rightarrow> nat list \<times> (nat \<Rightarrow> seg_desc)" where
  "dma_rio_link_src first second segs =
     (first @ [second],
      if first \<noteq> [] then set_next (last first) (seg_paddr (segs second)) segs else segs)"

definition dma_rio_link_dst ::
  "nat list \<Rightarrow> nat list option \<Rightarrow> (nat \<Rightarrow> seg_desc) \<Rightarrow> (nat list \<times> (nat \<Rightarrow> seg_desc)) cres" where
  "dma_rio_link_dst first srcs segs =
     (case srcs of
        None \<Rightarrow> Val (first, segs)
      | Some chain \<Rightarrow>
          if first \<noteq> [] then
            (case chain of
               [] \<Rightarrow> Undef
             | r # _ \<Rightarrow> Val (first @ chain, set_next (last first) (seg_paddr (segs r)) segs))
          else Val (first @ chain, segs))"

definition dma_rio_link_bind ::
  "u64 \<Rightarrow> nat list \<Rightarrow> vfi_bind_param \<Rightarrow> (nat \<Rightarrow> seg_desc) \<Rightarrow> my_xfer_object cres" where
  "dma_rio_link_bind pa chain d segs =
     (case chain of
        [] \<Rightarrow> Undef
      | s # _ \<Rightarrow> Val \<lparr>xfo_hw = \<lparr>list_next_ext = 0, list_next = DMA_END_OF_CHAIN, link_ext = 0,
                                link = ucast (seg_paddr (segs s)), src_stride = 0, dest_stride = 0\<rparr>,
                      xfo_paddr = pa, has_cb = True, flags = 2, xf_len = extent (src d), extra = 0\<rparr>)"

text \<open>
  How the hardware, and the dump loop of \<open>ppcdma_queue_chain\<close>, follow a chain: from the link address
  through the \<open>next\<close> fields to the end-of-chain bit. \<open>None\<close> when it does not end.
\<close>

partial_function (option) walk_chain ::
  "(u32 \<Rightarrow> nat) \<Rightarrow> (nat \<Rightarrow> seg_desc) \<Rightarrow> u32 \<Rightarrow> nat list option" where
  "walk_chain phys_to_virt segs p =
     (if p AND DMA_END_OF_CHAIN \<noteq> 0 then Some []
      else (let i = phys_to_virt (p AND 0xffffffe0)
            in Option.bind (walk_chain phys_to_virt segs (dl_next (seg_hw (segs i)))) (\<lambda>is. Some (i # is))))"

text \<open>
  Loading a bind: \<open>vfi_dst_load_srcs\<close> loads and links the segments of each destination,
  \<open>vfi_bind_load_dsts\<close> splices the destinations' chs together. An object without a DMA engine is
  passed over.
\<close>

record src_obj =
  so_seg :: nat
  so_pa :: u64
  so_desc :: vfi_bind_param

definition vfi_dst_load_srcs ::
  "(nat \<Rightarrow> u32) \<Rightarrow> vfi_desc_param \<Rightarrow> src_obj list \<Rightarrow> nat list \<times> (nat \<Rightarrow> seg_desc) \<Rightarrow> nat list \<times> (nat \<Rightarrow> seg_desc)" where
  "vfi_dst_load_srcs get_rio_id dd srcs st =
     fold (\<lambda>so (chain, segs).
        if rde (src (so_desc so)) \<noteq> None
        then dma_rio_link_src chain (so_seg so)
               (segs(so_seg so := dma_rio_load get_rio_id (so_pa so) (so_desc so) dd (segs (so_seg so))))
        else (chain, segs)) srcs st"

fun link_dsts :: "(bool \<times> nat list option) list \<Rightarrow> nat list \<Rightarrow> (nat \<Rightarrow> seg_desc) \<Rightarrow> (nat list \<times> (nat \<Rightarrow> seg_desc)) cres" where
  "link_dsts [] chain segs = Val (chain, segs)"
| "link_dsts ((has_rde, srcs) # ds) chain segs =
     (if has_rde then cres_bind (dma_rio_link_dst chain srcs segs) (\<lambda>(chain', segs'). link_dsts ds chain' segs')
      else link_dsts ds chain segs)"

definition vfi_bind_load_dsts ::
  "(bool \<times> nat list option) list \<Rightarrow> nat list \<Rightarrow> (nat \<Rightarrow> seg_desc) \<Rightarrow> (nat list \<times> (nat \<Rightarrow> seg_desc)) cres" where
  "vfi_bind_load_dsts dsts bind_chain segs =
     cres_bind (link_dsts dsts [] segs) (\<lambda>(chain, segs'). Val (chain @ bind_chain, segs'))"

section \<open>A linked chain is what the hardware walks\<close>

definition seg_at :: "(u32 \<Rightarrow> nat) \<Rightarrow> (nat \<Rightarrow> seg_desc) \<Rightarrow> nat \<Rightarrow> bool" where
  "seg_at phys_to_virt segs i \<longleftrightarrow> seg_paddr (segs i) AND 0x1f = 0 \<and> phys_to_virt (ucast (seg_paddr (segs i))) = i"

fun linked :: "(nat \<Rightarrow> seg_desc) \<Rightarrow> nat list \<Rightarrow> bool" where
  "linked segs [] = True"
| "linked segs [i] = (dl_next (seg_hw (segs i)) = DMA_END_OF_CHAIN)"
| "linked segs (i # j # is) =
     (dl_next (seg_hw (segs i)) = ucast (seg_paddr (segs j) AND NOT 0x1f) \<and> linked segs (j # is))"

lemma aligned_bits: "(x :: u64) AND 0x1f = 0 \<Longrightarrow> k < 5 \<Longrightarrow> \<not> bit x k"
proof
  assume "x AND 0x1f = 0" "k < 5" "bit x k"
  then have "bit (x AND mask 5) k" by (simp add: bit_simps)
  moreover have "(0x1f :: u64) = mask 5" by (simp add: mask_eq_exp_minus_1)
  ultimately show False using \<open>x AND 0x1f = 0\<close> by simp
qed

lemma aligned_mask: "(x :: u64) AND 0x1f = 0 \<Longrightarrow> x AND - 32 = x"
proof -
  assume "x AND 0x1f = 0"
  note lo = aligned_bits [OF this]
  have m: "(- 32 :: u64) = NOT (mask 5)" by (simp add: mask_eq_exp_minus_1)
  show "x AND - 32 = x" unfolding m by (rule bit_word_eqI) (use lo in \<open>auto simp: bit_simps\<close>)
qed

lemma aligned_low:
  assumes "(x :: u64) AND 0x1f = 0"
  shows "(ucast x :: u32) AND 1 = 0 \<and> (ucast x :: u32) AND 0xffffffe0 = ucast x"
proof -
  note lo = aligned_bits [OF assms]
  have "\<not> bit (ucast x :: u32) 0" using lo [of 0] by (simp add: bit_simps)
  then have "(ucast x :: u32) AND 1 = 0" by (simp add: and_one_eq bit_0 mod_2_eq_odd)
  moreover have hi: "(0xffffffe0 :: u32) = NOT (mask 5)" by (simp add: mask_eq_exp_minus_1)
  have "(ucast x :: u32) AND 0xffffffe0 = ucast x"
    unfolding hi by (rule bit_word_eqI) (use lo in \<open>auto simp: bit_simps\<close>)
  ultimately show ?thesis by simp
qed

lemma linked_cong:
  "(\<And>i. i \<in> set ch \<Longrightarrow> segs' i = segs i) \<Longrightarrow> linked segs' ch = linked segs ch"
  by (induction segs ch rule: linked.induct) auto

lemma set_next_paddr [simp]: "seg_paddr (set_next i pa segs j) = seg_paddr (segs j)"
  by (simp add: set_next_def)

lemma set_next_other: "j \<noteq> i \<Longrightarrow> set_next i pa segs j = segs j"
  by (simp add: set_next_def)

lemma set_next_hw [simp]: "dl_next (seg_hw (set_next i pa segs i)) = ucast (pa AND NOT 0x1f)"
  by (simp add: set_next_def)

lemma linked_append:
  "linked segs xs \<Longrightarrow> linked segs (y # ys) \<Longrightarrow> distinct (xs @ y # ys) \<Longrightarrow> xs \<noteq> []
    \<Longrightarrow> linked (set_next (last xs) (seg_paddr (segs y)) segs) (xs @ y # ys)"
proof (induction segs xs rule: linked.induct)
  case (2 segs i)
  then have "linked (set_next i (seg_paddr (segs y)) segs) (y # ys) = linked segs (y # ys)"
    by (intro linked_cong set_next_other) auto
  with 2 show ?case by simp
next
  case (3 segs i j "is")
  then have "i \<noteq> last (j # is)" by (metis distinct.simps(2) distinct_append in_set_conv_decomp last_in_set list.distinct(1) append_Cons Un_iff set_append)
  with 3 show ?case by (simp add: set_next_other)
qed simp

lemma walk_linked:
  "linked segs (i # is) \<Longrightarrow> \<forall>j \<in> set (i # is). seg_at v segs j
    \<Longrightarrow> walk_chain v segs (ucast (seg_paddr (segs i))) = Some (i # is)"
proof (induction "is" arbitrary: i)
  case Nil
  then show ?case using aligned_low [of "seg_paddr (segs i)"]
    by (subst walk_chain.simps) (simp add: seg_at_def walk_chain.simps [of v segs 1])
next
  case (Cons j js)
  then have "walk_chain v segs (ucast (seg_paddr (segs j))) = Some (j # js)" by simp
  then show ?case using Cons.prems aligned_low [of "seg_paddr (segs i)"]
    by (subst walk_chain.simps) (simp add: seg_at_def aligned_mask)
qed

lemma load_next [simp]: "dl_next (seg_hw (dma_rio_load f pa d dd rio)) = DMA_END_OF_CHAIN"
  "seg_paddr (dma_rio_load f pa d dd rio) = pa"
  by (simp_all add: dma_rio_load_def)

lemma link_src_linked:
  assumes "linked segs chain" and "distinct (chain @ [i])" and "dl_next (seg_hw (segs i)) = DMA_END_OF_CHAIN"
  shows "linked (snd (dma_rio_link_src chain i segs)) (chain @ [i])"
  using assms linked_append [of segs chain i "[]"] by (cases "chain = []") (auto simp: dma_rio_link_src_def)

lemma load_srcs_linked:
  assumes "linked segs chain" and "distinct (chain @ map so_seg srcs)" and "\<forall>so \<in> set srcs. rde (src (so_desc so)) \<noteq> None"
  shows "\<exists>segs'. vfi_dst_load_srcs f dd srcs (chain, segs) = (chain @ map so_seg srcs, segs')
    \<and> linked segs' (chain @ map so_seg srcs)
    \<and> (\<forall>so \<in> set srcs. seg_paddr (segs' (so_seg so)) = so_pa so)
    \<and> (\<forall>j. j \<notin> so_seg ` set srcs \<longrightarrow> seg_paddr (segs' j) = seg_paddr (segs j)
          \<and> (j \<notin> set chain \<longrightarrow> segs' j = segs j))"
  using assms
proof (induction srcs arbitrary: chain segs)
  case Nil
  then show ?case by (simp add: vfi_dst_load_srcs_def)
next
  case (Cons so srcs)
  let ?i = "so_seg so"
  let ?segs = "segs(?i := dma_rio_load f (so_pa so) (so_desc so) dd (segs ?i))"
  let ?segs1 = "snd (dma_rio_link_src chain ?i ?segs)"
  have "linked ?segs chain" using Cons.prems by (subst linked_cong [of chain _ segs]) auto
  then have l1: "linked ?segs1 (chain @ [?i])" using Cons.prems by (intro link_src_linked) auto
  have other: "seg_paddr (?segs1 j) = (if j = ?i then so_pa so else seg_paddr (segs j))"
    "j \<notin> set chain \<Longrightarrow> j \<noteq> ?i \<Longrightarrow> ?segs1 j = segs j" for j
    by (auto simp: dma_rio_link_src_def set_next_def)
  have step: "vfi_dst_load_srcs f dd (so # srcs) (chain, segs) = vfi_dst_load_srcs f dd srcs (chain @ [?i], ?segs1)"
    using Cons.prems(3) by (simp add: vfi_dst_load_srcs_def dma_rio_link_src_def)
  have "distinct ((chain @ [?i]) @ map so_seg srcs)" "\<forall>so \<in> set srcs. rde (src (so_desc so)) \<noteq> None"
    using Cons.prems by auto
  from Cons.IH [OF l1 this] obtain segs' where IH:
    "vfi_dst_load_srcs f dd srcs (chain @ [?i], ?segs1) = ((chain @ [?i]) @ map so_seg srcs, segs')"
    "linked segs' ((chain @ [?i]) @ map so_seg srcs)"
    "\<forall>so \<in> set srcs. seg_paddr (segs' (so_seg so)) = so_pa so"
    "\<forall>j. j \<notin> so_seg ` set srcs \<longrightarrow> seg_paddr (segs' j) = seg_paddr (?segs1 j)
          \<and> (j \<notin> set (chain @ [?i]) \<longrightarrow> segs' j = ?segs1 j)" by blast
  have "?i \<notin> so_seg ` set srcs" using Cons.prems(2) by auto
  then have "seg_paddr (segs' ?i) = so_pa so" using IH(4) other(1) [of ?i] by metis
  moreover have "j \<notin> so_seg ` set (so # srcs) \<longrightarrow> seg_paddr (segs' j) = seg_paddr (segs j)
          \<and> (j \<notin> set chain \<longrightarrow> segs' j = segs j)" for j
  proof (intro impI conjI)
    assume j: "j \<notin> so_seg ` set (so # srcs)"
    then have "j \<notin> so_seg ` set srcs" "j \<noteq> ?i" by auto
    with IH(4) show "seg_paddr (segs' j) = seg_paddr (segs j)" using other(1) [of j] by metis
    assume "j \<notin> set chain"
    with \<open>j \<noteq> ?i\<close> have "j \<notin> set (chain @ [?i])" by simp
    with IH(4) \<open>j \<notin> so_seg ` set srcs\<close> other(2) [OF \<open>j \<notin> set chain\<close> \<open>j \<noteq> ?i\<close>] show "segs' j = segs j" by metis
  qed
  ultimately show ?case unfolding step using IH(1-3) by simp
qed

lemma link_dsts_linked:
  assumes "linked segs chain" and "\<forall>c \<in> set cs. c \<noteq> [] \<and> linked segs c" and "distinct (chain @ concat cs)"
  shows "\<exists>segs'. link_dsts (map (\<lambda>c. (True, Some c)) cs) chain segs = Val (chain @ concat cs, segs')
    \<and> linked segs' (chain @ concat cs) \<and> (\<forall>j. seg_paddr (segs' j) = seg_paddr (segs j))"
  using assms
proof (induction cs arbitrary: chain segs)
  case (Cons c cs)
  obtain y ys where c: "c = y # ys" using Cons.prems(2) by (cases c) auto
  show ?case
  proof (cases "chain = []")
    case True
    have "linked segs c" "\<forall>c \<in> set cs. c \<noteq> [] \<and> linked segs c" "distinct (c @ concat cs)" using Cons.prems True by auto
    from Cons.IH [OF this] show ?thesis using True by (simp add: dma_rio_link_dst_def)
  next
    case False
    let ?segs = "set_next (last chain) (seg_paddr (segs y)) segs"
    have l: "linked ?segs (chain @ c)" using Cons.prems False unfolding c by (intro linked_append) auto
    have "last chain \<notin> set (concat cs)" using Cons.prems(3) last_in_set [OF False] by auto
    then have "linked ?segs e = linked segs e" if "e \<in> set cs" for e
      using that by (intro linked_cong set_next_other) auto
    then have "\<forall>c \<in> set cs. c \<noteq> [] \<and> linked ?segs c" using Cons.prems(2) by simp
    moreover have "distinct ((chain @ c) @ concat cs)" using Cons.prems(3) by auto
    ultimately obtain segs' where "link_dsts (map (\<lambda>c. (True, Some c)) cs) (chain @ c) ?segs = Val ((chain @ c) @ concat cs, segs')"
      "linked segs' ((chain @ c) @ concat cs)" "\<forall>j. seg_paddr (segs' j) = seg_paddr (?segs j)"
      using Cons.IH [OF l] by blast
    then show ?thesis using False c by (simp add: dma_rio_link_dst_def)
  qed
qed simp

text \<open>Loading all destinations of a bind, each from an empty chain.\<close>

fun load_all :: "(nat \<Rightarrow> u32) \<Rightarrow> (vfi_desc_param \<times> src_obj list) list \<Rightarrow> (nat \<Rightarrow> seg_desc) \<Rightarrow> nat list list \<times> (nat \<Rightarrow> seg_desc)" where
  "load_all f [] segs = ([], segs)"
| "load_all f ((dd, srcs) # ds) segs =
     (let (c, segs1) = vfi_dst_load_srcs f dd srcs ([], segs); (cs, segs2) = load_all f ds segs1 in (c # cs, segs2))"

abbreviation all_srcs :: "(vfi_desc_param \<times> src_obj list) list \<Rightarrow> src_obj list" where
  "all_srcs ds \<equiv> concat (map snd ds)"

lemma load_all_linked:
  assumes "distinct (map so_seg (all_srcs ds))" and "\<forall>so \<in> set (all_srcs ds). rde (src (so_desc so)) \<noteq> None"
  shows "\<exists>segs'. load_all f ds segs = (map (map so_seg \<circ> snd) ds, segs')
    \<and> (\<forall>d \<in> set ds. linked segs' (map so_seg (snd d)))
    \<and> (\<forall>so \<in> set (all_srcs ds). seg_paddr (segs' (so_seg so)) = so_pa so)
    \<and> (\<forall>j. j \<notin> so_seg ` set (all_srcs ds) \<longrightarrow> segs' j = segs j)"
  using assms
proof (induction ds arbitrary: segs)
  case (Cons d ds)
  obtain dd srcs where d: "d = (dd, srcs)" by fastforce
  have "distinct ([] @ map so_seg srcs)" "\<forall>so \<in> set srcs. rde (src (so_desc so)) \<noteq> None"
    using Cons.prems d by auto
  from load_srcs_linked [OF _ this, of segs f dd] obtain segs1 where
    1: "vfi_dst_load_srcs f dd srcs ([], segs) = (map so_seg srcs, segs1)" "linked segs1 (map so_seg srcs)"
      "\<forall>so \<in> set srcs. seg_paddr (segs1 (so_seg so)) = so_pa so"
      "\<forall>j. j \<notin> so_seg ` set srcs \<longrightarrow> segs1 j = segs j" by auto
  have "distinct (map so_seg (all_srcs ds))" "\<forall>so \<in> set (all_srcs ds). rde (src (so_desc so)) \<noteq> None"
    using Cons.prems by auto
  from Cons.IH [OF this, of segs1] obtain segs2 where
    2: "load_all f ds segs1 = (map (map so_seg \<circ> snd) ds, segs2)"
      "\<forall>d \<in> set ds. linked segs2 (map so_seg (snd d))"
      "\<forall>so \<in> set (all_srcs ds). seg_paddr (segs2 (so_seg so)) = so_pa so"
      "\<forall>j. j \<notin> so_seg ` set (all_srcs ds) \<longrightarrow> segs2 j = segs1 j" by blast
  have apart: "so_seg ` set srcs \<inter> so_seg ` set (all_srcs ds) = {}" using Cons.prems(1) d by auto
  then have same: "\<forall>so \<in> set srcs. segs2 (so_seg so) = segs1 (so_seg so)" using 2(4) by blast
  then have "linked segs2 (map so_seg srcs)" using 1(2) by (subst linked_cong [of _ segs2 segs1]) auto
  with 1 2 same show ?case by (simp add: d ball_Un image_Un)
qed simp

text \<open>C5: A transfer loaded from the sources of all its destinations is one hardware chain: from the link
  address of its list descriptor the controller visits exactly the loaded segments, in order, and stops
  at the end-of-chain bit; so the dump loop of \<open>ppcdma_queue_chain\<close> terminates. The segments are
  32-byte aligned, as the allocator guarantees, and \<open>phys_to_virt\<close> inverts their addresses.\<close>

theorem loaded_chain_is_walked:
  assumes dist: "distinct (map so_seg (all_srcs ds))"
    and rdes: "\<forall>so \<in> set (all_srcs ds). rde (src (so_desc so)) \<noteq> None"
    and ne: "ds \<noteq> []" "\<forall>d \<in> set ds. snd d \<noteq> []"
    and at: "\<forall>so \<in> set (all_srcs ds). so_pa so AND 0x1f = 0 \<and> phys_to_virt (ucast (so_pa so)) = so_seg so"
    and load: "load_all get_rio_id ds segs = (chs, segs1)"
  shows "\<exists>segs2 xfo. vfi_bind_load_dsts (map (\<lambda>c. (True, Some c)) chs) [] segs1 = Val (concat chs, segs2)
    \<and> dma_rio_link_bind pa (concat chs) d segs2 = Val xfo
    \<and> walk_chain phys_to_virt segs2 (link (xfo_hw xfo)) = Some (map so_seg (all_srcs ds))"
proof -
  from load_all_linked [OF dist rdes, of get_rio_id segs] load have
    c: "chs = map (map so_seg \<circ> snd) ds" and l: "\<forall>d \<in> set ds. linked segs1 (map so_seg (snd d))"
    and p: "\<forall>so \<in> set (all_srcs ds). seg_paddr (segs1 (so_seg so)) = so_pa so" by auto
  have all: "concat chs = map so_seg (all_srcs ds)" by (simp add: c map_concat comp_def)
  have "\<forall>c \<in> set chs. c \<noteq> [] \<and> linked segs1 c" using l ne(2) by (auto simp: c)
  from link_dsts_linked [of segs1 "[]", OF _ this] obtain segs2 where
    s2: "link_dsts (map (\<lambda>c. (True, Some c)) chs) [] segs1 = Val (concat chs, segs2)"
      "linked segs2 (concat chs)" "\<forall>j. seg_paddr (segs2 j) = seg_paddr (segs1 j)"
    using dist all by auto
  have "all_srcs ds \<noteq> []" using ne by (cases ds) auto
  then obtain i "is" where i: "concat chs = i # is" using all by (cases "concat chs") auto
  have "\<forall>j \<in> set (i # is). seg_at phys_to_virt segs2 j"
    using at p s2(3) unfolding i [symmetric] all by (auto simp: seg_at_def)
  with walk_linked [of segs2 i "is" phys_to_virt] s2(2) have
    "walk_chain phys_to_virt segs2 (ucast (seg_paddr (segs2 i))) = Some (i # is)" by (simp add: i)
  with s2(1) show ?thesis using i all by (simp add: vfi_bind_load_dsts_def dma_rio_link_bind_def)
qed

theorem loaded_chain_is_walked_witness:
  "\<exists>segs2 xfo. walk_chain (\<lambda>p. unat p div 32) segs2 (link (xfo_hw (xfo :: my_xfer_object))) = Some [1, 2, 3]"
proof -
  let ?d = "zero_desc\<lparr>rde := Some 0\<rparr>"
  let ?so = "\<lambda>i. \<lparr>so_seg = i, so_pa = of_nat (32 * i), so_desc = \<lparr>xfer = ?d, dst = ?d, src = ?d\<rparr>\<rparr>"
  let ?ds = "[(zero_desc, [?so 1, ?so 2]), (zero_desc, [?so 3])]"
  obtain chs segs1 where l: "load_all (\<lambda>_. 0) ?ds (\<lambda>_. undefined) = (chs, segs1)" by fastforce
  have at: "\<forall>so \<in> set (all_srcs ?ds). so_pa so AND 0x1f = 0 \<and> (\<lambda>p. unat p div 32) (ucast (so_pa so) :: u32) = so_seg so"
    by simp
  from loaded_chain_is_walked [OF _ _ _ _ at l] show ?thesis by (simp add: zero_desc_def) blast
qed

text \<open>Loading a descriptor splits each address into a 32-bit word and attribute bits without losing
  any bit the hardware can use: a local address reads back modulo \<open>2 ^ 36\<close> from the four attribute bits,
  a remote one modulo \<open>2 ^ 34\<close> from two, whatever the RapidIO identity beside them; and the segment
  carries the source's extent and ends its chain until it is linked.\<close>

theorem load_keeps_addresses:
  shows "let hw = seg_hw (dma_rio_load get_rio_id pa d dd rio) in
     (if vfi_is_local (src d)
      then push_bit 32 (ucast (src_attr hw AND 0xf)) OR ucast (saddr hw) = offset (src d) AND mask 36
      else push_bit 32 (ucast (src_attr hw AND 0x3)) OR ucast (saddr hw) = offset (src d) AND mask 34)
   \<and> (if vfi_is_local dd
      then push_bit 32 (ucast (dest_attr hw AND 0xf)) OR ucast (daddr hw) = offset (dst d) AND mask 36
      else push_bit 32 (ucast (dest_attr hw AND 0x3)) OR ucast (daddr hw) = offset (dst d) AND mask 34)
   \<and> nbytes hw = extent (src d) \<and> dl_next hw = DMA_END_OF_CHAIN"
proof -
  have m: "(0xf :: u64) = mask 4" "(0x3 :: u64) = mask 2" "(0xf :: u32) = mask 4" "(0x3 :: u32) = mask 2"
    "(0x00000000ffffffff :: u64) = mask 32" by (simp_all add: mask_eq_exp_minus_1)
  have split: "push_bit 32 (ucast ((ucast (drop_bit 32 x AND mask n) OR y :: u32) AND mask n)) OR ucast (ucast (x AND mask 32) :: u32)
      = x AND mask (32 + n)" if "y AND mask n = 0" "n \<le> 32" for x :: u64 and y :: u32 and n
  proof -
    have y: "\<not> bit y k" if "k < n" "k < 32" for k
    proof
      assume "bit y k"
      with that have "bit (y AND mask n) k" by (simp add: bit_simps)
      with \<open>y AND mask n = 0\<close> show False by simp
    qed
    show ?thesis by (rule bit_word_eqI) (use y \<open>n \<le> 32\<close> in \<open>auto simp: bit_simps\<close>)
  qed
  have tid: "(a OR DMA_ATTR_TID r) AND mask 2 = 0" if "a AND mask 2 = 0" for a r :: u32
    unfolding DMA_ATTR_TID_def bit.conj_disj_distrib2 that
    by (rule bit_word_eqI) (auto simp: bit_simps)
  have "DMA_ATTR_LOCAL_SNOOP AND mask 4 = 0"
    "(DMA_ATTR_BYPASS_ATMU OR DMA_ATTR_RIO OR DMA_ATTR_NREAD OR DMA_ATTR_HI_FLOW) AND mask 2 = 0"
    "(DMA_ATTR_BYPASS_ATMU OR DMA_ATTR_RIO OR DMA_ATTR_SWRITE OR DMA_ATTR_HI_FLOW) AND mask 2 = 0"
    by (simp_all add: mask_eq_exp_minus_1)
  then show ?thesis
    unfolding dma_rio_load_def load_src_def load_dest_def vfi_is_bypass_atmu_def Let_def m
    using split [of _ 4] split [OF tid, of _ _ ] by (auto simp: or.assoc)
qed

section \<open>Channels and events\<close>

datatype dma_state = DMA_UNINIT | DMA_IDLE | DMA_RUNNING | DMA_ERR_STOP | DMA_SHUTDOWN

abbreviation VFI_XFO_READY :: u32 where "VFI_XFO_READY \<equiv> 2"
abbreviation VFI_XFO_QUEUED :: u32 where "VFI_XFO_QUEUED \<equiv> 3"
abbreviation VFI_XFO_RUNNING :: u32 where "VFI_XFO_RUNNING \<equiv> 5"
abbreviation VFI_XFO_COMPLETE_OK :: u32 where "VFI_XFO_COMPLETE_OK \<equiv> 6"
abbreviation VFI_XFO_COMPLETE_ERROR :: u32 where "VFI_XFO_COMPLETE_ERROR \<equiv> 7"
abbreviation VFI_XFO_CANCELLED :: u32 where "VFI_XFO_CANCELLED \<equiv> 8"
abbreviation XFO_STAT_MASK :: u32 where "XFO_STAT_MASK \<equiv> 0x000000ff"
abbreviation XFO_CHAN_MASK :: u32 where "XFO_CHAN_MASK \<equiv> 0x0000ff00"
abbreviation PPCDMA_OK :: int where "PPCDMA_OK \<equiv> 1"
abbreviation PPCDMA_ERROR :: int where "PPCDMA_ERROR \<equiv> 2"
abbreviation DMA_STAT_TE :: u32 where "DMA_STAT_TE \<equiv> 0x80"
abbreviation DMA_STAT_PE :: u32 where "DMA_STAT_PE \<equiv> 0x10"
abbreviation DMA_STAT_CHAN_BUSY :: u32 where "DMA_STAT_CHAN_BUSY \<equiv> 0x4"
abbreviation DMA_STAT_LIST_INTERRUPT :: u32 where "DMA_STAT_LIST_INTERRUPT \<equiv> 0x1"
abbreviation DMA_MODE_ABORT :: u32 where "DMA_MODE_ABORT \<equiv> 0x8"
abbreviation PPC8641_DMA_NCHANS :: nat where "PPC8641_DMA_NCHANS \<equiv> 4"

text \<open>
  The status and channel bits of a transfer's flags. \<open>XFO_CHAN\<close> is the macro as written: \<open>>>\<close> binds
  tighter than \<open>&\<close>, so the mask is shifted, not the flags.
\<close>

definition XFO_STATUS :: "my_xfer_object \<Rightarrow> u32" where
  "XFO_STATUS x = flags x AND XFO_STAT_MASK"

definition XFO_CHAN :: "my_xfer_object \<Rightarrow> u32" where
  "XFO_CHAN x = flags x AND drop_bit 8 XFO_CHAN_MASK"

record ppc_dma_event =
  ev_desc :: nat
  ev_chan_num :: nat
  ev_status :: int

text \<open>
  A channel; \<open>reg_mr\<close> and \<open>reg_clsdar\<close> hold what was last written to its mode register and to the
  register that starts a list, \<open>acked\<close> what was last written to the status register.
\<close>

record ppc_dma_chan =
  ch_state :: dma_state
  op_mode :: u32
  ch_num :: nat
  dma_q :: "nat list"
  list_int :: int
  bogus_int :: int
  err_int :: int
  errors :: int
  bytes_queued :: u32
  jtotal :: u32
  jstart :: u32
  bytes_tx :: u64
  reg_mr :: u32
  reg_clsdar :: u32
  acked :: u32

text \<open>
  The engine, with the transfer objects it refers to by number. \<open>delivered\<close> lists the transfers whose
  callback has run, latest last; \<open>held\<close> is the event the completion thread works on.
\<close>

record dma_engine =
  chan :: "nat \<Rightarrow> ppc_dma_chan"
  nchans :: nat
  next_channel :: nat
  first_chan :: nat
  last_chan :: nat
  event_array :: "nat \<Rightarrow> ppc_dma_event"
  event_ring_in :: "nat ringbuf"
  event_ring_out :: "nat ringbuf"
  xfos :: "nat \<Rightarrow> my_xfer_object"
  held :: "nat option"
  delivered :: "nat list"

abbreviation upd_chan :: "nat \<Rightarrow> (ppc_dma_chan \<Rightarrow> ppc_dma_chan) \<Rightarrow> dma_engine \<Rightarrow> dma_engine" where
  "upd_chan c f s \<equiv> s\<lparr>chan := (chan s)(c := f (chan s c))\<rparr>"

abbreviation upd_xfo :: "nat \<Rightarrow> (my_xfer_object \<Rightarrow> my_xfer_object) \<Rightarrow> dma_engine \<Rightarrow> dma_engine" where
  "upd_xfo x f s \<equiv> s\<lparr>xfos := (xfos s)(x := f (xfos s x))\<rparr>"

definition chan_flags :: "ppc_dma_chan \<Rightarrow> u32 \<Rightarrow> u32" where
  "chan_flags ch st = push_bit 8 (of_nat (ch_num ch)) OR st"

section \<open>Starting, queueing, completing\<close>

definition start_dma :: "u32 \<Rightarrow> nat \<Rightarrow> nat \<Rightarrow> dma_engine \<Rightarrow> dma_engine" where
  "start_dma now c x s =
     upd_chan c (\<lambda>ch. ch\<lparr>ch_state := DMA_RUNNING, jstart := now, reg_clsdar := ucast (xfo_paddr (xfos s x))\<rparr>)
       (upd_xfo x (\<lambda>xf. xf\<lparr>flags := chan_flags (chan s c) VFI_XFO_RUNNING\<rparr>) s)"

text \<open>
  The dump loop at the start of \<open>ppcdma_queue_chain\<close> only reads; \<open>walk_chain\<close> is that loop.
\<close>

definition ppcdma_queue_chain :: "u32 \<Rightarrow> nat \<Rightarrow> nat \<Rightarrow> dma_engine \<Rightarrow> errno \<times> dma_engine" where
  "ppcdma_queue_chain now c x s =
     (if ch_state (chan s c) \<noteq> DMA_IDLE \<and> ch_state (chan s c) \<noteq> DMA_RUNNING then (- EAGAIN, s)
      else
        (let s1 = upd_chan c (\<lambda>ch. ch\<lparr>dma_q := dma_q ch @ [x], bytes_queued := bytes_queued ch + xf_len (xfos s x)\<rparr>) s
         in if ch_state (chan s1 c) = DMA_IDLE then (0, start_dma now c x s1)
            else (0, upd_xfo x (\<lambda>xf. xf\<lparr>flags := chan_flags (chan s1 c) VFI_XFO_QUEUED\<rparr>) s1)))"

text \<open>
  \<open>send_completion\<close> takes a free event from the input ring; when there is none the completion is lost.
\<close>

definition send_completion :: "nat \<Rightarrow> nat \<Rightarrow> int \<Rightarrow> dma_engine \<Rightarrow> dma_engine" where
  "send_completion c x st s =
     (case ringbuf_get (event_ring_in s) of
        (None, _) \<Rightarrow> s
      | (Some e, ring) \<Rightarrow>
          s\<lparr>event_ring_in := ring,
            event_array := (event_array s)(e := \<lparr>ev_desc = x, ev_chan_num = ch_num (chan s c), ev_status = st\<rparr>),
            event_ring_out := snd (ringbuf_put (event_ring_out s) (Some e))\<rparr>)"

text \<open>
  \<open>do_interrupt\<close> first settles the counters and the channel's state from the status register, then
  deals with the head of the queue.
\<close>

definition note_status :: "u32 \<Rightarrow> u32 \<Rightarrow> nat \<Rightarrow> dma_engine \<Rightarrow> dma_engine" where
  "note_status now status c s =
     (let te = status AND DMA_STAT_TE; pe = status AND DMA_STAT_PE;
          s1 = upd_chan c (\<lambda>ch. ch\<lparr>jtotal := jtotal ch + (now - jstart ch), acked := status\<rparr>) s;
          s2 = (if te \<noteq> 0 then upd_chan c (\<lambda>ch. ch\<lparr>ch_state := DMA_ERR_STOP, errors := errors ch + 1, err_int := err_int ch + 1\<rparr>) s1 else s1);
          s3 = (if pe \<noteq> 0 then upd_chan c (\<lambda>ch. ch\<lparr>ch_state := DMA_ERR_STOP, errors := errors ch + 1,
                                             err_int := (if te = 0 then err_int ch + 1 else err_int ch)\<rparr>) s2 else s2)
      in if status AND DMA_STAT_LIST_INTERRUPT \<noteq> 0 then upd_chan c (\<lambda>ch. ch\<lparr>list_int := list_int ch + 1\<rparr>) s3 else s3)"

definition do_interrupt :: "u32 \<Rightarrow> u32 \<Rightarrow> nat \<Rightarrow> dma_engine \<Rightarrow> dma_engine" where
  "do_interrupt now status c s =
     (let te = status AND DMA_STAT_TE; pe = status AND DMA_STAT_PE; s4 = note_status now status c s
      in case dma_q (chan s4 c) of
           [] \<Rightarrow> upd_chan c (\<lambda>ch. ch\<lparr>bogus_int := bogus_int ch + 1, ch_state := DMA_IDLE\<rparr>) s4
         | x # rest \<Rightarrow>
             (let s5 = upd_chan c (\<lambda>ch. ch\<lparr>dma_q := rest\<rparr>) s4
              in if ch_state (chan s5 c) = DMA_ERR_STOP then
                   upd_chan c (\<lambda>ch. ch\<lparr>ch_state := DMA_IDLE\<rparr>)
                     (send_completion c x PPCDMA_ERROR (upd_xfo x (\<lambda>xf. xf\<lparr>extra := te OR pe\<rparr>) s5))
                 else
                   (let s6 = send_completion c x PPCDMA_OK
                               (upd_chan c (\<lambda>ch. ch\<lparr>bytes_tx := bytes_tx ch + ucast (xf_len (xfos s5 x))\<rparr>) s5)
                    in case dma_q (chan s6 c) of
                         [] \<Rightarrow> upd_chan c (\<lambda>ch. ch\<lparr>ch_state := DMA_IDLE\<rparr>) s6
                       | y # _ \<Rightarrow> start_dma now c y s6)))"

text \<open>
  One round of \<open>dma_completion_thread\<close>, in three parts because the callback runs in the middle of it,
  with interrupts on: taking the next event and settling the transfer's flags, the callback, and
  giving the event back.
\<close>

definition completion_take :: "dma_engine \<Rightarrow> dma_engine" where
  "completion_take s =
     (case ringbuf_get (event_ring_out s) of
        (None, _) \<Rightarrow> s
      | (Some e, ring) \<Rightarrow>
          (let ev = event_array s e; x = ev_desc ev; c = ev_chan_num ev;
               s1 = upd_chan c (\<lambda>ch. ch\<lparr>bytes_queued := bytes_queued ch - xf_len (xfos s x)\<rparr>)
                      (s\<lparr>event_ring_out := ring, held := Some e\<rparr>)
           in upd_xfo x (\<lambda>xf. xf\<lparr>flags := (if ev_status ev = PPCDMA_OK then VFI_XFO_COMPLETE_OK else VFI_XFO_COMPLETE_ERROR)
                                         OR (if c < 8 then 1 else 0)\<rparr>) s1))"

definition completion_return :: "dma_engine \<Rightarrow> dma_engine" where
  "completion_return s =
     (case held s of
        None \<Rightarrow> s
      | Some e \<Rightarrow> s\<lparr>event_ring_in := snd (ringbuf_put (event_ring_in s) (Some e)), held := None\<rparr>)"

definition completion_round :: "(nat \<Rightarrow> dma_engine \<Rightarrow> dma_engine) \<Rightarrow> dma_engine \<Rightarrow> dma_engine" where
  "completion_round cb s =
     (if ringbuf_empty (event_ring_out s) then s
      else
        (let s1 = completion_take s
         in case held s1 of
              None \<Rightarrow> s1
            | Some e \<Rightarrow>
                (let x = ev_desc (event_array s1 e)
                 in completion_return
                      (if has_cb (xfos s1 x) then (cb x s1)\<lparr>delivered := delivered (cb x s1) @ [x]\<rparr> else s1))))"

section \<open>Choosing a channel, cancelling\<close>

text \<open>\<open>bytes_queued\<close> is a C \<open>int\<close>, so the comparison is signed.\<close>

fun shortest_queue :: "(nat \<Rightarrow> ppc_dma_chan) \<Rightarrow> nat list \<Rightarrow> nat \<times> u32 \<Rightarrow> nat \<times> u32" where
  "shortest_queue ch [] best = best"
| "shortest_queue ch (i # is) (avail, queue_len) =
     (if bytes_queued (ch i) <s queue_len then shortest_queue ch is (i, bytes_queued (ch i))
      else shortest_queue ch is (avail, queue_len))"

definition load_balance :: "dma_engine \<Rightarrow> nat \<times> dma_engine" where
  "load_balance s =
     (let (avail, _) = shortest_queue (chan s) [first_chan s..<Suc (last_chan s)]
                         (next_channel s, bytes_queued (chan s (next_channel s)))
      in (avail, s\<lparr>next_channel := (if avail = last_chan s then first_chan s else avail + 1)\<rparr>))"

definition dma_rio_queue_transfer :: "u32 \<Rightarrow> nat \<Rightarrow> dma_engine \<Rightarrow> errno \<times> dma_engine" where
  "dma_rio_queue_transfer now x s =
     (if nchans s = 1 then ppcdma_queue_chain now (first_chan s) x s
      else (let (c, s1) = load_balance s in ppcdma_queue_chain now c x s1))"

definition find_in_queue :: "nat list \<Rightarrow> nat \<Rightarrow> nat" where
  "find_in_queue q target =
     (if target \<in> set q then Suc (length (takeWhile (\<lambda>x. x \<noteq> target) q)) else 0)"

definition set_cancelled :: "nat \<Rightarrow> dma_engine \<Rightarrow> dma_engine" where
  "set_cancelled x s = upd_xfo x (\<lambda>xf. xf\<lparr>flags := (flags xf AND NOT XFO_STAT_MASK) OR VFI_XFO_CANCELLED\<rparr>) s"

text \<open>\<open>mr\<close>, \<open>sr1\<close> and \<open>sr2\<close> are the values the mode register and, twice, the status register read.\<close>

definition dma_rio_cancel_transfer :: "u32 \<Rightarrow> u32 \<Rightarrow> u32 \<Rightarrow> u32 \<Rightarrow> nat \<Rightarrow> dma_engine \<Rightarrow> dma_engine" where
  "dma_rio_cancel_transfer now mr sr1 sr2 x s =
     (let num = unat (XFO_CHAN (xfos s x))
      in if num < first_chan s \<or> last_chan s < num then s
         else
           (let m = find_in_queue (dma_q (chan s num)) x;
                unlink = upd_chan num (\<lambda>ch. ch\<lparr>dma_q := remove1 x (dma_q ch)\<rparr>)
            in if m = 0 then s
               else if m \<noteq> 1 then set_cancelled x (unlink s)
               else if ch_state (chan s num) \<noteq> DMA_RUNNING then set_cancelled x (unlink s)
               else
                 (let s1 = upd_chan num (\<lambda>ch. ch\<lparr>reg_mr := mr OR DMA_MODE_ABORT, ch_state := DMA_IDLE, acked := sr1\<rparr>) s;
                      s2 = set_cancelled x (upd_chan num (\<lambda>ch. ch\<lparr>dma_q := remove1 x (dma_q ch)\<rparr>) s1)
                  in case dma_q (chan s2 num) of
                       [] \<Rightarrow> s2
                     | y # _ \<Rightarrow>
                         if sr2 AND DMA_STAT_CHAN_BUSY \<noteq> 0
                         then upd_chan num (\<lambda>ch. ch\<lparr>ch_state := DMA_ERR_STOP\<rparr>) s2
                         else start_dma now num y s2)))"

section \<open>Setting up and closing\<close>

definition blank_chan :: ppc_dma_chan where
  "blank_chan = \<lparr>ch_state = DMA_UNINIT, op_mode = 0, ch_num = 0, dma_q = [], list_int = 0, bogus_int = 0,
     err_int = 0, errors = 0, bytes_queued = 0, jtotal = 0, jstart = 0, bytes_tx = 0, reg_mr = 0,
     reg_clsdar = 0, acked = 0\<rparr>"

text \<open>\<open>DMA_MODE_EXTENDED | QUICKSTART | ERR_INT_EN | LIST_INT_EN | BANDWIDTH_CONTROL\<close>.\<close>

definition vfi_op_mode :: u32 where
  "vfi_op_mode = 0x20 OR 0x10 OR 0x40 OR 0x80 OR 0x0f000000"

definition setup_vfi_channel :: "errno \<Rightarrow> nat \<Rightarrow> dma_engine \<Rightarrow> errno \<times> dma_engine" where
  "setup_vfi_channel irq_err index s =
     (if index < first_chan s then (- ELNRNG, s)
      else if index > last_chan s \<or> index > PPC8641_DMA_NCHANS then (- ELNRNG, s)
      else
        (let s1 = upd_chan index (\<lambda>_. blank_chan\<lparr>ch_num := index, op_mode := vfi_op_mode, reg_mr := vfi_op_mode\<rparr>) s
         in if irq_err \<noteq> 0 then (irq_err, upd_chan index (\<lambda>ch. ch\<lparr>ch_state := DMA_UNINIT\<rparr>) s1)
            else (0, upd_chan index (\<lambda>ch. ch\<lparr>ch_state := DMA_IDLE, dma_q := []\<rparr>) (s1\<lparr>nchans := nchans s1 + 1\<rparr>))))"

text \<open>
  \<open>dma_rio_init\<close>: \<open>fc\<close>, \<open>lc\<close> and \<open>n\<close> are the module parameters \<open>first_chan\<close>, \<open>last_chan\<close> and
  \<open>nevents\<close>; \<open>mem\<close> answers the allocations of the engine and of the two ring arrays and the creation
  of the thread. The answer for the event array itself is not checked by the code (its \<open>goto\<close> is
  commented out), so it has no place here. \<open>r\<close> is the engine's object in the registry.
\<close>

definition dma_rio_init ::
  "nat \<Rightarrow> nat \<Rightarrow> nat \<Rightarrow> bool \<times> bool \<times> bool \<times> bool \<Rightarrow> nat \<Rightarrow> (nat \<Rightarrow> my_xfer_object) \<Rightarrow> (nat \<Rightarrow> ppc_dma_event)
    \<Rightarrow> registry \<Rightarrow> errno \<times> dma_engine option \<times> registry" where
  "dma_rio_init fc lc n mem r xs evs g =
     (let (m_de, m_in, m_out, thread) = mem
      in if lc \<ge> PPC8641_DMA_NCHANS then (- EINVAL, None, g)
         else if fc > lc then (- EINVAL, None, g)
         else if \<not> m_de then (- ENOMEM, None, g)
         else if \<not> m_in then (- ENOMEM, None, g)
         else if \<not> m_out then (- ENOMEM, None, g)
         else if \<not> thread then (- ENOMEM, None, g)
         else
           (let event_in = map Some [0..<n] @ [None]; event_out = replicate (n + 1) None;
                s = \<lparr>chan = (\<lambda>_. blank_chan), nchans = 0, next_channel = fc, first_chan = fc, last_chan = lc,
                     event_array = evs,
                     event_ring_in = ringbuf_init event_in (int n + 1) True,
                     event_ring_out = ringbuf_init event_out (int n + 1) False,
                     xfos = xs, held = None, delivered = []\<rparr>;
                (err, g') = vfi_dma_register r g
            in if err = 0 then (0, Some s, g') else (err, None, g')))"

definition dma_rio_close :: "dma_engine \<Rightarrow> registry \<Rightarrow> dma_engine \<times> registry" where
  "dma_rio_close s g =
     (fold (\<lambda>i s. if ch_state (chan s i) \<noteq> DMA_UNINIT
                  then upd_chan i (\<lambda>ch. ch\<lparr>reg_mr := op_mode ch OR DMA_MODE_ABORT\<rparr>) s else s)
        [first_chan s..<Suc (last_chan s)] s,
      vfi_dma_unregister ''vfi_rio_dma'' g)"

section \<open>Events are never lost or duplicated\<close>

definition held_mset :: "dma_engine \<Rightarrow> nat option multiset" where
  "held_mset s = (case held s of None \<Rightarrow> {#} | Some e \<Rightarrow> {#Some e#})"

definition events_ok :: "nat \<Rightarrow> dma_engine \<Rightarrow> bool" where
  "events_ok n s \<longleftrightarrow> ring_ok (event_ring_in s) \<and> ring_ok (event_ring_out s)
     \<and> ring_capacity (event_ring_in s) = n \<and> ring_capacity (event_ring_out s) = n
     \<and> mset (ring_list (event_ring_in s)) + mset (ring_list (event_ring_out s)) + held_mset s
        = mset (map Some [0..<n])"

text \<open>The completions waiting for the thread, oldest first: transfer, channel, status.\<close>

definition mailbox :: "dma_engine \<Rightarrow> (nat \<times> nat \<times> int) list" where
  "mailbox s = map (\<lambda>e. let ev = event_array s (the e) in (ev_desc ev, ev_chan_num ev, ev_status ev))
     (ring_list (event_ring_out s))"

definition outstanding :: "dma_engine \<Rightarrow> nat" where
  "outstanding s = length (mailbox s) + (case held s of None \<Rightarrow> 0 | Some _ \<Rightarrow> 1)"

lemma events_ok_same_rings:
  "event_ring_in s' = event_ring_in s \<Longrightarrow> event_ring_out s' = event_ring_out s \<Longrightarrow> held s' = held s
    \<Longrightarrow> events_ok n s' = events_ok n s"
  by (simp add: events_ok_def held_mset_def)

lemma events_ok_size:
  assumes "events_ok n s"
  shows "length (ring_list (event_ring_in s)) + outstanding s = n"
proof -
  have "size (mset (ring_list (event_ring_in s)) + mset (ring_list (event_ring_out s)) + held_mset s) = n"
    using assms by (simp add: events_ok_def)
  then show ?thesis by (simp add: outstanding_def mailbox_def held_mset_def split: option.splits)
qed

lemma events_ok_in:
  assumes ok: "events_ok n s" and "ring_list (event_ring_in s) = x # xs"
  obtains e where "x = Some e" and "Some e \<notin> set (ring_list (event_ring_out s))"
proof -
  have all: "add_mset x (mset xs) + mset (ring_list (event_ring_out s)) + held_mset s = mset (map Some [0..<n])"
    using assms by (simp add: events_ok_def)
  have "x \<in># mset (map Some [0..<n])" unfolding all [symmetric] by simp
  then obtain e where e: "x = Some e" by auto
  have "count (mset (map Some [0..<n])) x \<le> 1"
    by (metis distinct_count_atmost_1 distinct_map distinct_upt inj_Some inj_on_subset le_numeral_extra(3,4) subset_UNIV
        dual_order.refl zero_le)
  then have "count (mset (ring_list (event_ring_out s))) x = 0" unfolding all [symmetric] by simp
  then show ?thesis using that e by (simp add: count_eq_zero_iff)
qed

lemma events_ok_out:
  assumes ok: "events_ok n s" and z: "z \<in> set (ring_list (event_ring_out s))"
  obtains e where "z = Some e"
proof -
  have "mset (ring_list (event_ring_in s)) + mset (ring_list (event_ring_out s)) + held_mset s = mset (map Some [0..<n])"
    using ok by (simp add: events_ok_def)
  moreover have "z \<in># mset (ring_list (event_ring_in s)) + mset (ring_list (event_ring_out s)) + held_mset s"
    using z by simp
  ultimately have "z \<in># mset (map Some [0..<n])" by metis
  then show ?thesis using that by auto
qed

lemma send_completion_empty:
  "events_ok n s \<Longrightarrow> ring_list (event_ring_in s) = [] \<Longrightarrow> send_completion c x st s = s"
  by (simp add: send_completion_def ring.get_empty events_ok_def)

lemma send_completion_room:
  assumes ok: "events_ok n s" and "outstanding s < n"
  shows "events_ok n (send_completion c x st s)
    \<and> mailbox (send_completion c x st s) = mailbox s @ [(x, ch_num (chan s c), st)]
    \<and> outstanding (send_completion c x st s) = Suc (outstanding s)"
proof -
  let ?in = "event_ring_in s" and ?out = "event_ring_out s" and ?s = "send_completion c x st s"
  have "ring_list ?in \<noteq> []" using events_ok_size [OF ok] assms(2) by (auto simp del: length_ring_list)
  then obtain y ys where y: "ring_list ?in = y # ys" by (cases "ring_list ?in") auto
  from events_ok_in [OF ok this] obtain e where e: "y = Some e" "Some e \<notin> set (ring_list ?out)" by blast
  have rok: "ring_ok ?in" "ring_ok ?out" "ring_capacity ?in = n" "ring_capacity ?out = n"
    using ok by (auto simp: events_ok_def)
  have get: "ringbuf_get ?in = (Some e, snd (ringbuf_get ?in))" "ring_list (snd (ringbuf_get ?in)) = ys"
    using ring.get_head [OF rok(1) y] e by (auto simp: prod_eq_iff)
  have "length (ring_list ?out) < ring_capacity ?out" using events_ok_size [OF ok] y rok
    by (simp add: outstanding_def mailbox_def split: option.splits)
  then have put: "ring_list (snd (ringbuf_put ?out (Some e))) = ring_list ?out @ [Some e]"
    using ring.put_room [OF rok(2)] by blast
  have s: "?s = s\<lparr>event_ring_in := snd (ringbuf_get ?in),
      event_array := (event_array s)(e := \<lparr>ev_desc = x, ev_chan_num = ch_num (chan s c), ev_status = st\<rparr>),
      event_ring_out := snd (ringbuf_put ?out (Some e))\<rparr>"
    unfolding send_completion_def by (subst get(1)) simp
  have "events_ok n ?s" using ok y e rok get(2) put
    unfolding s events_ok_def by (simp add: inv_intros held_mset_def)
  moreover have "the z \<noteq> e" if "z \<in> set (ring_list ?out)" for z
    using events_ok_out [OF ok that] e(2) that by (metis option.sel)
  then have "mailbox ?s = mailbox s @ [(x, ch_num (chan s c), st)]"
    by (simp add: s mailbox_def put Let_def)
  ultimately show ?thesis by (simp add: outstanding_def s)
qed

lemma completion_take_events:
  assumes ok: "events_ok n s" and "held s = None"
  shows "events_ok n (completion_take s) \<and> mailbox (completion_take s) = tl (mailbox s)
    \<and> (\<forall>x c st rest. mailbox s = (x, c, st) # rest \<longrightarrow>
        (\<exists>e. held (completion_take s) = Some e \<and> ev_desc (event_array s e) = x \<and> ev_chan_num (event_array s e) = c))
    \<and> (mailbox s = [] \<longrightarrow> completion_take s = s)"
proof (cases "ring_list (event_ring_out s)")
  case Nil
  then have "completion_take s = s" using ok by (simp add: completion_take_def ring.get_empty events_ok_def)
  with ok Nil show ?thesis by (simp add: mailbox_def)
next
  case (Cons y ys)
  let ?out = "event_ring_out s"
  obtain e where e: "y = Some e" using events_ok_out [OF ok, of y] Cons by auto
  have rok: "ring_ok ?out" using ok by (simp add: events_ok_def)
  have get: "ringbuf_get ?out = (Some e, snd (ringbuf_get ?out))" "ring_list (snd (ringbuf_get ?out)) = ys"
    using ring.get_head [OF rok Cons] e by (auto simp: prod_eq_iff)
  have s: "event_ring_out (completion_take s) = snd (ringbuf_get ?out)" "event_ring_in (completion_take s) = event_ring_in s"
    "held (completion_take s) = Some e" "event_array (completion_take s) = event_array s"
    unfolding completion_take_def by (subst get(1), simp add: Let_def)+
  have "events_ok n (completion_take s)" using ok Cons e rok get(2) assms(2)
    unfolding events_ok_def s by (simp add: inv_intros held_mset_def s)
  then show ?thesis using Cons e get(2) by (simp add: s mailbox_def Let_def)
qed

lemma completion_return_events:
  assumes ok: "events_ok n s"
  shows "events_ok n (completion_return s) \<and> mailbox (completion_return s) = mailbox s"
proof (cases "held s")
  case (Some e)
  let ?in = "event_ring_in s"
  have rok: "ring_ok ?in" "ring_capacity ?in = n" using ok by (auto simp: events_ok_def)
  have "length (ring_list ?in) < ring_capacity ?in"
    using events_ok_size [OF ok] Some rok by (simp add: outstanding_def)
  then have "ring_list (snd (ringbuf_put ?in (Some e))) = ring_list ?in @ [Some e]"
    using ring.put_room [OF rok(1)] by blast
  with ok Some rok show ?thesis
    by (simp add: completion_return_def events_ok_def held_mset_def mailbox_def inv_intros)
qed (use ok in \<open>simp add: completion_return_def\<close>)

section \<open>What each operation does to queues and mailbox\<close>

lemma frame_mailbox [simp]:
  "mailbox (s\<lparr>chan := f\<rparr>) = mailbox s" "mailbox (s\<lparr>xfos := g\<rparr>) = mailbox s"
  "mailbox (s\<lparr>next_channel := k\<rparr>) = mailbox s" "mailbox (s\<lparr>delivered := d\<rparr>) = mailbox s"
  "mailbox (s\<lparr>held := h\<rparr>) = mailbox s"
  by (simp_all add: mailbox_def)

lemma frame_events_ok [simp]:
  "events_ok n (s\<lparr>chan := f\<rparr>) = events_ok n s" "events_ok n (s\<lparr>xfos := g\<rparr>) = events_ok n s"
  "events_ok n (s\<lparr>next_channel := k\<rparr>) = events_ok n s" "events_ok n (s\<lparr>delivered := d\<rparr>) = events_ok n s"
  by (simp_all add: events_ok_def held_mset_def)

lemma frame_outstanding [simp]:
  "outstanding (s\<lparr>chan := f\<rparr>) = outstanding s" "outstanding (s\<lparr>xfos := g\<rparr>) = outstanding s"
  "outstanding (s\<lparr>next_channel := k\<rparr>) = outstanding s"
  by (simp_all add: outstanding_def)

lemma frame_send_completion [simp]:
  "chan (send_completion c x st s) = chan s" "xfos (send_completion c x st s) = xfos s"
  "held (send_completion c x st s) = held s" "first_chan (send_completion c x st s) = first_chan s"
  "last_chan (send_completion c x st s) = last_chan s" "nchans (send_completion c x st s) = nchans s"
  by (simp_all add: send_completion_def split: prod.split option.split)

text \<open>Two engines that agree on what the queues' bookkeeping depends on.\<close>

definition same_books :: "dma_engine \<Rightarrow> dma_engine \<Rightarrow> bool" where
  "same_books s' s \<longleftrightarrow> (\<forall>c. ch_num (chan s' c) = ch_num (chan s c) \<and> bytes_queued (chan s' c) = bytes_queued (chan s c)
       \<and> dma_q (chan s' c) = dma_q (chan s c))
     \<and> (\<forall>x. xf_len (xfos s' x) = xf_len (xfos s x)) \<and> held s' = held s \<and> mailbox s' = mailbox s"

lemma start_dma_books: "same_books (start_dma now c x s) s"
  by (simp add: same_books_def start_dma_def)

lemma start_dma_events [simp]: "events_ok n (start_dma now c x s) = events_ok n s"
  "mailbox (start_dma now c x s) = mailbox s" "held (start_dma now c x s) = held s"
  by (simp_all add: start_dma_def)

lemma note_status_other: "d \<noteq> c \<Longrightarrow> chan (note_status now status c s) d = chan s d"
  by (simp add: note_status_def Let_def)

lemma note_status_frame [simp]:
  "xfos (note_status now status c s) = xfos s" "held (note_status now status c s) = held s"
  "mailbox (note_status now status c s) = mailbox s" "outstanding (note_status now status c s) = outstanding s"
  "events_ok n (note_status now status c s) = events_ok n s"
  "dma_q (chan (note_status now status c s) d) = dma_q (chan s d)"
  "ch_num (chan (note_status now status c s) d) = ch_num (chan s d)"
  "bytes_queued (chan (note_status now status c s) d) = bytes_queued (chan s d)"
  by (simp_all add: note_status_def Let_def)

lemma note_status_state:
  "ch_state (chan (note_status now status c s) c) =
     (if status AND DMA_STAT_TE \<noteq> 0 \<or> status AND DMA_STAT_PE \<noteq> 0 then DMA_ERR_STOP else ch_state (chan s c))"
  by (simp add: note_status_def Let_def)

lemma do_interrupt_empty:
  assumes "dma_q (chan s c) = []"
  shows "same_books (do_interrupt now status c s) s \<and> events_ok n (do_interrupt now status c s) = events_ok n s"
  using assms by (simp add: do_interrupt_def same_books_def Let_def)

lemma do_interrupt_dequeues:
  assumes ok: "events_ok n s" and room: "outstanding s < n" and q: "dma_q (chan s c) = x # rest"
    and err: "err \<longleftrightarrow> status AND DMA_STAT_TE \<noteq> 0 \<or> status AND DMA_STAT_PE \<noteq> 0 \<or> ch_state (chan s c) = DMA_ERR_STOP"
  shows "events_ok n (do_interrupt now status c s)
    \<and> mailbox (do_interrupt now status c s) = mailbox s @ [(x, ch_num (chan s c), if err then PPCDMA_ERROR else PPCDMA_OK)]
    \<and> held (do_interrupt now status c s) = held s
    \<and> (\<forall>d. dma_q (chan (do_interrupt now status c s) d) = (if d = c then rest else dma_q (chan s d))
         \<and> ch_num (chan (do_interrupt now status c s) d) = ch_num (chan s d)
         \<and> bytes_queued (chan (do_interrupt now status c s) d) = bytes_queued (chan s d))
    \<and> (\<forall>y. xf_len (xfos (do_interrupt now status c s) y) = xf_len (xfos s y))"
proof -
  define s4 where "s4 = note_status now status c s"
  have s4: "same_books s4 s" "events_ok n s4" "outstanding s4 < n" "ch_state (chan s4 c) = DMA_ERR_STOP \<longleftrightarrow> err"
    using ok room err by (auto simp: s4_def same_books_def note_status_state)
  define s5 where "s5 = upd_chan c (\<lambda>ch. ch\<lparr>dma_q := rest\<rparr>) s4"
  have q4: "dma_q (chan s4 c) = x # rest" using s4(1) q by (simp add: same_books_def)
  have run: "do_interrupt now status c s =
     (if ch_state (chan s5 c) = DMA_ERR_STOP then
        upd_chan c (\<lambda>ch. ch\<lparr>ch_state := DMA_IDLE\<rparr>) (send_completion c x PPCDMA_ERROR
          (upd_xfo x (\<lambda>xf. xf\<lparr>extra := status AND DMA_STAT_TE OR status AND DMA_STAT_PE\<rparr>) s5))
      else
        (let s6 = send_completion c x PPCDMA_OK
                    (upd_chan c (\<lambda>ch. ch\<lparr>bytes_tx := bytes_tx ch + ucast (xf_len (xfos s5 x))\<rparr>) s5)
         in case dma_q (chan s6 c) of
              [] \<Rightarrow> upd_chan c (\<lambda>ch. ch\<lparr>ch_state := DMA_IDLE\<rparr>) s6
            | y # _ \<Rightarrow> start_dma now c y s6))"
    using q4 unfolding do_interrupt_def s5_def s4_def Let_def by simp
  have st: "ch_state (chan s5 c) = DMA_ERR_STOP \<longleftrightarrow> err" "outstanding s5 < n" "events_ok n s5"
    using s4 by (simp_all add: s5_def)
  show ?thesis
  proof (cases err)
    case True
    let ?s = "upd_xfo x (\<lambda>xf. xf\<lparr>extra := status AND DMA_STAT_TE OR status AND DMA_STAT_PE\<rparr>) s5"
    have "events_ok n ?s" "outstanding ?s < n" using st by simp_all
    from send_completion_room [OF this, of c x PPCDMA_ERROR] True st(1) s4(1) q show ?thesis
      unfolding run by (auto simp: s5_def same_books_def)
  next
    case False
    let ?s = "upd_chan c (\<lambda>ch. ch\<lparr>bytes_tx := bytes_tx ch + ucast (xf_len (xfos s5 x))\<rparr>) s5"
    have "events_ok n ?s" "outstanding ?s < n" using st by simp_all
    from send_completion_room [OF this, of c x PPCDMA_OK] False st(1) s4(1) q show ?thesis
      unfolding run Let_def by (cases rest) (auto simp: s5_def same_books_def start_dma_def)
  qed
qed

definition transfer_chan :: "dma_engine \<Rightarrow> nat" where
  "transfer_chan s = (if nchans s = 1 then first_chan s else fst (load_balance s))"

lemma load_balance_state: "snd (load_balance s) = s\<lparr>next_channel := next_channel (snd (load_balance s))\<rparr>"
  by (simp add: load_balance_def split: prod.split)

lemma queue_chain_books:
  assumes "ppcdma_queue_chain now c x s = (ret, s')"
  shows "events_ok n s' = events_ok n s \<and> mailbox s' = mailbox s \<and> held s' = held s
    \<and> (\<forall>y. xf_len (xfos s' y) = xf_len (xfos s y))
    \<and> (\<forall>d. ch_num (chan s' d) = ch_num (chan s d) \<and> (ch_state (chan s' d) = DMA_UNINIT \<longleftrightarrow> ch_state (chan s d) = DMA_UNINIT)
         \<and> dma_q (chan s' d) = dma_q (chan s d) @ (if ret = 0 \<and> d = c then [x] else [])
         \<and> bytes_queued (chan s' d) = bytes_queued (chan s d) + (if ret = 0 \<and> d = c then xf_len (xfos s x) else 0))
    \<and> (ret = 0 \<longrightarrow> ch_state (chan s c) \<noteq> DMA_UNINIT)"
  using assms by (auto simp: ppcdma_queue_chain_def Let_def start_dma_def split: if_splits)

lemma queue_transfer_books:
  assumes "dma_rio_queue_transfer now x s = (ret, s')"
  shows "events_ok n s' = events_ok n s \<and> mailbox s' = mailbox s \<and> held s' = held s
    \<and> (\<forall>y. xf_len (xfos s' y) = xf_len (xfos s y))
    \<and> (\<forall>d. ch_num (chan s' d) = ch_num (chan s d) \<and> (ch_state (chan s' d) = DMA_UNINIT \<longleftrightarrow> ch_state (chan s d) = DMA_UNINIT)
         \<and> dma_q (chan s' d) = dma_q (chan s d) @ (if ret = 0 \<and> d = transfer_chan s then [x] else [])
         \<and> bytes_queued (chan s' d) = bytes_queued (chan s d) + (if ret = 0 \<and> d = transfer_chan s then xf_len (xfos s x) else 0))
    \<and> (ret = 0 \<longrightarrow> ch_state (chan s (transfer_chan s)) \<noteq> DMA_UNINIT)"
proof (cases "nchans s = 1")
  case True
  with assms queue_chain_books [of now "first_chan s" x s ret s' n] show ?thesis
    by (simp add: dma_rio_queue_transfer_def transfer_chan_def)
next
  case False
  obtain k where k: "snd (load_balance s) = s\<lparr>next_channel := k\<rparr>" using load_balance_state by blast
  then have "ppcdma_queue_chain now (transfer_chan s) x (s\<lparr>next_channel := k\<rparr>) = (ret, s')"
    using assms False by (simp add: dma_rio_queue_transfer_def transfer_chan_def split: prod.splits)
  from queue_chain_books [OF this, of n] show ?thesis by simp
qed

lemma completion_take_books:
  assumes ok: "events_ok n s" and "held s = None" and mb: "mailbox s = (x, c, st) # rest"
  shows "(\<forall>d. ch_num (chan (completion_take s) d) = ch_num (chan s d) \<and> ch_state (chan (completion_take s) d) = ch_state (chan s d)
      \<and> dma_q (chan (completion_take s) d) = dma_q (chan s d)
      \<and> bytes_queued (chan (completion_take s) d) = bytes_queued (chan s d) - (if d = c then xf_len (xfos s x) else 0))
    \<and> (\<forall>y. xf_len (xfos (completion_take s) y) = xf_len (xfos s y))
    \<and> flags (xfos (completion_take s) x) = (if st = PPCDMA_OK then VFI_XFO_COMPLETE_OK else VFI_XFO_COMPLETE_ERROR) OR (if c < 8 then 1 else 0)"
proof -
  obtain y ys where y: "ring_list (event_ring_out s) = y # ys"
    and ev: "ev_desc (event_array s (the y)) = x" "ev_chan_num (event_array s (the y)) = c" "ev_status (event_array s (the y)) = st"
    using mb by (auto simp: mailbox_def Let_def)
  obtain e where e: "y = Some e" using events_ok_out [OF ok, of y] y by auto
  have "ring_ok (event_ring_out s)" using ok by (simp add: events_ok_def)
  from ring.get_head [OF this y] have get: "ringbuf_get (event_ring_out s) = (Some e, snd (ringbuf_get (event_ring_out s)))"
    using e by (simp add: prod_eq_iff)
  show ?thesis unfolding completion_take_def by (subst get, use ev e in \<open>simp add: Let_def\<close>)+
qed

lemma do_interrupt_other: "d \<noteq> c \<Longrightarrow> chan (do_interrupt now st c s) d = chan s d"
  by (simp add: do_interrupt_def Let_def start_dma_def note_status_other split: list.split)

lemma do_interrupt_state: "ch_state (chan (do_interrupt now status c s) d) = DMA_UNINIT \<Longrightarrow> d \<noteq> c \<and> ch_state (chan s d) = DMA_UNINIT"
  by (cases "d = c") (auto simp: do_interrupt_def Let_def start_dma_def note_status_other split: list.splits if_splits)

section \<open>Runs of the engine\<close>

text \<open>
  \<open>dma_run n h d s\<close>: the engine reaches \<open>s\<close> from its initialisation with \<open>n\<close> events; \<open>h\<close> lists the
  transfers the channels accepted (with the channel) and \<open>d\<close> those the completion thread took up, both
  in order. Channels are probed once; a transfer object is not queued while it is still in a queue (its
  list node is in use); at most \<open>n\<close> completions are outstanding; nothing is cancelled.
\<close>

inductive dma_run :: "nat \<Rightarrow> (nat \<times> nat) list \<Rightarrow> (nat \<times> nat) list \<Rightarrow> dma_engine \<Rightarrow> bool" for n where
  boot: "dma_rio_init fc lc n mem r xs evs g = (0, Some s, g') \<Longrightarrow> dma_run n [] [] s"
| probe: "dma_run n h d s \<Longrightarrow> ch_state (chan s i) = DMA_UNINIT \<Longrightarrow> setup_vfi_channel e i s = (ret, s') \<Longrightarrow> dma_run n h d s'"
| queue: "dma_run n h d s \<Longrightarrow> \<forall>c. x \<notin> set (dma_q (chan s c)) \<Longrightarrow> dma_rio_queue_transfer now x s = (ret, s')
    \<Longrightarrow> dma_run n (if ret = 0 then h @ [(transfer_chan s, x)] else h) d s'"
| irq: "dma_run n h d s \<Longrightarrow> ch_state (chan s c) \<noteq> DMA_UNINIT \<Longrightarrow> outstanding s < n \<Longrightarrow> dma_run n h d (do_interrupt now st c s)"
| take_event: "dma_run n h d s \<Longrightarrow> held s = None
    \<Longrightarrow> dma_run n h (d @ map (\<lambda>(x, c, _). (c, x)) (take 1 (mailbox s))) (completion_take s)"
| callback: "dma_run n h d s \<Longrightarrow> held s = Some ev \<Longrightarrow> dma_run n h d (s\<lparr>delivered := delivered s @ [x]\<rparr>)"
| give_back: "dma_run n h d s \<Longrightarrow> dma_run n h d (completion_return s)"

definition on_chan :: "nat \<Rightarrow> (nat \<times> nat) list \<Rightarrow> nat list" where
  "on_chan c h = map snd (filter (\<lambda>(c', x). c' = c) h)"

definition mail_for :: "nat \<Rightarrow> (nat \<times> nat \<times> int) list \<Rightarrow> nat list" where
  "mail_for c m = map fst (filter (\<lambda>(x, c', st). c' = c) m)"

lemma on_chan_simps [simp]: "on_chan c [] = []" "on_chan c (h @ h') = on_chan c h @ on_chan c h'"
  "on_chan c ((k, x) # h) = (if k = c then x # on_chan c h else on_chan c h)"
  by (simp_all add: on_chan_def)

lemma mail_for_simps [simp]: "mail_for c [] = []" "mail_for c (h @ h') = mail_for c h @ mail_for c h'"
  "mail_for c ((x, k, st) # h) = (if k = c then x # mail_for c h else mail_for c h)"
  by (simp_all add: mail_for_def)

definition run_inv :: "nat \<Rightarrow> (nat \<times> nat) list \<Rightarrow> (nat \<times> nat) list \<Rightarrow> dma_engine \<Rightarrow> bool" where
  "run_inv n h d s \<longleftrightarrow> events_ok n s
     \<and> (\<forall>c. on_chan c h = on_chan c d @ mail_for c (mailbox s) @ dma_q (chan s c))
     \<and> (\<forall>c. bytes_queued (chan s c) = (\<Sum>x\<leftarrow>mail_for c (mailbox s) @ dma_q (chan s c). xf_len (xfos s x)))
     \<and> (\<forall>c. if ch_state (chan s c) = DMA_UNINIT then mail_for c (mailbox s) = [] \<and> dma_q (chan s c) = []
            else ch_num (chan s c) = c)"

lemma run_inv_boot:
  assumes "dma_rio_init fc lc n mem r xs evs g = (0, Some s, g')"
  shows "run_inv n [] [] s"
proof -
  have e: "event_ring_in s = ringbuf_init (map Some [0..<n] @ [None]) (int n + 1) True"
    "event_ring_out s = ringbuf_init (replicate (n + 1) None) (int n + 1) False"
    "held s = None" "chan s = (\<lambda>_. blank_chan)"
    using assms by (auto simp: dma_rio_init_def Let_def split: prod.splits if_splits)
  have n: "nat (int n + 1) = Suc n" by simp
  have r: "ring_list (event_ring_in s) = map Some [0..<n]" "ring_list (event_ring_out s) = []"
    unfolding e by (simp_all add: ring_list_init_full ring_list_init_empty n)
  have "ring_ok (event_ring_in s)" "ring_ok (event_ring_out s)"
    unfolding e by (auto intro!: ring_ok_init simp: n)
  moreover have "ring_capacity (event_ring_in s) = n" "ring_capacity (event_ring_out s) = n"
    unfolding e by (simp_all add: ring_capacity_def ringbuf_init_def n)
  ultimately show ?thesis
    by (simp add: run_inv_def events_ok_def r e(3,4) held_mset_def mailbox_def blank_chan_def)
qed

lemma run_inv_probe:
  assumes "run_inv n h d s" and "ch_state (chan s i) = DMA_UNINIT" and "setup_vfi_channel e i s = (ret, s')"
  shows "run_inv n h d s'"
proof -
  have rings: "event_ring_in s' = event_ring_in s" "event_ring_out s' = event_ring_out s" "held s' = held s"
    "event_array s' = event_array s" "xfos s' = xfos s"
    using assms(3) by (auto simp: setup_vfi_channel_def Let_def split: if_splits)
  then have m: "mailbox s' = mailbox s" "events_ok n s' = events_ok n s"
    using events_ok_same_rings [of s' s n] by (simp_all add: mailbox_def)
  have i: "mail_for i (mailbox s) = []" "dma_q (chan s i) = []" "bytes_queued (chan s i) = 0"
    using assms(1,2) by (auto simp: run_inv_def split: if_splits)
  have other: "c \<noteq> i \<Longrightarrow> chan s' c = chan s c" for c
    using assms(3) by (auto simp: setup_vfi_channel_def Let_def split: if_splits)
  have self: "chan s' i = chan s i \<or> dma_q (chan s' i) = [] \<and> bytes_queued (chan s' i) = 0 \<and> ch_num (chan s' i) = i"
    using assms(3) by (auto simp: setup_vfi_channel_def Let_def blank_chan_def split: if_splits)
  have inv: "run_inv n h d s" by (rule assms(1))
  show ?thesis unfolding run_inv_def m rings
  proof (intro conjI allI)
    show "events_ok n s" using inv by (simp add: run_inv_def)
  next
    fix c
    show "on_chan c h = on_chan c d @ mail_for c (mailbox s) @ dma_q (chan s' c)"
      using inv other [of c] self i by (cases "c = i") (auto simp: run_inv_def)
  next
    fix c
    show "bytes_queued (chan s' c) = (\<Sum>x\<leftarrow>mail_for c (mailbox s) @ dma_q (chan s' c). xf_len (xfos s x))"
      using inv other [of c] self i by (cases "c = i") (auto simp: run_inv_def)
  next
    fix c
    show "if ch_state (chan s' c) = DMA_UNINIT then mail_for c (mailbox s) = [] \<and> dma_q (chan s' c) = []
            else ch_num (chan s' c) = c"
      using inv other [of c] self i by (cases "c = i") (auto simp: run_inv_def)
  qed
qed

lemma run_inv_queue:
  assumes inv: "run_inv n h d s" and q: "dma_rio_queue_transfer now x s = (ret, s')"
  shows "run_inv n (if ret = 0 then h @ [(transfer_chan s, x)] else h) d s'"
proof -
  note b = queue_transfer_books [OF q, of n]
  show ?thesis unfolding run_inv_def
  proof (intro conjI allI)
    show "events_ok n s'" using inv b by (simp add: run_inv_def)
  next
    fix c
    show "on_chan c (if ret = 0 then h @ [(transfer_chan s, x)] else h) = on_chan c d @ mail_for c (mailbox s') @ dma_q (chan s' c)"
      using inv b by (auto simp: run_inv_def)
  next
    fix c
    have "bytes_queued (chan s c) = (\<Sum>x\<leftarrow>mail_for c (mailbox s) @ dma_q (chan s c). xf_len (xfos s x))"
      using inv by (simp add: run_inv_def)
    then show "bytes_queued (chan s' c) = (\<Sum>x\<leftarrow>mail_for c (mailbox s') @ dma_q (chan s' c). xf_len (xfos s' x))"
      using b by (simp add: add.assoc)
  next
    fix c
    show "if ch_state (chan s' c) = DMA_UNINIT then mail_for c (mailbox s') = [] \<and> dma_q (chan s' c) = []
            else ch_num (chan s' c) = c"
      using inv b by (cases "ret = 0 \<and> c = transfer_chan s") (auto simp: run_inv_def)
  qed
qed

lemma run_inv_irq:
  assumes inv: "run_inv n h d s" and "ch_state (chan s c) \<noteq> DMA_UNINIT" and room: "outstanding s < n"
  shows "run_inv n h d (do_interrupt now st c s)"
proof -
  let ?s = "do_interrupt now st c s"
  have ok: "events_ok n s" and num: "ch_num (chan s c) = c" using inv assms(2) by (auto simp: run_inv_def)
  note un = do_interrupt_state [of now st c s]
  show ?thesis
  proof (cases "dma_q (chan s c)")
    case Nil
    note b = do_interrupt_empty [OF Nil, of now st n]
    show ?thesis unfolding run_inv_def
    proof (intro conjI allI)
      fix e
      show "if ch_state (chan ?s e) = DMA_UNINIT then mail_for e (mailbox ?s) = [] \<and> dma_q (chan ?s e) = []
            else ch_num (chan ?s e) = e"
      proof (cases "e = c")
        case False
        then have "ch_state (chan ?s e) = ch_state (chan s e)"
          by (simp add: do_interrupt_other)
        with inv b show ?thesis by (simp add: run_inv_def same_books_def)
      qed (use un [of c] b num in \<open>auto simp: same_books_def\<close>)
    qed (use inv b in \<open>simp_all add: run_inv_def same_books_def\<close>)
  next
    case (Cons x rest)
    define err where "err \<longleftrightarrow> st AND DMA_STAT_TE \<noteq> 0 \<or> st AND DMA_STAT_PE \<noteq> 0 \<or> ch_state (chan s c) = DMA_ERR_STOP"
    note b = do_interrupt_dequeues [OF ok room Cons err_def, of now]
    show ?thesis unfolding run_inv_def
    proof (intro conjI allI)
      fix e
      have "bytes_queued (chan s e) = (\<Sum>x\<leftarrow>mail_for e (mailbox s) @ dma_q (chan s e). xf_len (xfos s x))"
        using inv by (simp add: run_inv_def)
      then show "bytes_queued (chan ?s e) = (\<Sum>x\<leftarrow>mail_for e (mailbox ?s) @ dma_q (chan ?s e). xf_len (xfos ?s x))"
        using b Cons num by (cases "e = c") (simp_all add: add.assoc)
    next
      fix e
      have "on_chan e h = on_chan e d @ mail_for e (mailbox s) @ dma_q (chan s e)"
        using inv by (simp add: run_inv_def)
      then show "on_chan e h = on_chan e d @ mail_for e (mailbox ?s) @ dma_q (chan ?s e)"
        using b Cons num by (cases "e = c") simp_all
    next
      fix e
      show "if ch_state (chan ?s e) = DMA_UNINIT then mail_for e (mailbox ?s) = [] \<and> dma_q (chan ?s e) = []
            else ch_num (chan ?s e) = e"
      proof (cases "e = c")
        case False
        then have "ch_state (chan ?s e) = ch_state (chan s e)"
          by (simp add: do_interrupt_other)
        with inv b False num show ?thesis by (auto simp: run_inv_def)
      qed (use un [of c] b num in auto)
    qed (use b in simp)
  qed
qed

lemma run_inv_take:
  assumes inv: "run_inv n h d s" and "held s = None"
  shows "run_inv n h (d @ map (\<lambda>(x, c, _). (c, x)) (take 1 (mailbox s))) (completion_take s)"
proof -
  have ok: "events_ok n s" using inv by (simp add: run_inv_def)
  note t = completion_take_events [OF ok assms(2)]
  show ?thesis
  proof (cases "mailbox s")
    case Nil
    with t inv show ?thesis by simp
  next
    case (Cons m rest)
    obtain x c st where m: "m = (x, c, st)" by (cases m) auto
    note b = completion_take_books [OF ok assms(2) Cons [unfolded m]]
    have "bytes_queued (chan s e) = (\<Sum>x\<leftarrow>mail_for e (mailbox s) @ dma_q (chan s e). xf_len (xfos s x))" for e
      using inv by (simp add: run_inv_def)
    then have "bytes_queued (chan (completion_take s) e) =
        (\<Sum>x\<leftarrow>mail_for e (mailbox (completion_take s)) @ dma_q (chan (completion_take s) e). xf_len (xfos (completion_take s) x))" for e
      using b t Cons m by (cases "e = c") simp_all
    moreover have "on_chan e h = on_chan e (d @ [(c, x)]) @ mail_for e (mailbox (completion_take s)) @ dma_q (chan (completion_take s) e)" for e
      using inv t b Cons m by (cases "e = c") (simp_all add: run_inv_def)
    moreover have "if ch_state (chan (completion_take s) e) = DMA_UNINIT
        then mail_for e rest = [] \<and> dma_q (chan (completion_take s) e) = []
        else ch_num (chan (completion_take s) e) = e" for e
      using inv t b Cons m by (cases "e = c") (auto simp: run_inv_def split: if_splits)
    ultimately show ?thesis using t Cons m by (simp add: run_inv_def)
  qed
qed

lemma dma_run_inv: "dma_run n h d s \<Longrightarrow> run_inv n h d s"
proof (induction rule: dma_run.induct)
  case (give_back h d s)
  have ok: "events_ok n s" using give_back.IH by (simp add: run_inv_def)
  have "chan (completion_return s) = chan s" "xfos (completion_return s) = xfos s"
    by (simp_all add: completion_return_def split: option.split)
  with give_back.IH completion_return_events [OF ok] show ?case by (simp add: run_inv_def)
next
  case (callback h d s ev x)
  then show ?case by (simp add: run_inv_def)
next
  case (queue h d s x now ret s')
  from run_inv_queue [OF queue.IH queue.hyps(3)] show ?case .
next
  case (take_event h d s)
  from run_inv_take [OF take_event.IH take_event.hyps(2)] show ?case .
qed (rule run_inv_boot run_inv_probe run_inv_irq; assumption)+

text \<open>A small run for the examples: one channel, two events, one transfer in flight.\<close>

definition demo_xfo :: my_xfer_object where
  "demo_xfo = \<lparr>xfo_hw = \<lparr>list_next_ext = 0, list_next = 1, link_ext = 0, link = 0, src_stride = 0, dest_stride = 0\<rparr>,
     xfo_paddr = 0x40, has_cb = True, flags = 2, xf_len = 64, extra = 0\<rparr>"

definition demo_boot :: dma_engine where
  "demo_boot = the (fst (snd (dma_rio_init 0 0 2 (True, True, True, True) 1 (\<lambda>_. demo_xfo)
     (\<lambda>_. \<lparr>ev_desc = 0, ev_chan_num = 0, ev_status = 0\<rparr>) demo_registry)))"

definition demo_engine :: dma_engine where
  "demo_engine = snd (dma_rio_queue_transfer 0 7 (snd (setup_vfi_channel 0 0 demo_boot)))"

lemmas demo_defs = demo_engine_def demo_boot_def dma_rio_init_def vfi_dma_register_def demo_registry_def
  setup_vfi_channel_def blank_chan_def dma_rio_queue_transfer_def ppcdma_queue_chain_def start_dma_def Let_def

lemma demo_run: "dma_run 2 [(0, 7)] [] demo_engine"
proof -
  have b: "dma_run 2 [] [] demo_boot"
    by (rule boot [where fc = 0 and lc = 0 and mem = "(True, True, True, True)" and r = 1 and xs = "\<lambda>_. demo_xfo"
          and evs = "\<lambda>_. \<lparr>ev_desc = 0, ev_chan_num = 0, ev_status = 0\<rparr>" and g = demo_registry
          and g' = "snd (vfi_dma_register 1 demo_registry)"])
      (simp add: demo_boot_def dma_rio_init_def vfi_dma_register_def demo_registry_def Let_def)
  let ?s = "snd (setup_vfi_channel 0 0 demo_boot)"
  have p: "dma_run 2 [] [] ?s"
    by (rule probe [OF b, of 0 0 0]) (simp_all add: demo_defs)
  have "dma_run 2 (if (0 :: int) = 0 then [] @ [(transfer_chan ?s, 7)] else []) [] demo_engine"
    by (rule queue [OF p, of 7 0]) (simp_all add: demo_defs)
  moreover have "transfer_chan ?s = 0" by (simp add: demo_defs transfer_chan_def)
  ultimately show ?thesis by simp
qed

lemma demo_engine_queue: "dma_q (chan demo_engine 0) = [7]" "xf_len (xfos demo_engine 7) = 64" "mailbox demo_engine = []"
  "held demo_engine = None" "ch_num (chan demo_engine 0) = 0"
  by (simp_all add: demo_defs demo_xfo_def mailbox_def ring_list_def ring_count_def ringbuf_init_def)

section \<open>Properties of the engine\<close>







text \<open>What a channel's hardware was started on is the head of its queue, and an idle channel has none.\<close>

definition head_runs :: "dma_engine \<Rightarrow> nat \<Rightarrow> bool" where
  "head_runs s c \<longleftrightarrow>
     (case dma_q (chan s c) of
        [] \<Rightarrow> ch_state (chan s c) \<noteq> DMA_RUNNING
      | x # _ \<Rightarrow> ch_state (chan s c) = DMA_RUNNING \<and> reg_clsdar (chan s c) = ucast (xfo_paddr (xfos s x)))"

lemma head_runs_queue_chain:
  assumes "\<forall>c. head_runs s c"
  shows "head_runs (snd (ppcdma_queue_chain now d x s)) c"
proof (cases "c = d")
  case True
  then show ?thesis using assms [rule_format, of d]
    by (cases "dma_q (chan s d)") (auto simp: head_runs_def ppcdma_queue_chain_def start_dma_def Let_def)
next
  case False
  then show ?thesis using assms [rule_format, of c]
    by (cases "dma_q (chan s c)") (auto simp: head_runs_def ppcdma_queue_chain_def start_dma_def Let_def)
qed

lemma do_interrupt_paddr: "xfo_paddr (xfos (do_interrupt now st c s) x) = xfo_paddr (xfos s x)"
  by (simp add: do_interrupt_def Let_def start_dma_def split: list.split)

lemma head_runs_cong:
  "chan s' c = chan s c \<Longrightarrow> (\<And>x. xfo_paddr (xfos s' x) = xfo_paddr (xfos s x)) \<Longrightarrow> head_runs s' c = head_runs s c"
  by (cases "dma_q (chan s c)") (simp_all add: head_runs_def)

lemma head_runs_interrupt:
  assumes "\<forall>c. head_runs s c" and "st AND DMA_STAT_TE = 0" "st AND DMA_STAT_PE = 0" and "ch_state (chan s d) \<noteq> DMA_ERR_STOP"
  shows "head_runs (do_interrupt now st d s) c"
proof (cases "c = d")
  case True
  show ?thesis
  proof (cases "dma_q (chan s d)")
    case Nil
    with True assms(2,3) show ?thesis by (simp add: head_runs_def do_interrupt_def Let_def)
  next
    case (Cons x rest)
    then show ?thesis using True assms(2-4)
      by (cases rest) (simp_all add: head_runs_def do_interrupt_def Let_def start_dma_def note_status_state)
  qed
next
  case False
  then have "head_runs (do_interrupt now st d s) c = head_runs s c"
    by (intro head_runs_cong) (simp_all add: do_interrupt_other do_interrupt_paddr)
  with assms(1) show ?thesis by simp
qed

text \<open>C9: While no error occurs, the controller of every channel works on the head of its queue: queueing a
  transfer and taking a completion interrupt both preserve that a non-empty queue means a running channel
  whose list register holds the address of the head, and that a channel with an empty queue is not running.\<close>

theorem controller_runs_the_head:
  assumes "\<forall>c. head_runs s c"
  shows "(\<forall>c. head_runs (snd (dma_rio_queue_transfer now x s)) c)
    \<and> (\<forall>st d. st AND DMA_STAT_TE = 0 \<and> st AND DMA_STAT_PE = 0 \<and> ch_state (chan s d) \<noteq> DMA_ERR_STOP
         \<longrightarrow> (\<forall>c. head_runs (do_interrupt now st d s) c))
    \<and> (\<forall>c. head_runs (completion_take s) c) \<and> (\<forall>c. head_runs (completion_return s) c)"
proof (intro conjI allI impI)
  fix c
  obtain k where k: "snd (load_balance s) = s\<lparr>next_channel := k\<rparr>" using load_balance_state by blast
  have "\<forall>c. head_runs (s\<lparr>next_channel := k\<rparr>) c"
    using assms head_runs_cong [of "s\<lparr>next_channel := k\<rparr>" _ s] by simp
  then show "head_runs (snd (dma_rio_queue_transfer now x s)) c"
    using head_runs_queue_chain [OF assms] head_runs_queue_chain k
    by (auto simp: dma_rio_queue_transfer_def split: prod.split)
next
  fix c
  show "head_runs (completion_take s) c" using assms [rule_format, of c]
    by (auto simp: head_runs_def completion_take_def Let_def split: prod.split option.split list.splits)
  show "head_runs (completion_return s) c" using assms [rule_format, of c]
    by (subst head_runs_cong [of _ _ s]) (simp_all add: completion_return_def split: option.split)
qed (use assms in \<open>simp add: head_runs_interrupt\<close>)

theorem controller_runs_the_head_witness:
  "head_runs (snd (dma_rio_queue_transfer 5 9 (snd (setup_vfi_channel 0 0 demo_boot)))) 0"
proof -
  have "\<forall>c. head_runs (snd (setup_vfi_channel 0 0 demo_boot)) c" by (simp add: head_runs_def demo_defs)
  from controller_runs_the_head [OF this, of 5 9] show ?thesis by blast
qed

text \<open>After an error interrupt the queue and the controller come apart. The handler marks the channel
  idle without starting the next transfer \<open>y\<close>, so the next transfer queued, \<open>z\<close>, is started in its place;
  and the interrupt that ends \<open>z\<close> completes \<open>y\<close>, with success, though \<open>y\<close> never ran.\<close>

theorem error_completes_the_wrong_transfer:
  assumes q: "dma_q (chan s c) = x # y # rest" and te: "st AND DMA_STAT_TE \<noteq> 0"
    and ok: "events_ok n s" and room: "Suc (outstanding s) < n"
    and s1: "s1 = do_interrupt now st c s" and s2: "s2 = snd (ppcdma_queue_chain now' c z s1)"
  shows "ch_state (chan s1 c) = DMA_IDLE \<and> dma_q (chan s1 c) = y # rest
    \<and> dma_q (chan s2 c) = y # rest @ [z] \<and> ch_state (chan s2 c) = DMA_RUNNING
    \<and> reg_clsdar (chan s2 c) = ucast (xfo_paddr (xfos s2 z))
    \<and> mailbox (do_interrupt now'' 1 c s2) = mailbox s @ [(x, ch_num (chan s c), PPCDMA_ERROR), (y, ch_num (chan s c), PPCDMA_OK)]"
proof -
  have "outstanding s < n" using room by simp
  note d1 = do_interrupt_dequeues [OF ok this q refl, of now st, folded s1]
  have idle: "ch_state (chan s1 c) = DMA_IDLE"
    using q te by (simp add: s1 do_interrupt_def Let_def note_status_state)
  then have run: "ppcdma_queue_chain now' c z s1 = (0, s2)"
    by (simp add: s2 ppcdma_queue_chain_def Let_def)
  from queue_chain_books [OF run, of n] d1 te have b: "events_ok n s2" "dma_q (chan s2 c) = y # rest @ [z]"
    "mailbox s2 = mailbox s @ [(x, ch_num (chan s c), PPCDMA_ERROR)]" "held s2 = held s" "ch_num (chan s2 c) = ch_num (chan s c)"
    by auto
  have hw: "ch_state (chan s2 c) = DMA_RUNNING" "reg_clsdar (chan s2 c) = ucast (xfo_paddr (xfos s2 z))"
    using idle by (simp_all add: s2 ppcdma_queue_chain_def Let_def start_dma_def)
  have "outstanding s2 < n" using b room by (simp add: outstanding_def)
  from do_interrupt_dequeues [OF b(1) this b(2) refl, of now'' 1] hw(1) b idle d1 hw show ?thesis by simp
qed

theorem error_completes_the_wrong_transfer_witness:
  "\<exists>s. dma_q (chan s 0) = [7, 8] \<and>
     mailbox (do_interrupt 3 1 0 (snd (ppcdma_queue_chain 2 0 9 (do_interrupt 1 0x80 0 s)))) = [(7, 0, PPCDMA_ERROR), (8, 0, PPCDMA_OK)]"
proof -
  let ?s = "upd_chan 0 (\<lambda>ch. ch\<lparr>dma_q := [7, 8]\<rparr>) (the (fst (snd (dma_rio_init 0 0 4 (True, True, True, True) 1 (\<lambda>_. demo_xfo)
     (\<lambda>_. \<lparr>ev_desc = 0, ev_chan_num = 0, ev_status = 0\<rparr>) demo_registry))))"
  let ?b = "the (fst (snd (dma_rio_init 0 0 4 (True, True, True, True) 1 (\<lambda>_. demo_xfo)
     (\<lambda>_. \<lparr>ev_desc = 0, ev_chan_num = 0, ev_status = 0\<rparr>) demo_registry)))"
  have "dma_rio_init 0 0 4 (True, True, True, True) 1 (\<lambda>_. demo_xfo)
     (\<lambda>_. \<lparr>ev_desc = 0, ev_chan_num = 0, ev_status = 0\<rparr>) demo_registry = (0, Some ?b, snd (vfi_dma_register 1 demo_registry))"
    by (simp add: dma_rio_init_def vfi_dma_register_def demo_registry_def Let_def)
  from run_inv_boot [OF this] have ok: "events_ok 4 ?s" by (simp add: run_inv_def)
  have m: "mailbox ?s = []" "held ?s = None" "ch_num (chan ?s 0) = 0" "dma_q (chan ?s 0) = [7, 8]"
    by (simp_all add: demo_defs mailbox_def ring_list_def ring_count_def ringbuf_init_def)
  have "(0x80 :: u32) AND DMA_STAT_TE \<noteq> 0" by simp
  moreover have "Suc (outstanding ?s) < 4" using m by (simp add: outstanding_def)
  ultimately show ?thesis
    using error_completes_the_wrong_transfer [OF m(4) _ ok _ refl refl, of "0x80" 1 2 9 3] m by (intro exI [of _ ?s]) simp
qed

text \<open>The completion thread reports every transfer as failed: \<open>flags |= chan_num < 8\<close> sets bit 0,
  which turns \<open>VFI_XFO_COMPLETE_OK\<close> into \<open>VFI_XFO_COMPLETE_ERROR\<close>, whatever the event's status.\<close>

theorem completion_status_is_lost:
  assumes "dma_run n accepted taken s" and "held s = None" and "mailbox s = (x, c, st) # rest" and "c < 8"
  shows "flags (xfos (completion_take s) x) = VFI_XFO_COMPLETE_ERROR"
proof -
  have "events_ok n s" using dma_run_inv [OF assms(1)] by (simp add: run_inv_def)
  from completion_take_books [OF this assms(2,3)] assms(4) show ?thesis by simp
qed

theorem completion_status_is_lost_witness:
  "\<exists>s. mailbox s = [(7, 0, PPCDMA_OK)] \<and> flags (xfos (completion_take s) 7) = VFI_XFO_COMPLETE_ERROR"
proof -
  let ?s = "do_interrupt 5 1 0 demo_engine"
  have st: "ch_state (chan demo_engine 0) = DMA_RUNNING" by (simp add: demo_defs)
  have room: "outstanding demo_engine < 2" by (simp add: outstanding_def demo_engine_queue)
  have run: "dma_run 2 [(0, 7)] [] ?s" by (rule irq [OF demo_run _ room]) (simp add: st)
  have "events_ok 2 demo_engine" using dma_run_inv [OF demo_run] by (simp add: run_inv_def)
  from do_interrupt_dequeues [OF this room demo_engine_queue(1) refl, of 5 1] st
  have "mailbox ?s = [(7, 0, PPCDMA_OK)]" "held ?s = None" by (simp_all add: demo_engine_queue)
  with completion_status_is_lost [OF run, of 7 0 PPCDMA_OK "[]"] show ?thesis by auto
qed

text \<open>Cancelling looks at the wrong channel. \<open>XFO_CHAN\<close> yields the status bits, not the channel bits:
  a running transfer (status 5) is never found and never aborted, and a queued one (status 3) is looked
  for in channel 3 only, so on any other channel it stays queued.\<close>

theorem cancel_looks_at_the_wrong_channel:
  assumes "last_chan s < PPC8641_DMA_NCHANS"
  shows "XFO_CHAN (xfos s x) = XFO_STATUS (xfos s x)
    \<and> (XFO_STATUS (xfos s x) = VFI_XFO_RUNNING \<longrightarrow> dma_rio_cancel_transfer now mr sr1 sr2 x s = s)
    \<and> (XFO_STATUS (xfos s x) = VFI_XFO_QUEUED \<and> x \<notin> set (dma_q (chan s 3)) \<longrightarrow> dma_rio_cancel_transfer now mr sr1 sr2 x s = s)"
proof -
  have m: "drop_bit 8 XFO_CHAN_MASK = XFO_STAT_MASK" by simp
  have same: "XFO_CHAN (xfos s x) = XFO_STATUS (xfos s x)" unfolding XFO_CHAN_def XFO_STATUS_def m ..
  then show ?thesis using assms
    by (auto simp: dma_rio_cancel_transfer_def find_in_queue_def Let_def)
qed

theorem cancel_looks_at_the_wrong_channel_witness:
  "dma_rio_cancel_transfer 9 0 0 0 7 demo_engine = demo_engine \<and> dma_q (chan demo_engine 0) = [7]"
proof -
  have "last_chan demo_engine < PPC8641_DMA_NCHANS" "XFO_STATUS (xfos demo_engine 7) = VFI_XFO_RUNNING"
    by (simp_all add: demo_defs XFO_STATUS_def chan_flags_def)
  with cancel_looks_at_the_wrong_channel [of demo_engine 7 9 0 0 0] show ?thesis by (simp add: demo_engine_queue)
qed

lemma shortest_queue_min:
  "shortest_queue ch is (a, l) = (a', l') \<Longrightarrow> l = bytes_queued (ch a)
    \<Longrightarrow> l' = bytes_queued (ch a') \<and> (a' = a \<or> a' \<in> set is) \<and> \<not> l <s l' \<and> (\<forall>i \<in> set is. \<not> bytes_queued (ch i) <s l')"
proof (induction "is" arbitrary: a l)
  case (Cons i "is")
  show ?case
  proof (cases "bytes_queued (ch i) <s l")
    case True
    with Cons.IH [of i "bytes_queued (ch i)"] Cons.prems show ?thesis
      by (auto simp: word_sless_alt)
  next
    case False
    with Cons.IH [of a l] Cons.prems show ?thesis by (auto simp: word_sless_alt)
  qed
qed (simp add: word_sless_alt)

text \<open>Load balancing picks a channel in range whose queue is the shortest, and keeps the round-robin
  pointer in range. It does not ask whether the channel was ever set up: when the choice is one that was not
  probed, the transfer is dropped, although the caller is told nothing.\<close>

theorem load_balance_picks_shortest:
  assumes lb: "load_balance s = (c, s')"
    and range: "first_chan s \<le> next_channel s" "next_channel s \<le> last_chan s"
  shows "first_chan s \<le> c \<and> c \<le> last_chan s \<and> first_chan s \<le> next_channel s' \<and> next_channel s' \<le> last_chan s
    \<and> (\<forall>i. first_chan s \<le> i \<and> i \<le> last_chan s \<longrightarrow> \<not> bytes_queued (chan s i) <s bytes_queued (chan s c))
    \<and> (nchans s \<noteq> 1 \<and> ch_state (chan s c) = DMA_UNINIT \<longrightarrow> dma_rio_queue_transfer now x s = (- EAGAIN, s'))"
proof -
  obtain a l where sq: "shortest_queue (chan s) [first_chan s..<Suc (last_chan s)]
      (next_channel s, bytes_queued (chan s (next_channel s))) = (a, l)" by fastforce
  have c: "c = a" and s': "s' = s\<lparr>next_channel := (if a = last_chan s then first_chan s else a + 1)\<rparr>"
    using lb sq by (auto simp: load_balance_def simp del: upt_Suc)
  note m = shortest_queue_min [OF sq refl]
  have min: "\<forall>i. first_chan s \<le> i \<and> i \<le> last_chan s \<longrightarrow> \<not> bytes_queued (chan s i) <s bytes_queued (chan s c)"
    using m c by (auto simp: less_Suc_eq_le)
  have "first_chan s \<le> c \<and> c \<le> last_chan s" using m c range by auto
  then show ?thesis using min lb s' c
    by (auto simp: dma_rio_queue_transfer_def ppcdma_queue_chain_def)
qed

theorem load_balance_picks_shortest_witness:
  "\<exists>s. nchans s = 2 \<and> first_chan s = 0 \<and> last_chan s = 2 \<and> ch_state (chan s 0) = DMA_RUNNING
     \<and> dma_rio_queue_transfer 0 7 s = (- EAGAIN, s\<lparr>next_channel := 0\<rparr>)"
proof -
  let ?s = "demo_engine\<lparr>last_chan := 2, nchans := 2, next_channel := 2\<rparr>"
  have lb: "load_balance ?s = (2, ?s\<lparr>next_channel := 0\<rparr>)"
    by (simp add: load_balance_def demo_defs demo_xfo_def upt_rec word_sless_alt)
  from load_balance_picks_shortest [OF lb, of 0 7] show ?thesis
    by (intro exI [of _ ?s]) (simp add: demo_defs)
qed

end
