(* ===== verification/Vfi_Bind.thy ===== *)
theory Vfi_Bind
  imports Vfi_Parse
begin

text \<open>
  When a bind's transfer starts: the two votes of \<open>vfi_bind.h\<close>, one of the source and one of the
  destination, the completion call \<open>vfi_dma_complete\<close> of \<open>vfi_dma.c\<close> that takes them back, and the
  ready and done operations of \<open>vfi_local_ops.c\<close> and \<open>vfi_fabric_ops.c\<close> around them.

  The state keeps the vote word \<open>ready\<close>, the number of times \<open>queue_transfer\<close> was called for the
  bind's descriptor, the completions signalled on the local event lists and the doorbells sent. Each
  access to the vote word is under the bind's lock, so it is one step; a completion is four steps, and
  other agents vote in between.
\<close>

section \<open>State\<close>

abbreviation VFI_BIND_SRC_RDY :: u32 where "VFI_BIND_SRC_RDY \<equiv> 1"
abbreviation VFI_BIND_DST_RDY :: u32 where "VFI_BIND_DST_RDY \<equiv> 2"
abbreviation VFI_BIND_RDY :: u32 where "VFI_BIND_RDY \<equiv> 3"
abbreviation VFI_BIND_DONE_PEND :: u32 where "VFI_BIND_DONE_PEND \<equiv> 4"

text \<open>
  \<open>queued\<close> counts the calls of \<open>queue_transfer\<close>. \<open>loc_address\<close> gives the fabric address of a location,
  \<open>has_bell\<close> tells which addresses have a doorbell operation.
\<close>

record vfi_bind =
  b_desc :: vfi_bind_param
  ready :: u32
  src_done_event_id :: int
  dst_done_event_id :: int
  src_ready_event_id :: int
  dst_ready_event_id :: int
  queued :: nat
  src_signals :: nat
  dst_signals :: nat
  bells :: "(nat \<times> int) list"
  loc_address :: "nat \<Rightarrow> nat option"
  has_bell :: "nat \<Rightarrow> bool"

definition is_vfi_bind_ready :: "vfi_bind \<Rightarrow> bool" where
  "is_vfi_bind_ready b \<longleftrightarrow> ready b = VFI_BIND_RDY"

definition queue_transfer :: "vfi_bind \<Rightarrow> vfi_bind" where
  "queue_transfer b = b\<lparr>queued := queued b + 1\<rparr>"

section \<open>Votes\<close>

definition vfi_bind_src_ready :: "vfi_bind \<Rightarrow> bool \<times> vfi_bind" where
  "vfi_bind_src_ready b =
     (let b' = (if ready b AND VFI_BIND_SRC_RDY = 0 then b\<lparr>ready := ready b OR VFI_BIND_SRC_RDY\<rparr> else b)
      in (ready b' = VFI_BIND_RDY, b'))"

definition vfi_bind_dst_ready :: "vfi_bind \<Rightarrow> bool \<times> vfi_bind" where
  "vfi_bind_dst_ready b =
     (let b' = (if ready b AND VFI_BIND_DST_RDY = 0 then b\<lparr>ready := ready b OR VFI_BIND_DST_RDY\<rparr> else b)
      in (ready b' = VFI_BIND_RDY, b'))"

definition vfi_bind_done_pending :: "vfi_bind \<Rightarrow> vfi_bind" where
  "vfi_bind_done_pending b =
     (let b' = b\<lparr>ready := ready b XOR VFI_BIND_DONE_PEND\<rparr>
      in if is_vfi_bind_ready b' then queue_transfer b' else b')"

definition vfi_bind_src_done :: "vfi_bind \<Rightarrow> vfi_bind" where
  "vfi_bind_src_done b =
     (if ready b AND VFI_BIND_SRC_RDY \<noteq> 0 then b\<lparr>ready := ready b AND NOT VFI_BIND_SRC_RDY\<rparr> else b)"

definition vfi_bind_dst_done :: "vfi_bind \<Rightarrow> vfi_bind" where
  "vfi_bind_dst_done b =
     (if ready b AND VFI_BIND_DST_RDY \<noteq> 0 then b\<lparr>ready := ready b AND NOT VFI_BIND_DST_RDY\<rparr> else b)"

section \<open>The operations around the votes\<close>

definition vfi_doorbell_send :: "nat option \<Rightarrow> int \<Rightarrow> vfi_bind \<Rightarrow> vfi_bind" where
  "vfi_doorbell_send a bell b =
     (case a of None \<Rightarrow> b | Some x \<Rightarrow> if has_bell b x then b\<lparr>bells := bells b @ [(x, bell)]\<rparr> else b)"

text \<open>\<open>desc.address ?: (desc.ploc ? desc.ploc->desc.address : NULL)\<close>.\<close>

definition bell_address :: "vfi_bind \<Rightarrow> vfi_desc_param \<Rightarrow> nat option" where
  "bell_address b d =
     (case address d of Some a \<Rightarrow> Some a
      | None \<Rightarrow> (case ploc d of None \<Rightarrow> None | Some l \<Rightarrow> loc_address b l))"

definition vfi_local_src_ready :: "vfi_bind \<Rightarrow> vfi_bind" where
  "vfi_local_src_ready b = (let (go, b') = vfi_bind_src_ready b in if go then queue_transfer b' else b')"

definition vfi_local_dst_ready :: "vfi_bind \<Rightarrow> vfi_bind" where
  "vfi_local_dst_ready b = (let (go, b') = vfi_bind_dst_ready b in if go then queue_transfer b' else b')"

definition vfi_fabric_src_ready :: "vfi_bind \<Rightarrow> vfi_bind" where
  "vfi_fabric_src_ready b =
     (let b' = snd (vfi_bind_src_ready b) in vfi_doorbell_send (bell_address b' (xfer (b_desc b'))) (src_ready_event_id b') b')"

definition vfi_fabric_dst_ready :: "vfi_bind \<Rightarrow> vfi_bind" where
  "vfi_fabric_dst_ready b =
     (let b' = snd (vfi_bind_dst_ready b) in vfi_doorbell_send (bell_address b' (xfer (b_desc b'))) (dst_ready_event_id b') b')"

text \<open>\<open>vfi_local_done\<close> completes the \<open>dma_sync\<close> of the event list; \<open>done\<close> is looked up in the operations
  of the source (destination) descriptor, and the fabric's \<open>done\<close> does nothing.\<close>

definition vfi_local_src_done :: "vfi_bind \<Rightarrow> vfi_bind" where
  "vfi_local_src_done b =
     (let b' = vfi_bind_src_done b
      in if ops (src (b_desc b')) = Some Vfi_local_ops then b'\<lparr>src_signals := src_signals b' + 1\<rparr> else b')"

definition vfi_local_dst_done :: "vfi_bind \<Rightarrow> vfi_bind" where
  "vfi_local_dst_done b =
     (let b' = vfi_bind_dst_done b
      in if ops (dst (b_desc b')) = Some Vfi_local_ops then b'\<lparr>dst_signals := dst_signals b' + 1\<rparr> else b')"

definition vfi_fabric_src_done :: "vfi_bind \<Rightarrow> vfi_bind" where
  "vfi_fabric_src_done b =
     (let b' = vfi_bind_src_done b in vfi_doorbell_send (bell_address b' (src (b_desc b'))) (src_done_event_id b') b')"

definition vfi_fabric_dst_done :: "vfi_bind \<Rightarrow> vfi_bind" where
  "vfi_fabric_dst_done b =
     (let b' = vfi_bind_dst_done b in vfi_doorbell_send (bell_address b' (dst (b_desc b'))) (dst_done_event_id b') b')"

definition dst_done_op :: "vfi_bind \<Rightarrow> vfi_bind" where
  "dst_done_op b =
     (case ops (dst (b_desc b)) of None \<Rightarrow> b | Some Vfi_local_ops \<Rightarrow> vfi_local_dst_done b | Some Vfi_fabric_ops \<Rightarrow> vfi_fabric_dst_done b)"

definition src_done_op :: "vfi_bind \<Rightarrow> vfi_bind" where
  "src_done_op b =
     (case ops (src (b_desc b)) of None \<Rightarrow> b | Some Vfi_local_ops \<Rightarrow> vfi_local_src_done b | Some Vfi_fabric_ops \<Rightarrow> vfi_fabric_src_done b)"

definition vfi_dma_complete :: "vfi_bind option \<Rightarrow> vfi_bind option" where
  "vfi_dma_complete bo =
     (case bo of None \<Rightarrow> None
      | Some b \<Rightarrow> Some (vfi_bind_done_pending (src_done_op (dst_done_op (vfi_bind_done_pending b)))))"

section \<open>Runs of a bind\<close>

text \<open>
  \<open>bind_run n p m k b\<close>: the bind reaches \<open>b\<close> with \<open>n\<close> completions begun, \<open>p\<close> steps into the current
  completion (0 when there is none), \<open>m\<close> votes of the source and \<open>k\<close> of the destination. An agent votes
  only while its vote is out, which is what the code's assertions demand; a completion begins for a
  transfer that was queued.
\<close>

inductive bind_run :: "nat \<Rightarrow> nat \<Rightarrow> nat \<Rightarrow> nat \<Rightarrow> vfi_bind \<Rightarrow> bool" where
  fresh: "ready b = 0 \<Longrightarrow> queued b = 0 \<Longrightarrow> ops (src (b_desc b)) \<noteq> None \<Longrightarrow> ops (dst (b_desc b)) \<noteq> None
    \<Longrightarrow> bind_run 0 0 0 0 b"
| src_vote: "bind_run n p m k b \<Longrightarrow> ready b AND VFI_BIND_SRC_RDY = 0 \<Longrightarrow> bind_run n p (Suc m) k (vfi_local_src_ready b)"
| dst_vote: "bind_run n p m k b \<Longrightarrow> ready b AND VFI_BIND_DST_RDY = 0 \<Longrightarrow> bind_run n p m (Suc k) (vfi_local_dst_ready b)"
| complete: "bind_run n 0 m k b \<Longrightarrow> n < queued b \<Longrightarrow> bind_run (Suc n) 1 m k (vfi_bind_done_pending b)"
| dst_done: "bind_run n 1 m k b \<Longrightarrow> bind_run n 2 m k (dst_done_op b)"
| src_done: "bind_run n 2 m k b \<Longrightarrow> bind_run n 3 m k (src_done_op b)"
| settled: "bind_run n 3 m k b \<Longrightarrow> bind_run n 0 m k (vfi_bind_done_pending b)"

text \<open>The votes that are in, as numbers, and the vote word phase by phase.\<close>

definition bind_inv :: "nat \<Rightarrow> nat \<Rightarrow> nat \<Rightarrow> nat \<Rightarrow> vfi_bind \<Rightarrow> bool" where
  "bind_inv n p m k b \<longleftrightarrow> ops (src (b_desc b)) \<noteq> None \<and> ops (dst (b_desc b)) \<noteq> None \<and>
     (ready b, p, queued b, m, k) \<in>
       {(0, 0, n, n, n), (1, 0, n, n + 1, n), (2, 0, n, n, n + 1), (3, 0, n + 1, n + 1, n + 1),
        (7, 1, n, n, n), (5, 2, n, n, n), (7, 2, n, n, n + 1),
        (4, 3, n, n, n), (5, 3, n, n + 1, n), (6, 3, n, n, n + 1), (7, 3, n, n + 1, n + 1)}"

lemma doorbell_frame [simp]:
  "ready (vfi_doorbell_send a i b) = ready b" "queued (vfi_doorbell_send a i b) = queued b"
  "b_desc (vfi_doorbell_send a i b) = b_desc b"
  by (simp_all add: vfi_doorbell_send_def split: option.split)

lemma bell_address_frame [simp]:
  "bell_address (b\<lparr>ready := x\<rparr>) e = bell_address b e" "bell_address (b\<lparr>dst_signals := y\<rparr>) e = bell_address b e"
  "bell_address (b\<lparr>bells := z\<rparr>) e = bell_address b e"
  by (simp_all add: bell_address_def split: option.split)

lemma dst_done_op_votes:
  "ops (dst (b_desc b)) \<noteq> None \<Longrightarrow> ready (dst_done_op b) = ready b AND NOT VFI_BIND_DST_RDY \<or>
      ready b AND VFI_BIND_DST_RDY = 0 \<and> ready (dst_done_op b) = ready b"
  "queued (dst_done_op b) = queued b" "b_desc (dst_done_op b) = b_desc b"
  by (auto simp: dst_done_op_def vfi_local_dst_done_def vfi_fabric_dst_done_def vfi_bind_dst_done_def Let_def
      split: option.split ops_tab.split)

lemma src_done_op_votes:
  "ops (src (b_desc b)) \<noteq> None \<Longrightarrow> ready (src_done_op b) = ready b AND NOT VFI_BIND_SRC_RDY \<or>
      ready b AND VFI_BIND_SRC_RDY = 0 \<and> ready (src_done_op b) = ready b"
  "queued (src_done_op b) = queued b" "b_desc (src_done_op b) = b_desc b"
  by (auto simp: src_done_op_def vfi_local_src_done_def vfi_fabric_src_done_def vfi_bind_src_done_def Let_def
      split: option.split ops_tab.split)

lemmas vote_defs = vfi_local_src_ready_def vfi_local_dst_ready_def vfi_bind_src_ready_def vfi_bind_dst_ready_def
  vfi_bind_done_pending_def is_vfi_bind_ready_def queue_transfer_def

lemma bind_run_inv: "bind_run n p m k b \<Longrightarrow> bind_inv n p m k b"
proof (induction rule: bind_run.induct)
  case (fresh b)
  then show ?case by (simp add: bind_inv_def)
next
  case (src_vote n p m k b)
  then have "ready b = 0 \<and> p = 0 \<and> queued b = n \<and> m = n \<and> k = n \<or> ready b = 2 \<and> p = 0 \<and> queued b = n \<and> m = n \<and> k = n + 1
     \<or> ready b = 4 \<and> p = 3 \<and> queued b = n \<and> m = n \<and> k = n \<or> ready b = 6 \<and> p = 3 \<and> queued b = n \<and> m = n \<and> k = n + 1"
    unfolding bind_inv_def by (elim conjE insertE emptyE) simp_all
  with src_vote.IH show ?case by (elim disjE) (simp_all add: bind_inv_def vote_defs Let_def)
next
  case (dst_vote n p m k b)
  then have "ready b = 0 \<and> p = 0 \<and> queued b = n \<and> m = n \<and> k = n \<or> ready b = 1 \<and> p = 0 \<and> queued b = n \<and> m = n + 1 \<and> k = n
     \<or> ready b = 4 \<and> p = 3 \<and> queued b = n \<and> m = n \<and> k = n \<or> ready b = 5 \<and> p = 3 \<and> queued b = n \<and> m = n + 1 \<and> k = n
     \<or> ready b = 5 \<and> p = 2 \<and> queued b = n \<and> m = n \<and> k = n"
    unfolding bind_inv_def by (elim conjE insertE emptyE) simp_all
  with dst_vote.IH show ?case by (elim disjE) (simp_all add: bind_inv_def vote_defs Let_def)
next
  case (complete n m k b)
  then have "ready b = 3 \<and> queued b = n + 1 \<and> m = n + 1 \<and> k = n + 1"
    unfolding bind_inv_def by (elim conjE insertE emptyE) simp_all
  with complete.IH show ?case by (simp add: bind_inv_def vote_defs Let_def)
next
  case (dst_done n m k b)
  then have v: "ready b = 7 \<and> queued b = n \<and> m = n \<and> k = n" "ops (src (b_desc b)) \<noteq> None" "ops (dst (b_desc b)) \<noteq> None"
    by (auto simp: bind_inv_def)
  then have "ready (dst_done_op b) = 5" using dst_done_op_votes(1) [of b] by simp
  with v show ?case by (simp add: bind_inv_def dst_done_op_votes(2,3))
next
  case (src_done n m k b)
  then have v: "(ready b = 5 \<and> k = n \<or> ready b = 7 \<and> k = n + 1) \<and> queued b = n \<and> m = n"
    "ops (src (b_desc b)) \<noteq> None" "ops (dst (b_desc b)) \<noteq> None"
    by (auto simp: bind_inv_def)
  then have "ready (src_done_op b) = (if ready b = 5 then 4 else 6)" using src_done_op_votes(1) [of b] by auto
  with v show ?case by (auto simp: bind_inv_def src_done_op_votes(2,3))
next
  case (settled n m k b)
  then have "ready b = 4 \<and> queued b = n \<and> m = n \<and> k = n \<or> ready b = 5 \<and> queued b = n \<and> m = n + 1 \<and> k = n
     \<or> ready b = 6 \<and> queued b = n \<and> m = n \<and> k = n + 1 \<or> ready b = 7 \<and> queued b = n \<and> m = n + 1 \<and> k = n + 1"
    unfolding bind_inv_def by (elim conjE insertE emptyE) simp_all
  with settled.IH show ?case by (elim disjE) (simp_all add: bind_inv_def vote_defs Let_def)
qed

section \<open>Properties\<close>


definition demo_bind :: vfi_bind where
  "demo_bind = \<lparr>b_desc = \<lparr>xfer = zero_desc, dst = zero_desc\<lparr>ops := Some Vfi_fabric_ops, address := Some 4\<rparr>,
                          src = zero_desc\<lparr>ops := Some Vfi_local_ops\<rparr>\<rparr>,
     ready = 0, src_done_event_id = 11, dst_done_event_id = 12, src_ready_event_id = 13, dst_ready_event_id = 14,
     queued = 0, src_signals = 0, dst_signals = 0, bells = [], loc_address = (\<lambda>_. None), has_bell = (\<lambda>_. True)\<rparr>"

lemma demo_bind_run: "bind_run 0 0 1 1 (vfi_local_dst_ready (vfi_local_src_ready demo_bind))"
proof -
  have "bind_run 0 0 0 0 demo_bind" by (rule fresh) (simp_all add: demo_bind_def)
  then have "bind_run 0 0 (Suc 0) 0 (vfi_local_src_ready demo_bind)" by (rule src_vote) (simp add: demo_bind_def)
  then have "bind_run 0 0 (Suc 0) (Suc 0) (vfi_local_dst_ready (vfi_local_src_ready demo_bind))"
    by (rule dst_vote) (simp add: vote_defs demo_bind_def)
  then show ?thesis by simp
qed


text \<open>A vote that comes twice queues the same descriptor a second time while it is in flight: the
  ready functions report whether both votes are in, not whether this call brought the second one.\<close>

theorem repeated_vote_queues_twice:
  assumes "ready b = VFI_BIND_RDY"
  shows "vfi_local_src_ready b = b\<lparr>queued := queued b + 1\<rparr> \<and> vfi_local_dst_ready b = b\<lparr>queued := queued b + 1\<rparr>"
  using assms by (simp add: vote_defs)

theorem repeated_vote_queues_twice_witness:
  "queued (vfi_local_src_ready (vfi_local_dst_ready (vfi_local_src_ready demo_bind))) = 2"
proof -
  have "ready (vfi_local_dst_ready (vfi_local_src_ready demo_bind)) = VFI_BIND_RDY"
    "queued (vfi_local_dst_ready (vfi_local_src_ready demo_bind)) = 1"
    by (simp_all add: vote_defs demo_bind_def)
  with repeated_vote_queues_twice [of "vfi_local_dst_ready (vfi_local_src_ready demo_bind)"] show ?thesis by simp
qed

text \<open>A completion of a bind whose votes are both in, undisturbed, takes both votes back, starts no
  transfer, and tells each side once: a local side by a signal on its event list, a remote side by a
  doorbell with that side's done event.\<close>

theorem completion_tells_both_sides:
  assumes r: "ready b = VFI_BIND_RDY" and s: "ops (src (b_desc b)) \<noteq> None" and d: "ops (dst (b_desc b)) \<noteq> None"
  shows "\<exists>b'. vfi_dma_complete (Some b) = Some b' \<and> ready b' = 0 \<and> queued b' = queued b
    \<and> src_signals b' = src_signals b + (if ops (src (b_desc b)) = Some Vfi_local_ops then 1 else 0)
    \<and> dst_signals b' = dst_signals b + (if ops (dst (b_desc b)) = Some Vfi_local_ops then 1 else 0)
    \<and> bells b' = bells b
       @ (case (ops (dst (b_desc b)), bell_address b (dst (b_desc b))) of
            (Some Vfi_fabric_ops, Some a) \<Rightarrow> if has_bell b a then [(a, dst_done_event_id b)] else [] | _ \<Rightarrow> [])
       @ (case (ops (src (b_desc b)), bell_address b (src (b_desc b))) of
            (Some Vfi_fabric_ops, Some a) \<Rightarrow> if has_bell b a then [(a, src_done_event_id b)] else [] | _ \<Rightarrow> [])"
proof -
  obtain ts td where t: "ops (src (b_desc b)) = Some ts" "ops (dst (b_desc b)) = Some td" using s d by blast

  show ?thesis
    using t r by (cases ts; cases td; cases "bell_address b (src (b_desc b))"; cases "bell_address b (dst (b_desc b))")
      (simp_all add: vfi_dma_complete_def vote_defs dst_done_op_def src_done_op_def vfi_local_src_done_def
        vfi_local_dst_done_def vfi_fabric_src_done_def vfi_fabric_dst_done_def vfi_bind_src_done_def
        vfi_bind_dst_done_def vfi_doorbell_send_def Let_def)
qed

theorem completion_tells_both_sides_witness:
  "\<exists>b'. vfi_dma_complete (Some (demo_bind\<lparr>ready := 3\<rparr>)) = Some b' \<and> bells b' = [(4, 12)] \<and> src_signals b' = 1"
  using completion_tells_both_sides [of "demo_bind\<lparr>ready := 3\<rparr>"]
  by (auto simp: demo_bind_def bell_address_def)

end
