(* ===== verification/Vfi_Segment.thy ===== *)
theory Vfi_Segment
  imports Vfi_Parse
begin

text \<open>
  How a bind is cut into DMA segments: the page arithmetic of \<open>vfi_smb.h\<close> and the two loops of
  \<open>vfi_local_ops.c\<close> that walk the pages of the destination (\<open>vfi_local_dsts_create\<close>) and, for each
  piece of the destination, of the source (\<open>vfi_local_srcs_create\<close>), joining pages that are adjacent
  in physical memory (\<open>OPTIMIZE_DESCRIPTORS\<close>, which \<open>vfi.h\<close> defines).

  A shared memory block keeps its pages as a list of page frame numbers. Reading past that list is
  \<open>Undef\<close>. The calls a function makes on other components are recorded in order, and their answers are
  arguments.
\<close>

section \<open>Page arithmetic\<close>

abbreviation PAGE_SIZE :: nat where "PAGE_SIZE \<equiv> 4096"

record vfi_smb =
  smb_desc :: vfi_desc_param
  smb_size :: u32
  smb_pages :: "nat list option"

definition DESC_VALID :: "vfi_desc_param \<Rightarrow> vfi_desc_param \<Rightarrow> bool" where
  "DESC_VALID b d \<longleftrightarrow> offset d + ucast (extent d) \<le> ucast (extent b)"

definition START_PAGE :: "vfi_desc_param \<Rightarrow> vfi_desc_param \<Rightarrow> u64" where
  "START_PAGE b d = drop_bit 12 (offset b + offset d)"

definition END_PAGE :: "vfi_desc_param \<Rightarrow> vfi_desc_param \<Rightarrow> u64" where
  "END_PAGE b d = drop_bit 12 (offset b + offset d + ucast (extent d) - 1)"

definition START_OFFSET :: "vfi_desc_param \<Rightarrow> vfi_desc_param \<Rightarrow> u64" where
  "START_OFFSET b d = (offset b + offset d) AND 0xfff"

definition START_SIZE :: "vfi_desc_param \<Rightarrow> vfi_desc_param \<Rightarrow> u32" where
  "START_SIZE b d = (let avail = ucast (4096 - START_OFFSET b d) in if extent d < avail then extent d else avail)"

definition END_SIZE :: "vfi_desc_param \<Rightarrow> vfi_desc_param \<Rightarrow> u32" where
  "END_SIZE b d =
     (let apsize = ucast ((offset b + offset d + ucast (extent d)) AND 0xfff) in if extent d < apsize then 0 else apsize)"

definition NUM_DMA :: "vfi_desc_param \<Rightarrow> vfi_desc_param \<Rightarrow> u64" where
  "NUM_DMA b d = END_PAGE b d - START_PAGE b d + 1"

section \<open>The loop over pages\<close>

text \<open>The \<open>join\<close> loop: as long as the next page follows in memory it is added to the segment.\<close>

function page_join :: "nat list \<Rightarrow> nat \<Rightarrow> u32 \<Rightarrow> nat \<Rightarrow> u32 \<Rightarrow> (nat \<times> u32) cres" where
  "page_join pages lastp endsz page ext =
     (if page + 2 \<le> lastp then
        (if length pages \<le> page + 1 then Undef
         else if pages ! page + 1 = pages ! (page + 1) then
           page_join pages lastp endsz (page + 1) (ext + (if page + 2 = lastp \<and> endsz \<noteq> 0 then endsz else 4096))
         else Val (page, ext))
      else Val (page, ext))"
  by pat_completeness auto
termination by (relation "measure (\<lambda>(pages, lastp, endsz, page, ext). lastp - page)") auto

declare page_join.simps [simp del]

text \<open>
  The loop itself, shared by its two copies in the source: \<open>islast\<close> is the test by which they recognise
  the page before the last, \<open>mk\<close> the call that creates a segment and updates the parameters. The result
  says whether every segment was created. \<open>fuel\<close> bounds the number of rounds; each round moves on by a
  page at least, so \<open>last\<close> rounds are enough.
\<close>

fun page_loop :: "nat \<Rightarrow> (nat \<Rightarrow> nat \<Rightarrow> bool) \<Rightarrow> nat list \<Rightarrow> nat \<Rightarrow> u32 \<Rightarrow> (u64 \<Rightarrow> u32 \<Rightarrow> 'a \<Rightarrow> 'a \<times> bool)
    \<Rightarrow> nat \<Rightarrow> u64 \<Rightarrow> u32 \<Rightarrow> 'a \<Rightarrow> ('a \<times> bool) cres" where
  "page_loop 0 islast pages lastp endsz mk page off ext acc = (if page < lastp then Undef else Val (acc, True))"
| "page_loop (Suc fuel) islast pages lastp endsz mk page off ext acc =
     (if page < lastp then
        (if length pages \<le> page then Undef
         else cres_bind (page_join pages lastp endsz page ext) (\<lambda>(page', ext').
           case mk (off + of_nat (pages ! page * PAGE_SIZE)) ext' acc of
             (acc', False) \<Rightarrow> Val (acc', False)
           | (acc', True) \<Rightarrow>
               page_loop fuel islast pages lastp endsz mk (page' + 1) 0
                 (if islast page' lastp \<and> endsz \<noteq> 0 then endsz else 4096) acc'))
      else Val (acc, True))"

section \<open>Creating the segments of a bind\<close>

datatype bind_call =
    Dst_events | Dsts_create | Src_events | Srcs_create | Find_smb | Smb_put | Dsts_put | Srcs_delete
  | Dst_create vfi_bind_param | Src_create vfi_bind_param | Load_dsts | Load_srcs

text \<open>
  \<open>ev\<close>, \<open>cr\<close> are the answers of the event and list creation, \<open>smb\<close> that of \<open>find_vfi_smb\<close>, \<open>ok\<close> tells
  whether a segment with given parameters is created. The page number is a C \<open>int\<close>.
\<close>

definition make_dst :: "(vfi_bind_param \<Rightarrow> bool) \<Rightarrow> u64 \<Rightarrow> u32 \<Rightarrow> vfi_bind_param \<times> bind_call list
    \<Rightarrow> (vfi_bind_param \<times> bind_call list) \<times> bool" where
  "make_dst ok off ext st =
     (let (params, calls) = st;
          p = params\<lparr>dst := (dst params)\<lparr>offset := off, extent := ext\<rparr>, src := (src params)\<lparr>extent := ext\<rparr>\<rparr>
      in ((p\<lparr>src := (src p)\<lparr>offset := offset (src p) + ucast (extent (src p))\<rparr>\<rparr>, calls @ [Dst_create p]), ok p))"

definition vfi_local_dsts_create ::
  "errno \<Rightarrow> errno \<Rightarrow> errno + vfi_smb \<Rightarrow> (vfi_bind_param \<Rightarrow> bool) \<Rightarrow> vfi_bind_param \<Rightarrow> (errno \<times> bind_call list) cres" where
  "vfi_local_dsts_create ev cr smb ok desc =
     (if ev \<noteq> 0 then Val (- EINVAL, [Dst_events])
      else if cr \<noteq> 0 then Val (- EINVAL, [Dst_events, Dsts_create])
      else case smb of
        Inl e \<Rightarrow> Val (- EINVAL, [Dst_events, Dsts_create, Find_smb, Dsts_put])
      | Inr b \<Rightarrow>
          if \<not> DESC_VALID (smb_desc b) (dst desc) then Val (- EINVAL, [Dst_events, Dsts_create, Find_smb, Smb_put, Dsts_put])
          else case smb_pages b of
            None \<Rightarrow> Val (- EINVAL, [Dst_events, Dsts_create, Find_smb, Smb_put, Dsts_put])
          | Some pages \<Rightarrow>
              (let first_page = unat (START_PAGE (smb_desc b) (dst desc));
                   last_page = unat (START_PAGE (smb_desc b) (dst desc) + NUM_DMA (smb_desc b) (dst desc))
               in if 2 ^ 31 \<le> last_page then Undef
                  else cres_bind
                    (page_loop last_page (\<lambda>page lastp. page + 2 = lastp) pages last_page (END_SIZE (smb_desc b) (dst desc))
                       (make_dst ok) first_page (START_OFFSET (smb_desc b) (dst desc)) (START_SIZE (smb_desc b) (dst desc))
                       (desc, [Dst_events, Dsts_create, Find_smb]))
                    (\<lambda>((_, calls), done). if done then Val (0, calls @ [Load_dsts, Smb_put])
                                          else Val (- EINVAL, calls @ [Smb_put, Dsts_put]))))"

text \<open>
  The source's pieces carry the address of their destination in \<open>dst.extent\<close>, 32 bits wide;
  \<open>new_vfi_src\<close> moves it into \<open>dst.offset\<close>.
\<close>

definition make_src :: "(vfi_bind_param \<Rightarrow> bool) \<Rightarrow> u64 \<Rightarrow> u32 \<Rightarrow> vfi_bind_param \<times> bind_call list
    \<Rightarrow> (vfi_bind_param \<times> bind_call list) \<times> bool" where
  "make_src ok off ext st =
     (let (params, calls) = st;
          p = params\<lparr>src := (src params)\<lparr>offset := off, extent := ext\<rparr>\<rparr>
      in ((p\<lparr>dst := (dst p)\<lparr>extent := extent (dst p) + extent (src p)\<rparr>\<rparr>, calls @ [Src_create p]), ok p))"

definition vfi_local_srcs_create ::
  "errno \<Rightarrow> errno \<Rightarrow> errno + vfi_smb \<Rightarrow> (vfi_bind_param \<Rightarrow> bool) \<Rightarrow> (vfi_bind_param \<Rightarrow> errno) \<Rightarrow> vfi_bind_param
    \<Rightarrow> (errno \<times> bind_call list) cres" where
  "vfi_local_srcs_create cr ev smb ok create_ret desc =
     (if cr \<noteq> 0 then Val (cr, [Srcs_create])
      else if ev \<noteq> 0 then Val (ev, [Srcs_create, Src_events, Srcs_delete])
      else case smb of
        Inl e \<Rightarrow> Val (e, [Srcs_create, Src_events, Find_smb, Srcs_delete])
      | Inr b \<Rightarrow>
          if \<not> DESC_VALID (smb_desc b) (src desc) then Val (0, [Srcs_create, Src_events, Find_smb, Smb_put, Srcs_delete])
          else
            (let first_page = unat (START_PAGE (smb_desc b) (src desc));
                 last_page = unat (START_PAGE (smb_desc b) (src desc) + NUM_DMA (smb_desc b) (src desc));
                 params = desc\<lparr>dst := (dst desc)\<lparr>extent := ucast (offset (dst desc))\<rparr>\<rparr>
             in if 2 ^ 31 \<le> last_page then Undef
                else case smb_pages b of None \<Rightarrow> Undef
                | Some pages \<Rightarrow> cres_bind
                    (page_loop last_page (\<lambda>page lastp. page + 2 \<ge> lastp) pages last_page (END_SIZE (smb_desc b) (src desc))
                       (make_src ok) first_page (START_OFFSET (smb_desc b) (src desc)) (START_SIZE (smb_desc b) (src desc))
                       (params, [Srcs_create, Src_events, Find_smb]))
                    (\<lambda>((_, calls), done).
                       if done then Val (0, calls @ [Load_srcs, Smb_put])
                       else Val (case last calls of Src_create p \<Rightarrow> create_ret p | _ \<Rightarrow> 0, calls @ [Smb_put, Srcs_delete]))))"

text \<open>\<open>new_vfi_src\<close>: the address and length of the destination of a source segment.\<close>

definition src_segment_dst :: "vfi_bind_param \<Rightarrow> vfi_desc_param" where
  "src_segment_dst p = (dst p)\<lparr>offset := ucast (extent (dst p)), extent := extent (src p)\<rparr>"

section \<open>The pieces cover the range\<close>

text \<open>The physical address of byte \<open>n\<close> of a block, counted from its first page.\<close>

definition byte_at :: "nat list \<Rightarrow> nat \<Rightarrow> nat" where
  "byte_at pages n = pages ! (n div PAGE_SIZE) * PAGE_SIZE + n mod PAGE_SIZE"

text \<open>
  \<open>tiles pages n e ps\<close>: the pieces (address, length) cover the bytes from \<open>n\<close> to \<open>e\<close> one after another,
  without gap or overlap, each piece contiguous in memory.
\<close>

fun tiles :: "nat list \<Rightarrow> nat \<Rightarrow> nat \<Rightarrow> (u64 \<times> u32) list \<Rightarrow> bool" where
  "tiles pages n e [] \<longleftrightarrow> n = e"
| "tiles pages n e ((phys, len) # ps) \<longleftrightarrow>
     0 < unat len \<and> n + unat len \<le> e \<and> (\<forall>j < unat len. unat phys + j = byte_at pages (n + j))
     \<and> tiles pages (n + unat len) e ps"

text \<open>The bytes \<open>B\<close> to \<open>B + L\<close> of the block lie on pages \<open>B div PAGE_SIZE\<close> to \<open>lastp - 1\<close>.\<close>

definition byte_range :: "nat list \<Rightarrow> nat \<Rightarrow> nat \<Rightarrow> nat \<Rightarrow> u32 \<Rightarrow> bool" where
  "byte_range pages B L lastp endsz \<longleftrightarrow> 0 < L \<and> L < 2 ^ 32
     \<and> lastp = (B + L - 1) div PAGE_SIZE + 1
     \<and> (B div PAGE_SIZE + 1 < lastp \<longrightarrow> unat endsz = (B + L) mod PAGE_SIZE)
     \<and> lastp \<le> length pages \<and> (\<forall>f \<in> set pages. f < 2 ^ 20)"

text \<open>Where the part of the range on pages up to \<open>p\<close> ends.\<close>

definition upto :: "nat \<Rightarrow> nat \<Rightarrow> nat" where
  "upto e p = min e ((p + 1) * PAGE_SIZE)"

lemma upto_last:
  assumes "byte_range pages B L lastp endsz" and "p < lastp"
  shows "p + 1 < lastp \<longleftrightarrow> (p + 1) * PAGE_SIZE < B + L"
proof -
  have "p + 1 < lastp \<longleftrightarrow> p + 1 \<le> (B + L - 1) div PAGE_SIZE"
    using assms by (simp add: byte_range_def Suc_le_eq)
  also have "\<dots> \<longleftrightarrow> (p + 1) * PAGE_SIZE \<le> B + L - 1" by (simp add: less_eq_div_iff_mult_less_eq)
  also have "\<dots> \<longleftrightarrow> (p + 1) * PAGE_SIZE < B + L"
  proof -
    have "0 < B + L" using assms(1) by (simp add: byte_range_def)
    then show ?thesis by linarith
  qed
  finally show ?thesis .
qed

lemma next_size:
  assumes r: "byte_range pages B L lastp endsz" and p: "p + 1 < lastp" and first: "B div PAGE_SIZE \<le> p"
  shows "unat (if p + 2 = lastp \<and> endsz \<noteq> 0 then endsz else 4096 :: u32) = upto (B + L) (p + 1) - (p + 1) * PAGE_SIZE"
proof -
  have e: "unat endsz = (B + L) mod PAGE_SIZE" using r p first by (simp add: byte_range_def)
  have lt: "(p + 1) * PAGE_SIZE < B + L" using upto_last [OF r, of p] p by simp
  show ?thesis
  proof (cases "p + 2 = lastp")
    case True
    then have "\<not> (p + 2) * PAGE_SIZE < B + L" using upto_last [OF r, of "p + 1"] by simp
    then have b: "B + L \<le> (p + 1) * PAGE_SIZE + PAGE_SIZE" by (simp add: algebra_simps)
    obtain k where k: "B + L = (p + 1) * PAGE_SIZE + k" "0 < k" "k \<le> PAGE_SIZE"
      using lt b by (metis add_le_cancel_left less_imp_add_positive)
    have m: "(B + L) mod PAGE_SIZE = k mod PAGE_SIZE" unfolding k(1) by (metis add.commute mod_mult_self1)
    have z: "endsz = 0 \<longleftrightarrow> k = PAGE_SIZE"
      using e k m by (metis dvd_imp_mod_0 dvd_refl le_neq_implies_less mod_less nat_neq_iff unat_0 unat_eq_zero)
    have u: "upto (B + L) (p + 1) = B + L" using b by (simp add: upto_def algebra_simps)
    show ?thesis
    proof (cases "k = PAGE_SIZE")
      case True
      then show ?thesis using z u k(1) by simp
    next
      case False
      then have "unat endsz = k" using e m k by simp
      with False z u k(1) \<open>p + 2 = lastp\<close> show ?thesis by simp
    qed
  next
    case False
    then have "(p + 2) * PAGE_SIZE < B + L" using upto_last [OF r, of "p + 1"] p by simp
    then have "upto (B + L) (p + 1) = (p + 2) * PAGE_SIZE" by (simp add: upto_def)
    with False show ?thesis by simp
  qed
qed

text \<open>The state of the join loop: \<open>n\<close> is where the segment starts, on page \<open>p0\<close>; it reaches to the end of
  page \<open>p\<close>, and the frames from \<open>p0\<close> to \<open>p\<close> are consecutive.\<close>

definition joined :: "nat list \<Rightarrow> nat \<Rightarrow> nat \<Rightarrow> nat \<Rightarrow> nat \<Rightarrow> u32 \<Rightarrow> bool" where
  "joined pages e n p0 p ext \<longleftrightarrow> p0 = n div PAGE_SIZE \<and> p0 \<le> p \<and> n + unat ext = upto e p \<and> n < e
     \<and> (\<forall>i. p0 \<le> i \<and> i \<le> p \<longrightarrow> pages ! i = pages ! p0 + (i - p0))"

lemma page_join_joined:
  assumes r: "byte_range pages B L lastp endsz"
  shows "joined pages (B + L) n p0 p ext \<Longrightarrow> B \<le> n \<Longrightarrow> p < lastp \<Longrightarrow>
    \<exists>p' ext'. page_join pages lastp endsz p ext = Val (p', ext') \<and> p \<le> p' \<and> p' < lastp \<and> joined pages (B + L) n p0 p' ext'"
proof (induction "lastp - p" arbitrary: p ext)
  case 0
  then show ?case by simp
next
  case (Suc d)
  note j = Suc.prems(1) [unfolded joined_def]
  show ?case
  proof (cases "p + 2 \<le> lastp \<and> pages ! p + 1 = pages ! (p + 1)")
    case False
    then have "page_join pages lastp endsz p ext = Val (p, ext)"
      using r by (subst page_join.simps) (auto simp: byte_range_def)
    with Suc.prems show ?thesis by blast
  next
    case True
    let ?ext = "ext + (if p + 2 = lastp \<and> endsz \<noteq> 0 then endsz else 4096)"
    have step: "page_join pages lastp endsz p ext = page_join pages lastp endsz (p + 1) ?ext"
      using True r by (subst page_join.simps) (auto simp: byte_range_def)
    have p1: "p + 1 < lastp" and nxt: "pages ! (p + 1) = pages ! p + 1" using True by simp_all
    have first: "B div PAGE_SIZE \<le> p" using j Suc.prems(2) by (meson div_le_mono le_trans)
    have lt: "(p + 1) * PAGE_SIZE < B + L" using upto_last [OF r Suc.prems(3)] p1 by simp
    have n1: "n + unat ext = (p + 1) * PAGE_SIZE" using j lt by (simp add: upto_def)
    have le: "(p + 1) * PAGE_SIZE \<le> upto (B + L) (p + 1)" "upto (B + L) (p + 1) \<le> B + L" using lt by (simp_all add: upto_def)
    have sz: "unat ext + unat (if p + 2 = lastp \<and> endsz \<noteq> 0 then endsz else 4096 :: u32) = upto (B + L) (p + 1) - n"
      unfolding next_size [OF r p1 first] using n1 le by linarith
    also have "\<dots> < 2 ^ 32" using le Suc.prems(2) r by (auto simp: byte_range_def)
    finally have "unat ?ext = unat ext + unat (if p + 2 = lastp \<and> endsz \<noteq> 0 then endsz else 4096 :: u32)"
      by (simp add: unat_word_ariths mod_less)
    then have "n + unat ?ext = upto (B + L) (p + 1)" using sz n1 le by linarith
    moreover have "\<forall>i. p0 \<le> i \<and> i \<le> p + 1 \<longrightarrow> pages ! i = pages ! p0 + (i - p0)"
    proof (intro allI impI)
      fix i assume i: "p0 \<le> i \<and> i \<le> p + 1"
      show "pages ! i = pages ! p0 + (i - p0)"
      proof (cases "i = p + 1")
        case True
        have "pages ! p = pages ! p0 + (p - p0)" "p0 \<le> p" using j by blast+
        then show ?thesis unfolding \<open>i = p + 1\<close> nxt by linarith
      next
        case False
        with i j show ?thesis by (metis Suc_eq_plus1 le_SucE)
      qed
    qed
    moreover have "p0 = n div PAGE_SIZE" "p0 \<le> p + 1" "n < B + L" using j by linarith+
    ultimately have "joined pages (B + L) n p0 (p + 1) ?ext" unfolding joined_def by blast
    moreover have "d = lastp - (p + 1)" using Suc.hyps(2) by simp
    ultimately obtain p' ext' where "page_join pages lastp endsz (p + 1) ?ext = Val (p', ext')" "p + 1 \<le> p'" "p' < lastp"
      "joined pages (B + L) n p0 p' ext'" using Suc.hyps(1) [of "p + 1" ?ext] Suc.prems(2) p1 by auto
    then show ?thesis using step by auto
  qed
qed

lemma joined_contiguous:
  assumes j: "joined pages e n p0 p ext" and k: "k < unat ext"
  shows "byte_at pages (n + k) = pages ! p0 * PAGE_SIZE + n mod PAGE_SIZE + k"
proof -
  let ?i = "(n + k) div PAGE_SIZE"
  have p0: "p0 = n div PAGE_SIZE" using j by (simp add: joined_def)
  have "n + unat ext \<le> (p + 1) * PAGE_SIZE" using j unfolding joined_def upto_def by linarith
  then have "n + k < (p + 1) * PAGE_SIZE" using k by linarith
  then have "?i < p + 1" by (simp add: div_less_iff_less_mult)
  moreover have "p0 \<le> ?i" unfolding p0 by (simp add: div_le_mono)
  moreover have "\<forall>i. p0 \<le> i \<and> i \<le> p \<longrightarrow> pages ! i = pages ! p0 + (i - p0)" using j unfolding joined_def by blast
  ultimately have f: "pages ! ?i = pages ! p0 + (?i - p0)" by (metis Suc_eq_plus1 less_Suc_eq_le)
  have "n + k = ?i * PAGE_SIZE + (n + k) mod PAGE_SIZE" by simp
  moreover have "n = p0 * PAGE_SIZE + n mod PAGE_SIZE" unfolding p0 by simp
  moreover obtain d where "?i = p0 + d" using \<open>p0 \<le> ?i\<close> by (metis le_iff_add)
  ultimately have "d * PAGE_SIZE + (n + k) mod PAGE_SIZE = n mod PAGE_SIZE + k"
    by linarith
  moreover have "byte_at pages (n + k) = (pages ! p0 + d) * PAGE_SIZE + (n + k) mod PAGE_SIZE"
    unfolding byte_at_def f by (simp only: \<open>?i = p0 + d\<close> add_diff_cancel_left')
  ultimately show ?thesis unfolding distrib_right by linarith
qed

section \<open>What the loops create\<close>

text \<open>Creating the pieces one by one, until one fails.\<close>

fun make_all :: "(u64 \<Rightarrow> u32 \<Rightarrow> 'a \<Rightarrow> 'a \<times> bool) \<Rightarrow> (u64 \<times> u32) list \<Rightarrow> 'a \<Rightarrow> 'a \<times> bool" where
  "make_all mk [] acc = (acc, True)"
| "make_all mk ((phys, len) # ps) acc =
     (case mk phys len acc of (acc', True) \<Rightarrow> make_all mk ps acc' | (acc', False) \<Rightarrow> (acc', False))"

lemma page_loop_tiles:
  assumes r: "byte_range pages B L lastp endsz"
    and islast: "\<And>p. p + 1 < lastp \<Longrightarrow> islast p lastp \<longleftrightarrow> p + 2 = lastp"
  shows "p = n div PAGE_SIZE \<Longrightarrow> B \<le> n \<Longrightarrow> p < lastp \<Longrightarrow> n < B + L \<Longrightarrow> n + unat ext = upto (B + L) p
    \<Longrightarrow> off = of_nat (n mod PAGE_SIZE) \<Longrightarrow> lastp \<le> fuel + p
    \<Longrightarrow> \<exists>ps. tiles pages n (B + L) ps
        \<and> page_loop fuel islast pages lastp endsz mk p off ext acc = Val (make_all mk ps acc)"
proof (induction fuel arbitrary: p n off ext acc)
  case 0
  then show ?case by simp
next
  case (Suc fuel)
  have len: "p < length pages" using r Suc.prems(3) by (simp add: byte_range_def)
  have "joined pages (B + L) n p p ext" using Suc.prems by (simp add: joined_def) (metis le_antisym)
  from page_join_joined [OF r this Suc.prems(2,3)] obtain p' ext' where
    pj: "page_join pages lastp endsz p ext = Val (p', ext')" and p': "p \<le> p'" "p' < lastp"
    and j: "joined pages (B + L) n p p' ext'" by blast
  define phys :: u64 where "phys = off + of_nat (pages ! p * PAGE_SIZE)"
  have e: "n + unat ext' = upto (B + L) p'" using j by (simp add: joined_def)
  have "p * PAGE_SIZE + n mod PAGE_SIZE = n" using Suc.prems(1) by simp
  moreover have "n mod PAGE_SIZE < PAGE_SIZE" by simp
  ultimately have "n < (p + 1) * PAGE_SIZE" unfolding distrib_right by linarith
  also have "\<dots> \<le> (p' + 1) * PAGE_SIZE" using p'(1) by simp
  finally have pos: "0 < unat ext'" using e Suc.prems(4) by (simp add: upto_def)
  have frame: "pages ! p < 2 ^ 20" using r len by (auto simp: byte_range_def)
  have small: "n mod PAGE_SIZE + pages ! p * PAGE_SIZE < 2 ^ 64"
    using frame mod_less_divisor [of PAGE_SIZE n] by simp
  have "phys = of_nat (n mod PAGE_SIZE + pages ! p * PAGE_SIZE)" by (simp add: phys_def Suc.prems(6))
  then have "unat phys = (n mod PAGE_SIZE + pages ! p * PAGE_SIZE) mod 2 ^ LENGTH(64)" by (simp only: unat_of_nat)
  then have ph: "unat phys = pages ! p * PAGE_SIZE + n mod PAGE_SIZE" using small by simp
  have bytes: "\<forall>k < unat ext'. unat phys + k = byte_at pages (n + k)"
    using joined_contiguous [OF j] ph by simp
  have step: "page_loop (Suc fuel) islast pages lastp endsz mk p off ext acc =
     (case mk phys ext' acc of (acc', False) \<Rightarrow> Val (acc', False)
      | (acc', True) \<Rightarrow> page_loop fuel islast pages lastp endsz mk (p' + 1) 0
             (if islast p' lastp \<and> endsz \<noteq> 0 then endsz else 4096) acc')"
    using Suc.prems(3) len pj by (simp add: phys_def split: prod.split bool.split)
  show ?case
  proof (cases "p' + 1 < lastp")
    case False
    then have "\<not> (p' + 1) * PAGE_SIZE < B + L" using upto_last [OF r p'(2)] by simp
    then have all: "n + unat ext' = B + L" using e by (simp add: upto_def)
    have fin: "page_loop fuel islast pages lastp endsz mk (p' + 1) 0 x a = Val (a, True)" for x a
      using False by (cases fuel) simp_all
    have "tiles pages n (B + L) [(phys, ext')]" using pos all bytes by simp
    moreover have "page_loop (Suc fuel) islast pages lastp endsz mk p off ext acc = Val (make_all mk [(phys, ext')] acc)"
      unfolding step fin by (simp split: prod.split bool.split)
    ultimately show ?thesis by blast
  next
    case True
    let ?n = "(p' + 1) * PAGE_SIZE"
    let ?x = "if islast p' lastp \<and> endsz \<noteq> 0 then endsz else 4096 :: u32"
    have lt: "?n < B + L" using upto_last [OF r p'(2)] True by simp
    then have n': "n + unat ext' = ?n" using e by (simp add: upto_def)
    have "B div PAGE_SIZE \<le> p'" using Suc.prems(1,2) p'(1) by (meson div_le_mono le_trans)
    from next_size [OF r True this] have "unat ?x = upto (B + L) (p' + 1) - ?n" using islast [OF True] by simp
    then have x: "?n + unat ?x = upto (B + L) (p' + 1)" using lt by (simp add: upto_def)
    have IH: "\<exists>ps. tiles pages ?n (B + L) ps \<and> page_loop fuel islast pages lastp endsz mk (p' + 1) 0 ?x a = Val (make_all mk ps a)" for a
      using Suc.IH [of "p' + 1" ?n ?x 0 a] lt n' True x p' Suc.prems(2,7) by simp
    obtain ps where t: "tiles pages ?n (B + L) ps" and run:
      "page_loop fuel islast pages lastp endsz mk (p' + 1) 0 ?x (fst (mk phys ext' acc)) = Val (make_all mk ps (fst (mk phys ext' acc)))"
      using IH by blast
    have "tiles pages n (B + L) ((phys, ext') # ps)" using pos bytes n' lt t by simp
    moreover have "page_loop (Suc fuel) islast pages lastp endsz mk p off ext acc = Val (make_all mk ((phys, ext') # ps) acc)"
      unfolding step using run by (auto split: prod.split bool.split)
    ultimately show ?thesis by blast
  qed
qed

text \<open>The page arithmetic of the macros on the byte numbers of the block.\<close>

lemma unat_sum3:
  assumes "unat (x :: u64) + unat (y :: u64) + unat (z :: u32) < 2 ^ 42"
  shows "unat (x + y) = unat x + unat y" "unat (x + y + ucast z) = unat x + unat y + unat z"
proof -
  show a: "unat (x + y) = unat x + unat y" using assms by (simp add: unat_word_ariths)
  show "unat (x + y + ucast z) = unat x + unat y + unat z"
    using assms a by (simp add: unat_word_ariths unat_widen)
qed

lemma page_macros:
  assumes small: "unat (offset b) + unat (offset d) + unat (extent d) < 2 ^ 42" and some: "extent d \<noteq> 0"
    and enough: "(unat (offset b) + unat (offset d) + unat (extent d) - 1) div PAGE_SIZE < length pages"
    and frames: "\<forall>f \<in> set pages. f < 2 ^ 20"
    and B: "B = unat (offset b) + unat (offset d)" and L: "L = unat (extent d)"
    and lastp: "lastp = unat (START_PAGE b d + NUM_DMA b d)"
  shows "byte_range pages B L lastp (END_SIZE b d)" "unat (START_PAGE b d) = B div PAGE_SIZE" "lastp < 2 ^ 31"
    "START_OFFSET b d = of_nat (B mod PAGE_SIZE)" "B + unat (START_SIZE b d) = upto (B + L) (B div PAGE_SIZE)"
    "B div PAGE_SIZE < lastp"
proof -
  note u = unat_sum3 [OF small]
  have L0: "0 < L" "L < 2 ^ 32" using some by (simp_all add: L unat_gt_0 unat_lt32 [simplified])
  have BL: "B + L < 2 ^ 42" using small by (simp add: B L)
  show sp: "unat (START_PAGE b d) = B div PAGE_SIZE" by (simp add: START_PAGE_def unat_page_number u B)
  have so: "unat (START_OFFSET b d) = B mod PAGE_SIZE" by (simp add: START_OFFSET_def unat_page_offset u B)
  show "START_OFFSET b d = of_nat (B mod PAGE_SIZE)"
    by (simp flip: so)
  have "unat (offset b + offset d + ucast (extent d) - 1) = B + L - 1"
    using L0 by (subst unat_sub) (simp_all add: u B L word_le_nat_alt)
  then have ep: "unat (END_PAGE b d) = (B + L - 1) div PAGE_SIZE" by (simp add: END_PAGE_def unat_page_number)
  have "(B + L - 1) div PAGE_SIZE < 2 ^ 30" using BL by (simp add: div_less_iff_less_mult)
  moreover have "START_PAGE b d + NUM_DMA b d = END_PAGE b d + 1" by (simp add: NUM_DMA_def)
  ultimately have lp: "lastp = (B + L - 1) div PAGE_SIZE + 1" using ep by (simp add: lastp unat_word_ariths)
  then show "lastp < 2 ^ 31" using \<open>(B + L - 1) div PAGE_SIZE < 2 ^ 30\<close> by simp
  have "B div PAGE_SIZE \<le> (B + L - 1) div PAGE_SIZE" using L0 by (intro div_le_mono) simp
  then show lt: "B div PAGE_SIZE < lastp" using lp by simp
  have avail: "unat (ucast (4096 - START_OFFSET b d) :: u32) = PAGE_SIZE - B mod PAGE_SIZE"
    using so by (subst unat_narrow, subst unat_sub) (simp_all add: word_le_nat_alt less_imp_le)
  have split: "B = B div PAGE_SIZE * PAGE_SIZE + B mod PAGE_SIZE" by simp
  have m: "B mod PAGE_SIZE < PAGE_SIZE" by simp
  have "unat (START_SIZE b d) = min L (PAGE_SIZE - B mod PAGE_SIZE)"
    by (simp add: START_SIZE_def Let_def word_less_nat_alt avail L min_def)
  then show "B + unat (START_SIZE b d) = upto (B + L) (B div PAGE_SIZE)"
    using split m unfolding upto_def distrib_right by linarith
  have "unat (ucast ((offset b + offset d + ucast (extent d)) AND 0xfff) :: u32) = (B + L) mod PAGE_SIZE"
    by (simp add: unat_narrow unat_page_offset u B L)
  then have es: "unat (END_SIZE b d) = (if L < (B + L) mod PAGE_SIZE then 0 else (B + L) mod PAGE_SIZE)"
    by (simp add: END_SIZE_def Let_def word_less_nat_alt L)
  have "\<not> L < (B + L) mod PAGE_SIZE" if two: "B div PAGE_SIZE + 1 < lastp"
  proof -
    have "B div PAGE_SIZE + 1 \<le> (B + L - 1) div PAGE_SIZE" using two lp by simp
    then have "B div PAGE_SIZE + 1 \<le> (B + L) div PAGE_SIZE" by (meson diff_le_self div_le_mono le_trans)
    then have "(B div PAGE_SIZE + 1) * PAGE_SIZE \<le> (B + L) div PAGE_SIZE * PAGE_SIZE" by (rule mult_right_mono) simp
    moreover have "B + L = (B + L) div PAGE_SIZE * PAGE_SIZE + (B + L) mod PAGE_SIZE" by simp
    ultimately show ?thesis using split m unfolding distrib_right by linarith
  qed
  then show "byte_range pages B L lastp (END_SIZE b d)"
    using L0 lp es enough frames by (simp add: byte_range_def B L)
qed

section \<open>Properties\<close>

text \<open>The parameters of the created segments against the pieces.\<close>

fun dst_segments :: "u64 \<Rightarrow> (u64 \<times> u32) list \<Rightarrow> vfi_bind_param list \<Rightarrow> bool" where
  "dst_segments so [] cs \<longleftrightarrow> cs = []"
| "dst_segments so ((phys, len) # ps) cs \<longleftrightarrow>
     (case cs of [] \<Rightarrow> False
      | c # cs' \<Rightarrow> offset (dst c) = phys \<and> extent (dst c) = len \<and> offset (src c) = so \<and> extent (src c) = len
          \<and> dst_segments (so + ucast len) ps cs')"

fun src_segments :: "u32 \<Rightarrow> (u64 \<times> u32) list \<Rightarrow> vfi_bind_param list \<Rightarrow> bool" where
  "src_segments da [] cs \<longleftrightarrow> cs = []"
| "src_segments da ((phys, len) # ps) cs \<longleftrightarrow>
     (case cs of [] \<Rightarrow> False
      | c # cs' \<Rightarrow> offset (src c) = phys \<and> extent (src c) = len
          \<and> offset (src_segment_dst c) = ucast da \<and> extent (src_segment_dst c) = len
          \<and> src_segments (da + len) ps cs')"

lemma make_dst_apply:
  "make_dst ok off ext (params, calls) =
     (let p = params\<lparr>dst := (dst params)\<lparr>offset := off, extent := ext\<rparr>, src := (src params)\<lparr>extent := ext\<rparr>\<rparr>
      in ((p\<lparr>src := (src p)\<lparr>offset := offset (src p) + ucast (extent (src p))\<rparr>\<rparr>, calls @ [Dst_create p]), ok p))"
  by (simp add: make_dst_def)

lemma make_src_apply:
  "make_src ok off ext (params, calls) =
     (let p = params\<lparr>src := (src params)\<lparr>offset := off, extent := ext\<rparr>\<rparr>
      in ((p\<lparr>dst := (dst p)\<lparr>extent := extent (dst p) + extent (src p)\<rparr>\<rparr>, calls @ [Src_create p]), ok p))"
  by (simp add: make_src_def)

lemma make_all_dst:
  "\<exists>cs q. make_all (make_dst (\<lambda>_. True)) ps (params, calls) = ((q, calls @ map Dst_create cs), True)
     \<and> dst_segments (offset (src params)) ps cs"
proof (induction ps arbitrary: params calls)
  case (Cons p ps)
  obtain phys len where p: "p = (phys, len)" by fastforce
  let ?c = "params\<lparr>dst := (dst params)\<lparr>offset := phys, extent := len\<rparr>, src := (src params)\<lparr>extent := len\<rparr>\<rparr>"
  let ?q = "?c\<lparr>src := (src ?c)\<lparr>offset := offset (src ?c) + ucast (extent (src ?c))\<rparr>\<rparr>"
  obtain cs q where "make_all (make_dst (\<lambda>_. True)) ps (?q, calls @ [Dst_create ?c]) = ((q, (calls @ [Dst_create ?c]) @ map Dst_create cs), True)"
    "dst_segments (offset (src ?q)) ps cs" using Cons by blast
  then show ?case
    by (intro exI [of _ "?c # cs"] exI [of _ q]) (simp add: p make_dst_apply Let_def)
qed simp

lemma make_all_src:
  "\<exists>cs q. make_all (make_src (\<lambda>_. True)) ps (params, calls) = ((q, calls @ map Src_create cs), True)
     \<and> src_segments (extent (dst params)) ps cs"
proof (induction ps arbitrary: params calls)
  case (Cons p ps)
  obtain phys len where p: "p = (phys, len)" by fastforce
  let ?c = "params\<lparr>src := (src params)\<lparr>offset := phys, extent := len\<rparr>\<rparr>"
  let ?q = "?c\<lparr>dst := (dst ?c)\<lparr>extent := extent (dst ?c) + extent (src ?c)\<rparr>\<rparr>"
  obtain cs q where "make_all (make_src (\<lambda>_. True)) ps (?q, calls @ [Src_create ?c]) = ((q, (calls @ [Src_create ?c]) @ map Src_create cs), True)"
    "src_segments (extent (dst ?q)) ps cs" using Cons by blast
  then show ?case
    by (intro exI [of _ "?c # cs"] exI [of _ q]) (simp add: p make_src_apply Let_def src_segment_dst_def)
qed simp

text \<open>A block whose pages reach to the end of the described range, with 32-bit physical addresses.\<close>

definition backed :: "vfi_smb \<Rightarrow> vfi_desc_param \<Rightarrow> nat list \<Rightarrow> bool" where
  "backed b d pages \<longleftrightarrow> smb_pages b = Some pages \<and> extent d \<noteq> 0
     \<and> unat (offset (smb_desc b)) + unat (offset d) + unat (extent d) < 2 ^ 42
     \<and> (unat (offset (smb_desc b)) + unat (offset d) + unat (extent d) - 1) div PAGE_SIZE < length pages
     \<and> (\<forall>f \<in> set pages. f < 2 ^ 20)"

lemma backed_loop:
  assumes "backed b d pages" and islast: "\<And>p l. p + 1 < l \<Longrightarrow> islast p l \<longleftrightarrow> p + 2 = l"
  defines "lastp \<equiv> unat (START_PAGE (smb_desc b) d + NUM_DMA (smb_desc b) d)"
  shows "lastp < 2 ^ 31 \<and> (\<exists>ps. tiles pages (unat (offset (smb_desc b)) + unat (offset d))
         (unat (offset (smb_desc b)) + unat (offset d) + unat (extent d)) ps
      \<and> page_loop lastp islast pages lastp (END_SIZE (smb_desc b) d) mk (unat (START_PAGE (smb_desc b) d))
          (START_OFFSET (smb_desc b) d) (START_SIZE (smb_desc b) d) acc = Val (make_all mk ps acc))"
proof -
  have s: "unat (offset (smb_desc b)) + unat (offset d) + unat (extent d) < 2 ^ 42" "extent d \<noteq> 0"
    "(unat (offset (smb_desc b)) + unat (offset d) + unat (extent d) - 1) div PAGE_SIZE < length pages"
    "\<forall>f \<in> set pages. f < 2 ^ 20" using assms(1) by (auto simp: backed_def)
  note m = page_macros [OF s refl refl lastp_def [THEN meta_eq_to_obj_eq]]
  have "unat (offset (smb_desc b)) + unat (offset d) < unat (offset (smb_desc b)) + unat (offset d) + unat (extent d)"
    using s(2) by (simp add: unat_gt_0)
  have "\<exists>ps. tiles pages (unat (offset (smb_desc b)) + unat (offset d))
         (unat (offset (smb_desc b)) + unat (offset d) + unat (extent d)) ps
      \<and> page_loop lastp islast pages lastp (END_SIZE (smb_desc b) d) mk (unat (START_PAGE (smb_desc b) d))
          (START_OFFSET (smb_desc b) d) (START_SIZE (smb_desc b) d) acc = Val (make_all mk ps acc)"
  proof (rule page_loop_tiles [OF m(1)])
    show "p + 1 < lastp \<Longrightarrow> islast p lastp = (p + 2 = lastp)" for p by (rule islast)
  qed (use m(2,4,5,6) \<open>_ < _ + unat (extent d)\<close> in simp_all)
  then show ?thesis using m(3) by simp
qed

text \<open>C11: Cutting the destination of a bind: when the block is backed by pages over the described range and
  every segment is created, \<open>vfi_local_dsts_create\<close> returns 0 and creates segments that cover the range
  byte for byte, in order, without gap or overlap, each contiguous in physical memory, with the source
  offsets running along; then the segments are chained and the block's reference is given back.\<close>

theorem destination_segments_cover_range:
  assumes v: "DESC_VALID (smb_desc b) (dst desc)" and bk: "backed b (dst desc) pages"
  shows "\<exists>ps cs. tiles pages (unat (offset (smb_desc b)) + unat (offset (dst desc)))
       (unat (offset (smb_desc b)) + unat (offset (dst desc)) + unat (extent (dst desc))) ps
    \<and> dst_segments (offset (src desc)) ps cs
    \<and> vfi_local_dsts_create 0 0 (Inr b) (\<lambda>_. True) desc
        = Val (0, [Dst_events, Dsts_create, Find_smb] @ map Dst_create cs @ [Load_dsts, Smb_put])"
proof -
  let ?calls = "[Dst_events, Dsts_create, Find_smb]"
  from backed_loop [OF bk, of "\<lambda>page lastp. page + 2 = lastp" "make_dst (\<lambda>_. True)" "(desc, ?calls)"] obtain ps where
    t: "tiles pages (unat (offset (smb_desc b)) + unat (offset (dst desc)))
       (unat (offset (smb_desc b)) + unat (offset (dst desc)) + unat (extent (dst desc))) ps"
    and run: "page_loop (unat (START_PAGE (smb_desc b) (dst desc) + NUM_DMA (smb_desc b) (dst desc))) (\<lambda>page lastp. page + 2 = lastp) pages
        (unat (START_PAGE (smb_desc b) (dst desc) + NUM_DMA (smb_desc b) (dst desc))) (END_SIZE (smb_desc b) (dst desc)) (make_dst (\<lambda>_. True))
        (unat (START_PAGE (smb_desc b) (dst desc))) (START_OFFSET (smb_desc b) (dst desc)) (START_SIZE (smb_desc b) (dst desc)) (desc, ?calls)
      = Val (make_all (make_dst (\<lambda>_. True)) ps (desc, ?calls))"
    and small: "unat (START_PAGE (smb_desc b) (dst desc) + NUM_DMA (smb_desc b) (dst desc)) < 2 ^ 31" by auto
  obtain cs q where m: "make_all (make_dst (\<lambda>_. True)) ps (desc, ?calls) = ((q, ?calls @ map Dst_create cs), True)"
    "dst_segments (offset (src desc)) ps cs" using make_all_dst by blast
  have "vfi_local_dsts_create 0 0 (Inr b) (\<lambda>_. True) desc = cres_bind
      (page_loop (unat (START_PAGE (smb_desc b) (dst desc) + NUM_DMA (smb_desc b) (dst desc))) (\<lambda>page lastp. page + 2 = lastp) pages
        (unat (START_PAGE (smb_desc b) (dst desc) + NUM_DMA (smb_desc b) (dst desc))) (END_SIZE (smb_desc b) (dst desc)) (make_dst (\<lambda>_. True))
        (unat (START_PAGE (smb_desc b) (dst desc))) (START_OFFSET (smb_desc b) (dst desc)) (START_SIZE (smb_desc b) (dst desc)) (desc, ?calls))
      (\<lambda>((_, calls), done). if done then Val (0, calls @ [Load_dsts, Smb_put]) else Val (- EINVAL, calls @ [Smb_put, Dsts_put]))"
    using v bk small by (simp add: vfi_local_dsts_create_def backed_def Let_def)
  also have "\<dots> = Val (0, ?calls @ map Dst_create cs @ [Load_dsts, Smb_put])" unfolding run m(1) by simp
  finally show ?thesis using t m(2) by blast
qed

text \<open>A block of three pages, the last two adjacent, and a range that starts in the first.\<close>

definition demo_smb :: vfi_smb where
  "demo_smb = \<lparr>smb_desc = zero_desc\<lparr>extent := 0x3000\<rparr>, smb_size = 0x3000, smb_pages = Some [5, 9, 10]\<rparr>"

definition demo_cut :: vfi_bind_param where
  "demo_cut = \<lparr>xfer = zero_desc, dst = zero_desc\<lparr>offset := 0x800, extent := 0x2000\<rparr>,
     src = zero_desc\<lparr>offset := 0x800, extent := 0x2000\<rparr>\<rparr>"

lemma demo_backed: "backed demo_smb (dst demo_cut) [5, 9, 10]" "backed demo_smb (src demo_cut) [5, 9, 10]"
  by (simp_all add: backed_def demo_smb_def demo_cut_def zero_desc_def)

theorem destination_segments_cover_range_witness:
  "\<exists>ps cs. tiles [5, 9, 10] 0x800 0x2800 ps \<and> dst_segments 0x800 ps cs
     \<and> vfi_local_dsts_create 0 0 (Inr demo_smb) (\<lambda>_. True) demo_cut
         = Val (0, [Dst_events, Dsts_create, Find_smb] @ map Dst_create cs @ [Load_dsts, Smb_put])"
proof -
  have "DESC_VALID (smb_desc demo_smb) (dst demo_cut)" by (simp add: DESC_VALID_def demo_smb_def demo_cut_def zero_desc_def)
  from destination_segments_cover_range [OF this demo_backed(1)] show ?thesis
    by (simp add: demo_smb_def demo_cut_def zero_desc_def)
qed

text \<open>C12: Cutting the source of one destination piece: the created segments cover the source range byte for
  byte in order; each carries its own length and, as its destination, the piece's address plus the bytes
  before it, but only 32 bits of it, because the address travels in \<open>dst.extent\<close>.\<close>

theorem source_segments_cover_range:
  assumes v: "DESC_VALID (smb_desc b) (src desc)" and bk: "backed b (src desc) pages"
  shows "\<exists>ps cs. tiles pages (unat (offset (smb_desc b)) + unat (offset (src desc)))
       (unat (offset (smb_desc b)) + unat (offset (src desc)) + unat (extent (src desc))) ps
    \<and> src_segments (ucast (offset (dst desc))) ps cs
    \<and> vfi_local_srcs_create 0 0 (Inr b) (\<lambda>_. True) create_ret desc
        = Val (0, [Srcs_create, Src_events, Find_smb] @ map Src_create cs @ [Load_srcs, Smb_put])"
proof -
  let ?calls = "[Srcs_create, Src_events, Find_smb]"
  let ?p = "desc\<lparr>dst := (dst desc)\<lparr>extent := ucast (offset (dst desc))\<rparr>\<rparr>"
  have "p + 1 < l \<Longrightarrow> p + 2 \<ge> l \<longleftrightarrow> p + 2 = l" for p l :: nat by auto
  from backed_loop [OF bk, of "\<lambda>page lastp. page + 2 \<ge> lastp", OF this, of "make_src (\<lambda>_. True)" "(?p, ?calls)"] obtain ps where
    t: "tiles pages (unat (offset (smb_desc b)) + unat (offset (src desc)))
       (unat (offset (smb_desc b)) + unat (offset (src desc)) + unat (extent (src desc))) ps"
    and run: "page_loop (unat (START_PAGE (smb_desc b) (src desc) + NUM_DMA (smb_desc b) (src desc))) (\<lambda>page lastp. page + 2 \<ge> lastp) pages
        (unat (START_PAGE (smb_desc b) (src desc) + NUM_DMA (smb_desc b) (src desc))) (END_SIZE (smb_desc b) (src desc)) (make_src (\<lambda>_. True))
        (unat (START_PAGE (smb_desc b) (src desc))) (START_OFFSET (smb_desc b) (src desc)) (START_SIZE (smb_desc b) (src desc)) (?p, ?calls)
      = Val (make_all (make_src (\<lambda>_. True)) ps (?p, ?calls))"
    and small: "unat (START_PAGE (smb_desc b) (src desc) + NUM_DMA (smb_desc b) (src desc)) < 2 ^ 31" by auto
  obtain cs q where m: "make_all (make_src (\<lambda>_. True)) ps (?p, ?calls) = ((q, ?calls @ map Src_create cs), True)"
    "src_segments (extent (dst ?p)) ps cs" using make_all_src by blast
  have "vfi_local_srcs_create 0 0 (Inr b) (\<lambda>_. True) create_ret desc = cres_bind
      (page_loop (unat (START_PAGE (smb_desc b) (src desc) + NUM_DMA (smb_desc b) (src desc))) (\<lambda>page lastp. page + 2 \<ge> lastp) pages
        (unat (START_PAGE (smb_desc b) (src desc) + NUM_DMA (smb_desc b) (src desc))) (END_SIZE (smb_desc b) (src desc)) (make_src (\<lambda>_. True))
        (unat (START_PAGE (smb_desc b) (src desc))) (START_OFFSET (smb_desc b) (src desc)) (START_SIZE (smb_desc b) (src desc)) (?p, ?calls))
      (\<lambda>((_, calls), done). if done then Val (0, calls @ [Load_srcs, Smb_put])
         else Val (case last calls of Src_create p \<Rightarrow> create_ret p | _ \<Rightarrow> 0, calls @ [Smb_put, Srcs_delete]))"
    using v bk small by (simp add: vfi_local_srcs_create_def backed_def Let_def)
  also have "\<dots> = Val (0, ?calls @ map Src_create cs @ [Load_srcs, Smb_put])" unfolding run m(1) by simp
  finally show ?thesis using t m(2) by auto
qed

theorem source_segments_cover_range_witness:
  "\<exists>ps cs. tiles [5, 9, 10] 0x800 0x2800 ps \<and> src_segments 0x800 ps cs
     \<and> vfi_local_srcs_create 0 0 (Inr demo_smb) (\<lambda>_. True) (\<lambda>_. 0) demo_cut
         = Val (0, [Srcs_create, Src_events, Find_smb] @ map Src_create cs @ [Load_srcs, Smb_put])"
proof -
  have "DESC_VALID (smb_desc demo_smb) (src demo_cut)" by (simp add: DESC_VALID_def demo_smb_def demo_cut_def zero_desc_def)
  from source_segments_cover_range [OF this demo_backed(2), of "\<lambda>_. 0"] show ?thesis
    by (simp add: demo_smb_def demo_cut_def zero_desc_def)
qed

text \<open>The references a run of calls takes on the block and on the list of destinations, and gives back.\<close>

definition kept :: "errno + vfi_smb \<Rightarrow> bind_call list \<Rightarrow> int" where
  "kept smb calls =
     (if smb \<in> range Inr then int (count_list calls Find_smb) else 0) - int (count_list calls Smb_put)"

lemma page_loop_acc:
  "page_loop fuel islast pages lastp endsz mk page off ext acc = Val (acc', ok) \<Longrightarrow>
     (\<And>phys len a. P a \<Longrightarrow> P (fst (mk phys len a))) \<Longrightarrow> P acc \<Longrightarrow> P acc'"
proof (induction fuel arbitrary: page off ext acc)
  case (Suc fuel)
  show ?case
  proof (cases "page < lastp")
    case True
    with Suc.prems(1) obtain page' ext' where j: "page_join pages lastp endsz page ext = Val (page', ext')"
      by (cases "page_join pages lastp endsz page ext") (auto split: if_splits)
    let ?m = "mk (off + of_nat (pages ! page * PAGE_SIZE)) ext' acc"
    have "P (fst ?m)" using Suc.prems(2,3) by blast
    then show ?thesis using Suc.prems Suc.IH [of "page' + 1" 0 "if islast page' lastp \<and> endsz \<noteq> 0 then endsz else 4096" "fst ?m"] True j
      by (cases ?m; cases "snd ?m") (auto split: if_splits)
  qed (use Suc.prems in auto)
qed (auto split: if_splits)

text \<open>Whatever the other components answer, if \<open>vfi_local_dsts_create\<close> returns it has given back the
  reference on the block it looked up, it returns 0 or \<open>-EINVAL\<close>, and exactly when it fails after the list of
  destinations was created it has dropped that list.\<close>

theorem dsts_create_keeps_no_block:
  assumes "vfi_local_dsts_create ev cr smb ok desc = Val (ret, calls)"
  shows "kept smb calls = 0 \<and> (ret = 0 \<or> ret = - EINVAL)
    \<and> count_list calls Dsts_put = (if ret \<noteq> 0 \<and> ev = 0 \<and> cr = 0 then 1 else 0)"
proof (cases "ev \<noteq> 0 \<or> cr \<noteq> 0 \<or> (\<exists>e. smb = Inl e)")
  case True
  with assms show ?thesis by (auto simp: vfi_local_dsts_create_def kept_def split: if_splits)
next
  case False
  then obtain b where b: "smb = Inr b" and z: "ev = 0" "cr = 0" by (cases smb) auto
  show ?thesis
  proof (cases "DESC_VALID (smb_desc b) (dst desc) \<and> smb_pages b \<noteq> None")
    case False
    with assms b z show ?thesis by (auto simp: vfi_local_dsts_create_def kept_def split: if_splits option.splits)
  next
    case True
    define lp where "lp = unat (START_PAGE (smb_desc b) (dst desc) + NUM_DMA (smb_desc b) (dst desc))"
    obtain pages q cs fin where run: "page_loop lp (\<lambda>page lastp. page + 2 = lastp) pages lp (END_SIZE (smb_desc b) (dst desc))
        (make_dst ok) (unat (START_PAGE (smb_desc b) (dst desc))) (START_OFFSET (smb_desc b) (dst desc))
        (START_SIZE (smb_desc b) (dst desc)) (desc, [Dst_events, Dsts_create, Find_smb]) = Val ((q, cs), fin)"
      and res: "(ret, calls) = (if fin then (0, cs @ [Load_dsts, Smb_put]) else (- EINVAL, cs @ [Smb_put, Dsts_put]))"
      using assms b z True by (auto simp: vfi_local_dsts_create_def Let_def cres_bind_eq_Val lp_def [symmetric] split: if_splits)
    let ?P = "\<lambda>(p :: vfi_bind_param, c). count_list c Find_smb = 1 \<and> count_list c Smb_put = 0 \<and> count_list c Dsts_put = 0"
    have "?P (q, cs)" by (rule page_loop_acc [OF run, of ?P]) (auto simp: make_dst_def Let_def)
    with res b z show ?thesis by (cases fin) (auto simp: kept_def)
  qed
qed

theorem dsts_create_keeps_no_block_witness:
  "\<exists>ret calls. vfi_local_dsts_create 0 0 (Inr (demo_smb\<lparr>smb_pages := None\<rparr>)) (\<lambda>_. True) demo_cut = Val (ret, calls)
     \<and> ret = - EINVAL \<and> kept (Inr (demo_smb\<lparr>smb_pages := None\<rparr>)) calls = 0"
proof -
  have "vfi_local_dsts_create 0 0 (Inr (demo_smb\<lparr>smb_pages := None\<rparr>)) (\<lambda>_. True) demo_cut
      = Val (- EINVAL, [Dst_events, Dsts_create, Find_smb, Smb_put, Dsts_put])"
    by (simp add: vfi_local_dsts_create_def demo_smb_def)
  with dsts_create_keeps_no_block [OF this] show ?thesis by blast
qed

end
