(* ===== verification/Vfi_Pages.thy ===== *)
theory Vfi_Pages
  imports Vfi_Segment
begin

text \<open>
  The pages of a shared memory block: \<open>order\<close>, \<open>vfi_alloc_pages\<close> and \<open>vfi_dealloc_pages\<close> of
  \<open>vfi_dma.c\<close>. A block takes its pages from the kernel, one at a time, or pins those of a user
  address. The members \<open>pages\<close> and \<open>num_pages\<close> of the block are the result; the page allocator is an
  argument that answers each call with a page frame or with \<open>None\<close>.
\<close>

function order :: "int \<Rightarrow> int" where
  "order x = (if x > 1 then order (x div 2) + 1 else 0)"
  by pat_completeness auto
termination by (relation "measure nat") auto

declare order.simps [simp del]

lemma order_bounds: "0 < x \<Longrightarrow> 0 \<le> order x \<and> 2 ^ nat (order x) \<le> x \<and> x < 2 ^ Suc (nat (order x))"
proof (induction x rule: order.induct)
  case (1 x)
  show ?case
  proof (cases "x > 1")
    case True
    then have h: "0 \<le> order (x div 2)" "2 ^ nat (order (x div 2)) \<le> x div 2" "x div 2 < 2 ^ Suc (nat (order (x div 2)))"
      using 1 by auto
    have e: "order x = order (x div 2) + 1" using True by (subst order.simps) simp
    have "nat (order x) = Suc (nat (order (x div 2)))" using h(1) e by simp
    moreover from h(2) have "2 * 2 ^ nat (order (x div 2)) \<le> x" by linarith
    moreover from h(3) have "x < 4 * 2 ^ nat (order (x div 2))" by simp
    ultimately show ?thesis using h(1) e by simp
  qed (use 1 in \<open>simp add: order.simps [of x]\<close>)
qed

text \<open>
  The two members the functions change. \<open>pg_num\<close> is a C \<open>int\<close>; a page pointer in the array may be
  \<open>NULL\<close>.
\<close>

record page_state =
  pg_num :: int
  pg_ary :: "nat option list option"

text \<open>
  The number of pages: \<open>size_t\<close> is 32 bits wide and the offset, a 64-bit member, is read into an
  \<open>int\<close>.
\<close>

definition pages_needed :: "u32 \<Rightarrow> u64 \<Rightarrow> nat" where
  "pages_needed sz off =
     (let s = sz + ucast off in unat (drop_bit 12 s) + (if s AND 0xfff \<noteq> 0 then 1 else 0))"

text \<open>
  The two allocation loops: \<open>k\<close> rounds are left, \<open>page\<close> is the counter, \<open>ary\<close> the array so far. With
  \<open>discontig\<close> the counter stays behind at a failed page, without it the counter has already moved on.
\<close>

fun discontig_loop :: "(nat \<Rightarrow> nat option) \<Rightarrow> nat \<Rightarrow> nat \<Rightarrow> nat option list \<Rightarrow> nat \<times> nat option list" where
  "discontig_loop alloc 0 page ary = (page, ary)"
| "discontig_loop alloc (Suc k) page ary =
     (case alloc page of
        None \<Rightarrow> (page, ary[page := None])
      | Some f \<Rightarrow> discontig_loop alloc k (Suc page) (ary[page := Some f]))"

fun contig_loop :: "(nat \<Rightarrow> nat option) \<Rightarrow> nat \<Rightarrow> nat \<Rightarrow> nat option list \<Rightarrow> nat \<times> nat option list" where
  "contig_loop alloc 0 page ary = (page, ary)"
| "contig_loop alloc (Suc k) page ary =
     (case alloc page of
        None \<Rightarrow> (Suc page, ary[page := None])
      | Some f \<Rightarrow> contig_loop alloc k (Suc page) (ary[page := Some f]))"

text \<open>Giving pages back, last first. \<open>__free_pages\<close> of a null page is undefined.\<close>

fun free_loop :: "nat option list \<Rightarrow> nat \<Rightarrow> nat list cres" where
  "free_loop ary 0 = Val []"
| "free_loop ary (Suc page) =
     (if length ary \<le> page then Undef
      else case ary ! page of
        None \<Rightarrow> Undef
      | Some f \<Rightarrow> cres_bind (free_loop ary page) (\<lambda>fs. Val (f # fs)))"

text \<open>
  Where the pages come from. For a user address the option \<open>mytid\<close> names the task whose pages are
  pinned: \<open>None\<close> when there is no such task, else the answer of \<open>get_user_pages\<close>, the pages it pinned
  or a negative error.
\<close>

datatype page_source =
    User_pages "(errno + nat list) option"
  | Discontig "nat \<Rightarrow> nat option"
  | Kernel_pages "nat \<Rightarrow> nat option"

text \<open>
  \<open>vfi_alloc_pages\<close>: \<open>mem\<close> answers the allocation of the array. The result is the return value, the new
  state and the frames given back on failure. A negative counter makes the cleaning loop read before
  the array.
\<close>

definition vfi_alloc_pages ::
  "bool \<Rightarrow> page_source \<Rightarrow> u32 \<Rightarrow> u64 \<Rightarrow> page_state \<Rightarrow> (errno \<times> page_state \<times> nat list) cres" where
  "vfi_alloc_pages mem from sz off st =
     (if pg_ary st \<noteq> None then Val (- EINVAL, st, [])
      else (let n = pages_needed sz off; st1 = st\<lparr>pg_num := int n\<rparr>
        in if \<not> mem then Val (- ENOMEM, st1, [])
           else (let ary0 = replicate n None;
                     (page, ary) = (case from of
                         User_pages None \<Rightarrow> (0, ary0)
                       | User_pages (Some (Inl e)) \<Rightarrow> (e, ary0)
                       | User_pages (Some (Inr fs)) \<Rightarrow> (int (length fs), map Some fs @ drop (length fs) ary0)
                       | Discontig alloc \<Rightarrow> (let (p, a) = discontig_loop alloc n 0 ary0 in (int p, a))
                       | Kernel_pages alloc \<Rightarrow> (let (p, a) = contig_loop alloc n 0 ary0 in (int p, a)))
             in if page = int n then Val (0, st1\<lparr>pg_ary := Some ary\<rparr>, [])
                else if page < 0 then Undef
                else cres_bind (free_loop ary (nat page)) (\<lambda>fs. Val (- ENOMEM, st1\<lparr>pg_num := 0\<rparr>, fs)))))"

text \<open>
  \<open>vfi_dealloc_pages\<close>: every page is freed, or, when it belongs to a user, marked dirty and released;
  both are undefined on a null page. The counter ends at -1. A negative counter would not stop before
  it has left the array.
\<close>

definition vfi_dealloc_pages :: "page_state \<Rightarrow> (page_state \<times> nat list) cres" where
  "vfi_dealloc_pages st =
     (if pg_num st < 0 then Undef
      else cres_bind (free_loop (case pg_ary st of None \<Rightarrow> [] | Some a \<Rightarrow> a) (nat (pg_num st)))
        (\<lambda>fs. Val (st\<lparr>pg_num := - 1\<rparr>, fs)))"

section \<open>The loops\<close>

lemma fill_next: "length xs = p \<Longrightarrow> (xs @ replicate (Suc k) None)[p := y] = (xs @ [y]) @ replicate k None"
  by (simp add: list_update_append)

lemma filled_Suc: "alloc p = Some f \<Longrightarrow> map alloc [0..<p] @ [Some f] = map alloc [0..<Suc p]"
  by simp

lemma discontig_loop_ok:
  assumes "\<forall>i < page + k. alloc i \<noteq> None"
  shows "discontig_loop alloc k page (map alloc [0..<page] @ replicate k None) = (page + k, map alloc [0..<page + k])"
  using assms
proof (induction k arbitrary: page)
  case (Suc k)
  from Suc.prems have "alloc page \<noteq> None" by simp
  then obtain f where f: "alloc page = Some f" by blast
  have "(map alloc [0..<page] @ replicate (Suc k) None)[page := Some f] = map alloc [0..<Suc page] @ replicate k None"
    by (subst fill_next) (simp_all add: f)
  moreover have "\<forall>i < Suc page + k. alloc i \<noteq> None" using Suc.prems by (simp only: add_Suc_shift)
  note Suc.IH [OF this]
  ultimately show ?case using f by (simp del: replicate_Suc upt_Suc)
qed simp

lemma contig_loop_ok:
  assumes "\<forall>i < page + k. alloc i \<noteq> None"
  shows "contig_loop alloc k page (map alloc [0..<page] @ replicate k None) = (page + k, map alloc [0..<page + k])"
  using assms
proof (induction k arbitrary: page)
  case (Suc k)
  from Suc.prems have "alloc page \<noteq> None" by simp
  then obtain f where f: "alloc page = Some f" by blast
  have "(map alloc [0..<page] @ replicate (Suc k) None)[page := Some f] = map alloc [0..<Suc page] @ replicate k None"
    by (subst fill_next) (simp_all add: f)
  moreover have "\<forall>i < Suc page + k. alloc i \<noteq> None" using Suc.prems by (simp only: add_Suc_shift)
  note Suc.IH [OF this]
  ultimately show ?case using f by (simp del: replicate_Suc upt_Suc)
qed simp

text \<open>Where the loops stop when page \<open>m\<close> is the first that is refused.\<close>

lemma discontig_loop_fail:
  assumes "\<forall>i < m. alloc i \<noteq> None" "alloc m = None" "page \<le> m" "m < page + k"
  shows "discontig_loop alloc k page (map alloc [0..<page] @ replicate k None)
      = (m, map alloc [0..<m] @ replicate (page + k - m) None)"
  using assms
proof (induction k arbitrary: page)
  case (Suc k)
  show ?case
  proof (cases "page = m")
    case True
    then show ?thesis using Suc.prems fill_next [of "map alloc [0..<m]" m k None] by simp
  next
    case False
    then obtain f where f: "alloc page = Some f" using Suc.prems by (metis le_neq_implies_less option.exhaust)
    have "(map alloc [0..<page] @ replicate (Suc k) None)[page := Some f] = map alloc [0..<Suc page] @ replicate k None"
      by (subst fill_next) (simp_all add: f)
    then show ?thesis using Suc.IH [of "Suc page"] Suc.prems False by (simp add: f del: replicate_Suc upt_Suc)
  qed
qed simp

lemma contig_loop_fail:
  assumes "\<forall>i < m. alloc i \<noteq> None" "alloc m = None" "page \<le> m" "m < page + k"
  shows "contig_loop alloc k page (map alloc [0..<page] @ replicate k None)
      = (Suc m, map alloc [0..<m] @ replicate (page + k - m) None)"
  using assms
proof (induction k arbitrary: page)
  case (Suc k)
  show ?case
  proof (cases "page = m")
    case True
    then show ?thesis using Suc.prems fill_next [of "map alloc [0..<m]" m k None] by simp
  next
    case False
    then obtain f where f: "alloc page = Some f" using Suc.prems by (metis le_neq_implies_less option.exhaust)
    have "(map alloc [0..<page] @ replicate (Suc k) None)[page := Some f] = map alloc [0..<Suc page] @ replicate k None"
      by (subst fill_next) (simp_all add: f)
    then show ?thesis using Suc.IH [of "Suc page"] Suc.prems False by (simp add: f del: replicate_Suc upt_Suc)
  qed
qed simp

lemmas filling_from_start =
  discontig_loop_ok [where page = 0, unfolded add_0 upt_0 list.map append_Nil]
  contig_loop_ok [where page = 0, unfolded add_0 upt_0 list.map append_Nil]
  discontig_loop_fail [where page = 0, OF _ _ le0, unfolded add_0 upt_0 list.map append_Nil]
  contig_loop_fail [where page = 0, OF _ _ le0, unfolded add_0 upt_0 list.map append_Nil]

lemma free_loop_all:
  assumes "length fs = n"
  shows "free_loop (map Some fs @ rest) n = Val (rev fs)"
proof -
  have "k \<le> length fs \<Longrightarrow> free_loop (map Some fs @ rest) k = Val (rev (take k fs))" for k
    by (induction k) (auto simp: nth_append take_Suc_conv_app_nth)
  from this [of n] assms show ?thesis by simp
qed


section \<open>Allocating and giving back\<close>

lemma unat_page_number32: "unat (drop_bit 12 (x :: u32)) = unat x div 4096"
  by (simp add: unat_drop_bit_eq drop_bit_eq_div unat_div)

lemma unat_page_offset32: "unat ((x :: u32) AND 0xfff) = unat x mod 4096"
proof -
  have m: "(0xfff :: u32) = mask 12" by (simp add: mask_eq_exp_minus_1)
  show ?thesis unfolding m by (simp add: take_bit_eq_mask [symmetric] unsigned_take_bit_eq take_bit_eq_mod unat_mod)
qed

lemma pages_needed_ceiling:
  "pages_needed sz off = unat (sz + ucast off) div PAGE_SIZE + (if unat (sz + ucast off) mod PAGE_SIZE = 0 then 0 else 1)"
proof -
  have "(sz + ucast off) AND 0xfff = 0 \<longleftrightarrow> unat (sz + ucast off) mod PAGE_SIZE = 0"
    by (metis unat_page_offset32 unat_eq_zero)
  then show ?thesis by (simp add: pages_needed_def Let_def unat_page_number32)
qed

lemma filled_pages:
  assumes "\<forall>i < n. alloc i \<noteq> None"
  shows "map alloc [0..<n] = map Some (map (the \<circ> alloc) [0..<n])"
  using assms by (induction n) auto

text \<open>When every page is granted, \<open>vfi_alloc_pages\<close> returns 0 with one page for each page that the
  block touches, in the order they were granted, and frees none; \<open>vfi_dealloc_pages\<close> then gives back
  exactly those pages, last first.\<close>

theorem alloc_pages_grants:
  assumes none: "pg_ary st = None" and n: "n = pages_needed sz off" and all: "\<forall>i < n. alloc i \<noteq> None"
    and how: "from = Discontig alloc \<or> from = Kernel_pages alloc"
  shows "\<exists>st'. vfi_alloc_pages True from sz off st = Val (0, st', [])
    \<and> pg_num st' = int n \<and> pg_ary st' = Some (map alloc [0..<n])
    \<and> vfi_dealloc_pages st' = Val (st'\<lparr>pg_num := - 1\<rparr>, rev (map (the \<circ> alloc) [0..<n]))"
proof -
  let ?s = "st\<lparr>pg_num := int n, pg_ary := Some (map alloc [0..<n])\<rparr>"
  have "vfi_alloc_pages True from sz off st = Val (0, ?s, [])"
    using how all none
    by (elim disjE) (simp_all add: vfi_alloc_pages_def Let_def filling_from_start flip: n)
  moreover have "free_loop (map alloc [0..<n]) n = Val (rev (map (the \<circ> alloc) [0..<n]))"
    using free_loop_all [of "map (the \<circ> alloc) [0..<n]" n "[]"] by (simp only: filled_pages [OF all, symmetric]) simp
  then have "vfi_dealloc_pages ?s = Val (?s\<lparr>pg_num := - 1\<rparr>, rev (map (the \<circ> alloc) [0..<n]))"
    by (simp add: vfi_dealloc_pages_def)
  ultimately show ?thesis by (intro exI [of _ ?s]) simp
qed

theorem alloc_pages_grants_witness:
  "\<exists>st'. vfi_alloc_pages True (Kernel_pages (\<lambda>i. Some (i + 7))) 0x1800 0x900 \<lparr>pg_num = 0, pg_ary = None\<rparr> = Val (0, st', [])
     \<and> pg_num st' = 3 \<and> pg_ary st' = Some [Some 7, Some 8, Some 9]"
proof -
  have n: "3 = pages_needed 0x1800 0x900" by (simp add: pages_needed_ceiling)
  from alloc_pages_grants [OF _ n, of "\<lparr>pg_num = 0, pg_ary = None\<rparr>" "\<lambda>i. Some (i + 7)" "Kernel_pages (\<lambda>i. Some (i + 7))"]
  show ?thesis by (auto simp: upt_rec)
qed

text \<open>A page that is refused: with the option \<open>discontig\<close> the call fails with \<open>-ENOMEM\<close> and the pages
  granted before are given back. Without it the counter has already passed the refused page. If that
  page is the last one, the call returns 0 and the block keeps a null page; otherwise the cleaning loop
  frees a null page.\<close>

theorem refused_page:
  assumes none: "pg_ary st = None" and n: "n = pages_needed sz off"
    and before: "\<forall>i < m. alloc i \<noteq> None" and refused: "alloc m = None" and m: "m < n"
  shows "vfi_alloc_pages True (Discontig alloc) sz off st
        = Val (- ENOMEM, st\<lparr>pg_num := 0\<rparr>, rev (map (the \<circ> alloc) [0..<m]))
    \<and> vfi_alloc_pages True (Kernel_pages alloc) sz off st
        = (if m = n - 1 then Val (0, st\<lparr>pg_num := int n, pg_ary := Some (map alloc [0..<m] @ [None])\<rparr>, []) else Undef)"
proof
  note run = filling_from_start(3) [OF before refused m] filling_from_start(4) [OF before refused m]
  let ?fs = "map (the \<circ> alloc) [0..<m]"
  have "free_loop (map Some ?fs @ replicate (n - m) None) m = Val (rev ?fs)" by (rule free_loop_all) simp
  then have free: "free_loop (map alloc [0..<m] @ replicate (n - m) None) m = Val (rev ?fs)"
    by (simp only: filled_pages [OF before])
  show "vfi_alloc_pages True (Discontig alloc) sz off st = Val (- ENOMEM, st\<lparr>pg_num := 0\<rparr>, rev ?fs)"
    using none m by (simp add: vfi_alloc_pages_def Let_def run free flip: n)
  have "(map alloc [0..<m] @ replicate (n - m) None) ! m = None" using m by (simp add: nth_append)
  then have "free_loop (map alloc [0..<m] @ replicate (n - m) None) (Suc m) = Undef" using m by simp
  then have last_free: "free_loop (map alloc [0..<m] @ replicate (n - m) None) (nat (1 + int m)) = Undef"
    by (simp add: nat_add_distrib)
  show "vfi_alloc_pages True (Kernel_pages alloc) sz off st
        = (if m = n - 1 then Val (0, st\<lparr>pg_num := int n, pg_ary := Some (map alloc [0..<m] @ [None])\<rparr>, []) else Undef)"
  proof (cases "Suc m = n")
    case True
    then have "replicate (n - m) None = [None]" by (auto simp: Suc_diff_le [symmetric])
    then show ?thesis using none True by (simp add: vfi_alloc_pages_def Let_def run flip: n)
  next
    case False
    then show ?thesis using none m last_free by (auto simp: vfi_alloc_pages_def Let_def run simp flip: n)
  qed
qed

theorem refused_page_witness:
  "vfi_alloc_pages True (Kernel_pages (\<lambda>i. if i = 2 then None else Some i)) 0x3000 0 \<lparr>pg_num = 0, pg_ary = None\<rparr>
     = Val (0, \<lparr>pg_num = 3, pg_ary = Some [Some 0, Some 1, None]\<rparr>, [])"
proof -
  have n: "3 = pages_needed 0x3000 0" by (simp add: pages_needed_ceiling)
  from refused_page [OF _ n, of "\<lparr>pg_num = 0, pg_ary = None\<rparr>" 2 "\<lambda>i. if i = 2 then None else Some i"]
  show ?thesis by (simp add: upt_rec)
qed



end
