(* ===== verification/Vfi_Mmap.thy ===== *)
theory Vfi_Mmap
  imports Vfi_Pages
begin

text \<open>
  Mapping blocks into user memory: \<open>vfi_mmap.c\<close>, the \<open>mmap\<close> operations of \<open>vfi_local_ops.c\<close>, and the
  handlers \<open>vfi_mmap\<close>, \<open>vfi_mmap_nopage\<close>, \<open>vfi_vm_open\<close>, \<open>vfi_vm_close\<close> of \<open>vfi_cdev.c\<close>. A mapping is
  announced to the user as a \<open>ticket\<close> computed from the address of its \<open>struct vfi_mmap\<close>; the user
  passes it back as the offset of \<open>mmap\<close>, and the driver searches its locations for the mapping.

  Addresses are those of the 32-bit target, and a page table pointer is an index into the page array of
  the block.
\<close>

section \<open>Tickets\<close>

definition mmap_to_ticket :: "u32 \<Rightarrow> u32" where
  "mmap_to_ticket m = (m AND NOT 0xffff) XOR (push_bit 16 (m AND 0xffff))"

definition is_mmap_ticket :: "u32 \<Rightarrow> u32 \<Rightarrow> bool" where
  "is_mmap_ticket m t \<longleftrightarrow> drop_bit 16 ((m AND NOT 0xffff) XOR t) = m AND 0xffff"

section \<open>The mappings of the system\<close>

record vfi_mmap =
  mm_desc :: vfi_desc_param
  t_id :: u32
  pg_tbl :: u32
  n_pg :: u32
  mm_smb :: "nat option"

text \<open>
  The objects alive: the mappings by address with their reference counts, the reference counts of the
  blocks, the mappings in the kset of each block, and what the descriptors hold.
\<close>

record mmap_world =
  maps :: "u32 \<Rightarrow> vfi_mmap option"
  mrefs :: "u32 \<Rightarrow> int"
  srefs :: "nat \<Rightarrow> int"
  kids :: "nat \<Rightarrow> u32 list"
  held :: ref_state

definition vfi_mmap_get :: "u32 \<Rightarrow> mmap_world \<Rightarrow> mmap_world" where
  "vfi_mmap_get a w = w\<lparr>mrefs := (mrefs w)(a := mrefs w a + 1)\<rparr>"

definition vfi_smb_get :: "nat \<Rightarrow> mmap_world \<Rightarrow> mmap_world" where
  "vfi_smb_get b w = w\<lparr>srefs := (srefs w)(b := srefs w b + 1)\<rparr>"

definition vfi_smb_put :: "nat option \<Rightarrow> mmap_world \<Rightarrow> mmap_world" where
  "vfi_smb_put b w = (case b of None \<Rightarrow> w | Some i \<Rightarrow> w\<lparr>srefs := (srefs w)(i := srefs w i - 1)\<rparr>)"

text \<open>The release function of the kobject; the kset lets go of it too.\<close>

definition vfi_mmap_release :: "u32 \<Rightarrow> vfi_mmap \<Rightarrow> mmap_world \<Rightarrow> mmap_world" where
  "vfi_mmap_release a m w =
     (let w1 = vfi_smb_put (mm_smb m) w
      in w1\<lparr>held := vfi_clean_desc (mm_desc m) (held w1), maps := (maps w1)(a := None),
            kids := (\<lambda>b. removeAll a (kids w1 b))\<rparr>)"

definition vfi_mmap_put :: "u32 \<Rightarrow> mmap_world \<Rightarrow> mmap_world cres" where
  "vfi_mmap_put a w =
     (case maps w a of
        None \<Rightarrow> Undef
      | Some m \<Rightarrow>
          (let w1 = w\<lparr>mrefs := (mrefs w)(a := mrefs w a - 1)\<rparr>
           in Val (if mrefs w1 a = 0 then vfi_mmap_release a m w1 else w1)))"

definition vfi_mmap_delete :: "u32 \<Rightarrow> mmap_world \<Rightarrow> mmap_world cres" where
  "vfi_mmap_delete a w = vfi_mmap_put a w"

section \<open>Finding a mapping by its ticket\<close>

text \<open>
  A location has its sub-locations and the mappings of each of its blocks (\<open>None\<close> while its collection
  of blocks has not been made).
\<close>

datatype loc_tree = Loc_node "loc_tree list" "u32 list list option"

fun frm_by_smbs :: "u32 list list \<Rightarrow> u32 \<Rightarrow> u32 option" where
  "frm_by_smbs [] tid = None"
| "frm_by_smbs (ms # smbs) tid =
     (case find (\<lambda>m. is_mmap_ticket m tid) ms of Some m \<Rightarrow> Some m | None \<Rightarrow> frm_by_smbs smbs tid)"

fun frm_by_loc :: "loc_tree \<Rightarrow> u32 \<Rightarrow> mmap_world \<Rightarrow> (u32 option \<times> mmap_world) cres"
  and frm_by_locs :: "loc_tree list \<Rightarrow> u32 \<Rightarrow> mmap_world \<Rightarrow> (u32 option \<times> mmap_world) cres" where
  "frm_by_loc (Loc_node subs smbs) tid w =
     cres_bind (frm_by_locs subs tid w) (\<lambda>(r, w').
       case r of
         Some m \<Rightarrow> Val (Some m, w')
       | None \<Rightarrow>
          (case smbs of
             None \<Rightarrow> Undef
           | Some bs \<Rightarrow>
              (case frm_by_smbs bs tid of
                 Some m \<Rightarrow> Val (Some m, vfi_mmap_get m w')
               | None \<Rightarrow> Val (None, w'))))"
| "frm_by_locs [] tid w = Val (None, w)"
| "frm_by_locs (l # ls) tid w =
     cres_bind (frm_by_loc l tid w) (\<lambda>(r, w').
       case r of Some m \<Rightarrow> Val (Some m, w') | None \<Rightarrow> frm_by_locs ls tid w')"

text \<open>The result is written through a pointer, and only if there is a location: \<open>old\<close> is what was there.\<close>

definition find_vfi_mmap_by_id ::
  "u32 option cres \<Rightarrow> u32 \<Rightarrow> loc_tree list \<Rightarrow> mmap_world \<Rightarrow> (errno \<times> u32 option cres \<times> mmap_world) cres" where
  "find_vfi_mmap_by_id old tid ls w =
     (if ls = [] then Val (- EINVAL, old, w)
      else cres_bind (frm_by_locs ls tid w) (\<lambda>(r, w').
        Val (if r = None then - EINVAL else 0, Val r, w')))"

section \<open>Creating a mapping\<close>

text \<open>
  \<open>new_vfi_mmap\<close>: \<open>mem\<close> answers \<open>kzalloc\<close> with an address, \<open>dup\<close> the copy of the descriptor, \<open>add\<close>
  is the answer of \<open>kobject_init_and_add\<close>. When that fails the new object is released, and \<open>*mmap\<close> still
  points to it.
\<close>

definition new_vfi_mmap ::
  "u32 option \<Rightarrow> bool \<Rightarrow> errno \<Rightarrow> nat \<Rightarrow> vfi_smb \<Rightarrow> vfi_desc_param \<Rightarrow> mmap_world \<Rightarrow> (errno \<times> u32 option \<times> mmap_world) cres" where
  "new_vfi_mmap mem dup add b smb desc w =
     (case mem of
        None \<Rightarrow> Val (- ENOMEM, None, w)
      | Some a \<Rightarrow>
          (let (_, d, s1) = vfi_clone_desc dup zero_desc desc (held w);
               (d', s2) = vfi_inherit d (smb_desc smb) s1;
               m = \<lparr>mm_desc = d', t_id = 0, pg_tbl = 0, n_pg = 0, mm_smb = None\<rparr>;
               w1 = w\<lparr>held := s2, maps := (maps w)(a \<mapsto> m), mrefs := (mrefs w)(a := 1)\<rparr>
           in if add \<noteq> 0 then cres_bind (vfi_mmap_put a w1) (\<lambda>w2. Val (add, Some a, w2))
              else Val (0, Some a, w1\<lparr>kids := (kids w1)(b := kids w1 b @ [a])\<rparr>)))"

text \<open>
  \<open>vfi_mmap_create\<close>, in \<open>unsigned long\<close> arithmetic. The block's page count is an \<open>int\<close>. A range past the
  table is answered with 0 and no mapping.
\<close>

definition vfi_mmap_create ::
  "u32 option \<Rightarrow> bool \<Rightarrow> errno \<Rightarrow> nat \<Rightarrow> vfi_smb \<Rightarrow> page_state \<Rightarrow> u32 option \<Rightarrow> vfi_desc_param \<Rightarrow> mmap_world
    \<Rightarrow> (errno \<times> u32 option \<times> mmap_world) cres" where
  "vfi_mmap_create mem dup add b smb pst old desc w =
     (let npages = word_of_int (pg_num pst) :: u32;
          off = ucast (offset desc) :: u32;
          ext = extent desc;
          firstpage = drop_bit 12 off;
          lastpage = drop_bit 12 (off + ext - 1)
      in if lastpage \<ge> npages then Val (0, old, w)
         else cres_bind (new_vfi_mmap mem dup add b smb desc w) (\<lambda>(ret, r, w1).
           if ret \<noteq> 0 then Val (ret, r, w1)
           else case r of
             None \<Rightarrow> Undef
           | Some a \<Rightarrow>
              (case maps w1 a of
                 None \<Rightarrow> Undef
               | Some m \<Rightarrow> Val (0, r, vfi_smb_get b (w1\<lparr>maps := (maps w1)(a \<mapsto>
                   m\<lparr>pg_tbl := firstpage, n_pg := lastpage - firstpage + 1, t_id := mmap_to_ticket a, mm_smb := Some b\<rparr>)\<rparr>)))))"

text \<open>
  The kset of the block is searched by the name that \<open>new_vfi_mmap\<close> gave the mapping, \<open>#offset:extent\<close>;
  finding takes a reference. Not found is returned as 1.
\<close>

definition mmap_name :: "vfi_desc_param \<Rightarrow> string" where
  "mmap_name d = ''#'' @ hex_of_nat (unat (offset d)) @ '':'' @ hex_of_nat (unat (extent d))"

definition vfi_local_mmap_find ::
  "nat option \<Rightarrow> vfi_desc_param \<Rightarrow> mmap_world \<Rightarrow> errno \<times> u32 option \<times> mmap_world" where
  "vfi_local_mmap_find parent desc w =
     (case parent of
        None \<Rightarrow> (1, None, w)
      | Some b \<Rightarrow>
          (case find (\<lambda>a. case maps w a of None \<Rightarrow> False | Some m \<Rightarrow> mmap_name (mm_desc m) = mmap_name desc) (kids w b) of
             None \<Rightarrow> (1, None, w)
           | Some a \<Rightarrow> (0, Some a, vfi_mmap_get a w)))"

text \<open>
  \<open>find_vfi_mmap_in\<close> asks the operations of the block; without a block it looks the block up first
  (\<open>look\<close> is the answer of \<open>find_vfi_smb\<close>). The fabric operations refuse every search.
\<close>

definition smb_mmap_find :: "ops_tab option \<Rightarrow> nat option \<Rightarrow> vfi_desc_param \<Rightarrow> u32 option \<Rightarrow> mmap_world
    \<Rightarrow> (errno \<times> u32 option \<times> mmap_world) option" where
  "smb_mmap_find t b desc old w =
     (case t of
        None \<Rightarrow> None
      | Some Vfi_local_ops \<Rightarrow> Some (vfi_local_mmap_find b desc w)
      | Some Vfi_fabric_ops \<Rightarrow> Some (- EINVAL, old, w))"

definition find_vfi_mmap_in ::
  "errno + (nat \<times> vfi_smb) \<Rightarrow> (nat \<times> vfi_smb) option \<Rightarrow> vfi_desc_param \<Rightarrow> u32 option \<Rightarrow> mmap_world
    \<Rightarrow> errno \<times> u32 option \<times> mmap_world" where
  "find_vfi_mmap_in look smb desc old w =
     (case (case smb of None \<Rightarrow> None | Some (b, s) \<Rightarrow> smb_mmap_find (ops (smb_desc s)) (Some b) desc old w) of
        Some r \<Rightarrow> r
      | None \<Rightarrow>
         (case look of
            Inl e \<Rightarrow> (e, None, w)
          | Inr (b, s) \<Rightarrow>
             (case smb_mmap_find (ops (smb_desc s)) (Some b) desc None w of
                None \<Rightarrow> (0, None, w)
              | Some (ret, r, w') \<Rightarrow> (ret, r, vfi_smb_put (Some b) w'))))"

definition vfi_local_mmap_create ::
  "u32 option \<Rightarrow> bool \<Rightarrow> errno \<Rightarrow> errno + (nat \<times> vfi_smb) \<Rightarrow> nat \<Rightarrow> vfi_smb \<Rightarrow> page_state \<Rightarrow> u32 option \<Rightarrow> vfi_desc_param
    \<Rightarrow> mmap_world \<Rightarrow> (errno \<times> u32 option \<times> mmap_world) cres" where
  "vfi_local_mmap_create mem dup add look b smb pst old desc w =
     (let (ret, r, w1) = find_vfi_mmap_in look (Some (b, smb)) desc old w
      in if ret \<noteq> 0 then vfi_mmap_create mem dup add b smb pst r desc w1 else Val (0, r, w1))"

section \<open>The memory map of the device\<close>

record vm_area =
  vm_start :: u32
  vm_end :: u32
  vm_pgoff :: u32
  vm_private :: "u32 option"
  vm_has_ops :: bool

text \<open>
  The handler of \<open>mmap\<close>. \<open>tkt\<close> is an uninitialised local until the search writes it; the search's
  reference is kept on every path.
\<close>

definition vfi_cdev_mmap :: "loc_tree list \<Rightarrow> vm_area \<Rightarrow> mmap_world \<Rightarrow> (errno \<times> vm_area \<times> mmap_world) cres" where
  "vfi_cdev_mmap ls vma w =
     cres_bind (find_vfi_mmap_by_id Undef (push_bit 12 (vm_pgoff vma)) ls w) (\<lambda>(_, r, w1).
     cres_bind r (\<lambda>tkt.
       case tkt of
         None \<Rightarrow> Val (- EINVAL, vma, w1)
       | Some a \<Rightarrow>
          (case maps w1 a of
             None \<Rightarrow> Undef
           | Some m \<Rightarrow>
               if drop_bit 12 (vm_end vma - vm_start vma) > n_pg m then Val (- EINVAL, vma, w1)
               else if vm_private vma \<noteq> None then Val (- EINVAL, vma, w1)
               else Val (0, vma\<lparr>vm_private := Some a, vm_pgoff := 0, vm_has_ops := True\<rparr>, w1))))"

text \<open>
  A page fault: the page of the array \<open>pages\<close> that the faulting address falls on, or none. The pointer
  arithmetic \<open>pg_tbl[pg_off]\<close> leaves the array when the index is too large.
\<close>

definition vfi_mmap_nopage :: "nat option list \<Rightarrow> vm_area \<Rightarrow> u32 \<Rightarrow> mmap_world \<Rightarrow> nat option cres" where
  "vfi_mmap_nopage pages vma addr w =
     (let pg_off = drop_bit 12 (addr - vm_start vma)
      in case vm_private vma of
           None \<Rightarrow> Val None
         | Some a \<Rightarrow>
            (case maps w a of
               None \<Rightarrow> Undef
             | Some m \<Rightarrow>
                 if pg_off \<ge> n_pg m then Val None
                 else if length pages \<le> unat (pg_tbl m) + unat pg_off then Undef
                 else case pages ! (unat (pg_tbl m) + unat pg_off) of None \<Rightarrow> Undef | Some f \<Rightarrow> Val (Some f)))"

definition vfi_vm_open :: "vm_area \<Rightarrow> mmap_world \<Rightarrow> mmap_world cres" where
  "vfi_vm_open vma w = (case vm_private vma of None \<Rightarrow> Undef | Some a \<Rightarrow> Val (vfi_mmap_get a w))"

definition vfi_vm_close :: "vm_area \<Rightarrow> mmap_world \<Rightarrow> mmap_world cres" where
  "vfi_vm_close vma w = (case vm_private vma of None \<Rightarrow> Undef | Some a \<Rightarrow> vfi_mmap_put a w)"


section \<open>What a ticket says\<close>

declare bit_numeral_word_iff [simp del]

lemma bit_low_half: "bit (0xffff :: u32) n \<longleftrightarrow> n < 16"
proof -
  have lo: "(0xffff :: u32) = mask 16" by (simp add: mask_eq_exp_minus_1)
  show ?thesis unfolding lo bit_mask_iff by (auto simp: exp_eq_zero_iff)
qed

lemma bit_high_half: "bit (0xffff0000 :: u32) n \<longleftrightarrow> 16 \<le> n \<and> n < 32"
proof -
  have "(0xffff0000 :: u32) = NOT 0xffff" by simp
  also have "bit \<dots> n \<longleftrightarrow> n < 32 \<and> \<not> bit (0xffff :: u32) n" unfolding bit_not_iff by (simp add: exp_eq_zero_iff not_le)
  finally show ?thesis by (auto simp: bit_low_half)
qed

lemma not_low_half: "NOT (0xffff :: u32) = 0xffff0000"
  by simp

lemma ticket_bits:
  "bit (mmap_to_ticket m) n \<longleftrightarrow> 16 \<le> n \<and> n < 32 \<and> bit m n \<noteq> bit m (n - 16)"
  by (auto simp: mmap_to_ticket_def bit_simps bit_low_half bit_high_half)

text \<open>Only the upper half of a ticket counts.\<close>

lemma is_ticket_iff: "is_mmap_ticket m t \<longleftrightarrow> mmap_to_ticket m = t AND 0xffff0000"
proof
  assume "is_mmap_ticket m t"
  then have e: "bit (drop_bit 16 ((m AND NOT 0xffff) XOR t)) n = bit (m AND 0xffff) n" for n by (simp add: is_mmap_ticket_def)
  show "mmap_to_ticket m = t AND 0xffff0000"
  proof (rule bit_word_eqI)
    fix n assume "n < LENGTH(32)"
    with e [of "n - 16"] show "bit (mmap_to_ticket m) n = bit (t AND 0xffff0000) n"
      unfolding ticket_bits by (auto simp: bit_simps bit_low_half bit_high_half)
  qed
next
  assume "mmap_to_ticket m = t AND 0xffff0000"
  then have e: "bit (mmap_to_ticket m) n = bit (t AND 0xffff0000) n" for n by simp
  have "drop_bit 16 ((m AND NOT 0xffff) XOR t) = m AND 0xffff"
  proof (rule bit_word_eqI)
    fix n assume "n < LENGTH(32)"
    with e [of "n + 16"] bit_high_half [of "n + 16"] bit_low_half [of n] bit_imp_le_length [of m "n + 16"] bit_imp_le_length [of t "n + 16"]
    show "bit (drop_bit 16 ((m AND NOT 0xffff) XOR t)) n = bit (m AND 0xffff) n"
      unfolding ticket_bits not_low_half bit_drop_bit_eq bit_and_iff bit_xor_iff comp_def by (auto simp: add.commute)
  qed
  then show "is_mmap_ticket m t" by (simp add: is_mmap_ticket_def)
qed

lemma ticket_high: "mmap_to_ticket m AND 0xffff0000 = mmap_to_ticket m"
  by (rule bit_word_eqI) (auto simp: bit_simps ticket_bits bit_high_half)

text \<open>A ticket survives the trip through \<open>mmap\<close>, which passes it as a page offset.\<close>

lemma ticket_page_offset: "push_bit 12 (drop_bit 12 (mmap_to_ticket m)) = mmap_to_ticket m"
  by (rule bit_word_eqI) (auto simp: bit_simps ticket_bits)

lemma find_in_smbs: "frm_by_smbs bs tid = find (\<lambda>a. is_mmap_ticket a tid) (concat bs)"
proof (induction bs)
  case (Cons ms bs)
  have "find P (xs @ ys) = (case find P xs of Some x \<Rightarrow> Some x | None \<Rightarrow> find P ys)" for P :: "u32 \<Rightarrow> bool" and xs ys
    by (induction xs) auto
  then show ?case using Cons by (simp split: option.split)
qed simp

text \<open>The mappings below a location, in the order of the search: sub-locations first.\<close>

fun all_mmaps :: "loc_tree \<Rightarrow> u32 list" where
  "all_mmaps (Loc_node subs smbs) =
     concat (map all_mmaps subs) @ (case smbs of None \<Rightarrow> [] | Some bs \<Rightarrow> concat bs)"

fun complete :: "loc_tree \<Rightarrow> bool" where
  "complete (Loc_node subs smbs) \<longleftrightarrow> list_all complete subs \<and> smbs \<noteq> None"

definition ticket_search :: "u32 list \<Rightarrow> u32 \<Rightarrow> mmap_world \<Rightarrow> u32 option \<times> mmap_world" where
  "ticket_search as tid w =
     (case find (\<lambda>a. mmap_to_ticket a = tid AND 0xffff0000) as of
        Some a \<Rightarrow> (Some a, vfi_mmap_get a w) | None \<Rightarrow> (None, w))"

lemma ticket_search_append:
  "ticket_search (xs @ ys) tid w =
     (case ticket_search xs tid w of (Some a, w') \<Rightarrow> (Some a, w') | (None, w') \<Rightarrow> ticket_search ys tid w')"
  by (induction xs) (auto simp: ticket_search_def)

lemma frm_by_loc_search:
  "complete l \<Longrightarrow> frm_by_loc l tid w = Val (ticket_search (all_mmaps l) tid w)"
  "list_all complete ls \<Longrightarrow> frm_by_locs ls tid w = Val (ticket_search (concat (map all_mmaps ls)) tid w)"
proof (induction l tid w and ls tid w rule: frm_by_loc_frm_by_locs.induct)
  case (1 subs smbs tid w)
  then obtain bs where "smbs = Some bs" by auto
  with 1 show ?case
    by (auto simp: ticket_search_append find_in_smbs is_ticket_iff split: prod.splits option.splits)
      (auto simp: ticket_search_def split: option.splits)
next
  case (3 l ls tid w)
  then show ?case by (auto simp: ticket_search_append split: prod.splits option.splits)
qed (simp add: ticket_search_def)


section \<open>From the ticket to the pages\<close>

text \<open>C14: A search by ticket over complete locations returns the first mapping, sub-locations first, whose
  ticket is the upper half of the number given, with one more reference; \<open>-EINVAL\<close> when there is none.
  Only 16 bits tell mappings apart, so a mapping with the ticket of an earlier one is never found.\<close>

theorem mmap_found_by_ticket:
  assumes "ls \<noteq> []" and "list_all complete ls"
  shows "find_vfi_mmap_by_id old tid ls w =
    (case find (\<lambda>a. mmap_to_ticket a = tid AND 0xffff0000) (concat (map all_mmaps ls)) of
       Some a \<Rightarrow> Val (0, Val (Some a), vfi_mmap_get a w)
     | None \<Rightarrow> Val (- EINVAL, Val None, w))"
  using assms by (auto simp: find_vfi_mmap_by_id_def frm_by_loc_search ticket_search_def split: option.splits)

definition no_mmaps :: mmap_world where
  "no_mmaps = \<lparr>maps = Map.empty, mrefs = (\<lambda>_. 0), srefs = (\<lambda>_. 0), kids = (\<lambda>_. []),
     held = \<lparr>reg = demo_registry, loc_refs = (\<lambda>_. 0)\<rparr>\<rparr>"

text \<open>Two mappings at \<open>c0100100\<close> and \<open>c0000110\<close> share a ticket: the second is taken for the first.\<close>

theorem mmap_found_by_ticket_witness:
  "find_vfi_mmap_by_id Undef (mmap_to_ticket 0xc0000110) [Loc_node [] (Some [[0xc0100100], [0xc0000110]])] no_mmaps
     = Val (0, Val (Some 0xc0100100), vfi_mmap_get 0xc0100100 no_mmaps)"
proof -
  have "mmap_to_ticket 0xc0100100 = mmap_to_ticket 0xc0000110 AND 0xffff0000"
    by (simp add: mmap_to_ticket_def)
  then show ?thesis
    using mmap_found_by_ticket [of "[Loc_node [] (Some [[0xc0100100], [0xc0000110]])]" Undef "mmap_to_ticket 0xc0000110" no_mmaps]
    by simp
qed

lemma found_by_own_ticket:
  assumes "a \<in> set as" and "\<forall>a' \<in> set as. mmap_to_ticket a' = mmap_to_ticket a \<longrightarrow> a' = a"
  shows "find (\<lambda>a'. mmap_to_ticket a' = mmap_to_ticket a AND 0xffff0000) as = Some a"
  using assms by (induction as) (auto simp: ticket_high)

lemma drop_bit_12_less: "unat (x :: u32) < 4096 * unat n \<Longrightarrow> drop_bit 12 x < n"
  by (simp add: word_less_nat_alt unat_page_number32 less_mult_imp_div_less mult.commute)

text \<open>C15: A user who maps an area with the ticket of a mapping, when no other mapping has that ticket, gets
  the pages of that mapping: the handler accepts an area of at most the mapping's pages, takes one
  reference, and every address of the area then faults in the page that lies as far into the mapping as
  the address lies in the area.\<close>

theorem mapped_area_shows_pages:
  fixes vma :: vm_area
  defines "len \<equiv> unat (vm_end vma) - unat (vm_start vma)"
  assumes tree: "list_all complete ls" "a \<in> set (concat (map all_mmaps ls))"
      "\<forall>a' \<in> set (concat (map all_mmaps ls)). mmap_to_ticket a' = mmap_to_ticket a \<longrightarrow> a' = a"
    and m: "maps w a = Some m" and room: "unat (pg_tbl m) + unat (n_pg m) \<le> length pages" "None \<notin> set pages"
    and vma: "vm_pgoff vma = drop_bit 12 (mmap_to_ticket a)" "vm_private vma = None" "vm_start vma \<le> vm_end vma"
    and small: "len \<le> unat (n_pg m) * 4096"
  shows "\<exists>vma' w'. vfi_cdev_mmap ls vma w = Val (0, vma', w') \<and> w' = vfi_mmap_get a w
    \<and> (\<forall>addr. vm_start vma \<le> addr \<and> addr < vm_end vma \<longrightarrow>
         vfi_mmap_nopage pages vma' addr w'
           = Val (pages ! (unat (pg_tbl m) + (unat addr - unat (vm_start vma)) div 4096)))"
proof -
  let ?vma' = "vma\<lparr>vm_private := Some a, vm_pgoff := 0, vm_has_ops := True\<rparr>" and ?w' = "vfi_mmap_get a w"
  have ne: "ls \<noteq> []" using tree(2) by auto
  have "find_vfi_mmap_by_id Undef (push_bit 12 (vm_pgoff vma)) ls w = Val (0, Val (Some a), ?w')"
    using found_by_own_ticket [OF tree(2,3)] ne tree(1)
    by (simp add: find_vfi_mmap_by_id_def frm_by_loc_search ticket_search_def vma ticket_page_offset)
  moreover have m': "maps ?w' a = Some m" using m by (simp add: vfi_mmap_get_def)
  moreover have "unat (vm_end vma - vm_start vma) = len" using vma(3) by (simp add: len_def unat_sub)
  then have "\<not> drop_bit 12 (vm_end vma - vm_start vma) > n_pg m"
    using small by (simp add: word_less_nat_alt unat_page_number32 not_less)
  ultimately have "vfi_cdev_mmap ls vma w = Val (0, ?vma', ?w')"
    using vma(2) by (simp add: vfi_cdev_mmap_def)
  moreover have "vfi_mmap_nopage pages ?vma' addr ?w' = Val (pages ! (unat (pg_tbl m) + (unat addr - unat (vm_start vma)) div 4096))"
    if "vm_start vma \<le> addr" "addr < vm_end vma" for addr
  proof -
    have off: "unat (addr - vm_start vma) = unat addr - unat (vm_start vma)" using that(1) by (simp add: unat_sub)
    have "unat addr - unat (vm_start vma) < len" using that by (simp add: len_def word_less_nat_alt word_le_nat_alt)
    then have lt: "drop_bit 12 (addr - vm_start vma) < n_pg m" using small by (intro drop_bit_12_less) (simp add: off)
    then have "unat (pg_tbl m) + unat (drop_bit 12 (addr - vm_start vma)) < length pages"
      using room(1) by (simp add: word_less_nat_alt)
    moreover from this room(2) obtain f where "pages ! (unat (pg_tbl m) + unat (drop_bit 12 (addr - vm_start vma))) = Some f"
      by (metis nth_mem option.exhaust)
    ultimately show ?thesis using lt m' by (simp add: vfi_mmap_nopage_def Let_def unat_page_number32 off not_le)
  qed
  ultimately show ?thesis by blast
qed

theorem mapped_area_shows_pages_witness:
  "\<exists>vma' w'. vfi_cdev_mmap [Loc_node [] (Some [[0xc0100100]])]
       \<lparr>vm_start = 0x40000000, vm_end = 0x40002000, vm_pgoff = drop_bit 12 (mmap_to_ticket 0xc0100100), vm_private = None, vm_has_ops = False\<rparr>
       (no_mmaps\<lparr>maps := [0xc0100100 \<mapsto> \<lparr>mm_desc = zero_desc, t_id = 0, pg_tbl = 1, n_pg = 2, mm_smb = None\<rparr>]\<rparr>) = Val (0, vma', w')
     \<and> vfi_mmap_nopage [Some 5, Some 9, Some 10] vma' 0x40001234 w' = Val (Some 10)"
proof -
  let ?w = "no_mmaps\<lparr>maps := [0xc0100100 \<mapsto> \<lparr>mm_desc = zero_desc, t_id = 0, pg_tbl = 1, n_pg = 2, mm_smb = None\<rparr>]\<rparr>"
  let ?v = "\<lparr>vm_start = 0x40000000, vm_end = 0x40002000, vm_pgoff = drop_bit 12 (mmap_to_ticket 0xc0100100), vm_private = None, vm_has_ops = False\<rparr>"
  let ?m = "\<lparr>mm_desc = zero_desc, t_id = 0, pg_tbl = 1, n_pg = 2, mm_smb = None\<rparr>"
  have "maps ?w 0xc0100100 = Some ?m" by simp
  from mapped_area_shows_pages [of "[Loc_node [] (Some [[0xc0100100]])]" _ ?w ?m "[Some 5, Some 9, Some 10]" ?v, OF _ _ _ this]
  obtain vma' w' where run: "vfi_cdev_mmap [Loc_node [] (Some [[0xc0100100]])] ?v ?w = Val (0, vma', w')"
    and pages: "\<forall>addr. vm_start ?v \<le> addr \<and> addr < vm_end ?v \<longrightarrow>
         vfi_mmap_nopage [Some 5, Some 9, Some 10] vma' addr w'
           = Val ([Some 5, Some 9, Some 10] ! (unat (pg_tbl ?m) + (unat addr - unat (vm_start ?v)) div 4096))" by auto
  from pages have "vfi_mmap_nopage [Some 5, Some 9, Some 10] vma' 0x40001234 w' = Val (Some 10)"
    by (auto dest!: spec [of _ "0x40001234 :: u32"])
  with run show ?thesis by blast
qed


section \<open>The range of a mapping\<close>

lemma last_byte_page:
  assumes "0 < unat ext" and "unat off + unat ext < 2 ^ 32"
  shows "unat (drop_bit 12 ((off :: u32) + ext - 1)) = (unat off + unat ext - 1) div 4096"
proof -
  have "unat (off + ext) = unat off + unat ext" using assms(2) by (simp add: unat_word_ariths)
  moreover have "off + ext \<noteq> 0" using assms(1) calculation by (metis add_gr_0 unat_0 less_irrefl)
  ultimately have "unat (off + ext - 1) = unat off + unat ext - 1" by (simp add: unat_minus_one)
  then show ?thesis by (simp add: unat_page_number32)
qed

text \<open>What \<open>vfi_mmap_create\<close> does once the last page passes the test.\<close>

lemma mmap_create_accepts:
  fixes desc :: vfi_desc_param
  defines "off \<equiv> ucast (offset desc) :: u32"
  assumes "drop_bit 12 (off + extent desc - 1) < word_of_int (pg_num pst)"
  shows "\<exists>w' m. vfi_mmap_create (Some a) dup 0 b smb pst old desc w = Val (0, Some a, w') \<and> maps w' a = Some m
    \<and> t_id m = mmap_to_ticket a \<and> pg_tbl m = drop_bit 12 off
    \<and> n_pg m = drop_bit 12 (off + extent desc - 1) - drop_bit 12 off + 1
    \<and> mm_smb m = Some b \<and> mrefs w' a = 1 \<and> srefs w' b = srefs w b + 1 \<and> a \<in> set (kids w' b)"
  using assms
  by (auto simp: vfi_mmap_create_def new_vfi_mmap_def vfi_smb_get_def Let_def split_beta not_le [symmetric])

lemma total_pages: "npages < 2 ^ 20 \<Longrightarrow> unat (word_of_int (int npages) :: u32) = npages"
  by (simp add: unsigned_of_nat take_bit_nat_eq_self)

text \<open>A range inside the block gets a mapping: its pages lie in the block's table and contain every
  byte of the range, its ticket is that of its address, and it holds a reference on the block.\<close>

theorem mmap_create_in_range:
  fixes desc :: vfi_desc_param
  defines "off \<equiv> unat (ucast (offset desc) :: u32)" and "ext \<equiv> unat (extent desc)"
  assumes npages: "pg_num pst = int npages" "npages < 2 ^ 20" and ext: "0 < ext" and inside: "off + ext \<le> npages * 4096"
  shows "\<exists>w' m. vfi_mmap_create (Some a) dup 0 b smb pst old desc w = Val (0, Some a, w') \<and> maps w' a = Some m
    \<and> t_id m = mmap_to_ticket a \<and> mm_smb m = Some b \<and> srefs w' b = srefs w b + 1
    \<and> unat (pg_tbl m) * 4096 \<le> off \<and> off + ext \<le> (unat (pg_tbl m) + unat (n_pg m)) * 4096
    \<and> unat (pg_tbl m) + unat (n_pg m) \<le> npages"
proof -
  let ?off = "ucast (offset desc) :: u32"
  let ?last = "drop_bit 12 (?off + extent desc - 1)"
  have lim: "off + ext < 2 ^ 32" using inside npages(2) by simp
  have last: "unat ?last = (off + ext - 1) div 4096"
    using last_byte_page [where off = ?off and ext = "extent desc"] ext lim by (simp add: off_def ext_def)
  have "(off + ext - 1) div 4096 < npages" using inside ext by (simp add: less_mult_imp_div_less)
  then have "?last < word_of_int (pg_num pst)"
    using last npages by (simp only: word_less_nat_alt total_pages)
  from mmap_create_accepts [OF this, of a dup b smb old w] obtain w' m where run:
    "vfi_mmap_create (Some a) dup 0 b smb pst old desc w = Val (0, Some a, w')" "maps w' a = Some m"
    "t_id m = mmap_to_ticket a" "mm_smb m = Some b" "srefs w' b = srefs w b + 1"
    and m: "pg_tbl m = drop_bit 12 ?off" "n_pg m = ?last - drop_bit 12 ?off + 1" by blast
  have first: "unat (pg_tbl m) = off div 4096" by (simp add: m unat_page_number32 off_def)
  have le: "off div 4096 \<le> (off + ext - 1) div 4096" using ext by (intro div_le_mono) linarith
  then have "drop_bit 12 ?off \<le> ?last" using last by (simp add: word_le_nat_alt unat_page_number32 off_def)
  then have "unat (?last - drop_bit 12 ?off) = (off + ext - 1) div 4096 - off div 4096"
    using last by (simp add: unat_sub unat_page_number32 off_def)
  moreover have "(off + ext - 1) div 4096 < 2 ^ 20" using lim by (simp add: div_less_iff_less_mult)
  moreover from this have "(off + ext - 1) div 4096 - off div 4096 + 1 < 2 ^ 32" by simp
  ultimately have "unat (n_pg m) = (off + ext - 1) div 4096 - off div 4096 + 1"
    by (simp add: m(2) unat_word_ariths)
  then have "unat (pg_tbl m) + unat (n_pg m) = (off + ext - 1) div 4096 + 1" using first le by simp
  moreover have "off + ext \<le> ((off + ext - 1) div 4096 + 1) * 4096"
    using dividend_less_div_times [of 4096 "off + ext - 1"] by simp
  moreover have "off div 4096 * 4096 \<le> off" by simp
  ultimately show ?thesis using run first \<open>(off + ext - 1) div 4096 < npages\<close> by fastforce
qed

theorem mmap_create_in_range_witness:
  "\<exists>w' m. vfi_mmap_create (Some 0xc0100100) True 0 3 demo_smb \<lparr>pg_num = 3, pg_ary = Some [Some 5, Some 9, Some 10]\<rparr> None
       (zero_desc\<lparr>offset := 0x1000, extent := 0x1800\<rparr>) no_mmaps = Val (0, Some 0xc0100100, w') \<and> maps w' 0xc0100100 = Some m
     \<and> 0x1000 + 0x1800 \<le> (unat (pg_tbl m) + unat (n_pg m)) * 4096 \<and> unat (pg_tbl m) + unat (n_pg m) \<le> 3"
  using mmap_create_in_range [of "\<lparr>pg_num = 3, pg_ary = Some [Some 5, Some 9, Some 10]\<rparr>" 3 "zero_desc\<lparr>offset := 0x1000, extent := 0x1800\<rparr>"
      "0xc0100100" True 3 demo_smb None no_mmaps] by (simp add: zero_desc_def) metis

text \<open>A range past the block is not refused with an error: \<open>vfi_mmap_create\<close> answers 0 without a
  mapping. And a range whose end wraps around the 32-bit address space passes the test although it
  starts past the table: the mapping is made, and a fault on its first page reads outside the table.\<close>

theorem mmap_create_out_of_range:
  fixes desc :: vfi_desc_param
  defines "off \<equiv> unat (ucast (offset desc) :: u32)" and "ext \<equiv> unat (extent desc)"
  assumes npages: "pg_num pst = int npages" "npages < 2 ^ 20" and start: "npages * 4096 \<le> off" and ext: "0 < ext"
  shows "(off + ext < 2 ^ 32 \<longrightarrow> vfi_mmap_create (Some a) dup 0 b smb pst old desc w = Val (0, old, w))
    \<and> (2 ^ 32 < off + ext \<and> off + ext - 2 ^ 32 \<le> npages * 4096 \<longrightarrow>
        (\<exists>w' m. vfi_mmap_create (Some a) dup 0 b smb pst old desc w = Val (0, Some a, w') \<and> maps w' a = Some m
          \<and> (n_pg m \<noteq> 0 \<and> length pages = npages \<and> vm_private vma = Some a \<longrightarrow> vfi_mmap_nopage pages vma (vm_start vma) w' = Undef)))"
proof (intro conjI impI)
  let ?off = "ucast (offset desc) :: u32"
  let ?last = "drop_bit 12 (?off + extent desc - 1)"
  {
    assume lim: "off + ext < 2 ^ 32"
    have "unat ?last = (off + ext - 1) div 4096"
      using last_byte_page [where off = ?off and ext = "extent desc"] ext lim by (simp add: off_def ext_def)
    moreover have "npages \<le> (off + ext - 1) div 4096" using start ext by (simp add: less_eq_div_iff_mult_less_eq)
    ultimately have "\<not> ?last < word_of_int (pg_num pst)"
      using npages by (simp only: word_less_nat_alt total_pages not_less)
    then show "vfi_mmap_create (Some a) dup 0 b smb pst old desc w = Val (0, old, w)"
      by (simp add: vfi_mmap_create_def not_less)
  next
    assume wrap: "2 ^ 32 < off + ext \<and> off + ext - 2 ^ 32 \<le> npages * 4096"
    have "unat (?off + extent desc) = (off + ext) mod 2 ^ 32" by (simp add: unat_word_ariths off_def ext_def)
    also have "\<dots> = off + ext - 2 ^ 32"
      using wrap unat_lt32 [of ?off] unat_lt32 [of "extent desc"] by (simp add: off_def ext_def le_mod_geq)
    finally have s: "unat (?off + extent desc) = off + ext - 2 ^ 32" .
    then have "?off + extent desc \<noteq> 0" using wrap by (metis diff_is_0_eq not_le unat_0)
    then have "unat (?off + extent desc - 1) = off + ext - 2 ^ 32 - 1" using s by (simp add: unat_minus_one)
    then have "unat ?last = (off + ext - 2 ^ 32 - 1) div 4096" by (simp add: unat_page_number32)
    moreover have "(off + ext - 2 ^ 32 - 1) div 4096 < npages"
      by (rule less_mult_imp_div_less) (use wrap in linarith)
    ultimately have "?last < word_of_int (pg_num pst)"
      using npages by (simp only: word_less_nat_alt total_pages)
    from mmap_create_accepts [OF this, of a dup b smb old w] obtain w' m where run:
      "vfi_mmap_create (Some a) dup 0 b smb pst old desc w = Val (0, Some a, w')" "maps w' a = Some m"
      and m: "pg_tbl m = drop_bit 12 ?off" by blast
    have "npages \<le> unat (pg_tbl m)" using start by (simp add: m unat_page_number32 off_def less_eq_div_iff_mult_less_eq)
    with run show "\<exists>w' m. vfi_mmap_create (Some a) dup 0 b smb pst old desc w = Val (0, Some a, w') \<and> maps w' a = Some m
          \<and> (n_pg m \<noteq> 0 \<and> length pages = npages \<and> vm_private vma = Some a \<longrightarrow> vfi_mmap_nopage pages vma (vm_start vma) w' = Undef)"
      by (auto simp: vfi_mmap_nopage_def)
  }
qed

theorem mmap_create_out_of_range_witness:
  "\<exists>w' m. vfi_mmap_create (Some 0xc0100100) True 0 3 demo_smb \<lparr>pg_num = 3, pg_ary = Some [Some 5, Some 9, Some 10]\<rparr> None
       (zero_desc\<lparr>offset := 0xfffff000, extent := 0x2000\<rparr>) no_mmaps = Val (0, Some 0xc0100100, w') \<and> maps w' 0xc0100100 = Some m"
  using mmap_create_out_of_range [of "\<lparr>pg_num = 3, pg_ary = Some [Some 5, Some 9, Some 10]\<rparr>" 3 "zero_desc\<lparr>offset := 0xfffff000, extent := 0x2000\<rparr>"
      "0xc0100100" True 3 demo_smb None no_mmaps] by (simp add: zero_desc_def) blast

end
