(* ===== verification/Vfi_Ops.thy ===== *)
theory Vfi_Ops
  imports Vfi_Mmap Vfi_Grammar
begin

text \<open>
  The command handlers of \<open>vfi_ops.c\<close> and their dispatcher \<open>do_operation\<close>. A command is a string
  \<open>op://descriptor\<close>; its handler parses the descriptor, looks up the object the command is about, calls
  the operation of that name in the object's table of operations, puts back the references it took,
  prints a reply and cleans the descriptor.

  The functions a handler calls are the environment: an answer for each call, given all the calls made
  before it. The calls are recorded in order together with their answers. A call may change the
  parameters it is passed a pointer to, so the environment says how. Reading through a null pointer,
  and printing a parameter whose buffer is gone, is \<open>Undef\<close>.
\<close>

section \<open>Printing\<close>

text \<open>\<open>"%s"\<close> of a null pointer prints \<open><NULL>\<close>.\<close>

definition text_of :: "vfi_desc_param \<Rightarrow> nat option \<Rightarrow> string cres" where
  "text_of d p =
     (case p of
        None \<Rightarrow> Val ''<NULL>''
      | Some i \<Rightarrow> (case buf d of None \<Rightarrow> Undef | Some b \<Rightarrow> if c_ok b i then Val (cstr b i) else Undef))"

definition option_text :: "vfi_desc_param \<Rightarrow> string \<Rightarrow> string cres" where
  "option_text d needle = cres_bind (vfi_get_option d needle) (text_of d)"

fun dec_of_nat :: "nat \<Rightarrow> string" where
  "dec_of_nat n = (if n < 10 then [char_of (48 + n)] else dec_of_nat (n div 10) @ [char_of (48 + n mod 10)])"

declare dec_of_nat.simps [simp del]

definition dec_of_int :: "int \<Rightarrow> string" where
  "dec_of_int i = (if i < 0 then CHR ''-'' # dec_of_nat (nat (- i)) else dec_of_nat (nat i))"

fun cat :: "string cres list \<Rightarrow> string cres" where
  "cat [] = Val []"
| "cat (m # ms) = cres_bind m (\<lambda>s. cres_bind (cat ms) (\<lambda>r. Val (s @ r)))"

definition fmt_name :: "vfi_desc_param \<Rightarrow> string cres" where
  "fmt_name d = cat [text_of d (name d), Val ''.'', text_of d (location d)]"

definition fmt_range :: "vfi_desc_param \<Rightarrow> string cres" where
  "fmt_range d = Val (''#'' @ hex_of_nat (unat (offset d)) @ '':'' @ hex_of_nat (unat (extent d)))"

definition fmt_full :: "vfi_desc_param \<Rightarrow> string cres" where
  "fmt_full d = cat [fmt_name d, fmt_range d]"

definition fmt_bind :: "vfi_bind_param \<Rightarrow> string cres" where
  "fmt_bind p = cat [fmt_full (xfer p), Val ''/'', fmt_full (dst p), Val ''='', fmt_full (src p)]"

text \<open>\<open>"result(%d),reply(%s)"\<close>, with the option \<open>request\<close> of the command.\<close>

definition fmt_result :: "errno \<Rightarrow> vfi_desc_param \<Rightarrow> string cres" where
  "fmt_result ret d =
     cat [Val ''result('', Val (dec_of_int ret), Val ''),reply('', option_text d ''request'', Val '')'']"

abbreviation newline :: string where "newline \<equiv> [CHR 0x0A]"

section \<open>The environment of a handler\<close>

datatype kind = K_location | K_smb | K_mmap | K_xfer | K_sync | K_bind | K_dst

text \<open>
  The calls: looking up a location, an object by a descriptor or a destination by a bind, the two
  searches of the root kset, a function of a table of operations, a put, and
  \<open>vfi_location_delete\<close>. Objects are numbered.
\<close>

datatype call =
    Locate vfi_desc_param
  | Find kind vfi_desc_param
  | Find_dst vfi_bind_param
  | Find_name vfi_desc_param
  | Kset_find string
  | Op ops_tab string "nat option" vfi_desc_param
  | Bop ops_tab string nat vfi_bind_param
  | Put kind "nat option"
  | Location_delete nat

type_synonym event = "call \<times> errno \<times> nat option"

text \<open>
  \<open>answer\<close> is what a call returns: a number and an object written through a pointer; \<open>touch\<close> and
  \<open>btouch\<close> what it makes of its parameters; \<open>desc_at\<close> and \<open>bind_at\<close> the descriptor of an object.
  \<open>garbage\<close> is the uninitialised parameter block, \<open>kmem\<close> and \<open>kmem4\<close> the allocations of the parser.
\<close>

record env =
  answer :: "event list \<Rightarrow> call \<Rightarrow> errno \<times> nat option"
  touch :: "event list \<Rightarrow> call \<Rightarrow> vfi_desc_param \<Rightarrow> vfi_desc_param"
  btouch :: "event list \<Rightarrow> call \<Rightarrow> vfi_bind_param \<Rightarrow> vfi_bind_param"
  desc_at :: "event list \<Rightarrow> nat \<Rightarrow> vfi_desc_param"
  bind_at :: "event list \<Rightarrow> nat \<Rightarrow> vfi_bind_param"
  dst_parent :: "event list \<Rightarrow> nat \<Rightarrow> nat option"
  src_done_event :: "event list \<Rightarrow> nat \<Rightarrow> int option"
  dst_done_event :: "event list \<Rightarrow> nat \<Rightarrow> int option"
  garbage :: vfi_desc_param
  kmem :: bool
  kmem4 :: "bool \<times> bool \<times> bool \<times> bool"
  regs :: registry

text \<open>The entries of the two tables of operations that a handler can ask for.\<close>

definition vfi_local_ops_entries :: "string list" where
  "vfi_local_ops_entries =
     [''location_create'', ''location_delete'', ''location_find'', ''location_put'', ''location_lose'',
      ''smb_create'', ''smb_delete'', ''smb_find'', ''smb_put'', ''smb_lose'',
      ''xfer_create'', ''xfer_delete'', ''xfer_find'', ''xfer_put'', ''xfer_lose'',
      ''sync_create'', ''sync_delete'', ''sync_find'', ''sync_put'', ''sync_lose'', ''sync_send'', ''sync_wait'',
      ''mmap_create'', ''mmap_delete'', ''mmap_find'', ''mmap_put'',
      ''srcs_create'', ''srcs_delete'', ''src_create'', ''src_delete'', ''src_find'',
      ''dsts_create'', ''dsts_delete'', ''dst_create'', ''dst_delete'', ''dst_find'',
      ''bind_find'', ''bind_create'', ''bind_delete'', ''bind_lose'',
      ''src_done'', ''dst_done'', ''done'', ''src_ready'', ''dst_ready'',
      ''dst_events'', ''src_events'', ''dst_ev_delete'', ''src_ev_delete'',
      ''event_start'', ''event_find'', ''event_chain'']"

definition vfi_fabric_ops_entries :: "string list" where
  "vfi_fabric_ops_entries =
     [''location_create'', ''location_delete'', ''location_find'', ''location_put'', ''location_lose'',
      ''smb_create'', ''smb_delete'', ''smb_find'', ''smb_put'', ''smb_lose'',
      ''mmap_create'', ''mmap_delete'', ''mmap_find'', ''mmap_put'',
      ''xfer_create'', ''xfer_delete'', ''xfer_find'', ''xfer_put'', ''xfer_lose'',
      ''sync_create'', ''sync_delete'', ''sync_find'', ''sync_put'', ''sync_wait'', ''sync_send'', ''sync_lose'',
      ''srcs_create'', ''srcs_delete'', ''src_create'', ''src_delete'', ''src_find'',
      ''dsts_create'', ''dsts_delete'', ''dst_create'', ''dst_delete'', ''dst_find'',
      ''bind_find'', ''bind_create'', ''bind_delete'', ''bind_lose'',
      ''src_done'', ''dst_done'', ''done'', ''src_ready'', ''dst_ready'',
      ''src_events'', ''dst_events'', ''src_ev_delete'', ''dst_ev_delete'',
      ''event_start'', ''event_find'', ''event_chain'']"

definition has_op :: "ops_tab \<Rightarrow> string \<Rightarrow> bool" where
  "has_op t op =
     (op \<in> set (case t of Vfi_local_ops \<Rightarrow> vfi_local_ops_entries | Vfi_fabric_ops \<Rightarrow> vfi_fabric_ops_entries))"

subsection \<open>Calling\<close>

text \<open>The state of a running handler: its parameters and the calls so far.\<close>

type_synonym dstate = "vfi_desc_param \<times> event list"
type_synonym bstate = "vfi_bind_param \<times> event list"

definition ask :: "env \<Rightarrow> call \<Rightarrow> dstate \<Rightarrow> errno \<times> nat option \<times> dstate" where
  "ask E c s =
     (let (ret, h) = answer E (snd s) c
      in (ret, h, (touch E (snd s) c (fst s), snd s @ [(c, ret, h)])))"

text \<open>The same with a bind's parameters, and with only their transfer.\<close>

definition bask :: "env \<Rightarrow> call \<Rightarrow> bstate \<Rightarrow> errno \<times> nat option \<times> bstate" where
  "bask E c s =
     (let (ret, h) = answer E (snd s) c
      in (ret, h, (btouch E (snd s) c (fst s), snd s @ [(c, ret, h)])))"

definition ask_xfer :: "env \<Rightarrow> kind \<Rightarrow> bstate \<Rightarrow> errno \<times> nat option \<times> bstate" where
  "ask_xfer E k s =
     (let c = Find k (xfer (fst s)); (ret, h) = answer E (snd s) c
      in (ret, h, ((fst s)\<lparr>xfer := touch E (snd s) c (xfer (fst s))\<rparr>, snd s @ [(c, ret, h)])))"

definition put :: "kind \<Rightarrow> nat option \<Rightarrow> 'p \<times> event list \<Rightarrow> 'p \<times> event list" where
  "put k h s = (fst s, snd s @ [(Put k h, 0, None)])"

text \<open>The test \<open>obj && obj->desc.ops && obj->desc.ops->op\<close>: the table, if it passes.\<close>

definition table_for :: "ops_tab option \<Rightarrow> string \<Rightarrow> ops_tab option" where
  "table_for t op = (case t of None \<Rightarrow> None | Some t \<Rightarrow> if has_op t op then Some t else None)"

definition can :: "env \<Rightarrow> nat option \<Rightarrow> string \<Rightarrow> 'p \<times> event list \<Rightarrow> ops_tab option" where
  "can E h op s = (case h of None \<Rightarrow> None | Some a \<Rightarrow> table_for (ops (desc_at E (snd s) a)) op)"

definition bcan :: "env \<Rightarrow> (vfi_bind_param \<Rightarrow> vfi_desc_param) \<Rightarrow> nat option \<Rightarrow> string \<Rightarrow> bstate \<Rightarrow> ops_tab option" where
  "bcan E part h op s = (case h of None \<Rightarrow> None | Some a \<Rightarrow> table_for (ops (part (bind_at E (snd s) a))) op)"

text \<open>An operation behind that test, answering or of type \<open>void\<close>; failing the test is \<open>-EINVAL\<close>.\<close>

definition try_op :: "env \<Rightarrow> nat option \<Rightarrow> string \<Rightarrow> dstate \<Rightarrow> errno \<times> nat option \<times> dstate" where
  "try_op E h op s =
     (case can E h op s of None \<Rightarrow> (- EINVAL, None, s) | Some t \<Rightarrow> ask E (Op t op h (fst s)) s)"

definition try_void :: "env \<Rightarrow> nat option \<Rightarrow> string \<Rightarrow> dstate \<Rightarrow> errno \<times> dstate" where
  "try_void E h op s =
     (case can E h op s of None \<Rightarrow> (- EINVAL, s) | Some t \<Rightarrow> (let (_, _, s') = ask E (Op t op h (fst s)) s in (0, s')))"

definition try_bop :: "env \<Rightarrow> (vfi_bind_param \<Rightarrow> vfi_desc_param) \<Rightarrow> nat option \<Rightarrow> string \<Rightarrow> bstate
    \<Rightarrow> errno \<times> nat option \<times> bstate" where
  "try_bop E part h op s =
     (case (bcan E part h op s, h) of
        (Some t, Some a) \<Rightarrow> bask E (Bop t op a (fst s)) s
      | _ \<Rightarrow> (- EINVAL, None, s))"

definition try_bvoid :: "env \<Rightarrow> (vfi_bind_param \<Rightarrow> vfi_desc_param) \<Rightarrow> nat option \<Rightarrow> string \<Rightarrow> bstate
    \<Rightarrow> errno \<times> bstate" where
  "try_bvoid E part h op s =
     (case (bcan E part h op s, h) of
        (Some t, Some a) \<Rightarrow> (let (_, _, s') = bask E (Bop t op a (fst s)) s in (0, s'))
      | _ \<Rightarrow> (- EINVAL, s))"

text \<open>An operation called through the table \<open>t\<close> without a test of the entry.\<close>

definition must_op :: "env \<Rightarrow> ops_tab option \<Rightarrow> string \<Rightarrow> nat option \<Rightarrow> dstate \<Rightarrow> (errno \<times> nat option \<times> dstate) cres" where
  "must_op E t op h s =
     (case table_for t op of None \<Rightarrow> Undef | Some t \<Rightarrow> Val (ask E (Op t op h (fst s)) s))"

text \<open>The table of an object, for such a call: reading it through a null pointer is undefined.\<close>

definition table_of :: "env \<Rightarrow> nat option \<Rightarrow> dstate \<Rightarrow> ops_tab option cres" where
  "table_of E h s = (case h of None \<Rightarrow> Undef | Some a \<Rightarrow> Val (ops (desc_at E (snd s) a)))"

subsection \<open>Starting and finishing\<close>

datatype cleaned = Clean_desc vfi_desc_param | Clean_bind vfi_bind_param

text \<open>What a handler does: its return value and reply, its calls, and what it cleans at the end.\<close>

record outcome =
  o_ret :: errno
  o_reply :: string
  o_calls :: "event list"
  o_clean :: cleaned
  o_regs :: registry

definition finish :: "registry \<Rightarrow> errno \<Rightarrow> string cres \<Rightarrow> dstate \<Rightarrow> outcome cres" where
  "finish g ret reply s = cres_bind reply (\<lambda>r.
     Val \<lparr>o_ret = ret, o_reply = r, o_calls = snd s, o_clean = Clean_desc (fst s), o_regs = g\<rparr>)"

definition bfinish :: "registry \<Rightarrow> errno \<Rightarrow> string cres \<Rightarrow> bstate \<Rightarrow> outcome cres" where
  "bfinish g ret reply s = cres_bind reply (\<lambda>r.
     Val \<lparr>o_ret = ret, o_reply = r, o_calls = snd s, o_clean = Clean_bind (fst s), o_regs = g\<rparr>)"

text \<open>
  A descriptor that does not parse sends the handler to its reply, which prints the parameters: they
  were never written, or point into the buffer that the parser has released.
\<close>

definition with_desc :: "env \<Rightarrow> string \<Rightarrow> (registry \<Rightarrow> dstate \<Rightarrow> outcome cres) \<Rightarrow> outcome cres" where
  "with_desc E s f =
     cres_bind (vfi_parse_desc (kmem E) (garbage E) (Some s) (regs E)) (\<lambda>(ret, p, g).
       if ret \<noteq> 0 then Undef else f g (p, []))"

text \<open>\<open>vfi_parse_bind\<close> clears the parameters first, so what a failed parse leaves can be printed.\<close>

definition with_bind :: "env \<Rightarrow> string \<Rightarrow> (errno \<Rightarrow> vfi_bind_param \<Rightarrow> string cres)
    \<Rightarrow> (registry \<Rightarrow> bstate \<Rightarrow> outcome cres) \<Rightarrow> outcome cres" where
  "with_bind E s reply f =
     cres_bind (vfi_parse_bind (kmem4 E) (Some s) (regs E)) (\<lambda>(ret, p, g).
       if ret \<noteq> 0 then bfinish g ret (reply ret p) (p, []) else f g (p, []))"

text \<open>The replies most handlers print: names only, or with offset and extent.\<close>

definition reply_name :: "string \<Rightarrow> errno \<Rightarrow> vfi_desc_param \<Rightarrow> string cres" where
  "reply_name op ret p = cat [Val (op @ ''://''), fmt_name p, Val ''?'', fmt_result ret p, Val newline]"

definition reply_full :: "string \<Rightarrow> errno \<Rightarrow> vfi_desc_param \<Rightarrow> vfi_desc_param \<Rightarrow> string cres" where
  "reply_full op ret d p = cat [Val (op @ ''://''), fmt_full d, Val ''?'', fmt_result ret p, Val newline]"

text \<open>A name from the parameters, offset and extent of an object.\<close>

definition reply_range :: "string \<Rightarrow> errno \<Rightarrow> vfi_desc_param \<Rightarrow> vfi_desc_param \<Rightarrow> string cres" where
  "reply_range op ret d p = cat [Val (op @ ''://''), fmt_name p, fmt_range d, Val ''?'', fmt_result ret p, Val newline]"

definition reply_bind :: "string \<Rightarrow> errno \<Rightarrow> vfi_bind_param \<Rightarrow> vfi_desc_param \<Rightarrow> string cres" where
  "reply_bind op ret b p = cat [Val (op @ ''://''), fmt_bind b, Val ''?'', fmt_result ret p, Val newline]"

text \<open>\<open>params.location && *params.location\<close>\<close>

definition has_location :: "vfi_desc_param \<Rightarrow> bool" where
  "has_location p = (case (location p, buf p) of (Some i, Some b) \<Rightarrow> cstr b i \<noteq> [] | _ \<Rightarrow> False)"


section \<open>Locations and events\<close>

definition reply_location :: "string \<Rightarrow> errno \<Rightarrow> vfi_desc_param \<Rightarrow> vfi_desc_param \<Rightarrow> string cres" where
  "reply_location op ret d p =
     cat [Val (op @ ''://''), text_of d (name d), fmt_range d, Val ''?'', fmt_result ret p, Val newline]"

definition location_create :: "env \<Rightarrow> string \<Rightarrow> outcome cres" where
  "location_create E desc = with_desc E desc (\<lambda>g s0.
     cres_bind
       (if has_location (fst s0) then
          (let (ret, loc, s1) = ask E (Locate (fst s0)) s0
           in if ret \<noteq> 0 then Val (ret, None, s1)
              else (let (ret, obj, s2) =
                      (case table_for (ops (fst s1)) ''location_create'' of
                         Some t \<Rightarrow> ask E (Op t ''location_create'' loc (fst s1)) s1
                       | None \<Rightarrow> try_op E loc ''location_create'' s1)
                    in Val (ret, obj, put K_location loc s2)))
        else case ops (fst s0) of
          None \<Rightarrow> Val (- EINVAL, None, s0)
        | Some t \<Rightarrow> must_op E (Some t) ''location_create'' None s0)
       (\<lambda>(ret, obj, s). finish g ret
          (if ret \<noteq> 0 then reply_location ''location_create'' ret (fst s) (fst s)
           else case obj of
             None \<Rightarrow> Undef
           | Some a \<Rightarrow> reply_location ''location_create'' ret (desc_at E (snd s) a) (fst s)) s))"

definition location_delete :: "env \<Rightarrow> string \<Rightarrow> outcome cres" where
  "location_delete E desc = with_desc E desc (\<lambda>g s0.
     cres_bind
       (if has_location (fst s0) then
          (let (ret, loc, s1) = ask E (Locate (fst s0)) s0
           in if ret \<noteq> 0 then Val (ret, s1)
              else (let (ret, s2) = try_void E loc ''location_delete'' s1 in Val (ret, put K_location loc s2)))
        else case ops (fst s0) of
          Some t \<Rightarrow> cres_bind (must_op E (Some t) ''location_delete'' None s0) (\<lambda>(_, _, s1). Val (0, s1))
        | None \<Rightarrow>
            cres_bind (text_of (fst s0) (name (fst s0))) (\<lambda>nm.
              let (_, loc, s1) = ask E (Kset_find nm) s0
              in case loc of
                   None \<Rightarrow> Val (- EINVAL, s1)
                 | Some a \<Rightarrow> (let (_, _, s2) = ask E (Location_delete a) s1 in Val (0, put K_location loc s2))))
       (\<lambda>(ret, s). finish g ret (reply_name ''location_delete'' ret (fst s)) s))"

definition location_find :: "env \<Rightarrow> string \<Rightarrow> outcome cres" where
  "location_find E desc = with_desc E desc (\<lambda>g s0.
     cres_bind
       (if has_location (fst s0) then
          (let (ret, loc, s1) = ask E (Locate (fst s0)) s0
           in if ret \<noteq> 0 then Val (ret, None, s1)
              else cres_bind
                (case loc of
                   None \<Rightarrow> Val (0, None, s1)
                 | Some a \<Rightarrow>
                     (case ops (desc_at E (snd s1) a) of
                        None \<Rightarrow> Val (0, None, s1)
                      | Some t \<Rightarrow> must_op E (Some t) ''location_find'' loc s1))
                (\<lambda>(ret, obj, s2). Val (ret, obj, put K_location loc s2)))
        else case ops (fst s0) of
          Some t \<Rightarrow> must_op E (Some t) ''location_find'' None s0
        | None \<Rightarrow> Val (ask E (Find_name (fst s0)) s0))
       (\<lambda>(ret, obj, s). finish g ret
          (if ret \<noteq> 0 then reply_location ''location_find'' ret (fst s) (fst s)
           else case obj of
             None \<Rightarrow> Undef
           | Some a \<Rightarrow> reply_location ''location_find'' ret (desc_at E (snd s) a) (fst s)) s))"

definition location_put :: "env \<Rightarrow> string \<Rightarrow> outcome cres" where
  "location_put E desc = with_desc E desc (\<lambda>g s0.
     cres_bind
       (if has_location (fst s0) then
          (let (ret, loc, s1) = ask E (Locate (fst s0)) s0
           in if ret \<noteq> 0 then Val (ret, s1)
              else (let (_, s2) = try_void E loc ''location_put'' s1 in Val (0, put K_location loc s2)))
        else case ops (fst s0) of
          Some t \<Rightarrow> cres_bind (must_op E (Some t) ''location_put'' None s0) (\<lambda>(_, _, s1). Val (- EINVAL, s1))
        | None \<Rightarrow>
            cres_bind (text_of (fst s0) (name (fst s0))) (\<lambda>nm.
              let (_, loc, s1) = ask E (Kset_find nm) s0
              in case loc of
                   None \<Rightarrow> Val (- EINVAL, s1)
                 | Some a \<Rightarrow> cres_bind (table_of E loc s1) (\<lambda>t.
                     cres_bind (must_op E t ''location_put'' None s1) (\<lambda>(_, _, s2). Val (0, s2)))))
       (\<lambda>(ret, s). finish g ret (reply_name ''location_put'' ret (fst s)) s))"

text \<open>
  The three event handlers differ in the operation only. The return value of the parser, 0, is theirs
  when there is nothing to call.
\<close>

definition event_operation :: "string \<Rightarrow> env \<Rightarrow> string \<Rightarrow> outcome cres" where
  "event_operation op E desc = with_desc E desc (\<lambda>g s0.
     cres_bind
       (if has_location (fst s0) then
          (let (ret, loc, s1) = ask E (Locate (fst s0)) s0
           in if ret \<noteq> 0 then Val (ret, s1)
              else (let (ret, s2) =
                      (case can E loc op s1 of
                         None \<Rightarrow> (0, s1)
                       | Some t \<Rightarrow> (let (r, _, s') = ask E (Op t op loc (fst s1)) s1 in (r, s')))
                    in Val (ret, put K_location loc s2)))
        else case ops (fst s0) of
          Some t \<Rightarrow> cres_bind (must_op E (Some t) op None s0) (\<lambda>(ret, _, s1). Val (ret, s1))
        | None \<Rightarrow> Val (0, s0))
       (\<lambda>(ret, s). finish g ret (reply_name op ret (fst s)) s))"

definition event_start :: "env \<Rightarrow> string \<Rightarrow> outcome cres" where
  "event_start E desc = event_operation ''event_start'' E desc"

definition event_find :: "env \<Rightarrow> string \<Rightarrow> outcome cres" where
  "event_find E desc = event_operation ''event_find'' E desc"

definition event_chain :: "env \<Rightarrow> string \<Rightarrow> outcome cres" where
  "event_chain E desc = event_operation ''event_chain'' E desc"

section \<open>Shared memory blocks and mappings\<close>

text \<open>Looking up the location, then an operation of it; the location is put on every path.\<close>

definition at_location :: "env \<Rightarrow> string \<Rightarrow> dstate \<Rightarrow> errno \<times> nat option \<times> dstate" where
  "at_location E op s0 =
     (let (ret, loc, s1) = ask E (Locate (fst s0)) s0;
          (ret, obj, s2) = (if ret \<noteq> 0 then (ret, None, s1) else try_op E loc op s1)
      in (ret, obj, put K_location loc s2))"

definition smb_create :: "env \<Rightarrow> string \<Rightarrow> outcome cres" where
  "smb_create E desc = with_desc E desc (\<lambda>g s0.
     let (ret, smb, s) = at_location E ''smb_create'' s0
     in finish g ret
          (case smb of
             Some a \<Rightarrow> reply_full ''smb_create'' ret (desc_at E (snd s) a) (fst s)
           | None \<Rightarrow> reply_name ''smb_create'' ret (fst s)) s)"

definition smb_delete :: "env \<Rightarrow> string \<Rightarrow> outcome cres" where
  "smb_delete E desc = with_desc E desc (\<lambda>g s0.
     let (ret, smb, s1) = ask E (Find K_smb (fst s0)) s0;
         (ret, s) = (if ret \<noteq> 0 then (ret, s1)
                     else let (ret, s2) = try_void E smb ''smb_delete'' s1 in (ret, put K_smb smb s2))
     in finish g ret (reply_name ''smb_delete'' ret (fst s)) s)"

definition smb_find :: "env \<Rightarrow> string \<Rightarrow> outcome cres" where
  "smb_find E desc = with_desc E desc (\<lambda>g s0.
     if location (fst s0) = None then finish g (- ENODEV) (reply_name ''smb_find'' (- ENODEV) (fst s0)) s0
     else let (ret, smb, s) = at_location E ''smb_find'' s0
       in finish g ret
            (case smb of
               Some a \<Rightarrow> reply_full ''smb_find'' ret (desc_at E (snd s) a) (fst s)
             | None \<Rightarrow> reply_name ''smb_find'' ret (fst s)) s)"

text \<open>Two puts: one for this search, one for the search that is being undone.\<close>

definition smb_put :: "env \<Rightarrow> string \<Rightarrow> outcome cres" where
  "smb_put E desc = with_desc E desc (\<lambda>g s0.
     let (ret, smb, s1) = ask E (Find K_smb (fst s0)) s0;
         (ret, s) = (if ret \<noteq> 0 then (ret, s1)
                     else case can E smb ''smb_put'' s1 of
                       None \<Rightarrow> (- EINVAL, s1)
                     | Some _ \<Rightarrow> (0, put K_smb smb (put K_smb smb s1)))
     in finish g ret (reply_name ''smb_put'' ret (fst s)) s)"

definition smb_lose :: "env \<Rightarrow> string \<Rightarrow> outcome cres" where
  "smb_lose E desc = with_desc E desc (\<lambda>g s0.
     let (ret, smb, s1) = ask E (Find K_smb (fst s0)) s0;
         (ret, s) = (if ret \<noteq> 0 then (ret, s1)
                     else let (ret, s2) = try_void E smb ''smb_lose'' s1 in (ret, put K_smb smb s2))
     in finish g ret (reply_name ''smb_lose'' ret (fst s)) s)"

text \<open>The offset of a mapping must be a multiple of the page size.\<close>

definition off_page :: "vfi_desc_param \<Rightarrow> bool" where
  "off_page p \<longleftrightarrow> unat (offset p) mod 4096 \<noteq> 0"

definition fmt_ticket :: "nat option \<Rightarrow> string" where
  "fmt_ticket m = hex_of_nat (unat (mmap_to_ticket (case m of None \<Rightarrow> 0 | Some a \<Rightarrow> of_nat a)))"

definition reply_ticket :: "string \<Rightarrow> errno \<Rightarrow> nat option \<Rightarrow> vfi_desc_param \<Rightarrow> string cres" where
  "reply_ticket op ret m p =
     cat [Val (op @ ''://''), fmt_name p, Val ''?'', fmt_result ret p, Val ('',mmap_offset('' @ fmt_ticket m @ '')'' @ newline)]"

definition mmap_create :: "env \<Rightarrow> string \<Rightarrow> outcome cres" where
  "mmap_create E desc = with_desc E desc (\<lambda>g s0.
     if off_page (fst s0) then finish g (- EINVAL) (reply_name ''mmap_create'' (- EINVAL) (fst s0)) s0
     else let (ret, smb, s1) = ask E (Find K_smb (fst s0)) s0;
              (ret, m, s2) = (if ret \<noteq> 0 then (ret, None, s1) else try_op E smb ''mmap_create'' s1);
              s = put K_smb smb s2
       in finish g ret
            (case m of
               Some _ \<Rightarrow> reply_ticket ''mmap_create'' ret m (fst s)
             | None \<Rightarrow> reply_name ''mmap_create'' ret (fst s)) s)"

definition mmap_find :: "env \<Rightarrow> string \<Rightarrow> outcome cres" where
  "mmap_find E desc = with_desc E desc (\<lambda>g s0.
     let (ret, smb, s1) = ask E (Find K_smb (fst s0)) s0
     in if ret \<noteq> 0 then finish g ret (reply_ticket ''mmap_find'' ret None (fst s1)) s1
        else let (ret, m, s2) = try_op E smb ''mmap_find'' s1; s = put K_smb smb s2
          in finish g ret (reply_ticket ''mmap_find'' ret m (fst s)) s)"

text \<open>
  Deleting and putting a mapping: the mapping is searched in its block, then two of its operations are
  called through its own table.
\<close>

definition mmap_twice :: "string \<Rightarrow> string \<Rightarrow> env \<Rightarrow> string \<Rightarrow> outcome cres" where
  "mmap_twice op first E desc = with_desc E desc (\<lambda>g s0.
     if off_page (fst s0) then finish g (- EINVAL) (reply_name op (- EINVAL) (fst s0)) s0
     else let (ret, smb, s1) = ask E (Find K_smb (fst s0)) s0
       in if ret \<noteq> 0 then finish g ret (reply_name op ret (fst s1)) s1
          else let (ret, m, s2) = try_op E smb ''mmap_find'' s1
            in cres_bind
                 (if ret \<noteq> 0 then Val s2
                  else cres_bind (table_of E m s2) (\<lambda>t.
                       cres_bind (must_op E t first m s2) (\<lambda>(_, _, s3).
                       cres_bind (table_of E m s3) (\<lambda>t.
                       cres_bind (must_op E t ''mmap_put'' m s3) (\<lambda>(_, _, s4). Val s4)))))
                 (\<lambda>s. finish g ret (reply_name op ret (fst s)) (put K_smb smb s)))"

definition mmap_delete :: "env \<Rightarrow> string \<Rightarrow> outcome cres" where
  "mmap_delete E desc = mmap_twice ''mmap_delete'' ''mmap_delete'' E desc"

definition mmap_put :: "env \<Rightarrow> string \<Rightarrow> outcome cres" where
  "mmap_put E desc = mmap_twice ''mmap_put'' ''mmap_put'' E desc"


section \<open>Transfers and synchronisation objects\<close>

definition xfer_create :: "env \<Rightarrow> string \<Rightarrow> outcome cres" where
  "xfer_create E desc = with_desc E desc (\<lambda>g s0.
     let (ret, _, s) = at_location E ''xfer_create'' s0
     in finish g ret (reply_full ''xfer_create'' ret (fst s) (fst s)) s)"

text \<open>Looking up an object, then a \<open>void\<close> operation of it; a failed search puts nothing.\<close>

definition on_object :: "kind \<Rightarrow> string \<Rightarrow> env \<Rightarrow> dstate \<Rightarrow> errno \<times> dstate" where
  "on_object k op E s0 =
     (let (ret, obj, s1) = ask E (Find k (fst s0)) s0
      in if ret \<noteq> 0 then (ret, s1)
         else let (ret, s2) = try_void E obj op s1 in (ret, put k obj s2))"

definition xfer_delete :: "env \<Rightarrow> string \<Rightarrow> outcome cres" where
  "xfer_delete E desc = with_desc E desc (\<lambda>g s0.
     let (ret, s) = on_object K_xfer ''xfer_delete'' E s0
     in finish g ret (reply_name ''xfer_delete'' ret (fst s)) s)"

definition xfer_find :: "env \<Rightarrow> string \<Rightarrow> outcome cres" where
  "xfer_find E desc = with_desc E desc (\<lambda>g s0.
     let (ret, x, s) = at_location E ''xfer_find'' s0
     in finish g ret
          (case x of
             Some a \<Rightarrow> reply_range ''xfer_find'' ret (desc_at E (snd s) a) (fst s)
           | None \<Rightarrow> reply_name ''xfer_find'' ret (fst s)) s)"

definition xfer_put :: "env \<Rightarrow> string \<Rightarrow> outcome cres" where
  "xfer_put E desc = with_desc E desc (\<lambda>g s0.
     let (ret, s) = on_object K_xfer ''xfer_put'' E s0
     in finish g ret (reply_name ''xfer_put'' ret (fst s)) s)"

definition xfer_lose :: "env \<Rightarrow> string \<Rightarrow> outcome cres" where
  "xfer_lose E desc = with_desc E desc (\<lambda>g s0.
     let (ret, s) = on_object K_xfer ''xfer_lose'' E s0
     in finish g ret (reply_name ''xfer_lose'' ret (fst s)) s)"

definition sync_create :: "env \<Rightarrow> string \<Rightarrow> outcome cres" where
  "sync_create E desc = with_desc E desc (\<lambda>g s0.
     let (ret, _, s) = at_location E ''sync_create'' s0
     in finish g ret (reply_full ''sync_create'' ret (fst s) (fst s)) s)"

text \<open>Here the put comes after the search on every path.\<close>

definition sync_void :: "string \<Rightarrow> env \<Rightarrow> dstate \<Rightarrow> errno \<times> dstate" where
  "sync_void op E s0 =
     (let (ret, sync, s1) = ask E (Find K_sync (fst s0)) s0;
          (ret, s2) = (if ret \<noteq> 0 then (ret, s1) else try_void E sync op s1)
      in (ret, put K_sync sync s2))"

definition sync_delete :: "env \<Rightarrow> string \<Rightarrow> outcome cres" where
  "sync_delete E desc = with_desc E desc (\<lambda>g s0.
     let (ret, s) = sync_void ''sync_delete'' E s0
     in finish g ret (reply_name ''sync_delete'' ret (fst s)) s)"

definition sync_find :: "env \<Rightarrow> string \<Rightarrow> outcome cres" where
  "sync_find E desc = with_desc E desc (\<lambda>g s0.
     let (ret, x, s) = at_location E ''sync_find'' s0
     in finish g ret
          (case x of
             Some a \<Rightarrow> reply_range ''sync_find'' ret (desc_at E (snd s) a) (fst s)
           | None \<Rightarrow> reply_name ''sync_find'' ret (fst s)) s)"

definition sync_put :: "env \<Rightarrow> string \<Rightarrow> outcome cres" where
  "sync_put E desc = with_desc E desc (\<lambda>g s0.
     let (ret, s) = sync_void ''sync_put'' E s0
     in finish g ret (reply_name ''sync_put'' ret (fst s)) s)"

definition sync_op :: "string \<Rightarrow> env \<Rightarrow> dstate \<Rightarrow> errno \<times> dstate" where
  "sync_op op E s0 =
     (let (ret, sync, s1) = ask E (Find K_sync (fst s0)) s0;
          (ret, _, s2) = (if ret \<noteq> 0 then (ret, None, s1) else try_op E sync op s1)
      in (ret, put K_sync sync s2))"

definition sync_send :: "env \<Rightarrow> string \<Rightarrow> outcome cres" where
  "sync_send E desc = with_desc E desc (\<lambda>g s0.
     let (ret, s) = sync_op ''sync_send'' E s0
     in finish g ret (reply_full ''sync_send'' ret (fst s) (fst s)) s)"

definition sync_wait :: "env \<Rightarrow> string \<Rightarrow> outcome cres" where
  "sync_wait E desc = with_desc E desc (\<lambda>g s0.
     let (ret, s) = sync_op ''sync_wait'' E s0
     in finish g ret (reply_full ''sync_wait'' ret (fst s) (fst s)) s)"

section \<open>Binds\<close>

text \<open>
  \<open>valid_extents\<close>: the three extents are made equal where some are missing; \<open>False\<close> when they differ
  or are all missing. The result is the parameters as the function leaves them.
\<close>

definition valid_extents :: "vfi_bind_param \<Rightarrow> bool \<times> vfi_bind_param" where
  "valid_extents x =
     (if extent (xfer x) = 0 \<and> extent (dst x) = 0 \<and> extent (src x) = 0 then (False, x)
      else if extent (dst x) = 0 \<and> extent (src x) = 0 then
        (True, x\<lparr>dst := (dst x)\<lparr>extent := extent (xfer x)\<rparr>, src := (src x)\<lparr>extent := extent (xfer x)\<rparr>\<rparr>)
      else
        (let x1 = (if extent (dst x) = 0 then x\<lparr>dst := (dst x)\<lparr>extent := extent (src x)\<rparr>\<rparr> else x);
             x2 = (if extent (src x1) = 0 then x1\<lparr>src := (src x1)\<lparr>extent := extent (dst x1)\<rparr>\<rparr> else x1);
             x3 = (if extent (xfer x2) = 0 then x2\<lparr>xfer := (xfer x2)\<lparr>extent := extent (dst x2)\<rparr>\<rparr> else x2)
         in if extent (xfer x3) \<noteq> extent (dst x3) \<or> extent (xfer x3) \<noteq> extent (src x3)
                \<or> extent (dst x3) \<noteq> extent (src x3) then (False, x3)
            else (True, x3)))"

definition bind_create :: "env \<Rightarrow> string \<Rightarrow> outcome cres" where
  "bind_create E desc =
     (let own = (\<lambda>ret p. reply_bind ''bind_create'' ret p (src p))
      in with_bind E desc own (\<lambda>g s0.
     case valid_extents (fst s0) of
       (False, p) \<Rightarrow> bfinish g (- EINVAL) (own (- EINVAL) p) (p, snd s0)
     | (True, p) \<Rightarrow>
        (let (ret, x, s1) = ask_xfer E K_xfer (p, snd s0);
             (ret, b, s2) =
               (if ret \<noteq> 0 then (ret, None, s1)
                else case (can E x ''bind_create'' s1, x) of
                  (Some t, Some a) \<Rightarrow> bask E (Bop t ''bind_create'' a (fst s1)) s1
                | _ \<Rightarrow> (- EINVAL, None, s1));
             s = put K_xfer x s2
         in bfinish g ret
              (case b of
                 Some a \<Rightarrow> reply_bind ''bind_create'' ret (bind_at E (snd s) a) (src (fst s))
               | None \<Rightarrow> own ret (fst s)) s)))"

definition bind_delete :: "env \<Rightarrow> string \<Rightarrow> outcome cres" where
  "bind_delete E desc = with_desc E desc (\<lambda>g s0.
     let (ret, s) = on_object K_xfer ''bind_delete'' E s0
     in finish g ret (reply_full ''bind_delete'' ret (fst s) (fst s)) s)"

definition bind_find :: "env \<Rightarrow> string \<Rightarrow> outcome cres" where
  "bind_find E desc = with_desc E desc (\<lambda>g s0.
     let (ret, x, s1) = ask E (Find K_xfer (fst s0)) s0;
         (ret, b, s2) = (if ret \<noteq> 0 then (ret, None, s1) else try_op E x ''bind_find'' s1);
         s = put K_xfer x s2
     in finish g ret
          (case b of
             Some a \<Rightarrow> reply_bind ''bind_find'' ret (bind_at E (snd s) a) (fst s)
           | None \<Rightarrow> cat [Val ''bind_find://'', fmt_full (fst s), Val ''/'', fmt_name (fst s), Val ''='', fmt_name (fst s),
               Val ''#?'', fmt_result ret (fst s), Val newline]) s)"

definition bind_lose :: "env \<Rightarrow> string \<Rightarrow> outcome cres" where
  "bind_lose E desc = with_desc E desc (\<lambda>g s0.
     let (ret, s) = on_object K_xfer ''bind_lose'' E s0
     in finish g ret (reply_full ''bind_lose'' ret (fst s) (fst s)) s)"

section \<open>Destinations and sources\<close>

text \<open>\<open>event_name(%s),result(%d),reply(%s)\<close>\<close>

definition reply_event_name :: "string \<Rightarrow> errno \<Rightarrow> vfi_bind_param \<Rightarrow> vfi_bind_param \<Rightarrow> string cres" where
  "reply_event_name op ret b p =
     cat [Val (op @ ''://''), fmt_bind b, Val ''?event_name('', option_text (src p) ''event_name'', Val ''),'',
          fmt_result ret (src p), Val newline]"

definition reply_own :: "string \<Rightarrow> errno \<Rightarrow> vfi_bind_param \<Rightarrow> string cres" where
  "reply_own op ret p = reply_bind op ret p (src p)"

text \<open>Looking up a bind by the transfer, then an operation; the bind is put on every path.\<close>

definition on_bind :: "(vfi_bind_param \<Rightarrow> vfi_desc_param) \<Rightarrow> string \<Rightarrow> env \<Rightarrow> bstate \<Rightarrow> errno \<times> nat option \<times> bstate" where
  "on_bind part op E s0 =
     (let (ret, b, s1) = ask_xfer E K_bind s0;
          (ret, obj, s2) = (if ret \<noteq> 0 then (ret, None, s1) else try_bop E part b op s1)
      in (ret, obj, put K_bind b s2))"

definition dst_create :: "env \<Rightarrow> string \<Rightarrow> outcome cres" where
  "dst_create E desc = with_bind E desc (\<lambda>ret p. reply_event_name ''dst_create'' ret p p) (\<lambda>g s0.
     let (ret, d, s) = on_bind xfer ''dst_create'' E s0
     in bfinish g ret
          (case d of
             Some a \<Rightarrow> reply_event_name ''dst_create'' ret (bind_at E (snd s) a) (fst s)
           | None \<Rightarrow> reply_event_name ''dst_create'' ret (fst s) (fst s)) s)"

definition dst_delete :: "env \<Rightarrow> string \<Rightarrow> outcome cres" where
  "dst_delete E desc = with_bind E desc (reply_own ''dst_delete'') (\<lambda>g s0.
     let (ret, b, s1) = ask_xfer E K_bind s0;
         (ret, s2) = (if ret \<noteq> 0 then (ret, s1) else try_bvoid E xfer b ''dst_delete'' s1);
         s = put K_bind b s2
     in bfinish g ret (reply_own ''dst_delete'' ret (fst s)) s)"

definition dst_find :: "env \<Rightarrow> string \<Rightarrow> outcome cres" where
  "dst_find E desc = with_bind E desc (reply_own ''dst_find'') (\<lambda>g s0.
     let (ret, d, s) = on_bind dst ''dst_find'' E s0
     in bfinish g ret
          (case d of
             Some a \<Rightarrow> reply_bind ''dst_find'' ret (bind_at E (snd s) a) (src (fst s))
           | None \<Rightarrow> reply_own ''dst_find'' ret (fst s)) s)"

definition src_create :: "env \<Rightarrow> string \<Rightarrow> outcome cres" where
  "src_create E desc = with_bind E desc (reply_own ''src_create'') (\<lambda>g s0.
     let (ret, d, s1) = bask E (Find_dst (fst s0)) s0
     in if ret \<noteq> 0 \<or> d = None then bfinish g ret (reply_own ''src_create'' ret (fst s1)) s1
        else let (ret, obj, s2) = try_bop E xfer d ''src_create'' s1; s = put K_dst d s2
          in bfinish g ret
               (case obj of
                  Some a \<Rightarrow> reply_bind ''src_create'' ret (bind_at E (snd s) a) (src (fst s))
                | None \<Rightarrow> reply_own ''src_create'' ret (fst s)) s)"

definition src_delete :: "env \<Rightarrow> string \<Rightarrow> outcome cres" where
  "src_delete E desc = with_bind E desc (reply_own ''src_delete'') (\<lambda>g s0.
     let (ret, d, s1) = bask E (Find_dst (fst s0)) s0;
         (ret, s) = (if ret \<noteq> 0 then (ret, s1)
                     else let (ret, s2) = try_bvoid E xfer d ''src_delete'' s1 in (ret, put K_dst d s2))
     in bfinish g ret (reply_own ''src_delete'' ret (fst s)) s)"

text \<open>The return value of the search is overwritten with 0.\<close>

definition src_find :: "env \<Rightarrow> string \<Rightarrow> outcome cres" where
  "src_find E desc = with_bind E desc (reply_own ''src_find'') (\<lambda>g s0.
     let (ret, d, s1) = bask E (Find_dst (fst s0)) s0;
         (ret, obj, s2) =
           (if ret \<noteq> 0 then (ret, None, s1)
            else case (bcan E dst d ''src_find'' s1, d) of
              (Some t, Some a) \<Rightarrow> (let (_, obj, s') = bask E (Bop t ''src_find'' a (fst s1)) s1 in (0, obj, s'))
            | _ \<Rightarrow> (- EINVAL, None, s1));
         s = put K_dst d s2
     in bfinish g ret
          (case obj of
             Some a \<Rightarrow> reply_bind ''src_find'' ret (bind_at E (snd s) a) (src (fst s))
           | None \<Rightarrow> reply_own ''src_find'' ret (fst s)) s)"

section \<open>Collections of destinations and sources\<close>

definition reply_event_id :: "string \<Rightarrow> int \<Rightarrow> errno \<Rightarrow> vfi_bind_param \<Rightarrow> string cres" where
  "reply_event_id op ev ret p =
     cat [Val (op @ ''://''), fmt_bind p, Val (''?event_id('' @ dec_of_int ev @ ''),''), fmt_result ret (src p), Val newline]"

text \<open>
  After the operation the handler reads the event of the destination's bind, whether or not the
  operation has succeeded.
\<close>

definition srcs_create :: "env \<Rightarrow> string \<Rightarrow> outcome cres" where
  "srcs_create E desc = with_bind E desc (reply_event_id ''srcs_create'' (- 1)) (\<lambda>g s0.
     let (ret, d, s1) = bask E (Find_dst (fst s0)) s0
     in if ret \<noteq> 0 then let s = put K_dst d s1 in bfinish g ret (reply_event_id ''srcs_create'' (- 1) ret (fst s)) s
        else let (ret, _, s2) = try_bop E src d ''srcs_create'' s1
          in case (case d of None \<Rightarrow> None | Some a \<Rightarrow> dst_parent E (snd s2) a) of
               None \<Rightarrow> Undef
             | Some b \<Rightarrow>
                (case src_done_event E (snd s2) b of
                   None \<Rightarrow> Undef
                 | Some ev \<Rightarrow> (let s = put K_dst d s2 in bfinish g ret (reply_event_id ''srcs_create'' ev ret (fst s)) s)))"

definition srcs_delete :: "env \<Rightarrow> string \<Rightarrow> outcome cres" where
  "srcs_delete E desc = with_bind E desc (reply_own ''srcs_delete'') (\<lambda>g s0.
     let (ret, d, s1) = bask E (Find_dst (fst s0)) s0;
         (ret, s) = (if ret \<noteq> 0 then (ret, s1)
                     else let (ret, s2) = try_bvoid E src d ''srcs_delete'' s1 in (ret, put K_dst d s2))
     in bfinish g ret (reply_own ''srcs_delete'' ret (fst s)) s)"

definition srcs_find :: "env \<Rightarrow> string \<Rightarrow> outcome cres" where
  "srcs_find E desc = with_bind E desc (reply_own ''srcs_find'') (\<lambda>g s0.
     let (ret, d, s1) = bask E (Find_dst (fst s0)) s0;
         (ret, s) = (if ret \<noteq> 0 then (ret, s1)
                     else let (ret, _, s2) = try_bop E dst d ''srcs_find'' s1 in (ret, put K_dst d s2))
     in bfinish g ret (reply_own ''srcs_find'' ret (fst s)) s)"

text \<open>The event is printed in the middle of the bind here.\<close>

definition reply_dsts_create :: "int \<Rightarrow> errno \<Rightarrow> vfi_bind_param \<Rightarrow> string cres" where
  "reply_dsts_create ev ret p =
     cat [Val ''dsts_create://'', fmt_full (xfer p), Val ''/'', fmt_full (dst p),
          Val (''?event_id('' @ dec_of_int ev @ '')=''), fmt_full (src p), Val ''?'', fmt_result ret (src p), Val newline]"

definition dsts_create :: "env \<Rightarrow> string \<Rightarrow> outcome cres" where
  "dsts_create E desc = with_bind E desc (reply_dsts_create (- 1)) (\<lambda>g s0.
     let (found, b, s1) = ask_xfer E K_bind s0;
         (ret, s2) = (if found \<noteq> 0 then (found, s1) else let (ret, _, s') = try_bop E dst b ''dsts_create'' s1 in (ret, s'));
         ev = (if found \<noteq> 0 then - 1
               else case b of
                 None \<Rightarrow> - 1
               | Some a \<Rightarrow> (case dst_done_event E (snd s2) a of None \<Rightarrow> - 1 | Some e \<Rightarrow> e));
         s = put K_bind b s2
     in bfinish g ret (reply_dsts_create ev ret (fst s)) s)"

definition dsts_delete :: "env \<Rightarrow> string \<Rightarrow> outcome cres" where
  "dsts_delete E desc = with_bind E desc (reply_own ''dsts_delete'') (\<lambda>g s0.
     let (ret, b, s1) = ask_xfer E K_bind s0;
         (ret, s) = (if ret \<noteq> 0 then (ret, s1)
                     else let (ret, s2) = try_bvoid E dst b ''dsts_delete'' s1 in (ret, put K_bind b s2))
     in bfinish g ret (reply_own ''dsts_delete'' ret (fst s)) s)"

definition dsts_find :: "env \<Rightarrow> string \<Rightarrow> outcome cres" where
  "dsts_find E desc = with_bind E desc (reply_own ''dsts_find'') (\<lambda>g s0.
     let (ret, _, s) = on_bind dst ''dsts_find'' E s0
     in bfinish g ret (reply_own ''dsts_find'' ret (fst s)) s)"

section \<open>The dispatcher\<close>

definition ops_table :: "(string \<times> (env \<Rightarrow> string \<Rightarrow> outcome cres)) list" where
  "ops_table =
     [(''event_start'', event_start), (''event_find'', event_find), (''event_chain'', event_chain),
      (''location_create'', location_create), (''location_delete'', location_delete),
      (''location_find'', location_find), (''location_put'', location_put),
      (''smb_create'', smb_create), (''smb_delete'', smb_delete), (''smb_find'', smb_find),
      (''smb_put'', smb_put), (''smb_lose'', smb_lose),
      (''mmap_create'', mmap_create), (''mmap_delete'', mmap_delete), (''mmap_find'', mmap_find), (''mmap_put'', mmap_put),
      (''sync_create'', sync_create), (''sync_delete'', sync_delete), (''sync_find'', sync_find),
      (''sync_put'', sync_put), (''sync_send'', sync_send), (''sync_wait'', sync_wait),
      (''xfer_create'', xfer_create), (''xfer_delete'', xfer_delete), (''xfer_find'', xfer_find),
      (''xfer_put'', xfer_put), (''xfer_lose'', xfer_lose),
      (''bind_create'', bind_create), (''bind_delete'', bind_delete), (''bind_find'', bind_find), (''bind_lose'', bind_lose),
      (''dsts_create'', dsts_create), (''dsts_delete'', dsts_delete), (''dsts_find'', dsts_find),
      (''dst_create'', dst_create), (''dst_delete'', dst_delete), (''dst_find'', dst_find),
      (''srcs_create'', srcs_create), (''srcs_delete'', srcs_delete), (''srcs_find'', srcs_find),
      (''src_create'', src_create), (''src_delete'', src_delete), (''src_find'', src_find)]"

text \<open>
  \<open>snprintf\<close>: what the buffer of \<open>cap\<close> bytes holds before its \<open>NUL\<close>, and the length of the whole text,
  which is what it returns.
\<close>

definition snprintf :: "nat \<Rightarrow> string \<Rightarrow> string \<times> nat" where
  "snprintf cap s = (take (cap - 1) s, length s)"

text \<open>\<open>sscanf(request, "request(%x)", &reply)\<close> with \<open>reply\<close> 0 beforehand.\<close>

definition scan_request :: "string \<Rightarrow> u32" where
  "scan_request r =
     (if starts_with r ''request('' then
        fst (simple_strtoul16 (dropWhile (\<lambda>c. c \<in> {CHR 0x20, CHR 0x09, CHR 0x0A, CHR 0x0B, CHR 0x0C, CHR 0x0D}) (drop 8 r)))
      else 0)"

definition unknown_reply :: "string \<Rightarrow> string" where
  "unknown_reply cmd =
     (let (sep, reply) = (case strstr cmd ''request'' of None \<Rightarrow> (CHR ''?'', 0) | Some k \<Rightarrow> (CHR '','', scan_request (drop k cmd)))
      in cmd @ [sep] @ ''result(10101),reply('' @ hex_of_nat (unat reply) @ '')'' @ newline)"

text \<open>
  \<open>do_operation\<close>: \<open>cap\<close> is the size of the reply buffer. The result is the return value, the content of
  the buffer, the size it reports, and what the handler did, if there was one.
\<close>

definition lookup_op :: "string \<Rightarrow> ((env \<Rightarrow> string \<Rightarrow> outcome cres) \<times> string) option" where
  "lookup_op cmd =
     (case strstr cmd ''://'' of
        None \<Rightarrow> None
      | Some k \<Rightarrow>
          if k > 15 then None
          else (case map_of ops_table (take k cmd) of None \<Rightarrow> None | Some f \<Rightarrow> Some (f, drop (k + 3) cmd)))"

definition do_operation :: "env \<Rightarrow> string \<Rightarrow> nat \<Rightarrow> (errno \<times> string \<times> nat \<times> outcome option) cres" where
  "do_operation E cmd cap =
     (case lookup_op cmd of
        Some (f, desc) \<Rightarrow> cres_bind (f E desc) (\<lambda>out.
          let (text, n) = snprintf cap (o_reply out) in Val (o_ret out, text, n, Some out))
      | None \<Rightarrow> (let (text, n) = snprintf cap (unknown_reply cmd) in Val (- EINVAL, text, n, None)))"


section \<open>Extents of a bind\<close>

definition given_extents :: "vfi_bind_param \<Rightarrow> u32 set" where
  "given_extents x = {extent (xfer x), extent (dst x), extent (src x)} - {0}"

lemma singleton_given:
  "{a, b, c} - {0} = {e} \<longleftrightarrow> e \<noteq> 0 \<and> (a = 0 \<or> a = e) \<and> (b = 0 \<or> b = e) \<and> (c = 0 \<or> c = e) \<and> (a = e \<or> b = e \<or> c = e)"
  by auto

text \<open>\<open>valid_extents\<close> accepts a bind exactly when some extent is given and all the given ones agree;
  the three extents are then the common one, and nothing else of the parameters changes.\<close>

theorem valid_extents_agree:
  "(case valid_extents x of
      (True, y) \<Rightarrow> (\<exists>e. given_extents x = {e}
        \<and> y = x\<lparr>xfer := (xfer x)\<lparr>extent := e\<rparr>, dst := (dst x)\<lparr>extent := e\<rparr>, src := (src x)\<lparr>extent := e\<rparr>\<rparr>)
    | (False, y) \<Rightarrow> (\<nexists>e. given_extents x = {e}))"
proof -
  obtain X D S where x: "x = \<lparr>xfer = X, dst = D, src = S\<rparr>" by (cases x) auto
  have same: "d = d\<lparr>extent := e\<rparr> \<longleftrightarrow> extent d = e" for d :: vfi_desc_param and e by (cases d) auto
  show ?thesis
    by (cases "extent X = 0"; cases "extent D = 0"; cases "extent S = 0")
      (simp_all add: x valid_extents_def given_extents_def singleton_given same Let_def split: if_split, auto)
qed

section \<open>Accounting for the references of a handler\<close>

text \<open>
  The objects that the lookups of a handler returned, and those it put. A lookup that fails is expected
  to return no object: the searches clear the pointer first.
\<close>

definition is_lookup :: "call \<Rightarrow> bool" where
  "is_lookup c = (case c of Locate _ \<Rightarrow> True | Find _ _ \<Rightarrow> True | Find_dst _ \<Rightarrow> True | Kset_find _ \<Rightarrow> True | _ \<Rightarrow> False)"

definition taken :: "event list \<Rightarrow> nat list" where
  "taken tr = [a. (c, _, Some a) \<leftarrow> tr, is_lookup c]"

definition returned :: "event list \<Rightarrow> nat list" where
  "returned tr = [a. (Put _ (Some a), _, _) \<leftarrow> tr]"

definition failures_empty :: "env \<Rightarrow> bool" where
  "failures_empty E \<longleftrightarrow> (\<forall>tr c ret h. answer E tr c = (ret, h) \<and> is_lookup c \<and> ret \<noteq> 0 \<longrightarrow> h = None)"


text \<open>What each way of calling adds to the account, in terms of the state it leaves.\<close>

abbreviation st_of :: "'a \<times> 'b \<times> 's \<Rightarrow> 's" where "st_of r \<equiv> snd (snd r)"
abbreviation obj_of :: "'a \<times> nat option \<times> 's \<Rightarrow> nat option" where "obj_of r \<equiv> fst (snd r)"

definition as_list :: "nat option \<Rightarrow> nat list" where
  "as_list h = (case h of None \<Rightarrow> [] | Some a \<Rightarrow> [a])"

lemma as_list_simps [simp]: "as_list None = []" "as_list (Some a) = [a]"
  by (simp_all add: as_list_def)

lemma is_lookup_simps [simp]:
  "is_lookup (Locate d)" "is_lookup (Find k d)" "is_lookup (Find_dst b)" "is_lookup (Kset_find nm)" "\<not> is_lookup (Find_name d)"
  "\<not> is_lookup (Op t op h d)" "\<not> is_lookup (Bop t op a b)" "\<not> is_lookup (Put k h)" "\<not> is_lookup (Location_delete a)"
  by (simp_all add: is_lookup_def)

lemma account_Nil [simp]: "taken [] = []" "returned [] = []"
  by (simp_all add: taken_def returned_def)

lemma account_snoc:
  "taken (tr @ [(c, r)]) = taken tr @ (if is_lookup c then as_list (snd r) else [])"
  "returned (tr @ [(c, r)]) = returned tr @ (case c of Put _ a \<Rightarrow> as_list a | _ \<Rightarrow> [])"
  by (cases r; cases "snd r"; cases c; simp add: taken_def returned_def as_list_def split: option.split)+

lemma ask_account:
  "taken (snd (st_of (ask E c s))) = taken (snd s) @ (if is_lookup c then as_list (obj_of (ask E c s)) else [])"
  "returned (snd (st_of (ask E c s))) = returned (snd s) @ (case c of Put _ h \<Rightarrow> as_list h | _ \<Rightarrow> [])"
  by (simp_all add: ask_def Let_def split_beta account_snoc)

lemma bask_account:
  "taken (snd (st_of (bask E c b))) = taken (snd b) @ (if is_lookup c then as_list (obj_of (bask E c b)) else [])"
  "returned (snd (st_of (bask E c b))) = returned (snd b) @ (case c of Put _ h \<Rightarrow> as_list h | _ \<Rightarrow> [])"
  "taken (snd (st_of (ask_xfer E k b))) = taken (snd b) @ as_list (obj_of (ask_xfer E k b))"
  "returned (snd (st_of (ask_xfer E k b))) = returned (snd b)"
  by (simp_all add: bask_def ask_xfer_def Let_def split_beta account_snoc)

lemma put_account:
  "taken (snd (put k h s)) = taken (snd s)" "returned (snd (put k h s)) = returned (snd s) @ as_list h"
  by (simp_all add: put_def account_snoc)

lemma try_account:
  "taken (snd (st_of (try_op E h op s))) = taken (snd s)" "returned (snd (st_of (try_op E h op s))) = returned (snd s)"
  "taken (snd (snd (try_void E h op s))) = taken (snd s)" "returned (snd (snd (try_void E h op s))) = returned (snd s)"
  "taken (snd (st_of (try_bop E part h op b))) = taken (snd b)" "returned (snd (st_of (try_bop E part h op b))) = returned (snd b)"
  "taken (snd (snd (try_bvoid E part h op b))) = taken (snd b)" "returned (snd (snd (try_bvoid E part h op b))) = returned (snd b)"
  by (simp_all add: try_op_def try_void_def try_bop_def try_bvoid_def ask_account bask_account Let_def split_beta split: option.split)

lemma lookup_fails:
  assumes "failures_empty E"
  shows "is_lookup c \<Longrightarrow> fst (ask E c s) \<noteq> 0 \<Longrightarrow> obj_of (ask E c s) = None"
    "is_lookup c \<Longrightarrow> fst (bask E c b) \<noteq> 0 \<Longrightarrow> obj_of (bask E c b) = None"
    "fst (ask_xfer E k b) \<noteq> 0 \<Longrightarrow> obj_of (ask_xfer E k b) = None"
  using assms by (auto simp: failures_empty_def ask_def bask_def ask_xfer_def Let_def split_beta; metis is_lookup_simps(2) prod.collapse)+

definition settled :: "outcome cres \<Rightarrow> bool" where
  "settled m \<longleftrightarrow> (\<forall>out. m = Val out \<longrightarrow> taken (o_calls out) = returned (o_calls out))"

lemma settled_with_desc: "(\<And>g p. settled (f g (p, []))) \<Longrightarrow> settled (with_desc E s f)"
  by (auto simp: settled_def with_desc_def cres_bind_eq_Val)

lemma settled_with_bind: "(\<And>g p. settled (f g (p, []))) \<Longrightarrow> settled (with_bind E s r f)"
  by (auto simp: settled_def with_bind_def bfinish_def cres_bind_eq_Val split: if_splits)

lemma settled_finish: "taken (snd s) = returned (snd s) \<Longrightarrow> settled (finish g ret r s)"
  by (cases r) (auto simp: settled_def finish_def)

lemma settled_bfinish: "taken (snd s) = returned (snd s) \<Longrightarrow> settled (bfinish g ret r s)"
  by (cases r) (auto simp: settled_def bfinish_def)

lemma settled_Undef: "settled Undef"
  by (simp add: settled_def)

lemma settled_text: "settled (cres_bind (text_of d p) f) \<longleftrightarrow> (\<forall>x. text_of d p = Val x \<longrightarrow> settled (f x))"
  by (cases "text_of d p") (auto simp: settled_def)

lemmas account_simps = ask_account bask_account put_account try_account lookup_fails
  settled_finish settled_bfinish settled_Undef settled_text cres_bind_assoc

lemmas call_shapes = Let_def split_beta at_location_def on_object_def sync_void_def sync_op_def on_bind_def
  must_op_def table_of_def

lemma settled_locations:
  assumes "failures_empty E"
  shows "settled (location_create E desc)"
    "settled (location_delete E desc)"
    "settled (location_find E desc)"
    "settled (event_start E desc)"
    "settled (event_find E desc)"
    "settled (event_chain E desc)"
  unfolding location_create_def location_delete_def location_find_def event_start_def event_find_def event_chain_def event_operation_def call_shapes
  by (rule settled_with_desc, simp add: account_simps assms split: if_split option.split prod.split bool.split)+

lemma settled_blocks:
  assumes "failures_empty E"
  shows "settled (smb_create E desc)"
    "settled (smb_delete E desc)"
    "settled (smb_find E desc)"
    "settled (smb_lose E desc)"
    "settled (mmap_create E desc)"
    "settled (mmap_delete E desc)"
    "settled (mmap_find E desc)"
    "settled (mmap_put E desc)"
  unfolding smb_create_def smb_delete_def smb_find_def smb_lose_def mmap_create_def mmap_delete_def mmap_find_def mmap_put_def mmap_twice_def call_shapes
  by (rule settled_with_desc, simp add: account_simps assms split: if_split option.split prod.split bool.split)+

lemma settled_transfers:
  assumes "failures_empty E"
  shows "settled (sync_create E desc)"
    "settled (sync_delete E desc)"
    "settled (sync_find E desc)"
    "settled (sync_put E desc)"
    "settled (sync_send E desc)"
    "settled (sync_wait E desc)"
    "settled (xfer_create E desc)"
    "settled (xfer_delete E desc)"
    "settled (xfer_find E desc)"
    "settled (xfer_put E desc)"
    "settled (xfer_lose E desc)"
    "settled (bind_delete E desc)"
    "settled (bind_find E desc)"
    "settled (bind_lose E desc)"
  unfolding sync_create_def sync_delete_def sync_find_def sync_put_def sync_send_def sync_wait_def xfer_create_def xfer_delete_def xfer_find_def xfer_put_def xfer_lose_def bind_delete_def bind_find_def bind_lose_def  call_shapes
  by (rule settled_with_desc, simp add: account_simps assms split: if_split option.split prod.split bool.split)+

lemma settled_binds:
  assumes "failures_empty E"
  shows "settled (bind_create E desc)"
    "settled (dst_create E desc)"
    "settled (dst_delete E desc)"
    "settled (dst_find E desc)"
    "settled (src_delete E desc)"
    "settled (src_find E desc)"
  unfolding bind_create_def dst_create_def dst_delete_def dst_find_def src_delete_def src_find_def  call_shapes
  by (rule settled_with_bind, simp add: account_simps assms split: if_split option.split prod.split bool.split)+

lemma settled_collections:
  assumes "failures_empty E"
  shows "settled (dsts_create E desc)"
    "settled (dsts_delete E desc)"
    "settled (dsts_find E desc)"
    "settled (srcs_create E desc)"
    "settled (srcs_delete E desc)"
    "settled (srcs_find E desc)"
  unfolding dsts_create_def dsts_delete_def dsts_find_def srcs_create_def srcs_delete_def srcs_find_def  call_shapes
  by (rule settled_with_bind, simp add: account_simps assms split: if_split option.split prod.split bool.split)+

lemma settled_src_create:
  assumes "failures_empty E"
  shows "settled (src_create E desc)"
  unfolding src_create_def call_shapes
  by (rule settled_with_bind) (auto simp: account_simps assms)

lemmas settled_handlers = settled_src_create settled_locations settled_blocks settled_transfers settled_binds settled_collections

lemma each_settled:
  assumes "failures_empty E"
  shows "list_all (\<lambda>(nm, h). nm \<in> {''smb_put'', ''location_put''} \<or> settled (h E desc)) ops_table"
  by (simp add: ops_table_def settled_handlers [OF assms])


text \<open>An environment in which every lookup finds object 7, a local one, and every operation succeeds.\<close>

definition demo_env :: env where
  "demo_env = \<lparr>answer = (\<lambda>tr c. if is_lookup c then (0, Some 7) else (0, None)), touch = (\<lambda>_ _ p. p), btouch = (\<lambda>_ _ p. p),
     desc_at = (\<lambda>_ _. zero_desc\<lparr>ops := Some Vfi_local_ops\<rparr>),
     bind_at = (\<lambda>_ _. let d = zero_desc\<lparr>ops := Some Vfi_local_ops\<rparr> in \<lparr>xfer = d, dst = d, src = d\<rparr>),
     dst_parent = (\<lambda>_ _. Some 8), src_done_event = (\<lambda>_ _. Some 4), dst_done_event = (\<lambda>_ _. Some 5),
     garbage = zero_desc, kmem = True, kmem4 = (True, True, True, True), regs = demo_registry\<rparr>"



section \<open>What the replies say\<close>

text \<open>A reply names its operation and carries the return value, followed by the request it answers.\<close>

definition said :: "string \<Rightarrow> errno \<Rightarrow> string \<Rightarrow> bool" where
  "said op ret r \<longleftrightarrow> (\<exists>pre suf. r = op @ ''://'' @ pre @ ''result('' @ dec_of_int ret @ ''),reply('' @ suf)"

definition says :: "string \<Rightarrow> errno \<Rightarrow> string cres \<Rightarrow> bool" where
  "says op ret m \<longleftrightarrow> (\<forall>r. m = Val r \<longrightarrow> said op ret r)"

lemma cat_Val_Cons: "cat (Val s # ms) = Val r \<longleftrightarrow> (\<exists>t. cat ms = Val t \<and> r = s @ t)"
  by (auto simp: cres_bind_eq_Val)

lemma cat_split: "cat (xs @ m # ys) = Val r \<Longrightarrow> \<exists>a b c. r = a @ b @ c \<and> m = Val b"
proof (induction xs arbitrary: r)
  case Nil
  then show ?case by (auto simp: cres_bind_eq_Val) (metis append_Nil)
next
  case (Cons x xs)
  then obtain s t where "cat (xs @ m # ys) = Val t" "r = s @ t" by (auto simp: cres_bind_eq_Val)
  with Cons.IH [of t] show ?case by (metis append.assoc)
qed

lemma fmt_result_says: "fmt_result ret d = Val b \<Longrightarrow> \<exists>suf. b = ''result('' @ dec_of_int ret @ ''),reply('' @ suf"
  by (auto simp: fmt_result_def cres_bind_eq_Val)

text \<open>Any text that starts with the operation and contains the formatted result will do.\<close>

lemma says_cat: "says op ret (cat (Val (op @ ''://'') # xs @ fmt_result ret d # ys))"
  unfolding says_def said_def cat_Val_Cons
  by (fastforce dest: cat_split fmt_result_says)

lemma says_replies:
  "says op ret (reply_location op ret d p)" "says op ret (reply_name op ret p)" "says op ret (reply_full op ret d p)"
  "says op ret (reply_range op ret d p)" "says op ret (reply_bind op ret b p)" "says op ret (reply_own op ret b)"
  "says op ret (reply_ticket op ret m p)" "says op ret (reply_event_name op ret b b')" "says op ret (reply_event_id op ev ret b)"
  "says ''dsts_create'' ret (reply_dsts_create ev ret b)"
proof -
  show "says op ret (reply_location op ret d p)"
    using says_cat [of op ret "[text_of d (name d), fmt_range d, Val ''?'']" p "[Val newline]"] by (simp add: reply_location_def)
  show "says op ret (reply_name op ret p)"
    using says_cat [of op ret "[fmt_name p, Val ''?'']" p "[Val newline]"] by (simp add: reply_name_def)
  show "says op ret (reply_full op ret d p)"
    using says_cat [of op ret "[fmt_full d, Val ''?'']" p "[Val newline]"] by (simp add: reply_full_def)
  show "says op ret (reply_range op ret d p)"
    using says_cat [of op ret "[fmt_name p, fmt_range d, Val ''?'']" p "[Val newline]"] by (simp add: reply_range_def)
  show b: "says op ret (reply_bind op ret b p)" for p
    using says_cat [of op ret "[fmt_bind b, Val ''?'']" p "[Val newline]"] by (simp add: reply_bind_def)
  show "says op ret (reply_own op ret b)" by (simp add: reply_own_def b)
  show "says op ret (reply_ticket op ret m p)"
    using says_cat [of op ret "[fmt_name p, Val ''?'']" p "[Val ('',mmap_offset('' @ fmt_ticket m @ '')'' @ newline)]"]
    by (simp add: reply_ticket_def)
  show "says op ret (reply_event_name op ret b b')"
    using says_cat [of op ret "[fmt_bind b, Val ''?event_name('', option_text (src b') ''event_name'', Val ''),'']" "src b'" "[Val newline]"]
    by (simp add: reply_event_name_def)
  show "says op ret (reply_event_id op ev ret b)"
    using says_cat [of op ret "[fmt_bind b, Val (''?event_id('' @ dec_of_int ev @ ''),'')]" "src b" "[Val newline]"]
    by (simp add: reply_event_id_def)
  show "says ''dsts_create'' ret (reply_dsts_create ev ret b)"
    using says_cat [of "''dsts_create''" ret "[fmt_full (xfer b), Val ''/'', fmt_full (dst b),
          Val (''?event_id('' @ dec_of_int ev @ '')=''), fmt_full (src b), Val ''?'']" "src b" "[Val newline]"]
    by (simp add: reply_dsts_create_def)
qed

lemma says_Undef [simp]: "says op ret Undef"
  by (simp add: says_def)

definition announces :: "string \<Rightarrow> outcome cres \<Rightarrow> bool" where
  "announces op m \<longleftrightarrow> (\<forall>out. m = Val out \<longrightarrow> said op (o_ret out) (o_reply out))"

lemma announces_with_desc: "(\<And>g p. announces op (f g (p, []))) \<Longrightarrow> announces op (with_desc E s f)"
  by (auto simp: announces_def with_desc_def cres_bind_eq_Val)

lemma announces_with_bind:
  "(\<And>g p. announces op (f g (p, []))) \<Longrightarrow> (\<And>ret p. says op ret (rep ret p)) \<Longrightarrow> announces op (with_bind E s rep f)"
  by (auto simp: announces_def with_bind_def bfinish_def says_def cres_bind_eq_Val split: if_splits)

lemma announces_finish: "says op ret r \<Longrightarrow> announces op (finish g ret r s)" "says op ret r \<Longrightarrow> announces op (bfinish g ret r t)"
  by (auto simp: announces_def says_def finish_def bfinish_def cres_bind_eq_Val)

lemma announces_Undef: "announces op Undef"
  by (simp add: announces_def)

lemma announces_text: "announces op (cres_bind (text_of d p) f) \<longleftrightarrow> (\<forall>x. text_of d p = Val x \<longrightarrow> announces op (f x))"
  by (cases "text_of d p") (auto simp: announces_def)

lemmas announce_simps = announces_finish announces_Undef announces_text says_replies cres_bind_assoc

lemma announces_locations:
  "announces ''location_create'' (location_create E desc)"
  "announces ''location_delete'' (location_delete E desc)"
  "announces ''location_find'' (location_find E desc)"
  "announces ''location_put'' (location_put E desc)"
  "announces ''event_start'' (event_start E desc)"
  "announces ''event_find'' (event_find E desc)"
  "announces ''event_chain'' (event_chain E desc)"
  unfolding location_create_def location_delete_def location_find_def location_put_def event_start_def event_find_def event_chain_def event_operation_def call_shapes
  by (rule announces_with_desc, simp add: announce_simps split: if_split option.split prod.split bool.split)+

lemma announces_blocks:
  "announces ''smb_create'' (smb_create E desc)"
  "announces ''smb_delete'' (smb_delete E desc)"
  "announces ''smb_find'' (smb_find E desc)"
  "announces ''smb_put'' (smb_put E desc)"
  "announces ''smb_lose'' (smb_lose E desc)"
  "announces ''mmap_create'' (mmap_create E desc)"
  "announces ''mmap_delete'' (mmap_delete E desc)"
  "announces ''mmap_find'' (mmap_find E desc)"
  "announces ''mmap_put'' (mmap_put E desc)"
  unfolding smb_create_def smb_delete_def smb_find_def smb_put_def smb_lose_def mmap_create_def mmap_delete_def mmap_find_def mmap_put_def mmap_twice_def call_shapes
  by (rule announces_with_desc, simp add: announce_simps split: if_split option.split prod.split bool.split)+

lemma announces_transfers:
  "announces ''sync_create'' (sync_create E desc)"
  "announces ''sync_delete'' (sync_delete E desc)"
  "announces ''sync_find'' (sync_find E desc)"
  "announces ''sync_put'' (sync_put E desc)"
  "announces ''sync_send'' (sync_send E desc)"
  "announces ''sync_wait'' (sync_wait E desc)"
  "announces ''xfer_create'' (xfer_create E desc)"
  "announces ''xfer_delete'' (xfer_delete E desc)"
  "announces ''xfer_find'' (xfer_find E desc)"
  "announces ''xfer_put'' (xfer_put E desc)"
  "announces ''xfer_lose'' (xfer_lose E desc)"
  "announces ''bind_delete'' (bind_delete E desc)"
  "announces ''bind_lose'' (bind_lose E desc)"
  unfolding sync_create_def sync_delete_def sync_find_def sync_put_def sync_send_def sync_wait_def xfer_create_def xfer_delete_def xfer_find_def xfer_put_def xfer_lose_def bind_delete_def bind_lose_def  call_shapes
  by (rule announces_with_desc, simp add: announce_simps split: if_split option.split prod.split bool.split)+

lemma announces_binds:
  "announces ''bind_create'' (bind_create E desc)"
  "announces ''dst_create'' (dst_create E desc)"
  "announces ''dst_delete'' (dst_delete E desc)"
  "announces ''dst_find'' (dst_find E desc)"
  "announces ''src_create'' (src_create E desc)"
  "announces ''src_delete'' (src_delete E desc)"
  "announces ''src_find'' (src_find E desc)"
  unfolding bind_create_def dst_create_def dst_delete_def dst_find_def src_create_def src_delete_def src_find_def call_shapes
  by (rule announces_with_bind; simp add: announce_simps split: if_split option.split prod.split bool.split)+

lemma announces_collections:
  "announces ''dsts_create'' (dsts_create E desc)"
  "announces ''dsts_delete'' (dsts_delete E desc)"
  "announces ''dsts_find'' (dsts_find E desc)"
  "announces ''srcs_create'' (srcs_create E desc)"
  "announces ''srcs_delete'' (srcs_delete E desc)"
  "announces ''srcs_find'' (srcs_find E desc)"
  unfolding dsts_create_def dsts_delete_def dsts_find_def srcs_create_def srcs_delete_def srcs_find_def call_shapes
  by (rule announces_with_bind; simp add: announce_simps split: if_split option.split prod.split bool.split)+

lemma announces_bind_find: "announces ''bind_find'' (bind_find E desc)"
proof -
  have "says ''bind_find'' ret (cat [Val ''bind_find://'', fmt_full p, Val ''/'', fmt_name p, Val ''='', fmt_name p,
      Val ''#?'', fmt_result ret p, Val newline])" for ret p
    using says_cat [of "''bind_find''" ret "[fmt_full p, Val ''/'', fmt_name p, Val ''='', fmt_name p, Val ''#?'']" p "[Val newline]"]
    by (simp del: cat.simps)
  then show ?thesis unfolding bind_find_def call_shapes
    by (intro announces_with_desc) (simp add: announce_simps del: cat.simps split: if_split option.split)
qed

lemma each_announces: "list_all (\<lambda>(nm, h). announces nm (h E desc)) ops_table"
  by (simp add: ops_table_def announces_locations announces_blocks announces_transfers announces_binds
      announces_collections announces_bind_find)

text \<open>Whatever happens to a command, the reply its handler prints starts with the operation's name and
  carries the number the handler returns, followed by the request it answers.\<close>

theorem replies_carry_the_result:
  assumes "(nm, h) \<in> set ops_table" and "h E desc = Val out"
  shows "\<exists>pre suf. o_reply out = nm @ ''://'' @ pre @ ''result('' @ dec_of_int (o_ret out) @ ''),reply('' @ suf"
  using each_announces [of E desc] assms by (fastforce simp: list_all_iff announces_def said_def)

theorem replies_carry_the_result_witness:
  "\<exists>out. smb_delete demo_env ''b.n?request(9)'' = Val out
     \<and> o_reply out = ''smb_delete://b.n?result(0),reply(9)'' @ newline
     \<and> (\<exists>pre suf. o_reply out = ''smb_delete'' @ ''://'' @ pre @ ''result('' @ dec_of_int (o_ret out) @ ''),reply('' @ suf)"
proof -
  have run: "(case smb_delete demo_env ''b.n?request(9)'' of Val out \<Rightarrow> o_reply out | Undef \<Rightarrow> [])
      = ''smb_delete://b.n?result(0),reply(9)'' @ newline" by code_simp
  then obtain out where out: "smb_delete demo_env ''b.n?request(9)'' = Val out"
    by (cases "smb_delete demo_env ''b.n?request(9)''") auto
  have "(''smb_delete'', smb_delete) \<in> set ops_table" by (simp add: ops_table_def)
  from replies_carry_the_result [OF this out] run out show ?thesis by simp
qed


section \<open>A reply read by the node that asked\<close>

lemma strstr_absent: "c \<in> set n \<Longrightarrow> c \<notin> set s \<Longrightarrow> strstr s n = None"
proof (induction s)
  case (Cons x s)
  have "take (length n) (x # s) \<noteq> n" using Cons.prems by (metis in_set_takeD)
  with Cons show ?case by simp
qed auto

lemma strstr_here: "n \<noteq> [] \<Longrightarrow> strstr (n @ s) n = Some 0"
  by (cases n) simp_all

lemma strstr_char_at: "c \<notin> set xs \<Longrightarrow> strstr (xs @ c # ys) [c] = Some (length xs)"
  by (simp add: strstr_char takeWhile_append_hit)

lemma strstr_after: "x \<notin> set xs \<Longrightarrow> strstr (xs @ x # r) (x # n) = map_option ((+) (length xs)) (strstr (x # r) (x # n))"
proof (induction xs)
  case (Cons y xs)
  then show ?case by (auto simp: option.map_comp comp_def)
qed (simp del: strstr.simps add: option.map_id0 [unfolded id_def] plus_nat.add_0 [abs_def])

lemma dec_digits: "set (dec_of_nat n) \<subseteq> set ''0123456789''"
proof (induction n rule: dec_of_nat.induct)
  case (1 n)
  have d: "char_of (48 + k) \<in> set ''0123456789''" if "k < 10" for k :: nat
  proof -
    have "k \<in> {0, 1, 2, 3, 4, 5, 6, 7, 8, 9}" using that by auto
    then show ?thesis by (elim insertE emptyE) (simp_all add: char_of_def bit_Suc_0_iff)
  qed
  show ?case
  proof (cases "n < 10")
    case True
    then show ?thesis using d [OF True] by (simp add: dec_of_nat.simps [of n])
  next
    case False
    then have "set (dec_of_nat (n div 10)) \<subseteq> set ''0123456789''" "n mod 10 < 10" using 1 by simp_all
    with d [of "n mod 10"] False show ?thesis by (simp add: dec_of_nat.simps [of n])
  qed
qed

lemma dec_of_int_chars: "set (dec_of_int i) \<subseteq> set ''-0123456789''"
proof -
  have "set (dec_of_nat n) \<subseteq> set ''-0123456789''" for n
    by (rule subset_trans [OF dec_digits]) simp
  then show ?thesis by (simp add: dec_of_int_def)
qed

definition reply_text :: "string \<Rightarrow> string \<Rightarrow> string \<Rightarrow> errno \<Rightarrow> string \<Rightarrow> string" where
  "reply_text op nm l ret req =
     op @ ''://'' @ nm @ ''.'' @ l @ ''?result('' @ dec_of_int ret @ ''),reply('' @ req @ '')'' @ newline"

lemma reply_name_text:
  assumes "text_of p (name p) = Val nm" "text_of p (location p) = Val l" "option_text p ''request'' = Val req"
  shows "reply_name op ret p = Val (reply_text op nm l ret req)"
  using assms by (simp add: reply_name_def fmt_name_def fmt_result_def reply_text_def)

lemma spec_option_brackets:
  assumes "CHR ''('' \<notin> set k" "CHR '')'' \<notin> set k" "CHR ''('' \<notin> set v" "CHR '')'' \<notin> set v"
  shows "spec_option (k @ CHR ''('' # v @ CHR '')'' # rest) = k @ CHR ''='' # v"
proof -
  let ?s' = "k @ CHR ''='' # v @ CHR '')'' # rest"
  have k: "strstr (k @ CHR ''('' # v @ CHR '')'' # rest) ''('' = Some (length k)" using assms(1) by (rule strstr_char_at)
  have w: "(k @ CHR ''('' # v @ CHR '')'' # rest)[length k := CHR ''=''] = ?s'" by (simp add: list_update_append)
  have "strstr ((CHR ''='' # v) @ CHR '')'' # rest) '')'' = Some (Suc (length v))"
    using strstr_char_at [of "CHR '')''" "CHR ''='' # v" rest] assms(4) by simp
  then have j: "strstr (drop (length k) ?s') '')'' = Some (Suc (length v))" by simp
  show ?thesis unfolding spec_option_def k option.case Let_def w j by simp
qed

lemma grammar_of_query:
  assumes body: "spec_body s = nm @ CHR ''.'' # l @ CHR ''?'' # opts"
    and nm: "plain_word {CHR ''.''} nm" "nm \<noteq> []" and l: "plain_word {} l"
  shows "grammar s = \<lparr>p_name = nm, p_location = Some l, p_extent = None, p_offset = None,
     p_options = map spec_option (split_on CHR '','' opts)\<rparr>"
proof -
  let ?h = "nm @ CHR ''.'' # l"
  have b: "spec_body s = ?h @ CHR ''?'' # opts" using body by simp
  have "CHR ''?'' \<notin> set ?h" using nm(1) l by (auto simp: plain_word_def)
  then have q: "str_cut CHR ''?'' (?h @ CHR ''?'' # opts) = (?h, Some opts)" by (rule str_cut_first)
  have dot: "str_cut CHR ''.'' ?h = (nm, Some l)" using nm(1) by (intro str_cut_first) (auto simp: plain_word_def)
  have skip: "spec_skip nm (Some l) = (nm, Some l)" using nm(2) by (cases nm) (simp_all add: spec_skip_simps)
  have nums: "spec_numbers l = (l, None, None)"
    using l by (simp add: spec_numbers_def str_cut_absent plain_word_def)
  show ?thesis by (simp only: grammar_def b q dot skip nums Let_def prod.case option.case) simp
qed

lemma body_after_op:
  assumes "CHR '':'' \<notin> set op"
  shows "spec_body (op @ ''://'' @ t) = t" "strstr (op @ ''://'' @ t) ''://'' = Some (length op)"
proof -
  have "strstr (CHR '':'' # (''//'' @ t)) ''://'' = Some 0" by simp
  then show "strstr (op @ ''://'' @ t) ''://'' = Some (length op)"
    using strstr_after [OF assms, of "''//'' @ t" "''//''"] by simp
  then show "spec_body (op @ ''://'' @ t) = t" by (simp add: spec_body_def)
qed

lemma grammar_of_reply:
  assumes op: "CHR '':'' \<notin> set op" and nm: "plain_word {CHR ''.''} nm" "nm \<noteq> []" and l: "plain_word {} l"
    and req: "set req \<subseteq> set ''0123456789abcdef''"
  shows "grammar (reply_text op nm l ret req) = \<lparr>p_name = nm, p_location = Some l, p_extent = None, p_offset = None,
     p_options = [''result='' @ dec_of_int ret, ''reply='' @ req]\<rparr>"
proof -
  let ?r = "''result('' @ dec_of_int ret @ '')''" and ?q = "''reply('' @ req @ '')'' @ newline"
  let ?opts = "?r @ CHR '','' # ?q"
  note dec = dec_of_int_chars [of ret]
  have "reply_text op nm l ret req = op @ ''://'' @ (nm @ CHR ''.'' # l @ CHR ''?'' # ?opts)" by (simp add: reply_text_def)
  then have body: "spec_body (reply_text op nm l ret req) = nm @ CHR ''.'' # l @ CHR ''?'' # ?opts"
    by (simp only: body_after_op [OF op])
  have c1: "CHR '','' \<notin> set ?r" using dec by auto
  have c2: "CHR '','' \<notin> set ?q" using req by auto
  have "CHR '','' \<in> set (?r @ CHR '','' # ?q)" by simp
  from split_on_first [OF this] have "split_on CHR '','' ?opts = [?r, ?q]"
    by (simp only: takeWhile_append_hit [OF c1] dropWhile_append_hit [OF c1] list.sel split_on_last [OF c2])
  moreover have "spec_option ?r = ''result='' @ dec_of_int ret"
    using spec_option_brackets [of "''result''" "dec_of_int ret" "[]"] dec by auto
  moreover have "spec_option ?q = ''reply='' @ req"
    using spec_option_brackets [of "''reply''" req newline] req by auto
  ultimately have "map spec_option (split_on CHR '','' ?opts) = [''result='' @ dec_of_int ret, ''reply='' @ req]"
    by (simp only: list.map)
  then show ?thesis by (simp only: grammar_of_query [OF body nm l])
qed


lemma reply_reads_back:
  assumes p: "text_of p (name p) = Val nm" "text_of p (location p) = Val l" "option_text p ''request'' = Val req"
    and op: "CHR '':'' \<notin> set op" "NUL \<notin> set op" and nm: "plain_word {CHR ''.''} nm" "nm \<noteq> []" and l: "plain_word {} l"
    and req: "set req \<subseteq> set ''0123456789abcdef''" and fits: "dup_size (reply_text op nm l ret req) \<le> 4096"
  shows "\<exists>r d' b n q1 q2. reply_name op ret p = Val r \<and> vfi_parse_desc True d (Some r) g = Val (0, d', g)
    \<and> buf d' = Some b \<and> name d' = Some n \<and> cstr b n = nm \<and> map_option (cstr b) (location d') = Some l
    \<and> vfi_get_option d' ''result'' = Val (Some q1) \<and> cstr b q1 = dec_of_int ret \<and> c_ok b q1
    \<and> vfi_get_option d' ''reply'' = Val (Some q2) \<and> cstr b q2 = req"
proof -
  let ?s = "reply_text op nm l ret req" and ?os = "[''result='' @ dec_of_int ret, ''reply='' @ req]"
  note gr = grammar_of_reply [OF op(1) nm l req, of ret] and dec = dec_of_int_chars [of ret]
  have nul: "NUL \<notin> set ?s" using op nm l req dec by (auto simp: reply_text_def plain_word_def)
  let ?S = "set ''resultpy=-0123456789abcdef''"
  have keys: "set ''-0123456789'' \<subseteq> ?S" "set ''0123456789abcdef'' \<subseteq> ?S" "set ''result='' \<subseteq> ?S" "set ''reply='' \<subseteq> ?S"
    by simp_all
  have "set (dec_of_int ret) \<subseteq> ?S" by (rule subset_trans [OF dec keys(1)])
  moreover have "set req \<subseteq> ?S" by (rule subset_trans [OF req keys(2)])
  ultimately have sub: "set (''result='' @ dec_of_int ret) \<subseteq> ?S" "set (''reply='' @ req) \<subseteq> ?S"
    using keys(3,4) by (simp_all only: set_append Un_subset_iff)
  have absent: "spec_get_option ?os n = None" if "c \<in> set n" "c \<notin> ?S" for n c
  proof -
    have "strstr (''result='' @ dec_of_int ret) n = None" "strstr (''reply='' @ req) n = None"
      by (rule strstr_absent [OF that(1)], use that(2) sub in blast)+
    then show ?thesis by (simp only: spec_get_option.simps option.case)
  qed
  have "spec_get_option ?os ''default_ops'' = None" by (rule absent [of "CHR ''_''"]) simp_all
  moreover have "spec_get_option ?os ''fabric'' = None" by (rule absent [of "CHR ''i''"]) simp_all
  moreover have "spec_get_option ?os ''dma_name'' = None" by (rule absent [of "CHR ''_''"]) simp_all
  ultimately have sel: "spec_select (p_options (grammar ?s)) g = Val (None, None, None, g)"
    by (simp only: gr spec_select_def parsed.simps option.case prod.case Let_def)
  obtain d' ret' where all: "vfi_parse_desc True d (Some ?s) g = cres_bind (spec_select (p_options (grammar ?s)) g) (\<lambda>(t, a, e, g').
      if ret' \<noteq> 0 then Val (ret', d'\<lparr>ops := t, address := a, rde := e, buf := None, buflen := 0\<rparr>, g')
      else Val (ret', d'\<lparr>ops := t, address := a, rde := e\<rparr>, g'))"
    and ret: "ret' = 0 \<longleftrightarrow> clean_number (p_extent (grammar ?s)) \<and> clean_number (p_offset (grammar ?s))"
    and den: "\<And>t a e. desc_denotes (d'\<lparr>ops := t, address := a, rde := e\<rparr>) (grammar ?s)"
    and ok: "\<And>t a e. options_ok (d'\<lparr>ops := t, address := a, rde := e\<rparr>)"
    by (rule parse_desc_run [OF nul fits, where d = d and g = g]) (rule that)
  let ?d = "d'\<lparr>ops := None, address := None, rde := None\<rparr>"
  have "ret' = 0" using ret by (simp add: gr clean_number_def)
  with all sel have run: "vfi_parse_desc True d (Some ?s) g = Val (0, ?d, g)" by simp
  obtain b n qs where b: "buf ?d = Some b" "name ?d = Some n" "query ?d = Some qs" "cstr b n = nm"
    "map_option (cstr b) (location ?d) = Some l" "option_strings b qs = ?os"
    using den [of None None None] by (auto simp: desc_denotes_def gr split: option.splits)
  have o1: "spec_get_option ?os ''result'' = Some (dec_of_int ret)"
    using strstr_here [of "''result''" "CHR ''='' # dec_of_int ret"] strstr_char_at [of "CHR ''=''" "''result''" "dec_of_int ret"]
    by (simp del: strstr.simps)
  have "strstr (''result='' @ dec_of_int ret) ''reply'' = None"
    using dec by (intro strstr_absent [of "CHR ''y''"]) auto
  then have o2: "spec_get_option ?os ''reply'' = Some req"
    using strstr_here [of "''reply''" "CHR ''='' # req"] strstr_char_at [of "CHR ''=''" "''reply''" req]
    by (simp del: strstr.simps)
  obtain r1 where r1: "vfi_get_option ?d ''result'' = Val r1" "map_option (cstr b) r1 = Some (dec_of_int ret)"
    "\<And>i. r1 = Some i \<Longrightarrow> c_ok b i"
    using get_option_text [OF ok b(1,3), of "''result''"] b(6) o1 by metis
  obtain r2 where r2: "vfi_get_option ?d ''reply'' = Val r2" "map_option (cstr b) r2 = Some req"
    using get_option_text [OF ok b(1,3), of "''reply''"] b(6) o2 by metis
  from r1 r2 b run reply_name_text [OF p] show ?thesis by (auto simp: map_option_eq_Some)
qed

text \<open>The reply to a request parses back at the node that asked, which reads the options \<open>result\<close> and
  \<open>reply\<close> from it: name and location are those of the reply, and the two options are the number the
  handler returned and the request it answered, for every number and for every hexadecimal request.\<close>

theorem reply_parses_back:
  assumes p: "text_of p (name p) = Val nm" "text_of p (location p) = Val l" "option_text p ''request'' = Val req"
    and op: "CHR '':'' \<notin> set op" "NUL \<notin> set op" and nm: "plain_word {CHR ''.''} nm" "nm \<noteq> []" and l: "plain_word {} l"
    and req: "set req \<subseteq> set ''0123456789abcdef''" and fits: "dup_size (reply_text op nm l ret req) \<le> 4096"
  shows "\<exists>r d' b n q1 q2. reply_name op ret p = Val r \<and> vfi_parse_desc True d (Some r) g = Val (0, d', g)
    \<and> buf d' = Some b \<and> name d' = Some n \<and> cstr b n = nm \<and> map_option (cstr b) (location d') = Some l
    \<and> vfi_get_option d' ''result'' = Val (Some q1) \<and> cstr b q1 = dec_of_int ret
    \<and> vfi_get_option d' ''reply'' = Val (Some q2) \<and> cstr b q2 = req"
  using reply_reads_back [OF p op nm l req fits, where d = d and g = g] by blast

definition demo_request :: vfi_desc_param where
  "demo_request = zero_desc\<lparr>buf := Some (''b'' @ [NUL] @ ''request=a'' @ [NUL]), name := Some 0, location := Some 0,
     query := Some [Some 2, None]\<rparr>"

theorem reply_parses_back_witness:
  "\<exists>r d' b q1 q2. reply_name ''smb_delete'' (- 22) demo_request = Val r
     \<and> vfi_parse_desc True zero_desc (Some r) demo_registry = Val (0, d', demo_registry) \<and> buf d' = Some b
     \<and> vfi_get_option d' ''result'' = Val (Some q1) \<and> cstr b q1 = ''-22''
     \<and> vfi_get_option d' ''reply'' = Val (Some q2) \<and> cstr b q2 = ''a''"
proof -
  have p: "text_of demo_request (name demo_request) = Val ''b''" "text_of demo_request (location demo_request) = Val ''b''"
    "option_text demo_request ''request'' = Val ''a''" by code_simp+
  have fits: "dup_size (reply_text ''smb_delete'' ''b'' ''b'' (- 22) ''a'') \<le> 4096" by code_simp
  have "dec_of_int (- 22) = ''-22''" by code_simp
  with reply_parses_back [OF p _ _ _ _ _ _ fits, of zero_desc demo_registry] show ?thesis
    by (auto simp: plain_word_def)
qed


section \<open>Commands that go wrong\<close>

definition bind_commands :: "string list" where
  "bind_commands = [''bind_create'', ''dst_create'', ''dst_delete'', ''dst_find'', ''src_create'', ''src_delete'', ''src_find'',
     ''dsts_create'', ''dsts_delete'', ''dsts_find'', ''srcs_create'', ''srcs_delete'', ''srcs_find'']"

lemma each_unparsed:
  assumes "vfi_parse_desc (kmem E) (garbage E) (Some desc) (regs E) = Val (ret, p, g)" and "ret \<noteq> 0"
  shows "list_all (\<lambda>(nm, h). nm \<in> set bind_commands \<or> h E desc = Undef) ops_table"
proof -
  have u: "with_desc E desc f = Undef" for f using assms by (simp add: with_desc_def)
  show ?thesis
    by (simp add: ops_table_def bind_commands_def u event_start_def event_find_def event_chain_def event_operation_def
      location_create_def location_delete_def location_find_def location_put_def smb_create_def smb_delete_def smb_find_def
      smb_put_def smb_lose_def mmap_create_def mmap_delete_def mmap_find_def mmap_put_def mmap_twice_def
      sync_create_def sync_delete_def sync_find_def sync_put_def sync_send_def sync_wait_def
      xfer_create_def xfer_delete_def xfer_find_def xfer_put_def xfer_lose_def bind_delete_def bind_find_def bind_lose_def)
qed

text \<open>A command whose descriptor does not parse, be it too long or with an extent that is not a number,
  makes each handler of a single descriptor print its parameters from memory that was released or never
  written.\<close>

theorem unparsed_command_is_undefined:
  assumes "(nm, h) \<in> set ops_table" and "nm \<notin> set bind_commands"
    and "vfi_parse_desc (kmem E) (garbage E) (Some desc) (regs E) = Val (ret, p, g)" and "ret \<noteq> 0"
  shows "h E desc = Undef"
  using each_unparsed [OF assms(3,4)] assms(1,2) by (auto simp: list_all_iff)

theorem unparsed_command_is_undefined_witness:
  "smb_create demo_env ''b.n:zz'' = Undef"
proof -
  have "(case vfi_parse_desc True zero_desc (Some ''b.n:zz'') demo_registry of Val (ret, _, _) \<Rightarrow> ret \<noteq> 0 | Undef \<Rightarrow> False)"
    by code_simp
  then obtain ret p g where "vfi_parse_desc (kmem demo_env) (garbage demo_env) (Some ''b.n:zz'') (regs demo_env) = Val (ret, p, g)"
    "ret \<noteq> 0"
    by (cases "vfi_parse_desc True zero_desc (Some ''b.n:zz'') demo_registry") (auto simp: demo_env_def)
  moreover have "(''smb_create'', smb_create) \<in> set ops_table" by (simp add: ops_table_def)
  ultimately show ?thesis using unparsed_command_is_undefined [of "''smb_create''" smb_create demo_env "''b.n:zz''"]
    by (simp add: bind_commands_def)
qed

lemma no_find_entries: "table_for t ''srcs_find'' = None" "table_for t ''dsts_find'' = None"
  by (auto simp: table_for_def has_op_def vfi_local_ops_entries_def vfi_fabric_ops_entries_def split: option.splits ops_tab.splits)

lemma bcan_no_find: "bcan E part h ''srcs_find'' s = None" "bcan E part h ''dsts_find'' s = None"
  by (simp_all add: bcan_def no_find_entries split: option.split)

text \<open>The two searches for collections, which the dispatcher offers, can never succeed: no table of
  operations has an entry for them, so the reply is always a failure.\<close>

theorem collections_are_never_found:
  assumes "h \<in> {srcs_find, dsts_find}" and "h E desc = Val out"
  shows "o_ret out \<noteq> 0"
proof -
  have fin: "o_ret out = ret" if "bfinish g ret r s = Val out" for g ret r s
    using that by (auto simp: bfinish_def cres_bind_eq_Val)
  from assms show ?thesis
    by (auto simp: srcs_find_def dsts_find_def with_bind_def on_bind_def try_bop_def bcan_no_find Let_def split_beta
        cres_bind_eq_Val dest!: fin split: if_splits)
qed

theorem collections_are_never_found_witness:
  "\<exists>out. srcs_find demo_env ''x.n/d.m=s.k'' = Val out \<and> o_ret out \<noteq> 0"
proof -
  have "(case srcs_find demo_env ''x.n/d.m=s.k'' of Val _ \<Rightarrow> True | Undef \<Rightarrow> False)" by code_simp
  then obtain out where "srcs_find demo_env ''x.n/d.m=s.k'' = Val out" by (cases "srcs_find demo_env ''x.n/d.m=s.k''") auto
  with collections_are_never_found [of srcs_find demo_env "''x.n/d.m=s.k''" out] show ?thesis by simp
qed

text \<open>\<open>src_find\<close> overwrites the result of its search: whenever the destination is found, with an
  operation to ask, the reply says 0, whatever the operation has answered.\<close>

theorem src_find_hides_the_answer:
  assumes parse: "vfi_parse_bind (kmem4 E) (Some desc) (regs E) = Val (0, p, g)"
    and found: "answer E [] (Find_dst p) = (0, Some a)"
    and table: "ops (dst (bind_at E [(Find_dst p, 0, Some a)] a)) = Some t"
    and out: "src_find E desc = Val out"
  shows "o_ret out = 0 \<and> (\<exists>e obj. o_calls out = [(Find_dst p, 0, Some a),
      (Bop t ''src_find'' a (btouch E [] (Find_dst p) p), e, obj), (Put K_dst (Some a), 0, None)]
    \<and> answer E [(Find_dst p, 0, Some a)] (Bop t ''src_find'' a (btouch E [] (Find_dst p) p)) = (e, obj))"
proof -
  have "table_for (Some t) ''src_find'' = Some t"
    by (cases t) (simp_all add: table_for_def has_op_def vfi_local_ops_entries_def vfi_fabric_ops_entries_def)
  with assms show ?thesis
    by (auto simp: src_find_def with_bind_def bask_def put_def bcan_def Let_def split_beta bfinish_def cres_bind_eq_Val)
qed

theorem src_find_hides_the_answer_witness:
  "\<exists>out. src_find (demo_env\<lparr>answer := (\<lambda>tr c. if is_lookup c then (0, Some 7) else (- EINVAL, None))\<rparr>) ''x.n/d.m=s.k'' = Val out
     \<and> o_ret out = 0"
proof -
  let ?E = "demo_env\<lparr>answer := (\<lambda>tr c. if is_lookup c then (0, Some 7) else (- EINVAL, None))\<rparr>"
  have "(case src_find ?E ''x.n/d.m=s.k'' of Val _ \<Rightarrow> True | Undef \<Rightarrow> False)" by code_simp
  then obtain out where out: "src_find ?E ''x.n/d.m=s.k'' = Val out" by (cases "src_find ?E ''x.n/d.m=s.k''") auto
  have "(case vfi_parse_bind (True, True, True, True) (Some ''x.n/d.m=s.k'') demo_registry of Val (ret, _) \<Rightarrow> ret = 0 | Undef \<Rightarrow> False)"
    by code_simp
  then obtain p g where "vfi_parse_bind (kmem4 ?E) (Some ''x.n/d.m=s.k'') (regs ?E) = Val (0, p, g)"
    by (cases "vfi_parse_bind (True, True, True, True) (Some ''x.n/d.m=s.k'') demo_registry") (auto simp: demo_env_def)
  from src_find_hides_the_answer [OF this, of 7 Vfi_local_ops out] out show ?thesis
    by (simp add: demo_env_def Let_def)
qed

section \<open>The size a reply reports\<close>

lemma length_unknown_reply: "length cmd < length (unknown_reply cmd)"
  by (simp add: unknown_reply_def Let_def split_beta)



end
