(* ===== verification/Vfi_Rpc.thy ===== *)
theory Vfi_Rpc
  imports Vfi_Ops
begin

text \<open>
  Remote calls: \<open>vfi_fabric_tx\<close>, \<open>vfi_fabric_call\<close>, \<open>vfi_fabric_receive\<close> and the work that answers
  requests, from \<open>vfi_fabric.c\<close>. A call sends a command as text with \<open>request(tag)\<close> added to its
  options, where the tag is the address of a \<open>call_back_tag\<close>, and sleeps until a message with
  \<open>reply(tag)\<close> has come or the time is over. A node that receives a request hands it to the dispatcher
  of \<open>Vfi_Ops\<close> on a work queue and sends back the reply.

  Callers, the receive path and the work queues of a node run concurrently. Each function is cut where
  another can come between: a call into sending and returning, a received reply into the test of its tag
  and the delivery. The step relation \<open>rpc_step\<close> interleaves the parts in every order.
\<close>

section \<open>Tags in messages\<close>

text \<open>\<open>sscanf("%x")\<close>, and \<open>"%p"\<close>: eight digits.\<close>

definition is_space :: "char \<Rightarrow> bool" where
  "is_space c \<longleftrightarrow> c \<in> {CHR 0x20, CHR 0x09, CHR 0x0A, CHR 0x0B, CHR 0x0C, CHR 0x0D}"

definition scan_x :: "string \<Rightarrow> u32 option" where
  "scan_x s =
     (case dropWhile is_space s of
        [] \<Rightarrow> None
      | c # cs \<Rightarrow> if hex_digit_val c = None then None else Some (fst (simple_strtoul16 (c # cs))))"

definition ptr_text :: "u32 \<Rightarrow> string" where
  "ptr_text a = (let h = hex_of_nat (unat a) in replicate (8 - length h) CHR ''0'' @ h)"

text \<open>
  The tag that a reply names: \<open>strstr(msg,"reply(")\<close>, then \<open>sscanf\<close>. Without a number, or with 0, no tag
  is looked at.
\<close>

definition reply_tag :: "string \<Rightarrow> u32 option" where
  "reply_tag m =
     (case strstr m ''reply('' of
        None \<Rightarrow> None
      | Some k \<Rightarrow> (case scan_x (drop (k + 6) m) of None \<Rightarrow> None | Some a \<Rightarrow> if a = 0 then None else Some a))"

definition request_message :: "string \<Rightarrow> u32 \<Rightarrow> string" where
  "request_message f a =
     f @ [if strstr f ''?'' = None then CHR ''?'' else CHR '',''] @ ''request('' @ ptr_text a @ '')''"

section \<open>State\<close>

text \<open>
  A socket buffer is a number with the text it carries; a tag is at its address. \<open>check\<close> holds the
  tag's own address until a reply has been accepted.
\<close>

record call_back_tag =
  rqst_skb :: "nat option"
  rply_skb :: "nat option"
  check :: u32
  sender :: "nat option"
  woq :: bool

datatype rpc_work = Sched_rqst u32 | Do_rqst u32 | Dispose u32

text \<open>
  \<open>waiting\<close> are the tags of the calls that sleep, \<open>rx\<close> the received replies between test and delivery,
  \<open>works\<close> the queued work items, \<open>wire\<close> what was handed to the network.
\<close>

record rpc =
  tags :: "u32 \<Rightarrow> call_back_tag option"
  skbs :: "nat \<Rightarrow> string option"
  fresh_skb :: nat
  regn :: registry
  wire :: "(nat \<times> string) list"
  works :: "rpc_work list"
  waiting :: "u32 list"
  rx :: "(u32 \<times> nat) list"

definition set_tag :: "u32 \<Rightarrow> call_back_tag option \<Rightarrow> rpc \<Rightarrow> rpc" where
  "set_tag a t n = n\<lparr>tags := (tags n)(a := t)\<rparr>"

definition new_skb :: "string \<Rightarrow> rpc \<Rightarrow> nat \<times> rpc" where
  "new_skb m n = (fresh_skb n, n\<lparr>skbs := (skbs n)(fresh_skb n \<mapsto> m), fresh_skb := Suc (fresh_skb n)\<rparr>)"

definition free_skb :: "nat \<Rightarrow> rpc \<Rightarrow> rpc cres" where
  "free_skb i n = (if skbs n i = None then Undef else Val (n\<lparr>skbs := (skbs n)(i := None)\<rparr>))"

text \<open>What \<open>dev_alloc_skb(2048)\<close> leaves behind the 128 bytes that are reserved.\<close>

abbreviation skb_room :: nat where "skb_room \<equiv> 1920"

definition blank_tag :: call_back_tag where
  "blank_tag = \<lparr>rqst_skb = None, rply_skb = None, check = 0, sender = None, woq = False\<rparr>"

section \<open>Sending\<close>

text \<open>
  The \<open>transmit\<close> function of a back end, given the address, the buffer and the state. A buffer it
  refuses is freed by the caller. Every back end that has a table of operations has \<open>get\<close> in it.
\<close>

type_synonym transmit = "nat \<Rightarrow> nat \<Rightarrow> rpc \<Rightarrow> (errno \<times> rpc) cres"

definition vfi_fabric_tx :: "transmit \<Rightarrow> nat option \<Rightarrow> nat \<Rightarrow> rpc \<Rightarrow> (errno \<times> rpc) cres" where
  "vfi_fabric_tx xmit addr i n =
     (case addr of
        None \<Rightarrow> cres_bind (free_skb i n) (\<lambda>n. Val (- ENODEV, n))
      | Some a \<Rightarrow>
          if fa_has_get (fabs (regn n) a) then
            cres_bind (xmit a i (n\<lparr>regn := fab_ref a 1 (regn n)\<rparr>)) (\<lambda>(ret, n).
              if ret \<noteq> 0 then cres_bind (free_skb i n) (\<lambda>n. Val (ret, n)) else Val (0, n))
          else cres_bind (free_skb i n) (\<lambda>n. Val (- ENODEV, n)))"

text \<open>
  The first part of \<open>vfi_fabric_call\<close>: \<open>ka\<close> and \<open>ks\<close> answer the allocations of the tag and the buffer,
  \<open>loc\<close> is the location: null, or the address it has after \<open>vfi_address_register\<close>. The result is the
  value returned, or \<open>None\<close> when the caller goes to sleep. A command longer than the buffer is printed
  past its end; a tag whose buffer cannot be allocated is not freed.
\<close>

definition fabric_call_send ::
  "transmit \<Rightarrow> u32 option \<Rightarrow> bool \<Rightarrow> nat option option \<Rightarrow> string \<Rightarrow> rpc \<Rightarrow> (errno option \<times> rpc) cres" where
  "fabric_call_send xmit ka ks loc f n =
     (case ka of
        None \<Rightarrow> Val (Some (- ENOMEM), n)
      | Some a \<Rightarrow>
          if \<not> ks then Val (Some (- ENOMEM), set_tag a (Some blank_tag) n)
          else let m = request_message f a; n1 = set_tag a (Some (blank_tag\<lparr>check := a\<rparr>)) n
            in if skb_room \<le> length m then Undef
               else case loc of
                 None \<Rightarrow> Undef
               | Some addr \<Rightarrow>
                   (let (i, n2) = new_skb m n1
                    in cres_bind (vfi_fabric_tx xmit addr i n2) (\<lambda>(ret, n3).
                         if ret \<noteq> 0 then Val (Some ret, set_tag a None n3)
                         else Val (None, n3\<lparr>waiting := a # waiting n3\<rparr>))))"

text \<open>The seconds a caller sleeps at most: twenty times as long unless the command is a search.\<close>

definition call_seconds :: "string \<Rightarrow> nat \<Rightarrow> nat" where
  "call_seconds f to = (if strstr f ''_find:'' = None then to * 20 else to)"

text \<open>The second part: the caller has been woken, or its time is over.\<close>

definition fabric_call_return :: "u32 \<Rightarrow> rpc \<Rightarrow> (errno \<times> nat option \<times> rpc) cres" where
  "fabric_call_return a n =
     (case tags n a of
        None \<Rightarrow> Undef
      | Some cb \<Rightarrow>
          (let n' = (set_tag a None n)\<lparr>waiting := remove1 a (waiting n)\<rparr>
           in Val (case rply_skb cb of Some i \<Rightarrow> (0, Some i, n') | None \<Rightarrow> (- EIO, None, n'))))"

section \<open>Receiving\<close>

abbreviation NET_RX_DROP :: errno where "NET_RX_DROP \<equiv> 1"

definition receive_drop :: "nat \<Rightarrow> nat \<Rightarrow> rpc \<Rightarrow> (errno option \<times> rpc) cres" where
  "receive_drop who i n =
     cres_bind (free_skb i (n\<lparr>regn := fab_ref who (- 1) (regn n)\<rparr>)) (\<lambda>n. Val (Some NET_RX_DROP, n))"

text \<open>
  The first part of \<open>vfi_fabric_receive\<close>: the result is the return value, or \<open>None\<close> for a reply whose
  tag has passed the test. The test reads the memory that the message names; when there is no tag at
  that address, the read is undefined. \<open>ka\<close> answers the allocation of the tag of a request, which is
  not checked.
\<close>

definition receive_check :: "u32 option \<Rightarrow> nat \<Rightarrow> nat \<Rightarrow> rpc \<Rightarrow> (errno option \<times> rpc) cres" where
  "receive_check ka who i n =
     (case skbs n i of
        None \<Rightarrow> Undef
      | Some m \<Rightarrow>
          if strstr m ''reply('' \<noteq> None then
            (case reply_tag m of
               None \<Rightarrow> receive_drop who i n
             | Some a \<Rightarrow>
                (case tags n a of
                   None \<Rightarrow> Undef
                 | Some cb \<Rightarrow>
                    if check cb = a then Val (None, (set_tag a (Some (cb\<lparr>check := 0\<rparr>)) n)\<lparr>rx := (a, i) # rx n\<rparr>)
                    else receive_drop who i n))
          else if strstr m ''request('' \<noteq> None then
            (case ka of
               None \<Rightarrow> Undef
             | Some a \<Rightarrow>
                (let (got, g) = vfi_fabric_get (Some who) (regn n); n1 = n\<lparr>regn := g\<rparr>
                 in case got of
                      None \<Rightarrow> receive_drop who i n1
                    | Some s \<Rightarrow> Val (Some 0,
                        (set_tag a (Some (blank_tag\<lparr>rqst_skb := Some i, check := a, sender := Some s\<rparr>)) n1)
                          \<lparr>works := Sched_rqst a # works n\<rparr>)))
          else receive_drop who i n)"

text \<open>The second part stores the reply in the tag and wakes the caller.\<close>

definition receive_deliver :: "u32 \<Rightarrow> nat \<Rightarrow> rpc \<Rightarrow> rpc cres" where
  "receive_deliver a i n =
     (case tags n a of
        None \<Rightarrow> Undef
      | Some cb \<Rightarrow> Val ((set_tag a (Some (cb\<lparr>rply_skb := Some i\<rparr>)) n)\<lparr>rx := remove1 (a, i) (rx n)\<rparr>))"

definition vfi_fabric_receive :: "u32 option \<Rightarrow> nat \<Rightarrow> nat \<Rightarrow> rpc \<Rightarrow> (errno \<times> rpc) cres" where
  "vfi_fabric_receive ka who i n =
     cres_bind (receive_check ka who i n) (\<lambda>(ret, n).
       case ret of
         Some r \<Rightarrow> Val (r, n)
       | None \<Rightarrow> (case rx n of [] \<Rightarrow> Undef | (a, j) # _ \<Rightarrow> cres_bind (receive_deliver a j n) (\<lambda>n. Val (0, n))))"

section \<open>Answering a request\<close>

definition fabric_sched_rqst :: "u32 \<Rightarrow> rpc \<Rightarrow> rpc cres" where
  "fabric_sched_rqst a n =
     (case tags n a of
        None \<Rightarrow> Undef
      | Some cb \<Rightarrow> Val ((set_tag a (Some (cb\<lparr>woq := True\<rparr>)) n)\<lparr>works := Do_rqst a # remove1 (Sched_rqst a) (works n)\<rparr>))"

text \<open>
  What the dispatcher makes of a request: the text of the reply if the command has succeeded, else
  nothing. The reply must fit into its buffer together with its \<open>NUL\<close>.
\<close>

definition answer_request :: "env \<Rightarrow> string \<Rightarrow> string option cres" where
  "answer_request E m =
     cres_bind (do_operation E m 1928) (\<lambda>(ret, text, size, _).
       if skb_room \<le> size then Undef else Val (if ret = 0 then Some text else None))"

definition fabric_do_rqst :: "env \<Rightarrow> transmit \<Rightarrow> bool \<Rightarrow> u32 \<Rightarrow> rpc \<Rightarrow> rpc cres" where
  "fabric_do_rqst E xmit ks a n =
     (case tags n a of
        None \<Rightarrow> Undef
      | Some cb \<Rightarrow>
         (case rqst_skb cb of
            None \<Rightarrow> Undef
          | Some i \<Rightarrow>
             (case skbs n i of
                None \<Rightarrow> Undef
              | Some m \<Rightarrow>
                 if \<not> ks then Undef
                 else cres_bind (answer_request E m) (\<lambda>ans.
                   let (j, n1) = new_skb (case ans of None \<Rightarrow> [] | Some r \<Rightarrow> r) n;
                       n2 = set_tag a (Some (cb\<lparr>rply_skb := Some j\<rparr>)) n1
                   in cres_bind (free_skb i n2) (\<lambda>n3.
                      cres_bind (case ans of
                          Some _ \<Rightarrow> cres_bind (vfi_fabric_tx xmit (sender cb) j n3) (\<lambda>(_, n). Val n)
                        | None \<Rightarrow> free_skb j n3) (\<lambda>n4.
                      Val (n4\<lparr>regn := vfi_fabric_put (sender cb) (regn n4),
                              works := Dispose a # remove1 (Do_rqst a) (works n4)\<rparr>)))))))"

definition fabric_disposeq :: "u32 \<Rightarrow> rpc \<Rightarrow> rpc cres" where
  "fabric_disposeq a n =
     (case tags n a of
        None \<Rightarrow> Undef
      | Some cb \<Rightarrow>
          if woq cb then Val ((set_tag a None n)\<lparr>works := remove1 (Dispose a) (works n)\<rparr>) else Undef)"

section \<open>Interleavings\<close>

text \<open>
  One step of a node: a call is sent, a sleeping call returns (woken or not), a message arrives, an
  accepted reply is delivered, a work item runs, or other code changes the registry. \<open>kzalloc\<close> returns memory that is not in use.
\<close>

definition fresh_tag :: "u32 option \<Rightarrow> rpc \<Rightarrow> bool" where
  "fresh_tag ka n = (case ka of None \<Rightarrow> True | Some a \<Rightarrow> a \<noteq> 0 \<and> tags n a = None)"

inductive rpc_step :: "transmit set \<Rightarrow> rpc \<Rightarrow> rpc \<Rightarrow> bool" for X where
  Send: "rpc_step X n n'"
    if "xmit \<in> X" "fresh_tag ka n" "fabric_call_send xmit ka ks loc f n = Val (r, n')"
| Return: "rpc_step X n n'"
    if "a \<in> set (waiting n)" "fabric_call_return a n = Val (ret, r, n')"
| Arrive: "rpc_step X n n'"
    if "fresh_tag ka n" "new_skb m n = (i, n1)" "receive_check ka who i n1 = Val (r, n')"
| Deliver: "rpc_step X n n'"
    if "(a, i) \<in> set (rx n)" "receive_deliver a i n = Val n'"
| Sched: "rpc_step X n n'"
    if "Sched_rqst a \<in> set (works n)" "fabric_sched_rqst a n = Val n'"
| Answer: "rpc_step X n n'"
    if "xmit \<in> X" "Do_rqst a \<in> set (works n)" "fabric_do_rqst E xmit ks a n = Val n'"
| Forget: "rpc_step X n n'"
    if "Dispose a \<in> set (works n)" "fabric_disposeq a n = Val n'"
| Registry: "rpc_step X n (n\<lparr>regn := g\<rparr>)"

inductive rpc_run :: "transmit set \<Rightarrow> rpc \<Rightarrow> rpc \<Rightarrow> bool" for X n0 where
  start: "rpc_run X n0 n0"
| step: "rpc_run X n0 n \<Longrightarrow> rpc_step X n n' \<Longrightarrow> rpc_run X n0 n'"

definition idle :: "rpc \<Rightarrow> bool" where
  "idle n \<longleftrightarrow> waiting n = [] \<and> rx n = [] \<and> works n = [] \<and> (\<forall>i \<ge> fresh_skb n. skbs n i = None)"

section \<open>Who holds which buffer\<close>

datatype holder = In_rx u32 | At_call u32 | At_rqst u32

definition work_tag :: "rpc_work \<Rightarrow> u32" where
  "work_tag w = (case w of Sched_rqst a \<Rightarrow> a | Do_rqst a \<Rightarrow> a | Dispose a \<Rightarrow> a)"

lemma work_tag_simps [simp]: "work_tag (Sched_rqst a) = a" "work_tag (Do_rqst a) = a" "work_tag (Dispose a) = a"
  by (simp_all add: work_tag_def)

fun holds :: "rpc \<Rightarrow> holder \<Rightarrow> nat \<Rightarrow> bool" where
  "holds n (In_rx a) i \<longleftrightarrow> (a, i) \<in> set (rx n)"
| "holds n (At_call a) i \<longleftrightarrow> a \<in> set (waiting n) \<and> (\<exists>cb. tags n a = Some cb \<and> rply_skb cb = Some i)"
| "holds n (At_rqst a) i \<longleftrightarrow> (Sched_rqst a \<in> set (works n) \<or> Do_rqst a \<in> set (works n))
      \<and> (\<exists>cb. tags n a = Some cb \<and> rqst_skb cb = Some i)"

definition names_tag :: "rpc \<Rightarrow> u32 \<Rightarrow> nat \<Rightarrow> bool" where
  "names_tag n a i \<longleftrightarrow> (\<exists>m. skbs n i = Some m \<and> reply_tag m = Some a)"

text \<open>
  The invariant: sleeping calls and work items have tags of their own, every buffer has one holder at
  most and is alive, and a reply is held only for the tag that it names.
\<close>

definition rpc_ok :: "rpc \<Rightarrow> bool" where
  "rpc_ok n \<longleftrightarrow>
     distinct (waiting n @ map work_tag (works n)) \<and> distinct (rx n)
     \<and> (\<forall>a \<in> set (waiting n). tags n a \<noteq> None)
     \<and> (\<forall>w \<in> set (works n). \<exists>cb. tags n (work_tag w) = Some cb \<and> rqst_skb cb \<noteq> None)
     \<and> (\<forall>i \<ge> fresh_skb n. skbs n i = None)
     \<and> (\<forall>h1 h2 i. holds n h1 i \<longrightarrow> holds n h2 i \<longrightarrow> h1 = h2)
     \<and> (\<forall>h i. holds n h i \<longrightarrow> skbs n i \<noteq> None)
     \<and> (\<forall>a h i. h \<in> {In_rx a, At_call a} \<longrightarrow> holds n h i \<longrightarrow> names_tag n a i)"

lemma rpc_okI:
  assumes "distinct (waiting n @ map work_tag (works n))" "distinct (rx n)"
    "\<And>a. a \<in> set (waiting n) \<Longrightarrow> tags n a \<noteq> None"
    "\<And>w. w \<in> set (works n) \<Longrightarrow> \<exists>cb. tags n (work_tag w) = Some cb \<and> rqst_skb cb \<noteq> None"
    "\<And>i. fresh_skb n \<le> i \<Longrightarrow> skbs n i = None"
    "\<And>h1 h2 i. holds n h1 i \<Longrightarrow> holds n h2 i \<Longrightarrow> h1 = h2"
    "\<And>h i. holds n h i \<Longrightarrow> skbs n i \<noteq> None"
    "\<And>a h i. h \<in> {In_rx a, At_call a} \<Longrightarrow> holds n h i \<Longrightarrow> names_tag n a i"
  shows "rpc_ok n"
  unfolding rpc_ok_def using assms by blast

lemma rpc_ok_facts:
  assumes "rpc_ok n"
  shows ok_distinct: "distinct (waiting n)" "distinct (map work_tag (works n))" "distinct (works n)" "distinct (rx n)"
      "\<And>w. w \<in> set (works n) \<Longrightarrow> work_tag w \<notin> set (waiting n)"
    and ok_tags: "\<And>a. a \<in> set (waiting n) \<Longrightarrow> tags n a \<noteq> None"
      "\<And>w. w \<in> set (works n) \<Longrightarrow> \<exists>cb. tags n (work_tag w) = Some cb \<and> rqst_skb cb \<noteq> None"
      "\<And>w cb. w \<in> set (works n) \<Longrightarrow> tags n (work_tag w) = Some cb \<Longrightarrow> rqst_skb cb \<noteq> None"
    and ok_fresh: "\<And>i. fresh_skb n \<le> i \<Longrightarrow> skbs n i = None"
    and held_once: "\<And>h1 h2 i. holds n h1 i \<Longrightarrow> holds n h2 i \<Longrightarrow> h1 = h2"
    and held_alive: "\<And>h i. holds n h i \<Longrightarrow> skbs n i \<noteq> None"
    and held_named: "\<And>a h i. h \<in> {In_rx a, At_call a} \<Longrightarrow> holds n h i \<Longrightarrow> names_tag n a i"
      "\<And>a i. holds n (In_rx a) i \<Longrightarrow> names_tag n a i" "\<And>a i. holds n (At_call a) i \<Longrightarrow> names_tag n a i"
proof -
  note ok = assms [unfolded rpc_ok_def]
  from ok have d: "distinct (waiting n @ map work_tag (works n))" by blast
  then show "distinct (waiting n)" "distinct (map work_tag (works n))" by simp_all
  then show "distinct (works n)" by (simp add: distinct_map)
  show "distinct (rx n)" using ok by blast
  show "work_tag w \<notin> set (waiting n)" if "w \<in> set (works n)" for w using d that by auto
  show "tags n a \<noteq> None" if "a \<in> set (waiting n)" for a using ok that by blast
  show r: "\<exists>cb. tags n (work_tag w) = Some cb \<and> rqst_skb cb \<noteq> None" if "w \<in> set (works n)" for w using ok that by blast
  show "rqst_skb cb \<noteq> None" if "w \<in> set (works n)" "tags n (work_tag w) = Some cb" for w cb using r [OF that(1)] that(2) by simp
  show "skbs n i = None" if "fresh_skb n \<le> i" for i using ok that by blast
  show "h1 = h2" if "holds n h1 i" "holds n h2 i" for h1 h2 i using ok that by blast
  show "skbs n i \<noteq> None" if "holds n h i" for h i using ok that by blast
  show "names_tag n a i" if "h \<in> {In_rx a, At_call a}" "holds n h i" for a h i using ok that by blast
  then show "names_tag n a i" if "holds n (In_rx a) i" for a i using that by blast
  show "names_tag n a i" if "holds n (At_call a) i" for a i using ok that by blast
qed

subsection \<open>Changes that keep the invariant\<close>

text \<open>Holders may disappear, and buffers that are not held may change.\<close>

lemma ok_transfer:
  assumes "rpc_ok n"
    "distinct (waiting n' @ map work_tag (works n'))" "distinct (rx n')"
    "\<And>a. a \<in> set (waiting n') \<Longrightarrow> tags n' a \<noteq> None"
    "\<And>w. w \<in> set (works n') \<Longrightarrow> \<exists>cb. tags n' (work_tag w) = Some cb \<and> rqst_skb cb \<noteq> None"
    "\<And>i. fresh_skb n' \<le> i \<Longrightarrow> skbs n' i = None"
    and held: "\<And>h i. holds n' h i \<Longrightarrow> holds n h i" and same: "\<And>h i. holds n' h i \<Longrightarrow> skbs n' i = skbs n i"
  shows "rpc_ok n'"
proof (rule rpc_okI)
  show "h1 = h2" if "holds n' h1 i" "holds n' h2 i" for h1 h2 i
    using held_once [OF assms(1)] held that by blast
  show "skbs n' i \<noteq> None" if "holds n' h i" for h i using held_alive [OF assms(1)] held same that by metis
  show "names_tag n' a i" if "h \<in> {In_rx a, At_call a}" "holds n' h i" for a h i
    using held_named(1) [OF assms(1) that(1) held [OF that(2)]] same [OF that(2)] by (simp add: names_tag_def)
qed (use assms in auto)

lemma holds_regn [simp]: "holds (n\<lparr>regn := g\<rparr>) h i = holds n h i"
  by (cases h) auto

lemma rpc_ok_regn [simp]: "rpc_ok (n\<lparr>regn := g\<rparr>) = rpc_ok n"
  by (simp add: rpc_ok_def names_tag_def del: holds.simps)

lemma fresh_unheld: "rpc_ok n \<Longrightarrow> fresh_skb n \<le> i \<Longrightarrow> \<not> holds n h i"
  using ok_fresh held_alive by blast

lemma ok_unheld_skb:
  assumes ok: "rpc_ok n" and i: "\<And>h. \<not> holds n h i" "i < fresh_skb n"
  shows "rpc_ok (n\<lparr>skbs := (skbs n)(i := v)\<rparr>)" (is "rpc_ok ?n")
proof -
  have h: "holds ?n h j = holds n h j" for h j by (cases h) auto
  then have "holds ?n h j \<Longrightarrow> j \<noteq> i" for h j using i(1) by metis
  then show ?thesis using ok_distinct [OF ok] ok_tags [OF ok] ok_fresh [OF ok] i(2) h
    by (intro ok_transfer [OF ok]) auto
qed

lemma ok_new_skb:
  assumes ok: "rpc_ok n" and new: "new_skb m n = (i, n1)"
  shows "rpc_ok n1" "\<And>h. \<not> holds n1 h i" "i < fresh_skb n1" "skbs n1 i = Some m"
    "tags n1 = tags n" "waiting n1 = waiting n" "works n1 = works n" "rx n1 = rx n" "regn n1 = regn n"
proof -
  have i: "i = fresh_skb n" "n1 = n\<lparr>skbs := (skbs n)(i \<mapsto> m), fresh_skb := Suc i\<rparr>" using new by (auto simp: new_skb_def)
  have h: "holds n1 h j = holds n h j" for h j using i by (cases h) auto
  show u: "\<not> holds n1 h i" for h using fresh_unheld [OF ok, of i h] h i(1) by simp
  then have "holds n1 h j \<Longrightarrow> j \<noteq> i" for h j by metis
  then show "rpc_ok n1" using ok_distinct [OF ok] ok_tags [OF ok] ok_fresh [OF ok] i h
    by (intro ok_transfer [OF ok]) auto
qed (use new in \<open>auto simp: new_skb_def\<close>)

lemma ok_free_tag:
  assumes ok: "rpc_ok n" and a: "a \<notin> set (waiting n)" "a \<notin> work_tag ` set (works n)"
  shows "rpc_ok (set_tag a t n)"
proof -
  have "holds (set_tag a t n) h j = holds n h j" for h j using a by (cases h) (force simp: set_tag_def)+
  then show ?thesis using ok_distinct [OF ok] ok_tags [OF ok] ok_fresh [OF ok] a
    by (intro ok_transfer [OF ok]) (auto simp: set_tag_def split: if_splits)
qed

lemma ok_touch_tag:
  assumes ok: "rpc_ok n" and cb: "tags n a = Some cb" "rqst_skb cb' = rqst_skb cb" "rply_skb cb' = rply_skb cb"
  shows "rpc_ok (set_tag a (Some cb') n)"
proof -
  have "holds (set_tag a (Some cb') n) h j = holds n h j" for h j using cb by (cases h) (auto simp: set_tag_def)
  then show ?thesis using ok_distinct [OF ok] ok_tags [OF ok] ok_fresh [OF ok] cb
    by (intro ok_transfer [OF ok]) (auto simp: set_tag_def split: if_splits)
qed

lemma ok_sleep:
  assumes ok: "rpc_ok n" and a: "tags n a = Some cb" "rply_skb cb = None" "a \<notin> set (waiting n)" "a \<notin> work_tag ` set (works n)"
  shows "rpc_ok (n\<lparr>waiting := a # waiting n\<rparr>)"
proof -
  have "holds (n\<lparr>waiting := a # waiting n\<rparr>) h j = holds n h j" for h j using a by (cases h) auto
  then show ?thesis using ok_distinct [OF ok] ok_tags [OF ok] ok_fresh [OF ok] a
    by (intro ok_transfer [OF ok]) auto
qed

lemma ok_return:
  assumes ok: "rpc_ok n" and a: "a \<in> set (waiting n)"
  shows "rpc_ok ((set_tag a None n)\<lparr>waiting := remove1 a (waiting n)\<rparr>)" (is "rpc_ok ?n")
proof -
  note d = ok_distinct [OF ok]
  have "holds ?n h j \<Longrightarrow> holds n h j" for h j using d by (cases h) (auto simp: set_tag_def split: if_splits)
  then show ?thesis using d ok_tags [OF ok] ok_fresh [OF ok] a
    by (intro ok_transfer [OF ok]) (auto simp: set_tag_def split: if_splits)
qed

lemma ok_dispose:
  assumes ok: "rpc_ok n" and a: "Dispose a \<in> set (works n)"
  shows "rpc_ok ((set_tag a None n)\<lparr>works := remove1 (Dispose a) (works n)\<rparr>)" (is "rpc_ok ?n")
proof -
  note d = ok_distinct [OF ok]
  have "holds ?n h j \<Longrightarrow> holds n h j" for h j using d by (cases h) (auto simp: set_tag_def split: if_splits)
  moreover have "a \<notin> work_tag ` set (remove1 (Dispose a) (works n))"
    using d(2,3) a by (auto simp: distinct_map inj_on_def)
  moreover have "a \<notin> set (waiting n)" using d(5) [OF a] by simp
  moreover have "distinct (map work_tag (remove1 (Dispose a) (works n)))"
    using d(2,3) by (simp add: distinct_map inj_on_diff)
  ultimately show ?thesis using d ok_tags [OF ok] ok_fresh [OF ok]
    by (intro ok_transfer [OF ok]) (auto simp: set_tag_def split: if_splits)
qed

lemma ok_work:
  assumes ok: "rpc_ok n" and w: "w \<in> set (works n)" and w': "w' = Do_rqst a \<and> w = Sched_rqst a \<or> w' = Dispose a \<and> w = Do_rqst a"
  shows "rpc_ok (n\<lparr>works := w' # remove1 w (works n)\<rparr>)" (is "rpc_ok ?n")
proof -
  note d = ok_distinct [OF ok]
  have same: "work_tag w' = work_tag w" using w' by auto
  have nin: "work_tag w \<notin> work_tag ` set (remove1 w (works n))"
    using d(2,3) w by (auto simp: distinct_map inj_on_def)
  have dd: "distinct (map work_tag (remove1 w (works n)))"
    using d(2,3) by (simp add: distinct_map inj_on_diff)
  have sub: "work_tag ` set (works ?n) \<subseteq> work_tag ` set (works n)"
    using w same d(3) by auto
  have "holds ?n h j \<Longrightarrow> holds n h j" for h j using w w' d(3) by (cases h) auto
  then show ?thesis using d nin dd same sub ok_tags [OF ok] ok_fresh [OF ok]
    by (intro ok_transfer [OF ok]) auto
qed

text \<open>New holders: a received reply, a queued request, a delivered reply.\<close>

lemma ok_accept:
  assumes ok: "rpc_ok n" and i: "\<And>h. \<not> holds n h i" "names_tag n a i"
  shows "rpc_ok (n\<lparr>rx := (a, i) # rx n\<rparr>)" (is "rpc_ok ?n")
proof -
  have h: "holds ?n h j = (holds n h j \<or> (h, j) = (In_rx a, i))" for h j by (cases h) auto
  have n: "names_tag ?n b j = names_tag n b j" for b j by (simp add: names_tag_def)
  have "(a, i) \<notin> set (rx n)" using i(1) [of "In_rx a"] by simp
  moreover have "skbs n i \<noteq> None" using i(2) by (auto simp: names_tag_def)
  ultimately show ?thesis
    using ok_distinct [OF ok] ok_tags [OF ok] ok_fresh [OF ok] held_once [OF ok] held_alive [OF ok] held_named [OF ok] i
    by (intro rpc_okI; simp only: h n) (auto simp del: holds.simps)
qed

lemma ok_queue:
  assumes ok: "rpc_ok n" and i: "\<And>h. \<not> holds n h i" "skbs n i \<noteq> None"
    and a: "a \<notin> set (waiting n)" "a \<notin> work_tag ` set (works n)" and cb: "rqst_skb cb = Some i"
  shows "rpc_ok ((set_tag a (Some cb) n)\<lparr>works := Sched_rqst a # works n\<rparr>)" (is "rpc_ok ?n")
proof -
  have h: "holds ?n h j = (holds n h j \<or> (h, j) = (At_rqst a, i))" for h j
    using a cb by (cases h) (force simp: set_tag_def)+
  have n: "names_tag ?n b j = names_tag n b j" for b j by (simp add: names_tag_def set_tag_def)
  show ?thesis
    using ok_distinct [OF ok] ok_tags [OF ok] ok_fresh [OF ok] held_once [OF ok] held_alive [OF ok] held_named [OF ok] i a cb
    by (intro rpc_okI; simp only: h n) (auto simp: set_tag_def simp del: holds.simps split: if_splits)
qed

lemma ok_deliver:
  assumes ok: "rpc_ok n" and i: "(a, i) \<in> set (rx n)" and cb: "tags n a = Some cb"
  shows "rpc_ok ((set_tag a (Some (cb\<lparr>rply_skb := Some i\<rparr>)) n)\<lparr>rx := remove1 (a, i) (rx n)\<rparr>)" (is "rpc_ok ?n")
proof -
  note d = ok_distinct [OF ok]
  have h: "holds n h j \<and> \<not> (h = In_rx a \<and> j = i) \<or> h = At_call a \<and> j = i" if "holds ?n h j" for h j
    using that cb d by (cases h) (auto simp: set_tag_def split: if_splits)
  have held: "holds n (In_rx a) i" using i by simp
  note once = held_once [OF ok]
  show ?thesis
  proof (rule rpc_okI)
    show "h1 = h2" if "holds ?n h1 j" "holds ?n h2 j" for h1 h2 j
      using h [OF that(1)] h [OF that(2)] held once by blast
    show "skbs ?n j \<noteq> None" if "holds ?n h j" for h j
      using h [OF that] held held_alive [OF ok] by (auto simp: set_tag_def simp del: holds.simps)
    show "names_tag ?n b j" if "k \<in> {In_rx b, At_call b}" "holds ?n k j" for b k j
    proof -
      have "names_tag n b j"
        using h [OF that(2)] that(1) held held_named [OF ok] by (auto simp del: holds.simps)
      then show ?thesis by (simp add: names_tag_def set_tag_def)
    qed
  qed (use d ok_tags [OF ok] ok_fresh [OF ok] cb in \<open>auto simp: set_tag_def split: if_splits\<close>)
qed

section \<open>What the driver relies on in a back end\<close>

text \<open>
  A back end's \<open>transmit\<close> touches nothing of the calls; it may or may not have released the buffer. How
  it acts may depend on tables of its own, which change while calls are under way: \<open>X\<close> is the set of
  all its behaviours.
\<close>

definition same_calls :: "rpc \<Rightarrow> rpc \<Rightarrow> bool" where
  "same_calls n n' \<longleftrightarrow> tags n' = tags n \<and> waiting n' = waiting n \<and> rx n' = rx n \<and> works n' = works n \<and> fresh_skb n' = fresh_skb n"

locale transport =
  fixes X :: "transmit set"
  assumes only_the_buffer:
    "xmit \<in> X \<Longrightarrow> xmit a i n = Val (ret, n') \<Longrightarrow> same_calls n n' \<and> (\<exists>v. skbs n' = (skbs n)(i := v))"
begin

lemma tx_frame:
  assumes X: "xmit \<in> X" and tx: "vfi_fabric_tx xmit addr i n = Val (ret, n')"
  shows "same_calls n n' \<and> (\<exists>v. skbs n' = (skbs n)(i := v))"
proof -
  have free: "same_calls m m' \<and> (\<exists>v. skbs m' = (skbs m)(i := v))" if "free_skb i m = Val m'" for m m'
    using that by (auto simp: free_skb_def same_calls_def split: if_splits)
  have x: "same_calls n m \<and> (\<exists>v. skbs m = (skbs n)(i := v))" if "xmit a i (n\<lparr>regn := g\<rparr>) = Val (r, m)" for a g r m
    using only_the_buffer [OF X that] by (simp add: same_calls_def)
  show ?thesis
  proof (cases "\<exists>a. addr = Some a \<and> fa_has_get (fabs (regn n) a)")
    case False
    then have "\<exists>r. cres_bind (free_skb i n) (\<lambda>n. Val (r, n)) = Val (ret, n')"
      using tx by (auto simp: vfi_fabric_tx_def split: option.splits if_splits)
    then show ?thesis using free by (auto simp: cres_bind_eq_Val)
  next
    case True
    then obtain a r m where m: "xmit a i (n\<lparr>regn := fab_ref a 1 (regn n)\<rparr>) = Val (r, m)"
      and r: "(if r \<noteq> 0 then cres_bind (free_skb i m) (\<lambda>n. Val (r, n)) else Val (0, m)) = Val (ret, n')"
      using tx by (auto simp: vfi_fabric_tx_def cres_bind_eq_Val)
    from x [OF m] r free show ?thesis
      by (auto simp: cres_bind_eq_Val same_calls_def split: if_splits) (metis fun_upd_upd)
  qed
qed

lemma ok_tx:
  assumes ok: "rpc_ok n" and i: "\<And>h. \<not> holds n h i" "i < fresh_skb n" and X: "xmit \<in> X" and tx: "vfi_fabric_tx xmit addr i n = Val (ret, n')"
  shows "rpc_ok n'"
proof -
  from tx_frame [OF X tx] obtain v where v: "same_calls n n'" "skbs n' = (skbs n)(i := v)" by blast
  let ?m = "n\<lparr>skbs := (skbs n)(i := v)\<rparr>"
  have m: "rpc_ok ?m" by (rule ok_unheld_skb [OF ok i])
  have "holds n' h j = holds ?m h j" for h j using v(1) by (cases h) (auto simp: same_calls_def)
  then show ?thesis using ok_distinct [OF m] ok_tags [OF m] ok_fresh [OF m] v
    by (intro ok_transfer [OF m]) (auto simp: same_calls_def)
qed

lemma ok_send:
  assumes ok: "rpc_ok n" and X: "xmit \<in> X" and fresh: "fresh_tag ka n" and run: "fabric_call_send xmit ka ks loc f n = Val (r, n')"
  shows "rpc_ok n'"
proof (cases ka)
  case None
  then show ?thesis using ok run by (simp add: fabric_call_send_def)
next
  case (Some a)
  then have a: "tags n a = None" using fresh by (simp add: fresh_tag_def)
  then have free: "a \<notin> set (waiting n)" "a \<notin> work_tag ` set (works n)" using ok_tags [OF ok] by force+
  show ?thesis
  proof (cases ks)
    case False
    then show ?thesis using run Some ok_free_tag [OF ok free] by (auto simp: fabric_call_send_def)
  next
    case True
    let ?n1 = "set_tag a (Some (blank_tag\<lparr>check := a\<rparr>)) n"
    obtain i n2 where new: "new_skb (request_message f a) ?n1 = (i, n2)" by (cases "new_skb (request_message f a) ?n1")
    note ok2 = ok_new_skb [OF ok_free_tag [OF ok free] new]
    from run Some True new obtain addr ret n3 where tx: "vfi_fabric_tx xmit addr i n2 = Val (ret, n3)"
      and n': "n' = (if ret \<noteq> 0 then set_tag a None n3 else n3\<lparr>waiting := a # waiting n3\<rparr>)"
      by (auto simp: fabric_call_send_def Let_def cres_bind_eq_Val split: if_splits option.splits)
    have ok3: "rpc_ok n3" by (rule ok_tx [OF ok2(1,2,3) X tx])
    have same: "tags n3 = tags ?n1" "waiting n3 = waiting n" "works n3 = works n"
      using tx_frame [OF X tx] ok2 by (auto simp: same_calls_def set_tag_def)
    show ?thesis unfolding n'
      using ok_free_tag [OF ok3, of a None] ok_sleep [OF ok3, of a "blank_tag\<lparr>check := a\<rparr>"] free same
      by (auto simp: set_tag_def blank_tag_def)
  qed
qed

lemma ok_drop:
  assumes ok: "rpc_ok n" and i: "\<And>h. \<not> holds n h i" "i < fresh_skb n" and run: "receive_drop who i n = Val (r, n')"
  shows "rpc_ok n'" "r = Some NET_RX_DROP"
  using ok_unheld_skb [of "n\<lparr>regn := fab_ref who (- 1) (regn n)\<rparr>" i None] ok i run
  by (auto simp: receive_drop_def free_skb_def split: if_splits)

lemma ok_arrive:
  assumes ok: "rpc_ok n" and fresh: "fresh_tag ka n" and new: "new_skb m n = (i, n1)"
    and run: "receive_check ka who i n1 = Val (r, n')"
  shows "rpc_ok n'"
proof -
  note ok1 = ok_new_skb [OF ok new]
  consider (drop) g r' where "receive_drop who i (n1\<lparr>regn := g\<rparr>) = Val (r', n')"
    | (accept) a cb where "reply_tag m = Some a" "tags n1 a = Some cb"
        "n' = (set_tag a (Some (cb\<lparr>check := 0\<rparr>)) n1)\<lparr>rx := (a, i) # rx n1\<rparr>"
    | (queue) a s g where "ka = Some a" "n' = (set_tag a (Some (blank_tag\<lparr>rqst_skb := Some i, check := a, sender := Some s\<rparr>)) (n1\<lparr>regn := g\<rparr>))
        \<lparr>works := Sched_rqst a # works n1\<rparr>"
  proof -
    show ?thesis using run ok1(4) that(2,3) that(1) [of "regn n1" r] that(1) [of _ r]
      by (auto simp: receive_check_def Let_def split_beta split: if_splits option.splits)
  qed
  then show ?thesis
  proof cases
    case drop
    then show ?thesis using ok_drop [of "n1\<lparr>regn := g\<rparr>" i who r' n'] ok1 drop by simp
  next
    case accept
    let ?n = "set_tag a (Some (cb\<lparr>check := 0\<rparr>)) n1"
    have t: "rpc_ok ?n" by (rule ok_touch_tag [OF ok1(1) accept(2)]) simp_all
    have "\<not> holds ?n h i" for h using ok1(2) [of h] accept(2) by (cases h) (auto simp: set_tag_def split: if_splits)
    moreover have "names_tag ?n a i" using ok1(4) accept(1) by (simp add: names_tag_def set_tag_def)
    ultimately show ?thesis using ok_accept [OF t] accept(3) by (simp add: set_tag_def)
  next
    case queue
    have "tags n1 a = None" using fresh queue ok1(5) by (simp add: fresh_tag_def)
    then have free: "a \<notin> set (waiting n1)" "a \<notin> work_tag ` set (works n1)" using ok_tags [OF ok1(1)] by force+
    then show ?thesis
      using ok_queue [of "n1\<lparr>regn := g\<rparr>" i a "blank_tag\<lparr>rqst_skb := Some i, check := a, sender := Some s\<rparr>"] ok1 free queue
      by (simp add: set_tag_def)
  qed
qed

lemma ok_answer:
  assumes ok: "rpc_ok n" and X: "xmit \<in> X" and w: "Do_rqst a \<in> set (works n)" and run: "fabric_do_rqst E xmit ks a n = Val n'"
  shows "rpc_ok n'"
proof -
  note d = ok_distinct [OF ok]
  obtain cb where cb1: "tags n a = Some cb" using run by (cases "tags n a") (auto simp: fabric_do_rqst_def)
  obtain i where cb2: "rqst_skb cb = Some i" using run cb1 by (cases "rqst_skb cb") (auto simp: fabric_do_rqst_def)
  obtain m where cb3: "skbs n i = Some m" using run cb1 cb2 by (cases "skbs n i") (auto simp: fabric_do_rqst_def)
  note cb = cb1 cb2 cb3
  obtain ans n3 n4 where free: "free_skb i (set_tag a (Some (cb\<lparr>rply_skb := Some (fresh_skb n)\<rparr>))
          (snd (new_skb (case ans of None \<Rightarrow> [] | Some r \<Rightarrow> r) n))) = Val n3"
    and send: "(case ans of Some _ \<Rightarrow> cres_bind (vfi_fabric_tx xmit (sender cb) (fresh_skb n) n3) (\<lambda>(_, n). Val n)
        | None \<Rightarrow> free_skb (fresh_skb n) n3) = Val n4"
    and n': "n' = n4\<lparr>regn := vfi_fabric_put (sender cb) (regn n4), works := Dispose a # remove1 (Do_rqst a) (works n4)\<rparr>"
    using run cb by (simp add: fabric_do_rqst_def Let_def new_skb_def cres_bind_eq_Val split: if_splits) blast
  let ?j = "fresh_skb n"
  have n3: "tags n3 = (tags n)(a \<mapsto> cb\<lparr>rply_skb := Some ?j\<rparr>)" "works n3 = works n" "waiting n3 = waiting n" "rx n3 = rx n"
      "fresh_skb n3 = Suc ?j" "\<And>k. k \<noteq> i \<Longrightarrow> k \<noteq> ?j \<Longrightarrow> skbs n3 k = skbs n k"
    using free by (auto simp: free_skb_def new_skb_def set_tag_def split: if_splits)
  have "same_calls n3 n4 \<and> (\<exists>v. skbs n4 = (skbs n3)(?j := v))"
    using send tx_frame [OF X, of "sender cb" ?j n3]
    by (auto simp: cres_bind_eq_Val free_skb_def same_calls_def split: option.splits if_splits)
  then have n4: "tags n' = (tags n)(a \<mapsto> cb\<lparr>rply_skb := Some ?j\<rparr>)" "works n' = Dispose a # remove1 (Do_rqst a) (works n)"
      "waiting n' = waiting n" "rx n' = rx n" "fresh_skb n' = Suc ?j" "\<And>k. k \<noteq> i \<Longrightarrow> k \<noteq> ?j \<Longrightarrow> skbs n' k = skbs n k"
    using n3 n' by (auto simp: same_calls_def)
  have a: "a \<notin> set (waiting n)" using d(5) [OF w] by simp
  have no: "Sched_rqst a \<notin> set (works n)"
    using inj_onD [of work_tag "set (works n)" "Do_rqst a" "Sched_rqst a"] d(2) w by (auto simp: distinct_map)
  have sub: "holds n h k \<and> h \<noteq> At_rqst a" if "holds n' h k" for h k
    using that n4 a no d(3) by (cases h) (auto split: if_splits)
  have held: "holds n (At_rqst a) i" using w cb by simp
  have ne: "k \<noteq> i \<and> k \<noteq> ?j" if "holds n' h k" for h k
    using sub [OF that] held_once [OF ok] held fresh_unheld [OF ok, of ?j] by blast
  have nin: "a \<notin> work_tag ` set (remove1 (Do_rqst a) (works n))"
    using d(2,3) w by (auto simp: distinct_map inj_on_def)
  have dd: "distinct (map work_tag (remove1 (Do_rqst a) (works n)))"
    using d(2,3) by (simp add: distinct_map inj_on_diff)
  show ?thesis
  proof (rule ok_transfer [OF ok])
    show "skbs n' k = None" if "fresh_skb n' \<le> k" for k
    proof -
      have "skbs n k = None" using ok_fresh [OF ok, of k] that n4(5) by simp
      then show ?thesis using n4(6) [of k] cb(3) that n4(5) by (cases "k = i") auto
    qed
    show "holds n' h k \<Longrightarrow> holds n h k" "holds n' h k \<Longrightarrow> skbs n' k = skbs n k" for h k
      using sub ne n4(6) by blast+
  qed (use n4 d ok_tags [OF ok] a nin dd cb in auto)
qed

lemma ok_step:
  assumes "rpc_step X n n'" and ok: "rpc_ok n"
  shows "rpc_ok n'"
  using assms(1)
proof cases
  case (Send xmit ka ks loc f r)
  then show ?thesis using ok_send ok by blast
next
  case (Return a ret r)
  then show ?thesis using ok_return [OF ok Return(1)]
    by (auto simp: fabric_call_return_def Let_def split: option.splits)
next
  case (Arrive ka m i n1 who r)
  then show ?thesis using ok_arrive ok by blast
next
  case (Deliver a i)
  then show ?thesis using ok_deliver [OF ok] by (auto simp: receive_deliver_def split: option.splits)
next
  case (Sched a)
  then obtain cb where cb: "tags n a = Some cb"
    and n': "n' = (set_tag a (Some (cb\<lparr>woq := True\<rparr>)) n)\<lparr>works := Do_rqst a # remove1 (Sched_rqst a) (works n)\<rparr>"
    by (auto simp: fabric_sched_rqst_def split: option.splits)
  have "rpc_ok (set_tag a (Some (cb\<lparr>woq := True\<rparr>)) n)" by (rule ok_touch_tag [OF ok cb]) simp_all
  from ok_work [OF this, of "Sched_rqst a" "Do_rqst a" a] Sched(1) show ?thesis by (simp add: n' set_tag_def)
next
  case (Answer xmit a E ks)
  then show ?thesis using ok_answer ok by blast
next
  case (Forget a)
  then show ?thesis using ok_dispose [OF ok] by (auto simp: fabric_disposeq_def split: option.splits if_splits)
next
  case (Registry g)
  then show ?thesis using ok by simp
qed

lemma idle_ok: "idle n \<Longrightarrow> rpc_ok n"
  by (rule rpc_okI) (auto simp: idle_def elim!: holds.elims)

lemma reachable_ok:
  assumes "rpc_run X n0 n" and "idle n0"
  shows "rpc_ok n"
  using assms by induction (auto intro: ok_step idle_ok)

text \<open>A sleeping call always returns, with a reply that names its tag or with \<open>-EIO\<close>.\<close>

lemma sleeper_returns:
  assumes "rpc_run X n0 n" "idle n0" "a \<in> set (waiting n)"
  shows "\<exists>ret r n'. fabric_call_return a n = Val (ret, r, n')
    \<and> (case r of
         None \<Rightarrow> ret = - EIO
       | Some i \<Rightarrow> ret = 0 \<and> (\<exists>m. skbs n' i = Some m \<and> reply_tag m = Some a) \<and> (\<forall>h. \<not> holds n' h i))"
proof -
  have ok: "rpc_ok n" by (rule reachable_ok [OF assms(1,2)])
  from ok_tags(1) [OF ok assms(3)] obtain cb where cb: "tags n a = Some cb" by blast
  let ?n = "(set_tag a None n)\<lparr>waiting := remove1 a (waiting n)\<rparr>"
  show ?thesis
  proof (cases "rply_skb cb")
    case None
    then show ?thesis using cb by (simp add: fabric_call_return_def)
  next
    case (Some i)
    then have held: "holds n (At_call a) i" using cb assms(3) by simp
    from held_named(3) [OF ok held] obtain m where m: "skbs n i = Some m" "reply_tag m = Some a"
      by (auto simp: names_tag_def)
    have sub: "holds n h i \<and> h \<noteq> At_call a" if "holds ?n h i" for h
      using that ok_distinct [OF ok] by (cases h) (auto simp: set_tag_def split: if_splits)
    have "\<not> holds ?n h i" for h using sub [of h] held_once [OF ok held, of h] by blast
    then show ?thesis using cb Some m by (simp add: fabric_call_return_def set_tag_def del: holds.simps)
  qed
qed

end

section \<open>The tag on its way to the other node and back\<close>

lemma fst_hex_scan: "fst (hex_scan v n xs) = fst (hex_scan v m xs)"
  by (induction xs arbitrary: v n m) (auto split: option.splits)

lemma hex_scan_zeros: "hex_scan 0 n (replicate k CHR ''0'' @ xs) = hex_scan 0 (n + k) xs"
  by (induction k arbitrary: n) (simp_all add: hex_digit_val_def)

lemma ptr_text_digits: "\<forall>c \<in> set (ptr_text a). hex_digit_val c \<noteq> None"
proof -
  have "hex_digit_val CHR ''0'' \<noteq> None" by (simp add: hex_digit_val_def)
  then show ?thesis using hex_of_nat_digits [of "unat a"] by (auto simp: ptr_text_def Let_def)
qed

lemma length_hex_of_nat: "n < 16 ^ Suc k \<Longrightarrow> length (hex_of_nat n) \<le> Suc k"
proof (induction k arbitrary: n)
  case (Suc k)
  show ?case
  proof (cases "n < 16")
    case True
    then show ?thesis by (simp add: hex_of_nat.simps [of n])
  next
    case False
    have "n div 16 < 16 ^ Suc k" using Suc.prems by (simp add: div_less_iff_less_mult)
    from Suc.IH [OF this] False show ?thesis by (simp add: hex_of_nat.simps [of n])
  qed
qed (simp add: hex_of_nat.simps)

lemma length_ptr_text: "length (ptr_text a) = 8"
proof -
  have "length (hex_of_nat (unat a)) \<le> Suc 7" by (rule length_hex_of_nat) (use unat_lt32 [of a] in simp)
  then show ?thesis by (simp add: ptr_text_def Let_def)
qed

lemma hex_scan_ptr: "hex_digit_val c = None \<Longrightarrow> fst (hex_scan 0 0 (ptr_text a @ c # rest)) = a"
proof -
  assume c: "hex_digit_val c = None"
  let ?h = "hex_of_nat (unat a)" and ?k = "8 - length (hex_of_nat (unat a))"
  have "fst (hex_scan 0 ?k (?h @ c # rest)) = fst (hex_scan 0 0 (?h @ c # rest))" by (rule fst_hex_scan)
  also have "\<dots> = a" using hex_of_nat_digits [of "unat a"] c by (simp add: hex_scan_append hex_scan_hex_of_nat)
  finally show ?thesis by (simp add: ptr_text_def Let_def hex_scan_zeros)
qed

lemma scan_ptr: "hex_digit_val c = None \<Longrightarrow> scan_x (ptr_text a @ c # rest) = Some a"
proof -
  assume c: "hex_digit_val c = None"
  obtain x y zs where p: "ptr_text a = x # y # zs" using length_ptr_text [of a]
    by (metis Suc_length_conv numeral_nat(7) eval_nat_numeral(2) length_Suc_conv numeral_eq_Suc)
  then have d: "hex_digit_val x \<noteq> None" "hex_digit_val y \<noteq> None" using ptr_text_digits [of a] by auto
  have "\<not> is_space x" using d(1) by (auto simp: is_space_def hex_digit_val_def)
  moreover have "y \<noteq> CHR ''x''" "y \<noteq> CHR ''X''" using d(2) by (auto simp: hex_digit_val_def)
  then have "simple_strtoul16 (ptr_text a @ c # rest) = hex_scan 0 0 (ptr_text a @ c # rest)"
    by (simp add: simple_strtoul16_def p)
  moreover note hex_scan_ptr [OF c, of a rest]
  ultimately show ?thesis using d(1) by (simp add: scan_x_def p)
qed

lemma ptr_text_plain: "set (ptr_text a) \<subseteq> set ''0123456789abcdef''"
proof -
  have h: "hex_char d \<in> set ''0123456789abcdef''" if "d < 16" for d
  proof -
    have "d = 0 \<or> d = 1 \<or> d = 2 \<or> d = 3 \<or> d = 4 \<or> d = 5 \<or> d = 6 \<or> d = 7 \<or> d = 8 \<or> d = 9 \<or> d = 10
        \<or> d = 11 \<or> d = 12 \<or> d = 13 \<or> d = 14 \<or> d = 15" using that by presburger
    then show ?thesis by (elim disjE) (simp_all add: hex_char_def char_of_def bit_Suc_0_iff)
  qed
  have "set (hex_of_nat n) \<subseteq> set ''0123456789abcdef''" for n
  proof (induction n rule: hex_of_nat.induct)
    case (1 n)
    then show ?case using h [of n] h [of "n mod 16"]
      by (cases "n < 16") (simp_all only: hex_of_nat.simps [of n] if_True if_False set_append Un_subset_iff list.set, auto)
  qed
  moreover have "set (replicate k CHR ''0'') \<subseteq> set ''0123456789abcdef''" for k by auto
  ultimately show ?thesis unfolding ptr_text_def Let_def set_append by blast
qed

text \<open>The first place of a text that occurs nowhere before.\<close>

lemma strstr_first:
  assumes "\<forall>k < length p. take (length n) (drop k (p @ n @ q)) \<noteq> n"
  shows "strstr (p @ n @ q) n = Some (length p)"
  using assms
proof (induction p)
  case Nil
  show ?case by (cases n; cases q) auto
next
  case (Cons x p)
  have "take (length n) (x # p @ n @ q) \<noteq> n" using Cons.prems by (auto dest: spec [of _ 0])
  moreover have "\<forall>k < length p. take (length n) (drop k (p @ n @ q)) \<noteq> n"
    using Cons.prems by (auto dest: spec [of _ "Suc _"])
  ultimately show ?case using Cons.IH by simp
qed

lemma reply_tag_of_reply:
  assumes paren: "CHR ''('' \<notin> set op" "CHR ''('' \<notin> set nm" "CHR ''('' \<notin> set l" and a: "a \<noteq> 0"
  shows "reply_tag (reply_text op nm l ret (ptr_text a)) = Some a"
proof -
  define A where "A = op @ ''://'' @ nm @ ''.'' @ l @ ''?resul''"
  define p where "p = (A @ ''t('') @ dec_of_int ret @ '')'' @ '',''"
  let ?n = "''reply(''" and ?q = "ptr_text a @ CHR '')'' # newline"
  have r: "reply_text op nm l ret (ptr_text a) = p @ ?n @ ?q" by (simp add: reply_text_def p_def A_def)
  have A: "CHR ''('' \<notin> set A" using paren by (simp add: A_def)
  have "CHR ''('' \<notin> set (dec_of_int ret)" using dec_of_int_chars [of ret] by auto
  then have B: "CHR ''('' \<notin> set (dec_of_int ret @ '')'' @ '','')" by simp
  have "take (length ?n) (drop k (p @ ?n @ ?q)) \<noteq> ?n" if k: "k < length p" for k
  proof
    assume eq: "take (length ?n) (drop k (p @ ?n @ ?q)) = ?n"
    have at: "(p @ ?n @ ?q) ! (k + j) = ?n ! j" if "j < 6" for j
    proof -
      define s where "s = p @ ?n @ ?q"
      have "k \<le> length s" using k by (simp add: s_def)
      then have t: "take 6 (drop k s) ! j = s ! (k + j)" using that by simp
      have "length ?n = 6" by simp
      then have "take 6 (drop k s) = ?n" using eq unfolding s_def by (simp only:)
      with t show ?thesis unfolding s_def by (simp only:)
    qed
    have at5: "(p @ ?n @ ?q) ! (k + 5) = CHR ''(''" and at4: "(p @ ?n @ ?q) ! (k + 4) = CHR ''y''"
      using at [of 5] at [of 4] by simp_all
    show False
    proof (cases "k + 5 < length p")
      case True
      then have p5: "p ! (k + 5) = CHR ''(''" and p4: "p ! (k + 4) = CHR ''y''" using at5 at4 by (simp_all add: nth_append)
      have "\<not> k + 5 < length A"
      proof
        assume lt: "k + 5 < length A"
        then have "A ! (k + 5) = CHR ''(''" using p5 by (simp add: p_def nth_append)
        with nth_mem [OF lt] A show False by simp
      qed
      moreover have "\<not> Suc (length A) < k + 5"
      proof
        assume "Suc (length A) < k + 5"
        then have "p ! (k + 5) = (dec_of_int ret @ '')'' @ '','') ! (k + 5 - (length A + 2))"
          "k + 5 - (length A + 2) < length (dec_of_int ret @ '')'' @ '','')"
          using True by (simp_all add: p_def nth_append)
        then show False using p5 B by (metis nth_mem)
      qed
      ultimately have "k + 5 = length A \<or> k + 4 = length A" by linarith
      then show False using p5 p4 by (auto simp: p_def nth_append)
    next
      case False
      then obtain j where j0: "k + 5 = length p + j" by (metis le_Suc_ex not_less)
      then have j: "k + 5 = length p + j" "j < 5" using k by linarith+
      have "(?n @ ?q) ! j = CHR ''(''" using at5 unfolding j(1) by (simp add: nth_append)
      moreover have "j = 0 \<or> j = 1 \<or> j = 2 \<or> j = 3 \<or> j = 4" using j(2) by linarith
      ultimately show False by (elim disjE) simp_all
    qed
  qed
  then have "strstr (p @ ?n @ ?q) ?n = Some (length p)" by (intro strstr_first allI impI)
  then show ?thesis unfolding r reply_tag_def
    using scan_ptr [of "CHR '')''" a newline] a by (simp add: hex_digit_val_def del: strstr.simps)
qed

text \<open>C18: The tag of a call makes the round trip. A command for a named object is sent with \<open>request(tag)\<close>
  added; the node that receives it parses name, location and option, and whatever number its handler
  returns, the reply it prints names the tag again, as the caller's receive path reads it.\<close>

theorem tag_comes_back:
  assumes op: "CHR '':'' \<notin> set op" "CHR ''?'' \<notin> set op" "CHR ''('' \<notin> set op"
    and nm: "plain_word {CHR ''.'', CHR ''(''} nm" "nm \<noteq> []" and l: "plain_word {CHR ''(''} l" and a: "a \<noteq> 0"
    and fits: "dup_size (nm @ ''.'' @ l @ ''?request('' @ ptr_text a @ '')'') \<le> 4096"
  shows "\<exists>desc d' r. request_message (op @ ''://'' @ nm @ ''.'' @ l) a = op @ ''://'' @ desc
    \<and> vfi_parse_desc True d (Some desc) g = Val (0, d', g)
    \<and> text_of d' (name d') = Val nm \<and> text_of d' (location d') = Val l
    \<and> reply_name op ret d' = Val r \<and> reply_tag r = Some a"
proof -
  let ?q = "''request('' @ ptr_text a @ '')''" and ?os = "[''request='' @ ptr_text a]"
  let ?s = "nm @ ''.'' @ l @ ''?'' @ ?q"
  note hex = ptr_text_plain [of a]
  have absent: "c \<notin> set (ptr_text a)" if "c \<notin> set ''0123456789abcdef''" for c using hex that by blast
  have nm': "plain_word {CHR ''.''} nm" "CHR ''('' \<notin> set nm" and l': "plain_word {} l" "CHR ''('' \<notin> set l"
    using nm l by (auto simp: plain_word_def)
  have "strstr (op @ ''://'' @ nm @ ''.'' @ l) ''?'' = None"
    using op nm l by (intro strstr_absent [of "CHR ''?''"]) (auto simp: plain_word_def)
  then have m: "request_message (op @ ''://'' @ nm @ ''.'' @ l) a = op @ ''://'' @ ?s"
    by (simp add: request_message_def)
  have "strstr ?s ''://'' = None"
    using nm l absent [of "CHR '':''"] by (intro strstr_absent [of "CHR '':''"]) (auto simp: plain_word_def)
  then have body: "spec_body ?s = nm @ CHR ''.'' # l @ CHR ''?'' # ?q" by (simp add: spec_body_def)
  have "CHR '','' \<notin> set ?q" using absent [of "CHR '',''"] by simp
  then have "split_on CHR '','' ?q = [?q]" by (rule split_on_last)
  moreover have "spec_option ?q = ''request='' @ ptr_text a"
    using spec_option_brackets [of "''request''" "ptr_text a" "[]"] absent by auto
  ultimately have gr: "grammar ?s = \<lparr>p_name = nm, p_location = Some l, p_extent = None, p_offset = None, p_options = ?os\<rparr>"
    using grammar_of_query [OF body nm'(1) nm(2) l'(1)] by simp
  have nul: "NUL \<notin> set ?s" using nm l absent [of NUL] by (auto simp: plain_word_def)
  have none: "spec_get_option ?os n = None" if "c \<in> set n" "c \<notin> set ''request=0123456789abcdef''" for n c
  proof -
    have "c \<notin> set (''request='' @ ptr_text a)" using that(2) absent [of c] by auto
    from strstr_absent [OF that(1) this] show ?thesis by (simp only: spec_get_option.simps option.case)
  qed
  have "spec_get_option ?os ''default_ops'' = None" by (rule none [of "CHR ''_''"]) simp_all
  moreover have "spec_get_option ?os ''fabric'' = None" by (rule none [of "CHR ''i''"]) simp_all
  moreover have "spec_get_option ?os ''dma_name'' = None" by (rule none [of "CHR ''_''"]) simp_all
  ultimately have sel: "spec_select (p_options (grammar ?s)) g = Val (None, None, None, g)"
    by (simp only: gr spec_select_def parsed.simps option.case prod.case Let_def)
  have fits': "dup_size ?s \<le> 4096" using fits by simp
  obtain d' ret' where all: "vfi_parse_desc True d (Some ?s) g = cres_bind (spec_select (p_options (grammar ?s)) g) (\<lambda>(t, a, e, g').
      if ret' \<noteq> 0 then Val (ret', d'\<lparr>ops := t, address := a, rde := e, buf := None, buflen := 0\<rparr>, g')
      else Val (ret', d'\<lparr>ops := t, address := a, rde := e\<rparr>, g'))"
    and ret': "ret' = 0 \<longleftrightarrow> clean_number (p_extent (grammar ?s)) \<and> clean_number (p_offset (grammar ?s))"
    and den: "\<And>t a e. desc_denotes (d'\<lparr>ops := t, address := a, rde := e\<rparr>) (grammar ?s)"
    and ok: "\<And>t a e. options_ok (d'\<lparr>ops := t, address := a, rde := e\<rparr>)"
    by (rule parse_desc_run [OF nul fits', where d = d and g = g]) (rule that)
  let ?d = "d'\<lparr>ops := None, address := None, rde := None\<rparr>"
  have "ret' = 0" using ret' unfolding gr by (simp add: clean_number_def)
  with all sel have run: "vfi_parse_desc True d (Some ?s) g = Val (0, ?d, g)" by simp
  obtain b n k qs where b: "buf ?d = Some b" "name ?d = Some n" "location ?d = Some k" "query ?d = Some qs" "cstr b n = nm"
    "cstr b k = l" "option_strings b qs = ?os"
    using den [of None None None] unfolding gr by (auto simp: desc_denotes_def split: option.splits)
  have ends: "c_ok b n" "c_ok b k" using ok [of None None None] b by (auto simp: options_ok_def)
  have t: "text_of ?d (name ?d) = Val nm" "text_of ?d (location ?d) = Val l" using b ends by (simp_all add: text_of_def)
  have "spec_get_option ?os ''request'' = Some (ptr_text a)"
    using strstr_here [of "''request''" "CHR ''='' # ptr_text a"] strstr_char_at [of "CHR ''=''" "''request''" "ptr_text a"]
    by (simp del: strstr.simps)
  then have found: "spec_get_option (option_strings b qs) ''request'' = Some (ptr_text a)" by (simp only: b(7))
  obtain r0 where r0: "vfi_get_option ?d ''request'' = Val r0"
    "map_option (cstr b) r0 = spec_get_option (option_strings b qs) ''request''" "\<And>i. r0 = Some i \<Longrightarrow> c_ok b i"
    by (rule get_option_text [OF ok b(1,4), of "''request''"]) (rule that)
  from r0(2) found obtain r where "r0 = Some r" "cstr b r = ptr_text a" by (auto simp: map_option_eq_Some)
  with r0 have "vfi_get_option ?d ''request'' = Val (Some r)" "cstr b r = ptr_text a" "c_ok b r" by simp_all
  then have "option_text ?d ''request'' = Val (ptr_text a)" using b(1) by (simp add: option_text_def text_of_def)
  with t have reply: "reply_name op ret ?d = Val (reply_text op nm l ret (ptr_text a))" by (rule reply_name_text)
  show ?thesis
    by (rule exI [of _ ?s], rule exI [of _ ?d], rule exI [of _ "reply_text op nm l ret (ptr_text a)"])
      (intro conjI m run t reply reply_tag_of_reply [OF op(3) nm'(2) l'(2) a])
qed

theorem tag_comes_back_witness:
  "\<exists>desc d' r. request_message ''smb_put://b.n'' 0xc0100100 = ''smb_put'' @ ''://'' @ desc
     \<and> vfi_parse_desc True zero_desc (Some desc) demo_registry = Val (0, d', demo_registry)
     \<and> reply_name ''smb_put'' 0 d' = Val r \<and> reply_tag r = Some 0xc0100100"
proof -
  have hex: "ptr_text 0xc0100100 = ''c0100100''"
    by (simp add: ptr_text_def hex_of_nat.simps hex_char_def char_of_def bit_Suc_0_iff)
  have fits: "dup_size (''b'' @ ''.'' @ ''n'' @ ''?request('' @ ptr_text 0xc0100100 @ '')'') \<le> 4096"
    unfolding hex by code_simp
  have op: "CHR '':'' \<notin> set ''smb_put''" "CHR ''?'' \<notin> set ''smb_put''" "CHR ''('' \<notin> set ''smb_put''"
    and nm: "plain_word {CHR ''.'', CHR ''(''} ''b''" "''b'' \<noteq> []" and l: "plain_word {CHR ''(''} ''n''" and a: "(0xc0100100 :: u32) \<noteq> 0"
    by (simp_all add: plain_word_def)
  have f: "''smb_put'' @ ''://'' @ ''b'' @ ''.'' @ ''n'' = ''smb_put://b.n''" by simp
  note trip = tag_comes_back [of "''smb_put''" "''b''" "''n''" "0xc0100100" zero_desc demo_registry 0]
  show ?thesis using trip op nm l a fits unfolding f by blast
qed

section \<open>Failures are not answered\<close>

lemma answer_unknown:
  "lookup_op m = None \<Longrightarrow> answer_request E m = (if skb_room \<le> length (unknown_reply m) then Undef else Val None)"
  unfolding answer_request_def do_operation_def snprintf_def
  by (simp only: option.case Let_def prod.case cres_bind.simps neg_equal_0_iff_equal zero_neq_numeral [symmetric] if_False)

lemma answer_known:
  "lookup_op m = Some (h, desc) \<Longrightarrow> answer_request E m = cres_bind (h E desc) (\<lambda>out.
     if skb_room \<le> length (o_reply out) then Undef else Val (if o_ret out = 0 then Some (take 1927 (o_reply out)) else None))"
  unfolding answer_request_def do_operation_def snprintf_def
  apply (cases "h E desc")
   apply (simp_all only: option.case Let_def prod.case cres_bind.simps)
  apply simp
  done

text \<open>C19: A request is answered exactly when its handler returns 0, with the reply that the handler has
  printed, which then says \<open>result(0)\<close>. A command that fails or that nobody knows is not answered at
  all: what its caller sees is the end of its waiting time.\<close>

theorem only_success_is_answered:
  assumes "answer_request E m = Val ans"
  shows "case lookup_op m of
      None \<Rightarrow> ans = None
    | Some (h, desc) \<Rightarrow> (\<exists>out. h E desc = Val out \<and> ans = (if o_ret out = 0 then Some (o_reply out) else None)
        \<and> (\<forall>r. ans = Some r \<longrightarrow> (\<exists>nm pre suf. r = nm @ ''://'' @ pre @ ''result(0),reply('' @ suf)))"
proof (cases "lookup_op m")
  case None
  then show ?thesis using assms by (simp add: answer_unknown split: if_splits)
next
  case (Some hd)
  then obtain h desc where hd: "lookup_op m = Some (h, desc)" by (cases hd) auto
  from assms hd obtain out where out: "h E desc = Val out" "length (o_reply out) < skb_room"
    "ans = (if o_ret out = 0 then Some (take 1927 (o_reply out)) else None)"
    by (auto simp: answer_known cres_bind_eq_Val split: if_splits)
  from hd obtain nm where "(nm, h) \<in> set ops_table"
    by (auto simp: lookup_op_def split: option.splits if_splits dest: map_of_SomeD)
  then have "announces nm (h E desc)" using each_announces [of E desc] by (auto simp: list_all_iff)
  with out have "said nm (o_ret out) (o_reply out)" by (simp add: announces_def)
  moreover have "dec_of_int 0 = ''0''" by code_simp
  ultimately show ?thesis using hd out by (fastforce simp: said_def)
qed

theorem only_success_is_answered_witness:
  "answer_request demo_env ''smb_put://b.n?request(9)'' = Val (Some (''smb_put://b.n?result(0),reply(9)'' @ newline))
   \<and> answer_request demo_env ''smb_munge://b.n?request(9)'' = Val None"
proof -
  have "(case answer_request demo_env ''smb_put://b.n?request(9)'' of Val (Some r) \<Rightarrow> r | _ \<Rightarrow> []) =
      ''smb_put://b.n?result(0),reply(9)'' @ newline" by code_simp
  then have a: "answer_request demo_env ''smb_put://b.n?request(9)'' = Val (Some (''smb_put://b.n?result(0),reply(9)'' @ newline))"
    by (auto split: cres.splits option.splits)
  have "(case answer_request demo_env ''smb_munge://b.n?request(9)'' of Val _ \<Rightarrow> True | _ \<Rightarrow> False)" by code_simp
  then obtain ans where b: "answer_request demo_env ''smb_munge://b.n?request(9)'' = Val ans" by (auto split: cres.splits)
  have "lookup_op ''smb_munge://b.n?request(9)'' = None" by code_simp
  with only_success_is_answered [OF b] a b show ?thesis by simp
qed

end
