(* ===== verification/Vfi_Doorbell.thy ===== *)
theory Vfi_Doorbell
  imports Vfi_Prelude
begin

text \<open>
  Doorbells: numbered events of a node, each with the function that is called when another node rings
  it. The interface that the rest of the driver relies on (\<open>vfi_doorbell_register\<close> and
  \<open>vfi_doorbell_unregister\<close> of \<open>vfi_fabric.c\<close>) is the locale \<open>doorbells\<close>; the first of its two
  implementations is here, the hash table of \<open>vfi_fabric_net.c\<close>. The second one is in \<open>Vfi_Rionet\<close>.
\<close>

section \<open>The interface\<close>

text \<open>A callback is a function pointer with its argument.\<close>

type_synonym callback = "nat \<times> nat"

text \<open>
  \<open>vfi_doorbell_register\<close> calls the back end's operation if there is one. The address itself is not
  tested. The result is passed on, whether positive or not.
\<close>

definition vfi_doorbell_register ::
  "(callback \<Rightarrow> 's \<Rightarrow> (int \<times> 's) cres) option option \<Rightarrow> callback \<Rightarrow> 's \<Rightarrow> (int \<times> 's) cres" where
  "vfi_doorbell_register addr c s =
     (case addr of
        None \<Rightarrow> Undef
      | Some None \<Rightarrow> Val (- EINVAL, s)
      | Some (Some reg) \<Rightarrow> reg c s)"

definition vfi_doorbell_unregister :: "(int \<Rightarrow> 's \<Rightarrow> 's cres) option option \<Rightarrow> int \<Rightarrow> 's \<Rightarrow> 's cres" where
  "vfi_doorbell_unregister addr e s = (case addr of Some (Some unreg) \<Rightarrow> unreg e s | _ \<Rightarrow> Val s)"

text \<open>
  Registrations and releases in any order; the map says who has registered which event. \<open>may s e\<close> is
  what a back end asks of a release.
\<close>

inductive bell_run ::
  "(callback \<Rightarrow> 's \<Rightarrow> (int \<times> 's) cres) \<Rightarrow> (int \<Rightarrow> 's \<Rightarrow> 's cres) \<Rightarrow> ('s \<Rightarrow> int \<Rightarrow> bool) \<Rightarrow> 's
     \<Rightarrow> (int \<Rightarrow> callback option) \<Rightarrow> 's \<Rightarrow> bool"
  for reg unreg may s0 where
  start: "bell_run reg unreg may s0 Map.empty s0"
| register: "bell_run reg unreg may s0 m s \<Longrightarrow> vfi_doorbell_register (Some (Some reg)) c s = Val (e, s')
    \<Longrightarrow> bell_run reg unreg may s0 (if e < 0 then m else m(e \<mapsto> c)) s'"
| unregister: "bell_run reg unreg may s0 m s \<Longrightarrow> m e \<noteq> None \<Longrightarrow> may s e
    \<Longrightarrow> vfi_doorbell_unregister (Some (Some unreg)) e s = Val s' \<Longrightarrow> bell_run reg unreg may s0 (m(e := None)) s'"

locale doorbells =
  fixes reg :: "callback \<Rightarrow> 's \<Rightarrow> (int \<times> 's) cres"
    and unreg :: "int \<Rightarrow> 's \<Rightarrow> 's cres"
    and may :: "'s \<Rightarrow> int \<Rightarrow> bool"
    and bell_at :: "'s \<Rightarrow> int \<Rightarrow> callback option"
    and ok :: "'s \<Rightarrow> bool"
  assumes new_bell: "ok s \<Longrightarrow> reg c s = Val (e, s') \<Longrightarrow> 0 \<le> e
      \<Longrightarrow> ok s' \<and> bell_at s e = None \<and> bell_at s' = (bell_at s)(e \<mapsto> c)"
    and no_bell: "ok s \<Longrightarrow> reg c s = Val (e, s') \<Longrightarrow> e < 0 \<Longrightarrow> ok s' \<and> bell_at s' = bell_at s"
    and drop_bell: "ok s \<Longrightarrow> bell_at s e \<noteq> None \<Longrightarrow> may s e
      \<Longrightarrow> \<exists>s'. unreg e s = Val s' \<and> ok s' \<and> bell_at s' = (bell_at s)(e := None)"
begin

text \<open>An arriving event calls whoever has registered it, and nobody else; a release never goes wrong.\<close>

lemma bells_of_run:
  assumes "bell_run reg unreg may s0 m s" and "ok s0" "bell_at s0 = Map.empty"
  shows "ok s \<and> bell_at s = m"
  using assms
proof (induction rule: bell_run.induct)
  case (register m s c e s')
  then have "ok s" "bell_at s = m" "reg c s = Val (e, s')" by (simp_all add: vfi_doorbell_register_def)
  then show ?case using new_bell [of s c e s'] no_bell [of s c e s'] by (cases "e < 0") auto
next
  case (unregister m s e s')
  then have "ok s" "bell_at s = m" "unreg e s = Val s'" by (simp_all add: vfi_doorbell_unregister_def)
  then show ?case using drop_bell [of s e] unregister by auto
qed simp

lemma release_is_safe:
  assumes "bell_run reg unreg may s0 m s" "ok s0" "bell_at s0 = Map.empty" and "m e \<noteq> None" "may s e"
  shows "\<exists>s'. vfi_doorbell_unregister (Some (Some unreg)) e s = Val s' \<and> bell_run reg unreg may s0 (m(e := None)) s'"
proof -
  have "ok s" "bell_at s = m" using bells_of_run [OF assms(1-3)] by simp_all
  then obtain s' where "unreg e s = Val s'" using drop_bell [of s e] assms(4,5) by auto
  then have "vfi_doorbell_unregister (Some (Some unreg)) e s = Val s'" by (simp add: vfi_doorbell_unregister_def)
  then show ?thesis using bell_run.unregister [OF assms(1,4,5)] by blast
qed

end

section \<open>The hash table of \<open>vfi_fabric_net.c\<close>\<close>

text \<open>
  Event numbers have 16 bits. The low eight choose a chain of \<open>bell_hash\<close>, the high eight are the depth
  in it. A pointer into a chain is the rest of the chain from there on; null is the empty list.
\<close>

record db_node =
  db_callback :: callback
  db_depth :: int

type_synonym bells = "int \<Rightarrow> db_node list"

abbreviation MAX_EVENT :: int where "MAX_EVENT \<equiv> 65536"
abbreviation MAX_HASH :: int where "MAX_HASH \<equiv> 256"

definition HASH :: "int \<Rightarrow> int" where "HASH e = e AND 255"
definition DEPTH :: "int \<Rightarrow> int" where "DEPTH e = drop_bit 8 e AND 255"

fun seek :: "int \<Rightarrow> db_node list \<Rightarrow> db_node list" where
  "seek d [] = []"
| "seek d (n # ns) = (if db_depth n \<le> d then if db_depth n = d then n # ns else seek d ns else [])"

definition find_db :: "bells \<Rightarrow> int \<Rightarrow> db_node list" where
  "find_db B e = seek (DEPTH e) (B (HASH e))"

text \<open>\<open>invoke_db\<close>: which callback is called.\<close>

definition invoke_db :: "bells \<Rightarrow> int \<Rightarrow> callback option" where
  "invoke_db B e = (case find_db B e of [] \<Rightarrow> None | db # _ \<Rightarrow> Some (db_callback db))"

text \<open>\<open>odb->next = t\<close>, where \<open>odb\<close> is the node that \<open>find_db\<close> has found.\<close>

fun link_after :: "int \<Rightarrow> db_node list \<Rightarrow> db_node list \<Rightarrow> db_node list" where
  "link_after d t [] = []"
| "link_after d t (n # ns) =
     (if db_depth n \<le> d then if db_depth n = d then n # t else n # link_after d t ns else n # ns)"

text \<open>The loop of \<open>allocate_db\<close>: the first event from \<open>e\<close> on that is free.\<close>

function free_event :: "bells \<Rightarrow> int \<Rightarrow> int option" where
  "free_event B e = (if e < MAX_EVENT then if find_db B e \<noteq> [] then free_event B (e + 1) else Some e else None)"
  by pat_completeness auto
termination by (relation "measure (\<lambda>(B, e). nat (MAX_EVENT - e))") auto

declare free_event.simps [simp del]

text \<open>\<open>ka\<close> answers the allocation of the node, which is not checked.\<close>

definition allocate_db :: "bool \<Rightarrow> callback \<Rightarrow> bells \<Rightarrow> (int \<times> bells) cres" where
  "allocate_db ka c B =
     (if \<not> ka then Undef
      else case free_event B 0 of
          None \<Rightarrow> Val (- 1, B)
        | Some e \<Rightarrow>
            let db = \<lparr>db_callback = c, db_depth = DEPTH e\<rparr>; h = HASH (e - MAX_HASH); d = DEPTH (e - MAX_HASH) in
            if DEPTH e \<noteq> 0 then
              (case find_db B (e - MAX_HASH) of
                 [] \<Rightarrow> Undef
               | odb # t \<Rightarrow> Val (e, B(h := link_after d (db # t) (B h))))
            else Val (e, B(HASH e := [db])))"

definition deallocate_db :: "int \<Rightarrow> bells \<Rightarrow> bells cres" where
  "deallocate_db e B =
     (case find_db B e of
        [] \<Rightarrow> Undef
      | db # t \<Rightarrow>
          let h = HASH (e - MAX_HASH); d = DEPTH (e - MAX_HASH) in
          if DEPTH e \<noteq> 0 then
            (if find_db B (e - MAX_HASH) = [] then Undef else Val (B(h := link_after d t (B h))))
          else Val (B(HASH e := t)))"

definition doorbell_register :: "bool \<Rightarrow> callback \<Rightarrow> bells \<Rightarrow> (int \<times> bells) cres" where
  "doorbell_register = allocate_db"

definition doorbell_unregister :: "int \<Rightarrow> bells \<Rightarrow> bells cres" where
  "doorbell_unregister = deallocate_db"


section \<open>Chains\<close>

lemma HASH_mod: "HASH e = e mod 256"
proof -
  have "HASH e = take_bit 8 e" by (simp add: HASH_def take_bit_eq_mask mask_eq_exp_minus_1)
  then show ?thesis by (simp add: take_bit_eq_mod)
qed

lemma DEPTH_div: "DEPTH e = e div 256 mod 256"
proof -
  have "DEPTH e = take_bit 8 (drop_bit 8 e)" by (simp add: DEPTH_def take_bit_eq_mask mask_eq_exp_minus_1)
  then show ?thesis by (simp add: take_bit_eq_mod drop_bit_eq_div)
qed

lemma event_parts:
  assumes "0 \<le> e" "e < MAX_EVENT"
  shows "e = DEPTH e * 256 + HASH e" "0 \<le> DEPTH e" "DEPTH e < 256" "0 \<le> HASH e" "HASH e < 256"
  using assms by (simp_all add: HASH_mod DEPTH_div)

lemma event_below:
  assumes "0 \<le> e" "e < MAX_EVENT" "DEPTH e \<noteq> 0"
  shows "HASH (e - MAX_HASH) = HASH e" "DEPTH (e - MAX_HASH) = DEPTH e - 1" "0 \<le> e - MAX_HASH" "e - MAX_HASH < e"
  using assms event_parts [OF assms(1,2)] unfolding HASH_mod DEPTH_div by auto

definition chain_ok :: "db_node list \<Rightarrow> bool" where
  "chain_ok ns \<longleftrightarrow> sorted_wrt (<) (map db_depth ns) \<and> (\<forall>n \<in> set ns. 0 \<le> db_depth n)
     \<and> (ns \<noteq> [] \<longrightarrow> db_depth (hd ns) = 0)"

fun chain_map :: "db_node list \<Rightarrow> int \<Rightarrow> callback option" where
  "chain_map [] d = None"
| "chain_map (n # ns) d = (if db_depth n = d then Some (db_callback n) else chain_map ns d)"

lemma chain_map_None: "chain_map ns d = None \<longleftrightarrow> (\<forall>n \<in> set ns. db_depth n \<noteq> d)"
  by (induction ns) auto

lemma chain_map_append:
  "chain_map (xs @ ys) d = (case chain_map xs d of None \<Rightarrow> chain_map ys d | Some c \<Rightarrow> Some c)"
  by (induction xs) auto

lemma seek_found:
  assumes "seek d ns = n # t"
  shows "db_depth n = d" "\<exists>p. ns = p @ n # t \<and> (\<forall>x \<in> set p. db_depth x < d) \<and> (\<forall>t'. link_after d t' ns = p @ n # t')"
  using assms
proof (induction ns)
  case (Cons m ns)
  {
    case 1
    then show ?case using Cons.IH(1) by (auto split: if_splits)
  next
    case 2
    show ?case
    proof (cases "db_depth m = d")
      case True
      then show ?thesis using 2 by auto
    next
      case False
      then have lt: "db_depth m < d" and s: "seek d ns = n # t" using 2 by (auto split: if_splits)
      from Cons.IH(2) [OF s] obtain p where p: "ns = p @ n # t" "\<forall>x \<in> set p. db_depth x < d" "\<forall>t'. link_after d t' ns = p @ n # t'"
        by blast
      show ?thesis by (rule exI [of _ "m # p"]) (use p lt in auto)
    qed
  }
qed simp_all

lemma seek_skip: "\<forall>x \<in> set p. db_depth x < d \<Longrightarrow> seek d (p @ q) = seek d q"
  by (induction p) auto

lemma seek_chain_map:
  assumes "sorted_wrt (<) (map db_depth ns)"
  shows "(case seek d ns of [] \<Rightarrow> None | n # _ \<Rightarrow> Some (db_callback n)) = chain_map ns d"
  using assms
proof (induction ns)
  case (Cons m ns)
  have "chain_map ns d = None" if "d < db_depth m" using Cons.prems that by (force simp: chain_map_None)
  then show ?case using Cons by auto
qed simp

lemma seek_Nil: "sorted_wrt (<) (map db_depth ns) \<Longrightarrow> seek d ns = [] \<longleftrightarrow> chain_map ns d = None"
  using seek_chain_map [of ns d] by (cases "seek d ns"; cases "chain_map ns d") auto

lemma chain_insert:
  assumes ok: "chain_ok ns" and odb: "seek (d - 1) ns = odb # t" and free: "seek d ns = []" and n: "db_depth n = d" "0 < d"
  shows "chain_ok (link_after (d - 1) (n # t) ns)" "chain_map (link_after (d - 1) (n # t) ns) = (chain_map ns)(d \<mapsto> db_callback n)"
proof -
  from seek_found [OF odb] obtain p where p: "ns = p @ odb # t" "link_after (d - 1) (n # t) ns = p @ odb # n # t" "db_depth odb = d - 1"
    by blast
  have no: "chain_map ns d = None" using ok free seek_Nil by (simp add: chain_ok_def)
  then have gt: "\<forall>x \<in> set t. d < db_depth x" using ok p by (force simp: chain_ok_def chain_map_None sorted_wrt_append)
  show "chain_ok (link_after (d - 1) (n # t) ns)" using ok p gt n
    by (cases p) (auto simp: chain_ok_def sorted_wrt_append)
  have "chain_map p d = None" using no p by (simp add: chain_map_None)
  then show "chain_map (link_after (d - 1) (n # t) ns) = (chain_map ns)(d \<mapsto> db_callback n)"
    using p n by (auto simp: fun_eq_iff chain_map_append split: option.splits)
qed

lemma chain_delete:
  assumes ok: "chain_ok ns" and odb: "seek (d - 1) ns = odb # u" and db: "seek d ns = n # t" and d: "0 < d"
  shows "chain_ok (link_after (d - 1) t ns)" "chain_map (link_after (d - 1) t ns) = (chain_map ns)(d := None)"
proof -
  from seek_found [OF odb] obtain p where p: "ns = p @ odb # u" "\<forall>x \<in> set p. db_depth x < d - 1"
    "link_after (d - 1) t ns = p @ odb # t" "db_depth odb = d - 1" by blast
  have s: "sorted_wrt (<) (map db_depth ns)" using ok by (simp add: chain_ok_def)
  have "seek d ns = seek d u" using seek_skip [of "p @ [odb]" d u] p by fastforce
  with db seek_found [of d u n t] obtain q where q: "u = q @ n # t" "\<forall>x \<in> set q. db_depth x < d" "db_depth n = d" by auto
  have "\<forall>x \<in> set q. d - 1 < db_depth x" using s p q by (auto simp: sorted_wrt_append)
  with q have u: "u = n # t" by (cases q) auto
  show "chain_ok (link_after (d - 1) t ns)" using ok p u by (cases p) (auto simp: chain_ok_def sorted_wrt_append)
  have "chain_map p d = None" "chain_map t d = None" using s p u q by (force simp: chain_map_None sorted_wrt_append)+
  then show "chain_map (link_after (d - 1) t ns) = (chain_map ns)(d := None)"
    using p u q by (auto simp: fun_eq_iff chain_map_append split: option.splits)
qed


section \<open>The table\<close>

definition bells_ok :: "bells \<Rightarrow> bool" where
  "bells_ok B \<longleftrightarrow> (\<forall>h. chain_ok (B h))"

definition bell_at :: "bells \<Rightarrow> int \<Rightarrow> callback option" where
  "bell_at B e = (if 0 \<le> e \<and> e < MAX_EVENT then invoke_db B e else None)"

text \<open>
  A release unlinks the event from the one 256 below it in its chain. It needs that event to be there,
  and the lowest event of a chain may only be released when it is alone.
\<close>

definition bell_removable :: "bells \<Rightarrow> int \<Rightarrow> bool" where
  "bell_removable B e \<longleftrightarrow> (if DEPTH e = 0 then tl (B (HASH e)) = [] else find_db B (e - MAX_HASH) \<noteq> [])"

lemma chain_sorted: "bells_ok B \<Longrightarrow> sorted_wrt (<) (map db_depth (B h))"
  by (simp add: bells_ok_def chain_ok_def)

lemma invoke_chain_map: "bells_ok B \<Longrightarrow> invoke_db B e = chain_map (B (HASH e)) (DEPTH e)"
  using seek_chain_map [OF chain_sorted, of B "DEPTH e" "HASH e"] by (simp add: invoke_db_def find_db_def)

lemma invoke_None: "invoke_db B e = None \<longleftrightarrow> find_db B e = []"
  by (simp add: invoke_db_def split: list.splits)

lemma free_event_least:
  assumes "free_event B e0 = Some e" and "0 \<le> e0"
  shows "e0 \<le> e" "e < MAX_EVENT" "find_db B e = []" "\<And>e'. e0 \<le> e' \<Longrightarrow> e' < e \<Longrightarrow> find_db B e' \<noteq> []"
proof -
  have "e0 \<le> e \<and> e < MAX_EVENT \<and> find_db B e = [] \<and> (\<forall>e'. e0 \<le> e' \<longrightarrow> e' < e \<longrightarrow> find_db B e' \<noteq> [])"
    using assms
  proof (induction B e0 rule: free_event.induct)
    case (1 B e0)
    show ?case
    proof (cases "e0 < MAX_EVENT \<and> find_db B e0 \<noteq> []")
      case True
      then have "free_event B (e0 + 1) = Some e" using 1(2) by (simp add: free_event.simps [of B e0])
      with 1 True have ih: "e0 + 1 \<le> e \<and> e < MAX_EVENT \<and> find_db B e = [] \<and> (\<forall>e'. e0 + 1 \<le> e' \<longrightarrow> e' < e \<longrightarrow> find_db B e' \<noteq> [])"
        by simp
      have "find_db B e' \<noteq> []" if "e0 \<le> e'" "e' < e" for e' using ih True that by (cases "e' = e0") auto
      then show ?thesis using ih by simp
    next
      case False
      then show ?thesis using 1(2) by (auto simp: free_event.simps [of B e0] split: if_splits)
    qed
  qed
  then show "e0 \<le> e" "e < MAX_EVENT" "find_db B e = []" "\<And>e'. e0 \<le> e' \<Longrightarrow> e' < e \<Longrightarrow> find_db B e' \<noteq> []" by blast+
qed

lemma free_event_None: "free_event B e0 = None \<longleftrightarrow> (\<forall>e. e0 \<le> e \<longrightarrow> e < MAX_EVENT \<longrightarrow> find_db B e \<noteq> [])"
proof (induction B e0 rule: free_event.induct)
  case (1 B e0)
  have step: "(\<forall>e. e0 \<le> e \<longrightarrow> e < MAX_EVENT \<longrightarrow> find_db B e \<noteq> []) \<longleftrightarrow>
      (e0 < MAX_EVENT \<longrightarrow> find_db B e0 \<noteq> []) \<and> (\<forall>e. e0 + 1 \<le> e \<longrightarrow> e < MAX_EVENT \<longrightarrow> find_db B e \<noteq> [])"
    by (metis order_less_le zless_imp_add1_zle add1_zle_eq order_refl)
  show ?case
    by (subst step, subst free_event.simps) (use 1 in \<open>auto\<close>)
qed

text \<open>What changing one chain does to the table.\<close>

lemma bell_at_chain:
  assumes ok: "bells_ok B" "chain_ok ns" and e: "0 \<le> e" "e < MAX_EVENT" and ns: "chain_map ns = (chain_map (B (HASH e)))(DEPTH e := v)"
  shows "bells_ok (B(HASH e := ns))" "bell_at (B(HASH e := ns)) = (bell_at B)(e := v)"
proof -
  show ok': "bells_ok (B(HASH e := ns))" using ok by (simp add: bells_ok_def)
  show "bell_at (B(HASH e := ns)) = (bell_at B)(e := v)"
  proof
    fix e'
    have "HASH e' = HASH e \<and> DEPTH e' = DEPTH e \<longleftrightarrow> e' = e" if "0 \<le> e'" "e' < MAX_EVENT"
      using event_parts [OF that] event_parts [OF e] by metis
    then show "bell_at (B(HASH e := ns)) e' = ((bell_at B)(e := v)) e'"
      using ns e by (auto simp: bell_at_def invoke_chain_map [OF ok(1)] invoke_chain_map [OF ok'])
  qed
qed

text \<open>
  An allocation on a table in order returns the lowest free event and adds it, or finds all events taken.
\<close>

lemma allocate_db_run:
  assumes ok: "bells_ok B"
  obtains (full) "allocate_db True c B = Val (- 1, B)" "\<And>e. 0 \<le> e \<Longrightarrow> e < MAX_EVENT \<Longrightarrow> bell_at B e \<noteq> None"
  | (new) e B' where "allocate_db True c B = Val (e, B')" "0 \<le> e" "e < MAX_EVENT" "bell_at B e = None"
      "\<And>e'. 0 \<le> e' \<Longrightarrow> e' < e \<Longrightarrow> bell_at B e' \<noteq> None" "bells_ok B'" "bell_at B' = (bell_at B)(e \<mapsto> c)"
proof (cases "free_event B 0")
  case None
  then have "allocate_db True c B = Val (- 1, B)" by (simp add: allocate_db_def)
  then show ?thesis using None full by (simp add: free_event_None bell_at_def invoke_None)
next
  case (Some e)
  note least = free_event_least [OF Some order_refl]
  let ?n = "\<lparr>db_callback = c, db_depth = DEPTH e\<rparr>"
  note parts = event_parts [OF least(1,2)]
  have free: "seek (DEPTH e) (B (HASH e)) = []" "bell_at B e = None" "\<And>e'. 0 \<le> e' \<Longrightarrow> e' < e \<Longrightarrow> bell_at B e' \<noteq> None"
    using least by (simp_all add: find_db_def bell_at_def invoke_None)
  have "\<exists>ns. allocate_db True c B = Val (e, B(HASH e := ns)) \<and> chain_ok ns \<and> chain_map ns = (chain_map (B (HASH e)))(DEPTH e \<mapsto> c)"
  proof (cases "DEPTH e = 0")
    case True
    have "B (HASH e) = []"
    proof (cases "B (HASH e)")
      case (Cons m ns)
      then have "db_depth m = 0" using ok by (auto simp: bells_ok_def chain_ok_def dest: spec [of _ "HASH e"])
      then show ?thesis using free(1) True Cons by simp
    qed
    then show ?thesis using True Some by (intro exI [of _ "[?n]"]) (auto simp: allocate_db_def chain_ok_def fun_eq_iff)
  next
    case False
    note below = event_below [OF least(1,2) False]
    from least(4) [OF below(3,4)] obtain odb t where odb: "seek (DEPTH e - 1) (B (HASH e)) = odb # t"
      by (cases "find_db B (e - MAX_HASH)") (auto simp: find_db_def below)
    have "chain_ok (B (HASH e))" using ok by (simp add: bells_ok_def)
    from chain_insert [OF this odb free(1), of ?n] parts False have
      "chain_ok (link_after (DEPTH e - 1) (?n # t) (B (HASH e)))"
      "chain_map (link_after (DEPTH e - 1) (?n # t) (B (HASH e))) = (chain_map (B (HASH e)))(DEPTH e \<mapsto> c)" by simp_all
    moreover have "allocate_db True c B = Val (e, B(HASH e := link_after (DEPTH e - 1) (?n # t) (B (HASH e))))"
      using Some False odb by (simp add: allocate_db_def Let_def find_db_def below)
    ultimately show ?thesis by blast
  qed
  then obtain ns where "allocate_db True c B = Val (e, B(HASH e := ns))" "chain_ok ns"
    "chain_map ns = (chain_map (B (HASH e)))(DEPTH e \<mapsto> c)" by blast
  with bell_at_chain [OF ok _ least(1,2)] free least(1,2) new show ?thesis by blast
qed

lemma deallocate_db_run:
  assumes ok: "bells_ok B" and e: "bell_at B e \<noteq> None" and may: "bell_removable B e"
  shows "\<exists>B'. deallocate_db e B = Val B' \<and> bells_ok B' \<and> bell_at B' = (bell_at B)(e := None)"
proof -
  have range: "0 \<le> e" "e < MAX_EVENT" and "invoke_db B e \<noteq> None" using e by (simp_all add: bell_at_def split: if_splits)
  then have "find_db B e \<noteq> []" by (simp only: invoke_None not_False_eq_True)
  then obtain n t where db: "seek (DEPTH e) (B (HASH e)) = n # t" by (cases "find_db B e") (auto simp: find_db_def)
  have c: "chain_ok (B (HASH e))" using ok by (simp add: bells_ok_def)
  have "\<exists>ns. deallocate_db e B = Val (B(HASH e := ns)) \<and> chain_ok ns \<and> chain_map ns = (chain_map (B (HASH e)))(DEPTH e := None)"
  proof (cases "DEPTH e = 0")
    case True
    with seek_found [OF db] c obtain p where p: "B (HASH e) = p @ n # t" "\<forall>x \<in> set p. db_depth x < 0" "db_depth n = 0" by auto
    with c have "p = []" by (cases p) (auto simp: chain_ok_def)
    with p may True have "B (HASH e) = [n]" by (simp add: bell_removable_def)
    then show ?thesis using True db p(3)
      by (intro exI [of _ "[]"]) (auto simp: deallocate_db_def find_db_def chain_ok_def fun_eq_iff)
  next
    case False
    note below = event_below [OF range False]
    from may False obtain odb u where odb: "seek (DEPTH e - 1) (B (HASH e)) = odb # u"
      by (cases "find_db B (e - MAX_HASH)") (auto simp: bell_removable_def find_db_def below)
    show ?thesis
      by (rule exI [of _ "link_after (DEPTH e - 1) t (B (HASH e))"])
        (use chain_delete [OF c odb db] event_parts(2) [OF range] False db odb in
          \<open>simp add: deallocate_db_def Let_def find_db_def below\<close>)
  qed
  with bell_at_chain [OF ok _ range] show ?thesis by blast
qed

interpretation net_bells: doorbells "doorbell_register True" doorbell_unregister bell_removable bell_at bells_ok
proof
  show "bells_ok s' \<and> bell_at s e = None \<and> bell_at s' = (bell_at s)(e \<mapsto> c)"
    if "bells_ok s" "doorbell_register True c s = Val (e, s')" "0 \<le> e" for s c e s'
    by (rule allocate_db_run [OF that(1), of c]) (use that(2,3) in \<open>simp_all add: doorbell_register_def\<close>)
  show "bells_ok s' \<and> bell_at s' = bell_at s"
    if "bells_ok s" "doorbell_register True c s = Val (e, s')" "e < 0" for s c e s'
    by (rule allocate_db_run [OF that(1), of c]) (use that in \<open>simp_all add: doorbell_register_def\<close>)
  show "\<exists>s'. doorbell_unregister e s = Val s' \<and> bells_ok s' \<and> bell_at s' = (bell_at s)(e := None)"
    if "bells_ok s" "bell_at s e \<noteq> None" "bell_removable s e" for s e
    using deallocate_db_run [OF that] by (simp add: doorbell_unregister_def)
qed


section \<open>Properties\<close>

lemma no_bells_ok [simp]: "bells_ok (\<lambda>_. [])" "bell_at (\<lambda>_. []) = Map.empty"
  by (auto simp: bells_ok_def chain_ok_def bell_at_def invoke_db_def find_db_def)

text \<open>C20: As long as events are registered and released in any order, a release only where the chain
  allows it, the callback that an arriving event runs is that of its present owner, and an event that
  nobody owns runs nothing. Hash chains and allocation are invisible.\<close>

theorem net_bells_ring_their_owner:
  assumes "bell_run (doorbell_register True) doorbell_unregister bell_removable (\<lambda>_. []) m B"
  shows "dom m \<subseteq> {0..<MAX_EVENT} \<and> (\<forall>e \<in> {0..<MAX_EVENT}. invoke_db B e = m e)"
proof -
  from net_bells.bells_of_run [OF assms] have m: "bell_at B = m" by simp
  then have "m e = (if 0 \<le> e \<and> e < MAX_EVENT then invoke_db B e else None)" for e by (auto simp: bell_at_def)
  then show ?thesis by (auto split: if_splits)
qed

theorem net_bells_ring_their_owner_witness:
  "\<exists>B. bell_run (doorbell_register True) doorbell_unregister bell_removable (\<lambda>_. [])
        ((Map.empty(0 \<mapsto> (7, 1), 1 \<mapsto> (8, 2)))(0 := None)) B
     \<and> invoke_db B 1 = Some (8, 2) \<and> invoke_db B 0 = None"
proof -
  let ?run = "bell_run (doorbell_register True) doorbell_unregister bell_removable (\<lambda>_. [])"
  let ?n0 = "\<lparr>db_callback = (7, 1), db_depth = 0\<rparr>" and ?n1 = "\<lparr>db_callback = (8, 2), db_depth = 0\<rparr>"
  let ?B1 = "(\<lambda>_. [])(0 := [?n0]) :: bells" and ?B2 = "(\<lambda>_. [])(0 := [?n0], 1 := [?n1]) :: bells"
  have parts: "HASH 0 = 0" "HASH 1 = 1" "DEPTH 0 = 0" "DEPTH 1 = 0" by (simp_all add: HASH_mod DEPTH_div)
  have f: "free_event (\<lambda>_. []) 0 = Some 0" "free_event ?B1 0 = Some 1"
    by (simp_all add: free_event.simps find_db_def parts)
  have "?run Map.empty (\<lambda>_. [])" by (rule bell_run.start)
  from bell_run.register [OF this, of "(7, 1)" 0 ?B1] f have "?run (Map.empty(0 \<mapsto> (7, 1))) ?B1"
    by (simp add: vfi_doorbell_register_def doorbell_register_def allocate_db_def parts Let_def)
  from bell_run.register [OF this, of "(8, 2)" 1 ?B2] f have "?run (Map.empty(0 \<mapsto> (7, 1), 1 \<mapsto> (8, 2))) ?B2"
    by (simp add: vfi_doorbell_register_def doorbell_register_def allocate_db_def parts Let_def)
  moreover have "bell_removable ?B2 0" by (simp add: bell_removable_def parts)
  moreover have "vfi_doorbell_unregister (Some (Some doorbell_unregister)) 0 ?B2 = Val (?B2(0 := []))"
    by (simp add: vfi_doorbell_unregister_def doorbell_unregister_def deallocate_db_def find_db_def parts Let_def)
  ultimately have "?run ((Map.empty(0 \<mapsto> (7, 1), 1 \<mapsto> (8, 2)))(0 := None)) (?B2(0 := []))"
    by (intro bell_run.unregister [of _ _ _ _ _ ?B2]) simp_all
  with net_bells_ring_their_owner [OF this] show ?thesis by auto
qed

text \<open>Registering returns the lowest event number that is free, and -1 without a change exactly when
  all 65536 are taken. Another registration never gets a number that is in use.\<close>

theorem allocate_takes_the_lowest:
  assumes "bells_ok B"
  shows "\<exists>e B'. allocate_db True c B = Val (e, B') \<and> bells_ok B'
    \<and> (if e = - 1 then B' = B \<and> (\<forall>e' \<in> {0..<MAX_EVENT}. bell_at B e' \<noteq> None)
       else e \<in> {0..<MAX_EVENT} \<and> bell_at B e = None \<and> (\<forall>e' \<in> {0..<e}. bell_at B e' \<noteq> None)
         \<and> bell_at B' = (bell_at B)(e \<mapsto> c))"
proof (rule allocate_db_run [OF assms, of c])
  assume "allocate_db True c B = Val (- 1, B)" "\<And>e. 0 \<le> e \<Longrightarrow> e < MAX_EVENT \<Longrightarrow> bell_at B e \<noteq> None"
  then show ?thesis using assms by auto
next
  fix e B'
  assume "allocate_db True c B = Val (e, B')" "0 \<le> e" "e < MAX_EVENT" "bell_at B e = None"
    "\<And>e'. 0 \<le> e' \<Longrightarrow> e' < e \<Longrightarrow> bell_at B e' \<noteq> None" "bells_ok B'" "bell_at B' = (bell_at B)(e \<mapsto> c)"
  then show ?thesis by (intro exI [of _ e] exI [of _ B']) auto
qed

theorem allocate_takes_the_lowest_witness:
  "\<exists>B'. allocate_db True (7, 1) (\<lambda>_. []) = Val (0, B') \<and> bell_at B' = Map.empty(0 \<mapsto> (7, 1))"
proof -
  have "allocate_db True (7, 1) (\<lambda>_. []) = Val (0, (\<lambda>_. [])(0 := [\<lparr>db_callback = (7, 1), db_depth = 0\<rparr>]))"
    by (simp add: allocate_db_def free_event.simps find_db_def HASH_mod DEPTH_div Let_def)
  with allocate_takes_the_lowest [OF no_bells_ok(1), of "(7, 1)"] show ?thesis by auto
qed

text \<open>Releasing the lowest event of a chain that goes on, and registering again, loses the rest of
  the chain: the same number is handed out, the events 256, 512, ... above it no longer ring, and
  releasing one of them is a null pointer access.\<close>

theorem reused_lowest_event_loses_its_chain:
  assumes ok: "bells_ok B" and e: "0 \<le> e" "e < 256" "\<forall>e' \<in> {0..e}. bell_at B e' \<noteq> None"
  shows "\<exists>B1 B2. deallocate_db e B = Val B1 \<and> allocate_db True c B1 = Val (e, B2)
    \<and> (\<forall>k \<in> {1..255}. bell_at B2 (e + 256 * k) = None \<and> deallocate_db (e + 256 * k) B2 = Undef)"
proof -
  have p: "HASH x = x" "DEPTH x = 0" if "0 \<le> x" "x \<le> e" for x using that e by (simp_all add: HASH_mod DEPTH_div)
  note pe = p [OF e(1) order_refl]
  have found: "seek 0 (B x) \<noteq> []" if "0 \<le> x" "x \<le> e" for x
  proof -
    from e(3) that have "bell_at B x \<noteq> None" by simp
    then have "invoke_db B x \<noteq> None" by (simp add: bell_at_def split: if_splits)
    then show ?thesis by (simp only: invoke_None) (simp add: find_db_def p [OF that])
  qed
  obtain n t where db: "seek 0 (B e) = n # t" using found [OF e(1) order_refl] by (cases "seek 0 (B e)") auto
  have c: "chain_ok (B e)" using ok by (simp add: bells_ok_def)
  from seek_found [OF db] obtain q where q: "B e = q @ n # t" "db_depth n = 0" "\<forall>x \<in> set q. db_depth x < 0" by blast
  with c have "\<forall>x \<in> set t. 0 < db_depth x" by (auto simp: chain_ok_def sorted_wrt_append)
  then have none: "seek 0 t = []" by (cases t) auto
  let ?B1 = "B(e := t)" and ?B2 = "B(e := [\<lparr>db_callback = c, db_depth = 0\<rparr>])"
  have d: "deallocate_db e B = Val ?B1" using db by (simp add: deallocate_db_def find_db_def pe Let_def)
  have "free_event ?B1 x = Some e" if "0 \<le> x" "x \<le> e" for x
    using that
  proof (induction "nat (e - x)" arbitrary: x)
    case 0
    then have x: "x = e" by simp
    show ?case unfolding x using none e(2) by (simp add: free_event.simps [of _ e] find_db_def pe)
  next
    case (Suc k)
    then have "free_event ?B1 (x + 1) = Some e" by (intro Suc(1)) auto
    then show ?case using found [OF Suc(3,4)] Suc e
      by (simp add: free_event.simps [of _ x] find_db_def p [OF Suc(3,4)])
  qed
  from this [of 0] e have a: "allocate_db True c ?B1 = Val (e, ?B2)" by (simp add: allocate_db_def pe Let_def)
  have "bell_at ?B2 (e + 256 * k) = None \<and> deallocate_db (e + 256 * k) ?B2 = Undef" if "k \<in> {1..255}" for k
  proof -
    have "HASH (e + 256 * k) = e" "DEPTH (e + 256 * k) = k" using that e by (simp_all add: HASH_mod DEPTH_div)
    then show ?thesis using that by (simp add: bell_at_def invoke_db_def deallocate_db_def find_db_def)
  qed
  with d a show ?thesis by blast
qed

theorem reused_lowest_event_loses_its_chain_witness:
  "let n = \<lambda>d. \<lparr>db_callback = (d, 0), db_depth = int d\<rparr>; B = (\<lambda>_. [])(0 := [n 0, n 1]) in
    bell_at B 256 = Some (1, 0) \<and> (\<exists>B1 B2. deallocate_db 0 B = Val B1 \<and> allocate_db True (9, 0) B1 = Val (0, B2) \<and> bell_at B2 256 = None)"
proof -
  let ?n = "\<lambda>d. \<lparr>db_callback = (d, 0), db_depth = int d\<rparr>"
  let ?B = "(\<lambda>_. [])(0 := [?n 0, ?n 1])"
  have ok: "bells_ok ?B" by (auto simp: bells_ok_def chain_ok_def)
  have z: "\<forall>e' \<in> {0..0}. bell_at ?B e' \<noteq> None" by (simp add: bell_at_def invoke_db_def find_db_def HASH_mod DEPTH_div)
  have one: "(1::int) \<in> {1..255}" by simp
  have b: "bell_at ?B 256 = Some (1, 0)" by (simp add: bell_at_def invoke_db_def find_db_def HASH_mod DEPTH_div)
  from reused_lowest_event_loses_its_chain [OF ok _ _ z, of "(9, 0)"] one b show ?thesis unfolding Let_def
    by (auto dest!: bspec [of _ _ "1"])
qed

end
