(* ===== verification/Vfi_Fabric_Net.thy ===== *)
theory Vfi_Fabric_Net
  imports Vfi_Rpc Vfi_Doorbell
begin

text \<open>
  The Ethernet back end, \<open>vfi_fabric_net.c\<close>: the table of the addresses of other nodes, the frame around
  a message or a doorbell, sending, receiving, and the registration of locations.

  The state is that of the calls (\<open>rpc\<close> of \<open>Vfi_Rpc\<close>, with the fabric addresses and their reference
  counts in its registry) and the tables of this back end. A \<open>fabric_address\<close> and the
  \<open>vfi_fabric_address\<close> inside it have the same number. Integers in a frame are in the byte order of the
  network, which is that of the driver's PowerPC target, so that \<open>htonl\<close> and \<open>ntohl\<close> change nothing.
\<close>

section \<open>Frames\<close>

definition be32 :: "u32 \<Rightarrow> u8 list" where
  "be32 w = [ucast (drop_bit 24 w), ucast (drop_bit 16 w), ucast (drop_bit 8 w), ucast w]"

definition be16 :: "u16 \<Rightarrow> u8 list" where
  "be16 w = [ucast (drop_bit 8 w), ucast w]"

definition of_be :: "u8 list \<Rightarrow> u32" where
  "of_be bs = foldl (\<lambda>w b. push_bit 8 w OR ucast b) 0 bs"

definition byte_char :: "u8 \<Rightarrow> char" where "byte_char b = char_of (unat b)"
definition char_byte :: "char \<Rightarrow> u8" where "char_byte c = of_nat (of_char c)"

abbreviation ETH_ALEN :: nat where "ETH_ALEN \<equiv> 6"

record vfihdr =
  h_dest :: "u8 list"
  h_source :: "u8 list"
  h_proto :: u16
  h_dstidx :: u32
  h_srcidx :: u32
  h_pkt_info :: u32

definition put_hdr :: "vfihdr \<Rightarrow> string" where
  "put_hdr h = map byte_char (h_dest h @ h_source h @ be16 (h_proto h) @ be32 (h_dstidx h) @ be32 (h_srcidx h) @ be32 (h_pkt_info h))"

abbreviation hdr_size :: nat where "hdr_size \<equiv> 26"

definition vfi_hdr :: "string \<Rightarrow> vfihdr" where
  "vfi_hdr f =
     (let bs = map char_byte (take hdr_size f); part = \<lambda>i n. take n (drop i bs)
      in \<lparr>h_dest = part 0 6, h_source = part 6 6, h_proto = ucast (of_be (part 12 2)),
          h_dstidx = of_be (part 14 4), h_srcidx = of_be (part 18 4), h_pkt_info = of_be (part 22 4)\<rparr>)"

definition VFI_FABRIC_IS_MSG :: "u32 \<Rightarrow> bool" where "VFI_FABRIC_IS_MSG hpi \<longleftrightarrow> hpi = 0"
definition VFI_FABRIC_IS_EVNT :: "u32 \<Rightarrow> bool" where "VFI_FABRIC_IS_EVNT hpi \<longleftrightarrow> hpi AND 0xffff = 1"
definition VFI_FABRIC_GET_EVNT :: "u32 \<Rightarrow> u32" where "VFI_FABRIC_GET_EVNT hpi = drop_bit 16 hpi AND 0xffff"
definition VFI_FABRIC_SET_EVNT :: "u32 \<Rightarrow> u32" where "VFI_FABRIC_SET_EVNT evnt = push_bit 16 (evnt AND 0xffff) OR 1"

section \<open>State\<close>

record fabric_address =
  hw_address :: "u8 list"
  fn_idx :: u32
  src_idx :: u32
  reg_loc :: "nat option"
  ndev :: "nat option"

record net_device =
  broadcast :: "u8 list"
  dev_addr :: "u8 list"

record net_loc =
  l_desc :: vfi_desc_param
  l_refs :: int

text \<open>
  A slot of \<open>address_table\<close> is a list: its head and the addresses linked behind it. The last two fields
  are the parameters \<open>netdev_type\<close> and \<open>netdev_name\<close> of the module.
\<close>

record net =
  address_table :: "nat \<Rightarrow> nat list"
  fnas :: "nat \<Rightarrow> fabric_address"
  fresh_fna :: nat
  bell_hash :: bells
  netdevs :: "nat \<Rightarrow> net_device"
  dev_get_by_name :: "string \<Rightarrow> nat option"
  locs :: "nat \<Rightarrow> net_loc"
  this_module :: nat
  netdev_type :: u16
  netdev_name :: string

abbreviation UNKNOWN_IDX :: u32 where "UNKNOWN_IDX \<equiv> 0"
abbreviation NET_XMIT_DROP :: errno where "NET_XMIT_DROP \<equiv> 1"

definition set_fna :: "nat \<Rightarrow> (fabric_address \<Rightarrow> fabric_address) \<Rightarrow> net \<Rightarrow> net" where
  "set_fna a u N = N\<lparr>fnas := (fnas N)(a := u (fnas N a))\<rparr>"

definition fna_ref :: "nat \<Rightarrow> int \<Rightarrow> rpc \<Rightarrow> rpc" where
  "fna_ref a d n = n\<lparr>regn := fab_ref a d (regn n)\<rparr>"

definition loc_ref :: "nat \<Rightarrow> int \<Rightarrow> net \<Rightarrow> net" where
  "loc_ref l d N = N\<lparr>locs := (locs N)(l := (locs N l)\<lparr>l_refs := l_refs (locs N l) + d\<rparr>)\<rparr>"

section \<open>The table of addresses\<close>

definition update_fabric_address ::
  "u32 \<Rightarrow> u8 list option \<Rightarrow> nat option \<Rightarrow> fabric_address \<Rightarrow> fabric_address" where
  "update_fabric_address sidx hw dev fp =
     (let fp1 = (case hw of None \<Rightarrow> fp | Some h \<Rightarrow> fp\<lparr>hw_address := h\<rparr>);
          fp2 = (case dev of None \<Rightarrow> fp1 | Some d \<Rightarrow> fp1\<lparr>ndev := Some d\<rparr>)
      in if sidx \<noteq> 0 then fp2\<lparr>src_idx := sidx\<rparr> else fp2)"

text \<open>\<open>ka\<close> answers the allocation, which is not checked. The new object has one reference.\<close>

definition new_fabric_address ::
  "bool \<Rightarrow> u32 \<Rightarrow> u32 \<Rightarrow> u8 list option \<Rightarrow> nat option \<Rightarrow> net \<Rightarrow> rpc \<Rightarrow> (nat \<times> net \<times> rpc) cres" where
  "new_fabric_address ka i sidx hw dev N n =
     (if \<not> ka then Undef
      else let a = fresh_fna N;
             fp = update_fabric_address sidx hw dev
                    \<lparr>hw_address = replicate ETH_ALEN 0, fn_idx = i, src_idx = 0, reg_loc = None, ndev = None\<rparr>
        in Val (a, N\<lparr>fresh_fna := Suc a, fnas := (fnas N)(a := fp)\<rparr>,
             n\<lparr>regn := (regn n)\<lparr>fabs := (fabs (regn n))(a :=
                \<lparr>fa_owner = this_module N, fa_has_get = True, fa_name = [], fa_refs = 1\<rparr>)\<rparr>\<rparr>))"

definition find_fabric_mac :: "u8 list option \<Rightarrow> net \<Rightarrow> rpc \<Rightarrow> nat option \<times> rpc" where
  "find_fabric_mac hw N n =
     (case hw of
        None \<Rightarrow> (None, n)
      | Some h \<Rightarrow>
          (case find (\<lambda>a. hw_address (fnas N a) = h) (concat (map (address_table N) [0..<16])) of
             None \<Rightarrow> (None, n)
           | Some a \<Rightarrow> (Some a, fna_ref a 1 n)))"

definition find_fabric_address ::
  "bool \<Rightarrow> u32 \<Rightarrow> u32 \<Rightarrow> u8 list option \<Rightarrow> nat option \<Rightarrow> net \<Rightarrow> rpc \<Rightarrow> (nat \<times> net \<times> rpc) cres" where
  "find_fabric_address ka i sidx hw dev N n =
     (let slot = unat (i AND 15) in
      if i = UNKNOWN_IDX then
        (case find_fabric_mac hw N n of
           (Some a, n) \<Rightarrow> Val (a, N, n)
         | (None, n) \<Rightarrow> new_fabric_address ka i 0 hw dev N n)
      else
        (case find (\<lambda>a. fn_idx (fnas N a) = i) (address_table N slot) of
           Some a \<Rightarrow> Val (a, set_fna a (update_fabric_address sidx hw dev) N, fna_ref a 1 n)
         | None \<Rightarrow>
             cres_bind (new_fabric_address ka i sidx hw dev N n) (\<lambda>(a, N, n).
               Val (a, N\<lparr>address_table := (address_table N)(slot := address_table N slot @ [a])\<rparr>, fna_ref a 1 n))))"

section \<open>Sending\<close>

text \<open>The header for an address; without the first four bytes of its MAC the frame is broadcast.\<close>

definition header :: "net \<Rightarrow> fabric_address \<Rightarrow> nat \<Rightarrow> u32 \<Rightarrow> vfihdr" where
  "header N fp d info =
     \<lparr>h_dest = (if take 4 (hw_address fp) \<noteq> replicate 4 0 then hw_address fp else broadcast (netdevs N d)),
      h_source = dev_addr (netdevs N d), h_proto = netdev_type N, h_dstidx = fn_idx fp, h_srcidx = src_idx fp, h_pkt_info = info\<rparr>"

text \<open>
  \<open>dev_queue_xmit\<close> takes the buffer over, whatever it returns: \<open>q\<close> is its answer, and what it has not
  dropped is on the wire.
\<close>

definition dev_queue_xmit :: "errno \<Rightarrow> nat \<Rightarrow> string \<Rightarrow> rpc \<Rightarrow> errno \<times> rpc" where
  "dev_queue_xmit q d f n = (q, if q = 0 then n\<lparr>wire := wire n @ [(d, f)]\<rparr> else n)"

definition fabric_transmit :: "net \<Rightarrow> errno \<Rightarrow> transmit" where
  "fabric_transmit N q a i n =
     (case skbs n i of
        None \<Rightarrow> Undef
      | Some m \<Rightarrow>
          cres_bind (free_skb i n) (\<lambda>n1.
            case ndev (fnas N a) of
              Some d \<Rightarrow> Val (dev_queue_xmit q d (put_hdr (header N (fnas N a) d 0) @ m) (fna_ref a (- 1) n1))
            | None \<Rightarrow> Val (NET_XMIT_DROP, fna_ref a (- 1) n1)))"

text \<open>A doorbell needs a buffer of its own: \<open>ks\<close>.\<close>

definition send_doorbell :: "net \<Rightarrow> errno \<Rightarrow> bool \<Rightarrow> nat \<Rightarrow> u32 \<Rightarrow> rpc \<Rightarrow> errno \<times> rpc" where
  "send_doorbell N q ks a db n =
     (if \<not> ks then (NET_XMIT_DROP, n)
      else case ndev (fnas N a) of
          Some d \<Rightarrow> dev_queue_xmit q d (put_hdr (header N (fnas N a) d (VFI_FABRIC_SET_EVNT db))) (fna_ref a (- 1) n)
        | None \<Rightarrow> (NET_XMIT_DROP, fna_ref a (- 1) n))"

section \<open>Receiving\<close>

text \<open>
  The C string that the rest of the driver sees in a buffer: up to the first \<open>NUL\<close>, which is added when
  the buffer has room for it (\<open>room\<close>).
\<close>

definition payload_text :: "bool \<Rightarrow> string \<Rightarrow> string cres" where
  "payload_text room p = (if room \<or> NUL \<in> set p then Val (takeWhile (\<lambda>c. c \<noteq> NUL) p) else Undef)"

text \<open>
  \<open>vfi_rx_packet\<close>, with the callback of an event as the last component. The text of the message replaces
  the frame in the buffer.
\<close>

definition rx_forget :: "nat \<Rightarrow> nat \<Rightarrow> callback option \<Rightarrow> net \<Rightarrow> rpc \<Rightarrow> (errno \<times> net \<times> rpc \<times> callback option) cres" where
  "rx_forget a i rung N n = cres_bind (free_skb i (fna_ref a (- 1) n)) (\<lambda>n. Val (NET_RX_DROP, N, n, rung))"

definition rx_stale :: "net \<Rightarrow> nat \<Rightarrow> u32 \<Rightarrow> bool" where
  "rx_stale N a dstidx \<longleftrightarrow>
     (case reg_loc (fnas N a) of None \<Rightarrow> False | Some l \<Rightarrow> dstidx \<noteq> 0 \<and> extent (l_desc (locs N l)) \<noteq> dstidx)"

definition vfi_rx_packet ::
  "bool \<Rightarrow> u32 option \<Rightarrow> bool \<Rightarrow> nat \<Rightarrow> nat \<Rightarrow> net \<Rightarrow> rpc \<Rightarrow> (errno \<times> net \<times> rpc \<times> callback option) cres" where
  "vfi_rx_packet ka kt room i dev N n =
     (case skbs n i of
        None \<Rightarrow> Undef
      | Some f \<Rightarrow>
         if length f < hdr_size then Undef
         else let h = vfi_hdr f in
           cres_bind (find_fabric_address ka (h_srcidx h) 0 (Some (h_source h)) (Some dev) N n) (\<lambda>(a, N, n).
             if rx_stale N a (h_dstidx h) then rx_forget a i None N n
             else if VFI_FABRIC_IS_MSG (h_pkt_info h) then
               cres_bind (payload_text room (drop hdr_size f)) (\<lambda>m.
                 cres_bind (vfi_fabric_receive kt a i (n\<lparr>skbs := (skbs n)(i \<mapsto> m)\<rparr>)) (\<lambda>(ret, n). Val (ret, N, n, None)))
             else rx_forget a i
               (if VFI_FABRIC_IS_EVNT (h_pkt_info h) then invoke_db (bell_hash N) (uint (VFI_FABRIC_GET_EVNT (h_pkt_info h))) else None)
               N n))"

section \<open>Locations\<close>

definition register_device :: "net \<Rightarrow> vfi_desc_param \<Rightarrow> nat option cres" where
  "register_device N d =
     cres_bind (vfi_get_option d ''netdev'') (\<lambda>opt.
       case opt of
         Some k \<Rightarrow> cres_bind (text_of d (Some k)) (\<lambda>nm. Val (dev_get_by_name N nm))
       | None \<Rightarrow>
           (case (case address d of None \<Rightarrow> None | Some old \<Rightarrow> ndev (fnas N old)) of
              Some dev \<Rightarrow> Val (Some dev)
            | None \<Rightarrow> Val (dev_get_by_name N (netdev_name N))))"

definition fabric_register :: "bool \<Rightarrow> nat \<Rightarrow> net \<Rightarrow> rpc \<Rightarrow> (errno \<times> net \<times> rpc) cres" where
  "fabric_register ka l N n =
     (let d = l_desc (locs N l) in
      cres_bind (register_device N d) (\<lambda>dev.
        case dev of
          None \<Rightarrow> Val (- ENODEV, N, n)
        | Some _ \<Rightarrow>
            cres_bind (find_fabric_address ka (ucast (offset d)) (extent d) None dev N n) (\<lambda>(a, N1, n1).
              let N2 = N1\<lparr>locs := (locs N1)(l := (locs N1 l)\<lparr>l_desc := d\<lparr>address := Some a\<rparr>\<rparr>)\<rparr>;
                  N3 = loc_ref l 1 (set_fna a (\<lambda>fp. fp\<lparr>reg_loc := Some l\<rparr>) N2)
              in case address d of
                   None \<Rightarrow> Undef
                 | Some old \<Rightarrow>
                     Val (0, (case reg_loc (fnas N3 old) of None \<Rightarrow> N3 | Some l' \<Rightarrow> loc_ref l' (- 1) N3), fna_ref old (- 1) n1))))"

definition fabric_unregister :: "nat \<Rightarrow> net \<Rightarrow> rpc \<Rightarrow> (net \<times> rpc) cres" where
  "fabric_unregister l N n =
     (case address (l_desc (locs N l)) of
        None \<Rightarrow> Undef
      | Some old \<Rightarrow> Val (loc_ref l (- 1) (set_fna old (\<lambda>fp. fp\<lparr>reg_loc := None\<rparr>) N), fna_ref old (- 1) n))"

text \<open>\<open>vfi_address_register\<close> and \<open>vfi_address_unregister\<close> of \<open>vfi_fabric.c\<close> for a location of this fabric.\<close>

definition vfi_address_register :: "bool \<Rightarrow> nat option \<Rightarrow> net \<Rightarrow> rpc \<Rightarrow> (errno \<times> net \<times> rpc) cres" where
  "vfi_address_register ka l N n =
     (case l of
        None \<Rightarrow> Val (- EINVAL, N, n)
      | Some l \<Rightarrow> if address (l_desc (locs N l)) = None then Val (- EINVAL, N, n) else fabric_register ka l N n)"

definition vfi_address_unregister :: "nat option \<Rightarrow> net \<Rightarrow> rpc \<Rightarrow> (net \<times> rpc) cres" where
  "vfi_address_unregister l N n =
     (case l of
        None \<Rightarrow> Val (N, n)
      | Some l \<Rightarrow> if address (l_desc (locs N l)) = None then Val (N, n) else fabric_unregister l N n)"

text \<open>
  \<open>fabric_net_init\<close>: the name is that of the back end in the registry of fabrics. The packet handler
  that it installs is \<open>vfi_rx_packet\<close>.
\<close>

definition fabric_net_init :: "bool \<Rightarrow> net \<Rightarrow> rpc \<Rightarrow> (errno \<times> net \<times> rpc) cres" where
  "fabric_net_init ka N n =
     cres_bind (new_fabric_address ka UNKNOWN_IDX 0 None None N n) (\<lambda>(a, N1, n1).
       let n2 = n1\<lparr>regn := (regn n1)\<lparr>fabs := (fabs (regn n1))(a := (fabs (regn n1) a)\<lparr>fa_name := ''vfi_fabric_net''\<rparr>)\<rparr>\<rparr>
       in case dev_get_by_name N (netdev_name N) of
            None \<Rightarrow> Val (- ENODEV, N1, n2)
          | Some d \<Rightarrow>
              let N2 = set_fna a (\<lambda>fp. fp\<lparr>ndev := Some d\<rparr>) N1; (ret, g) = vfi_fabric_register a (regn n2)
              in Val (ret, N2, n2\<lparr>regn := g\<rparr>))"

definition fabric_net_close :: "rpc \<Rightarrow> rpc" where
  "fabric_net_close n = n\<lparr>regn := vfi_fabric_unregister ''vfi_fabric_net'' (regn n)\<rparr>"


section \<open>Frames come back\<close>

lemma char_byte_char [simp]: "char_byte (byte_char b) = b"
proof -
  have "unat b mod 256 = unat b" using unsigned_less [of b, where 'a = nat] by simp
  then show ?thesis by (simp add: char_byte_def byte_char_def)
qed

lemma char_byte_map [simp]: "map char_byte (map byte_char bs) = bs"
  by (simp add: list.map_id comp_def flip: list.map_comp) (simp add: map_idI)?

lemma of_be32: "of_be (be32 w) = w"
proof (rule bit_word_eqI)
  fix k
  assume "k < LENGTH(32)"
  then consider "k < 8" | "8 \<le> k" "k < 16" | "16 \<le> k" "k < 24" | "24 \<le> k" "k < 32" by fastforce
  then show "bit (of_be (be32 w)) k = bit w k"
    by cases (auto simp: of_be_def be32_def bit_simps)
qed

lemma of_be16: "ucast (of_be (be16 w)) = w"
proof (rule bit_word_eqI)
  fix k
  assume "k < LENGTH(16)"
  then consider "k < 8" | "8 \<le> k" "k < 16" by fastforce
  then show "bit (ucast (of_be (be16 w)) :: u16) k = bit w k"
    by cases (auto simp: of_be_def be16_def bit_simps)
qed

lemma length_be [simp]: "length (be32 w) = 4" "length (be16 v) = 2"
  by (simp_all add: be32_def be16_def)

lemma vfi_hdr_put:
  assumes "length (h_dest h) = ETH_ALEN" "length (h_source h) = ETH_ALEN"
  shows "vfi_hdr (put_hdr h @ m) = h" "drop hdr_size (put_hdr h @ m) = m" "length (put_hdr h @ m) = hdr_size + length m"
proof -
  have len: "length (put_hdr h) = hdr_size" using assms by (simp add: put_hdr_def)
  then have bs: "map char_byte (take hdr_size (put_hdr h @ m))
      = h_dest h @ h_source h @ be16 (h_proto h) @ be32 (h_dstidx h) @ be32 (h_srcidx h) @ be32 (h_pkt_info h)"
    by (simp add: put_hdr_def comp_def)
  show "vfi_hdr (put_hdr h @ m) = h"
    unfolding vfi_hdr_def bs Let_def using assms by (simp add: of_be32 of_be16)
  show "drop hdr_size (put_hdr h @ m) = m" "length (put_hdr h @ m) = hdr_size + length m" using len by simp_all
qed

lemma ffff: "(0xffff :: u32) = mask 16"
  by (simp add: mask_eq_exp_minus_1)

lemma EVNT_trips:
  "VFI_FABRIC_IS_EVNT (VFI_FABRIC_SET_EVNT e)" "\<not> VFI_FABRIC_IS_MSG (VFI_FABRIC_SET_EVNT e)"
  "uint (VFI_FABRIC_GET_EVNT (VFI_FABRIC_SET_EVNT e)) = uint e mod MAX_EVENT"
proof -
  have one: "VFI_FABRIC_SET_EVNT e AND 0xffff = 1"
    by (rule bit_word_eqI) (auto simp: VFI_FABRIC_SET_EVNT_def ffff bit_simps)
  then show "VFI_FABRIC_IS_EVNT (VFI_FABRIC_SET_EVNT e)" by (simp add: VFI_FABRIC_IS_EVNT_def)
  from one show "\<not> VFI_FABRIC_IS_MSG (VFI_FABRIC_SET_EVNT e)" by (auto simp: VFI_FABRIC_IS_MSG_def)
  have "VFI_FABRIC_GET_EVNT (VFI_FABRIC_SET_EVNT e) = take_bit 16 e"
    by (rule bit_word_eqI) (auto simp: VFI_FABRIC_SET_EVNT_def VFI_FABRIC_GET_EVNT_def ffff bit_simps)
  then have "uint (VFI_FABRIC_GET_EVNT (VFI_FABRIC_SET_EVNT e)) = uint (take_bit 16 e)" by (rule arg_cong)
  also have "\<dots> = take_bit 16 (uint e)" by (rule unsigned_take_bit_eq)
  finally show "uint (VFI_FABRIC_GET_EVNT (VFI_FABRIC_SET_EVNT e)) = uint e mod MAX_EVENT" by (simp add: take_bit_eq_mod)
qed


section \<open>The back end is a transport\<close>

interpretation net_transport: transport "{fabric_transmit N q | N q. True}"
proof
  fix xmit a i n ret n'
  assume "xmit \<in> {fabric_transmit N q | N q. True}" and "xmit a i n = Val (ret, n')"
  then have "skbs n' = (skbs n)(i := None) \<and> same_calls n n'"
    by (auto simp: fabric_transmit_def free_skb_def dev_queue_xmit_def fna_ref_def same_calls_def split: option.splits if_splits)
  then show "same_calls n n' \<and> (\<exists>v. skbs n' = (skbs n)(i := v))" by blast
qed

text \<open>
  What a transmission does: the frame goes out, the reference that the caller has taken is given back.
  Whenever it fails, the buffer is gone already.
\<close>

lemma transmit_run:
  assumes "skbs n i = Some m"
  shows "ndev (fnas N a) = Some d \<Longrightarrow> fabric_transmit N q a i n = Val (q,
      (fna_ref a (- 1) n)\<lparr>skbs := (skbs n)(i := None),
        wire := (if q = 0 then wire n @ [(d, put_hdr (header N (fnas N a) d 0) @ m)] else wire n)\<rparr>)"
    and "ndev (fnas N a) = None \<Longrightarrow> fabric_transmit N q a i n = Val (NET_XMIT_DROP,
      (fna_ref a (- 1) n)\<lparr>skbs := (skbs n)(i := None)\<rparr>)"
  using assms by (simp_all add: fabric_transmit_def free_skb_def dev_queue_xmit_def fna_ref_def)

lemma fna_ref_twice: "fna_ref a (- 1) (n\<lparr>regn := fab_ref a 1 (regn n)\<rparr>) = n"
  by (simp add: fna_ref_def fab_ref_def)

section \<open>The table in order\<close>

text \<open>
  Every address is in the slot of its index, and no index has two. \<open>node_of\<close> is the map that the table
  represents.
\<close>

definition table_ok :: "net \<Rightarrow> bool" where
  "table_ok N \<longleftrightarrow> (\<forall>s. distinct (map (\<lambda>a. fn_idx (fnas N a)) (address_table N s))
     \<and> (\<forall>a \<in> set (address_table N s). fn_idx (fnas N a) \<noteq> UNKNOWN_IDX \<and> unat (fn_idx (fnas N a) AND 15) = s \<and> a < fresh_fna N))"

definition node_of :: "net \<Rightarrow> u32 \<Rightarrow> nat option" where
  "node_of N i = find (\<lambda>a. fn_idx (fnas N a) = i) (address_table N (unat (i AND 15)))"

lemma node_of_Some: "node_of N i = Some a \<Longrightarrow> fn_idx (fnas N a) = i \<and> a \<in> set (address_table N (unat (i AND 15)))"
  by (auto simp: node_of_def find_Some_iff)

lemma update_fields [simp]: "fn_idx (update_fabric_address s hw dev fp) = fn_idx fp" "reg_loc (update_fabric_address s hw dev fp) = reg_loc fp"
  "ndev (update_fabric_address s hw (Some d) fp) = Some d" "hw_address (update_fabric_address s (Some h) dev fp) = h"
  by (auto simp: update_fabric_address_def Let_def split: option.splits)

lemma find_fabric_address_run:
  assumes ok: "table_ok N" and i: "i \<noteq> UNKNOWN_IDX"
  obtains (known) a where "node_of N i = Some a"
      "find_fabric_address True i s hw dev N n = Val (a, set_fna a (update_fabric_address s hw dev) N, fna_ref a 1 n)"
      "table_ok (set_fna a (update_fabric_address s hw dev) N)" "node_of (set_fna a (update_fabric_address s hw dev) N) = node_of N"
  | (fresh) N' n' where "node_of N i = None" "find_fabric_address True i s hw dev N n = Val (fresh_fna N, N', n')"
      "table_ok N'" "node_of N' = (node_of N)(i \<mapsto> fresh_fna N)" "\<And>b. b \<noteq> fresh_fna N \<Longrightarrow> fnas N' b = fnas N b"
      "fnas N' (fresh_fna N) = update_fabric_address s hw dev \<lparr>hw_address = replicate ETH_ALEN 0, fn_idx = i, src_idx = 0, reg_loc = None, ndev = None\<rparr>"
      "locs N' = locs N" "bell_hash N' = bell_hash N" "netdevs N' = netdevs N"
      "n' = n\<lparr>regn := (regn n)\<lparr>fabs := (fabs (regn n))(fresh_fna N :=
          \<lparr>fa_owner = this_module N, fa_has_get = True, fa_name = [], fa_refs = 2\<rparr>)\<rparr>\<rparr>"
proof (cases "node_of N i")
  case (Some a)
  let ?N = "set_fna a (update_fabric_address s hw dev) N"
  have same: "fn_idx (fnas ?N b) = fn_idx (fnas N b)" "address_table ?N = address_table N" "fresh_fna ?N = fresh_fna N" for b
    by (simp_all add: set_fna_def)
  have "table_ok ?N" using ok by (simp add: table_ok_def same)
  moreover have "node_of ?N = node_of N" by (simp add: node_of_def same fun_eq_iff)
  moreover have "find_fabric_address True i s hw dev N n = Val (a, ?N, fna_ref a 1 n)"
    using Some i by (simp add: find_fabric_address_def node_of_def)
  ultimately show ?thesis using known Some by blast
next
  case None
  let ?a = "fresh_fna N" and ?s = "unat (i AND 15)"
  let ?fp = "update_fabric_address s hw dev \<lparr>hw_address = replicate ETH_ALEN 0, fn_idx = i, src_idx = 0, reg_loc = None, ndev = None\<rparr>"
  let ?N = "N\<lparr>fresh_fna := Suc ?a, fnas := (fnas N)(?a := ?fp), address_table := (address_table N)(?s := address_table N ?s @ [?a])\<rparr>"
  let ?n = "n\<lparr>regn := (regn n)\<lparr>fabs := (fabs (regn n))(?a := \<lparr>fa_owner = this_module N, fa_has_get = True, fa_name = [], fa_refs = 2\<rparr>)\<rparr>\<rparr>"
  have run: "find_fabric_address True i s hw dev N n = Val (?a, ?N, ?n)"
    using None i by (simp add: find_fabric_address_def node_of_def new_fabric_address_def Let_def fna_ref_def fab_ref_def)
  have old: "a < ?a" if "a \<in> set (address_table N t)" for a t using ok that by (simp add: table_ok_def)
  have none: "fn_idx (fnas N a) \<noteq> i" if "a \<in> set (address_table N ?s)" for a
    using None that by (auto simp: node_of_def find_None_iff)
  have keep: "map (\<lambda>a. fn_idx (fnas ?N a)) (address_table N t) = map (\<lambda>a. fn_idx (fnas N a)) (address_table N t)" for t
    using old by (auto simp: less_imp_neq)
  have "table_ok ?N" unfolding table_ok_def
  proof (intro allI conjI ballI)
    fix t
    have "distinct (map (\<lambda>a. fn_idx (fnas N a)) (address_table N t))" using ok by (simp add: table_ok_def)
    then have d: "distinct (map (\<lambda>a. fn_idx (fnas ?N a)) (address_table N t))" unfolding keep .
    have "i \<notin> set (map (\<lambda>a. fn_idx (fnas ?N a)) (address_table N ?s))" unfolding keep using none by auto
    with d show "distinct (map (\<lambda>a. fn_idx (fnas ?N a)) (address_table ?N t))"
      by (cases "t = ?s") simp_all
    fix a
    assume a: "a \<in> set (address_table ?N t)"
    have e: "fn_idx (fnas ?N a) = fn_idx (fnas N a)" if "a \<in> set (address_table N t)" using old [OF that] by simp
    consider "a \<in> set (address_table N t)" | "a = ?a" "t = ?s" using a by (auto split: if_splits)
    then show "fn_idx (fnas ?N a) \<noteq> UNKNOWN_IDX" "unat (fn_idx (fnas ?N a) AND 15) = t" "a < fresh_fna ?N"
    proof (atomize (full), cases)
      case 1
      then show "fn_idx (fnas ?N a) \<noteq> UNKNOWN_IDX \<and> unat (fn_idx (fnas ?N a) AND 15) = t \<and> a < fresh_fna ?N"
        unfolding e [OF 1] using ok less_SucI [OF old [OF 1]] 1 by (simp add: table_ok_def)
    qed (use i in simp)
  qed
  moreover have "node_of ?N = (node_of N)(i \<mapsto> ?a)"
  proof
    fix j
    have f: "find (\<lambda>a. fn_idx (fnas ?N a) = j) (address_table N t) = find (\<lambda>a. fn_idx (fnas N a) = j) (address_table N t)" for t
      by (rule find_cong) (use old in \<open>auto simp: less_imp_neq\<close>)
    have last: "find (\<lambda>a. fn_idx (fnas ?N a) = j) [?a] = (if i = j then Some ?a else None)" by simp
    have app: "find P (xs @ ys) = (case find P xs of None \<Rightarrow> find P ys | Some x \<Rightarrow> Some x)" for P :: "nat \<Rightarrow> bool" and xs ys
      by (induction xs) auto
    show "node_of ?N j = ((node_of N)(i \<mapsto> ?a)) j"
    proof (cases "unat (j AND 15) = ?s")
      case True
      have "node_of ?N j = (case find (\<lambda>a. fn_idx (fnas ?N a) = j) (address_table N ?s) of
          None \<Rightarrow> find (\<lambda>a. fn_idx (fnas ?N a) = j) [?a] | Some x \<Rightarrow> Some x)"
        unfolding node_of_def True app [symmetric] by simp
      also have "\<dots> = (case node_of N j of None \<Rightarrow> if i = j then Some ?a else None | Some x \<Rightarrow> Some x)"
        unfolding f last node_of_def True ..
      finally show ?thesis using None by (auto split: option.splits)
    next
      case False
      then have "j \<noteq> i" by auto
      have "node_of ?N j = find (\<lambda>a. fn_idx (fnas ?N a) = j) (address_table N (unat (j AND 15)))"
        using False unfolding node_of_def by simp
      then show ?thesis using \<open>j \<noteq> i\<close> unfolding f node_of_def by simp
    qed
  qed
  ultimately show ?thesis by (intro fresh [OF None run]) simp_all
qed


section \<open>Properties\<close>

text \<open>The table keeps one address per node: looking up the address of an index always gives one with
  that index, in a table in order; what the table gives for the other indices stays as it is, and the
  index gets a new address only if it had none. The caller gets a reference.\<close>

theorem one_address_per_node:
  assumes "table_ok N" and "i \<noteq> UNKNOWN_IDX"
  shows "\<exists>a N' n'. find_fabric_address True i s hw dev N n = Val (a, N', n') \<and> table_ok N'
    \<and> node_of N' = (node_of N)(i \<mapsto> a) \<and> fn_idx (fnas N' a) = i \<and> a = (case node_of N i of Some b \<Rightarrow> b | None \<Rightarrow> fresh_fna N)
    \<and> (\<forall>b. b \<noteq> a \<longrightarrow> fnas N' b = fnas N b \<and> fabs (regn n') b = fabs (regn n) b)
    \<and> fa_refs (fabs (regn n') a) = (case node_of N i of Some b \<Rightarrow> fa_refs (fabs (regn n) b) + 1 | None \<Rightarrow> 2)"
proof (rule find_fabric_address_run [OF assms, of s hw dev n])
  fix a
  let ?N = "set_fna a (update_fabric_address s hw dev) N"
  assume k: "node_of N i = Some a" "find_fabric_address True i s hw dev N n = Val (a, ?N, fna_ref a 1 n)"
    "table_ok ?N" "node_of ?N = node_of N"
  then have "node_of ?N = (node_of N)(i \<mapsto> a)" by auto
  moreover have "fn_idx (fnas ?N a) = i" using node_of_Some [OF k(1)] by (simp add: set_fna_def)
  ultimately show ?thesis using k by (intro exI [of _ a] exI [of _ ?N]) (auto simp: set_fna_def fna_ref_def fab_ref_def)
next
  fix N' n'
  assume f: "node_of N i = None" "find_fabric_address True i s hw dev N n = Val (fresh_fna N, N', n')"
      "table_ok N'" "node_of N' = (node_of N)(i \<mapsto> fresh_fna N)" "\<And>b. b \<noteq> fresh_fna N \<Longrightarrow> fnas N' b = fnas N b"
      "fnas N' (fresh_fna N) = update_fabric_address s hw dev \<lparr>hw_address = replicate ETH_ALEN 0, fn_idx = i, src_idx = 0, reg_loc = None, ndev = None\<rparr>"
      "n' = n\<lparr>regn := (regn n)\<lparr>fabs := (fabs (regn n))(fresh_fna N :=
          \<lparr>fa_owner = this_module N, fa_has_get = True, fa_name = [], fa_refs = 2\<rparr>)\<rparr>\<rparr>"
  then show ?thesis by (intro exI [of _ "fresh_fna N"] exI [of _ N'] exI [of _ n']) simp
qed

definition demo_net :: net where
  "demo_net = \<lparr>address_table = (\<lambda>_. []), fnas = (\<lambda>_. \<lparr>hw_address = replicate ETH_ALEN 0, fn_idx = 2, src_idx = 1, reg_loc = None, ndev = Some 0\<rparr>),
     fresh_fna = 1, bell_hash = (\<lambda>_. []), netdevs = (\<lambda>_. \<lparr>broadcast = replicate ETH_ALEN 0xff, dev_addr = [0, 1, 2, 3, 4, 5]\<rparr>),
     dev_get_by_name = (\<lambda>_. Some 0), locs = (\<lambda>_. \<lparr>l_desc = zero_desc, l_refs = 1\<rparr>), this_module = 0, netdev_type = 0xfeed,
     netdev_name = ''eth0''\<rparr>"

definition demo_rpc :: rpc where
  "demo_rpc = \<lparr>tags = (\<lambda>_. None), skbs = (\<lambda>_. None)(0 \<mapsto> ''hello''), fresh_skb = 1, regn = demo_registry, wire = [], works = [], waiting = [], rx = []\<rparr>"

lemma demo_net_ok: "table_ok demo_net" "node_of demo_net i = None" "fresh_fna demo_net = 1"
  by (simp_all add: table_ok_def demo_net_def node_of_def)

theorem one_address_per_node_witness:
  "\<exists>N' n'. find_fabric_address True 18 1 None None demo_net demo_rpc = Val (1, N', n') \<and> table_ok N' \<and> node_of N' 18 = Some 1"
proof -
  have "(18 :: u32) \<noteq> UNKNOWN_IDX" by simp
  from one_address_per_node [OF demo_net_ok(1) this, of 1 None None demo_rpc] show ?thesis
    by (auto simp: demo_net_ok(2,3))
qed

text \<open>C23: A message crosses the network. What \<open>fabric_transmit\<close> hands to the device makes the other node
  look up the sender by its index, note the sender's MAC and the device that it came from, and pass the
  same text to \<open>vfi_fabric_receive\<close>, unless the frame is meant for another index than the one under
  which the sender knows this node. An answer to that address goes to the sender's MAC and index.\<close>

theorem message_crosses:
  assumes wf: "length (hw_address (fnas A a)) = ETH_ALEN" "length (broadcast (netdevs A d)) = ETH_ALEN" "length (dev_addr (netdevs A d)) = ETH_ALEN"
    and dev: "ndev (fnas A a) = Some d" and m: "skbs n i = Some m" "NUL \<notin> set m"
    and B: "table_ok B" "src_idx (fnas A a) \<noteq> UNKNOWN_IDX"
  shows "\<exists>f n' b B' g. fabric_transmit A 0 a i n = Val (0, n') \<and> wire n' = wire n @ [(d, f)] \<and> skbs n' i = None
    \<and> node_of B' (src_idx (fnas A a)) = Some b \<and> table_ok B'
    \<and> vfi_rx_packet True kt True j e B (k\<lparr>skbs := (skbs k)(j \<mapsto> f)\<rparr>) =
        (if rx_stale B' b (fn_idx (fnas A a)) then rx_forget b j None B' (k\<lparr>skbs := (skbs k)(j \<mapsto> f), regn := g\<rparr>)
         else cres_bind (vfi_fabric_receive kt b j (k\<lparr>regn := g, skbs := (skbs k)(j \<mapsto> m)\<rparr>)) (\<lambda>(ret, n). Val (ret, B', n, None)))
    \<and> h_dstidx (header B' (fnas B' b) e 0) = src_idx (fnas A a)
    \<and> h_dest (header B' (fnas B' b) e 0) =
        (if take 4 (dev_addr (netdevs A d)) \<noteq> replicate 4 0 then dev_addr (netdevs A d) else broadcast (netdevs B' e))"
proof -
  let ?h = "header A (fnas A a) d 0" and ?s = "src_idx (fnas A a)"
  let ?f = "put_hdr ?h @ m" and ?mac = "dev_addr (netdevs A d)"
  have len: "length (h_dest ?h) = ETH_ALEN" "length (h_source ?h) = ETH_ALEN" using wf by (simp_all add: header_def)
  note hdr = vfi_hdr_put [OF len, of m]
  have fields: "h_srcidx ?h = ?s" "h_source ?h = ?mac" "h_dstidx ?h = fn_idx (fnas A a)" "h_pkt_info ?h = 0" by (simp_all add: header_def)
  note tx = transmit_run(1) [OF m(1) dev, of 0]
  let ?k = "k\<lparr>skbs := (skbs k)(j \<mapsto> ?f)\<rparr>"
  from one_address_per_node [OF B, of 0 "Some ?mac" "Some e" ?k]
  obtain b B' k' where find: "find_fabric_address True ?s 0 (Some ?mac) (Some e) B ?k = Val (b, B', k')" "table_ok B'" "node_of B' ?s = Some b"
    by auto
  have b: "\<exists>g. k' = ?k\<lparr>regn := g\<rparr> \<and> hw_address (fnas B' b) = ?mac"
    by (rule find_fabric_address_run [OF B, of 0 "Some ?mac" "Some e" ?k])
      (use find(1) in \<open>auto simp: set_fna_def fna_ref_def\<close>)
  then obtain g where g: "k' = ?k\<lparr>regn := g\<rparr>" "hw_address (fnas B' b) = ?mac" by blast
  have msg: "payload_text True m = Val m" using m(2) by (simp add: payload_text_def takeWhile_neq_id)
  have rx: "vfi_rx_packet True kt True j e B ?k =
        (if rx_stale B' b (fn_idx (fnas A a)) then rx_forget b j None B' (?k\<lparr>regn := g\<rparr>)
         else cres_bind (vfi_fabric_receive kt b j (k\<lparr>regn := g, skbs := (skbs k)(j \<mapsto> m)\<rparr>)) (\<lambda>(ret, n). Val (ret, B', n, None)))"
    unfolding vfi_rx_packet_def Let_def using hdr find(1) msg by (simp add: fields g(1) VFI_FABRIC_IS_MSG_def)
  have ans: "h_dstidx (header B' (fnas B' b) e 0) = ?s" using node_of_Some [OF find(3)] by (simp add: header_def)
  have dest: "h_dest (header B' (fnas B' b) e 0) = (if take 4 ?mac \<noteq> replicate 4 0 then ?mac else broadcast (netdevs B' e))"
    by (simp add: header_def g(2))
  let ?n' = "(fna_ref a (- 1) n)\<lparr>skbs := (skbs n)(i := None), wire := wire n @ [(d, ?f)]\<rparr>"
  have "fabric_transmit A 0 a i n = Val (0, ?n')" using tx by simp
  then show ?thesis using find(2,3) rx ans dest
    by (intro exI [of _ ?f] exI [of _ ?n'] exI [of _ b] exI [of _ B'] exI [of _ g] conjI) simp_all
qed


theorem message_crosses_witness:
  "\<exists>f n' B' b g. fabric_transmit demo_net 0 7 0 demo_rpc = Val (0, n') \<and> wire n' = [(0, f)] \<and> node_of B' 1 = Some b
    \<and> vfi_rx_packet True (Some 64) True 3 0 demo_net (demo_rpc\<lparr>skbs := (skbs demo_rpc)(3 \<mapsto> f)\<rparr>) =
        (if rx_stale B' b 2 then rx_forget b 3 None B' (demo_rpc\<lparr>skbs := (skbs demo_rpc)(3 \<mapsto> f), regn := g\<rparr>)
         else cres_bind (vfi_fabric_receive (Some 64) b 3 (demo_rpc\<lparr>regn := g, skbs := (skbs demo_rpc)(3 \<mapsto> ''hello'')\<rparr>))
           (\<lambda>(ret, n). Val (ret, B', n, None)))"
proof -
  have wf: "length (hw_address (fnas demo_net 7)) = ETH_ALEN" "length (broadcast (netdevs demo_net 0)) = ETH_ALEN"
      "length (dev_addr (netdevs demo_net 0)) = ETH_ALEN" "ndev (fnas demo_net 7) = Some 0" "skbs demo_rpc 0 = Some ''hello''"
      "NUL \<notin> set ''hello''" "src_idx (fnas demo_net 7) \<noteq> UNKNOWN_IDX"
    and v: "wire demo_rpc = []" "src_idx (fnas demo_net 7) = 1" "fn_idx (fnas demo_net 7) = 2"
    by (simp_all add: demo_net_def demo_rpc_def)
  from message_crosses [OF wf(1-6) demo_net_ok(1) wf(7), of "Some 64" 3 0 demo_rpc]
  show ?thesis unfolding v append_Nil by blast
qed

text \<open>A doorbell crosses the network. The frame that \<open>send_doorbell\<close> sends makes the other node run
  the callback of that event, the low 16 bits of the number, free the buffer and keep no reference; if
  the sender's address is known there under another index than the frame's, it is dropped.\<close>

theorem doorbell_crosses:
  assumes wf: "length (hw_address (fnas A a)) = ETH_ALEN" "length (broadcast (netdevs A d)) = ETH_ALEN" "length (dev_addr (netdevs A d)) = ETH_ALEN"
    and dev: "ndev (fnas A a) = Some d" and B: "table_ok B" "src_idx (fnas A a) \<noteq> UNKNOWN_IDX"
  shows "\<exists>f b B' k'. wire (snd (send_doorbell A 0 True a db n)) = wire n @ [(d, f)]
    \<and> node_of B' (src_idx (fnas A a)) = Some b \<and> table_ok B'
    \<and> vfi_rx_packet True kt room j e B (k\<lparr>skbs := (skbs k)(j \<mapsto> f)\<rparr>) = Val (NET_RX_DROP, B', k',
        if rx_stale B' b (fn_idx (fnas A a)) then None else invoke_db (bell_hash B) (uint db mod MAX_EVENT))
    \<and> skbs k' = (skbs k)(j := None)
    \<and> fa_refs (fabs (regn k') b) = (case node_of B (src_idx (fnas A a)) of Some _ \<Rightarrow> fa_refs (fabs (regn k) b) | None \<Rightarrow> 1)"
proof -
  let ?h = "header A (fnas A a) d (VFI_FABRIC_SET_EVNT db)" and ?s = "src_idx (fnas A a)"
  let ?f = "put_hdr ?h" and ?mac = "dev_addr (netdevs A d)"
  have len: "length (h_dest ?h) = ETH_ALEN" "length (h_source ?h) = ETH_ALEN" using wf by (simp_all add: header_def)
  note hdr = vfi_hdr_put [OF len, of "[]", simplified]
  have fields: "h_srcidx ?h = ?s" "h_source ?h = ?mac" "h_dstidx ?h = fn_idx (fnas A a)" "h_pkt_info ?h = VFI_FABRIC_SET_EVNT db"
    by (simp_all add: header_def)
  let ?k = "k\<lparr>skbs := (skbs k)(j \<mapsto> ?f)\<rparr>"
  obtain b B' k1 where find: "find_fabric_address True ?s 0 (Some ?mac) (Some e) B ?k = Val (b, B', k1)" "table_ok B'" "node_of B' ?s = Some b"
      "bell_hash B' = bell_hash B" "skbs k1 = skbs ?k"
      "fa_refs (fabs (regn k1) b) = (case node_of B ?s of Some _ \<Rightarrow> fa_refs (fabs (regn k) b) + 1 | None \<Rightarrow> 2)"
    by (rule find_fabric_address_run [OF B, of 0 "Some ?mac" "Some e" ?k]) (auto simp: set_fna_def fna_ref_def fab_ref_def)
  let ?k' = "(fna_ref b (- 1) k1)\<lparr>skbs := (skbs k)(j := None)\<rparr>"
  have forget: "rx_forget b j r B' k1 = Val (NET_RX_DROP, B', ?k', r)" for r
    using find(5) by (simp add: rx_forget_def free_skb_def fna_ref_def)
  have "vfi_rx_packet True kt room j e B ?k = Val (NET_RX_DROP, B', ?k',
        if rx_stale B' b (fn_idx (fnas A a)) then None else invoke_db (bell_hash B) (uint db mod MAX_EVENT))"
    unfolding vfi_rx_packet_def Let_def using hdr find(1,4) EVNT_trips [of db] by (simp add: fields forget)
  moreover have "wire (snd (send_doorbell A 0 True a db n)) = wire n @ [(d, ?f)]"
    using dev by (simp add: send_doorbell_def dev_queue_xmit_def fna_ref_def)
  moreover have "fa_refs (fabs (regn ?k') b) = (case node_of B ?s of Some _ \<Rightarrow> fa_refs (fabs (regn k) b) | None \<Rightarrow> 1)"
    using find(6) by (simp add: fna_ref_def fab_ref_def split: option.splits)
  ultimately show ?thesis using find(2,3) by (intro exI [of _ ?f] exI [of _ b] exI [of _ B'] exI [of _ ?k']) simp
qed


theorem doorbell_crosses_witness:
  "\<exists>f b B' k'. wire (snd (send_doorbell demo_net 0 True 7 0x10005 demo_rpc)) = [(0, f)]
    \<and> vfi_rx_packet True None False 3 0 demo_net (demo_rpc\<lparr>skbs := (skbs demo_rpc)(3 \<mapsto> f)\<rparr>) = Val (NET_RX_DROP, B', k',
        if rx_stale B' b 2 then None else invoke_db (bell_hash demo_net) 5)"
proof -
  have wf: "length (hw_address (fnas demo_net 7)) = ETH_ALEN" "length (broadcast (netdevs demo_net 0)) = ETH_ALEN"
      "length (dev_addr (netdevs demo_net 0)) = ETH_ALEN" "ndev (fnas demo_net 7) = Some 0" "src_idx (fnas demo_net 7) \<noteq> UNKNOWN_IDX"
    and v: "wire demo_rpc = []" "fn_idx (fnas demo_net 7) = 2" "uint (0x10005 :: u32) mod MAX_EVENT = 5"
    by (simp_all add: demo_net_def demo_rpc_def)
  from doorbell_crosses [OF wf(1-4) demo_net_ok(1) wf(5), of "0x10005" demo_rpc None False 3 0 demo_rpc]
  show ?thesis unfolding v append_Nil by blast
qed

text \<open>Nobody takes the reference that \<open>send_doorbell\<close> gives back: each doorbell costs the address of the
  other node one.\<close>

theorem doorbells_use_up_references:
  assumes "\<And>a. ndev (fnas N a) \<noteq> None"
  shows "fa_refs (fabs (regn (fold (\<lambda>db n. snd (send_doorbell N q True a db n)) dbs n)) a) = fa_refs (fabs (regn n) a) - int (length dbs)"
proof (induction dbs arbitrary: n)
  case (Cons db dbs)
  have "fa_refs (fabs (regn (snd (send_doorbell N q True a db n))) a) = fa_refs (fabs (regn n) a) - 1"
    using assms [of a] by (auto simp: send_doorbell_def dev_queue_xmit_def fna_ref_def fab_ref_def)
  then show ?case using Cons.IH [of "snd (send_doorbell N q True a db n)"] by simp
qed simp

text \<open>Handing a buffer to the network goes well exactly when the device takes the frame: then the
  frame is on the wire, the buffer is gone, and every reference is given back. In every other case
  \<open>vfi_fabric_tx\<close> frees the buffer after the back end has done so.\<close>

theorem failed_transmit_frees_twice:
  assumes "skbs n i = Some m" and "fa_has_get (fabs (regn n) a)"
  shows "vfi_fabric_tx (fabric_transmit N q) (Some a) i n =
    (case ndev (fnas N a) of
       Some d \<Rightarrow> if q = 0 then Val (0, n\<lparr>skbs := (skbs n)(i := None), wire := wire n @ [(d, put_hdr (header N (fnas N a) d 0) @ m)]\<rparr>)
         else Undef
     | None \<Rightarrow> Undef)"
proof -
  let ?n = "n\<lparr>regn := fab_ref a 1 (regn n)\<rparr>"
  have m: "skbs ?n i = Some m" using assms(1) by simp
  have refs: "fab_ref a (- 1) (fab_ref a 1 (regn n)) = regn n" by (simp add: fab_ref_def)
  show ?thesis
  proof (cases "ndev (fnas N a)")
    case None
    then show ?thesis using transmit_run(2) [OF m None, of q] assms(2)
      by (simp add: vfi_fabric_tx_def free_skb_def fna_ref_def)
  next
    case (Some d)
    then show ?thesis using transmit_run(1) [OF m Some, of q] assms(2) refs
      by (simp add: vfi_fabric_tx_def free_skb_def fna_ref_def)
  qed
qed

theorem failed_transmit_frees_twice_witness:
  "vfi_fabric_tx (fabric_transmit demo_net 1) (Some 7) 0
     (demo_rpc\<lparr>regn := (regn demo_rpc)\<lparr>fabs := \<lambda>_. \<lparr>fa_owner = 0, fa_has_get = True, fa_name = [], fa_refs = 1\<rparr>\<rparr>\<rparr>) = Undef"
  by (subst failed_transmit_frees_twice [of _ _ "''hello''"]) (simp_all add: demo_rpc_def demo_net_def)

text \<open>C22: A caller that sleeps is always able to return, whatever calls, messages, replies and work items
  have come in between, in any order: with a reply that names its own tag and that nobody else holds, or
  with \<open>-EIO\<close>.\<close>

theorem every_call_returns:
  assumes "rpc_run {fabric_transmit N q | N q. True} n0 n" "idle n0" "a \<in> set (waiting n)"
  shows "\<exists>ret r n'. fabric_call_return a n = Val (ret, r, n')
    \<and> (case r of
         None \<Rightarrow> ret = - EIO
       | Some i \<Rightarrow> ret = 0 \<and> (\<exists>m. skbs n' i = Some m \<and> reply_tag m = Some a) \<and> (\<forall>h. \<not> holds n' h i))"
  by (rule net_transport.sleeper_returns [OF assms])

theorem every_call_returns_witness:
  "\<exists>n. fabric_call_return 64 n = Val (- EIO, None, n\<lparr>tags := (tags n)(64 := None), waiting := []\<rparr>) \<and> waiting n = [64]"
proof -
  let ?n0 = "demo_rpc\<lparr>regn := (regn demo_rpc)\<lparr>fabs := \<lambda>_. \<lparr>fa_owner = 0, fa_has_get = True, fa_name = [], fa_refs = 1\<rparr>\<rparr>\<rparr>"
  let ?x = "fabric_transmit demo_net 0" and ?f = "''smb_put://b.n''"
  have len: "length (request_message ?f 64) < skb_room" by (simp add: request_message_def length_ptr_text del: strstr.simps)
  obtain n where send: "fabric_call_send ?x (Some 64) True (Some (Some 7)) ?f ?n0 = Val (None, n)"
    and n: "waiting n = [64]" "tags n 64 = Some (blank_tag\<lparr>check := 64\<rparr>)"
    using len by (simp add: fabric_call_send_def vfi_fabric_tx_def new_skb_def set_tag_def fabric_transmit_def free_skb_def
        demo_rpc_def demo_net_def dev_queue_xmit_def fna_ref_def fab_ref_def Let_def)
  have "?x \<in> {fabric_transmit N q | N q. True}" by blast
  moreover have "fresh_tag (Some 64) ?n0" by (simp add: fresh_tag_def demo_rpc_def)
  ultimately have "rpc_step {fabric_transmit N q | N q. True} ?n0 n" using send by (rule rpc_step.Send)
  then have run: "rpc_run {fabric_transmit N q | N q. True} ?n0 n" using rpc_run.start rpc_run.step by blast
  have idle: "idle ?n0" by (auto simp: idle_def demo_rpc_def)
  from every_call_returns [OF run idle, of 64] n
  show ?thesis by (intro exI [of _ n]) (auto simp: fabric_call_return_def Let_def set_tag_def blank_tag_def)
qed

text \<open>The reference that looking up the sender takes is lost with every reply that finds its caller:
  the address of the other node gains one for each.\<close>

theorem accepted_reply_keeps_a_reference:
  assumes B: "table_ok B" "node_of B i \<noteq> None" "i \<noteq> UNKNOWN_IDX"
    and f: "skbs k j = Some f" "hdr_size \<le> length f" "h_srcidx (vfi_hdr f) = i" "VFI_FABRIC_IS_MSG (h_pkt_info (vfi_hdr f))"
    and m: "payload_text room (drop hdr_size f) = Val m" "reply_tag m = Some t" "tags k t = Some cb" "check cb = t"
    and rx: "vfi_rx_packet True kt room j e B k = Val (0, B', k', r)"
  shows "tags k' t = Some (cb\<lparr>check := 0, rply_skb := Some j\<rparr>) \<and> skbs k' j = Some m
    \<and> fa_refs (fabs (regn k') (the (node_of B i))) = fa_refs (fabs (regn k) (the (node_of B i))) + 1"
proof -
  from B(2) obtain b where b: "node_of B i = Some b" by blast
  let ?h = "vfi_hdr f" and ?B = "set_fna b (update_fabric_address 0 (Some (h_source (vfi_hdr f))) (Some e)) B"
  have find: "find_fabric_address True i 0 (Some (h_source ?h)) (Some e) B k = Val (b, ?B, fna_ref b 1 k)"
    by (rule find_fabric_address_run [OF B(1,3), of 0 "Some (h_source ?h)" "Some e" k]) (use b in simp_all)
  have rp: "strstr m ''reply('' \<noteq> None" using m(2) by (auto simp: reply_tag_def split: option.splits)
  have "\<not> rx_stale ?B b (h_dstidx ?h)"
    using rx f find by (auto simp: vfi_rx_packet_def Let_def rx_forget_def cres_bind_eq_Val)
  moreover have "skbs (fna_ref b 1 k) = skbs k" "tags (fna_ref b 1 k) = tags k" "Vfi_Rpc.rx (fna_ref b 1 k) = Vfi_Rpc.rx k"
    by (simp_all add: fna_ref_def)
  moreover have "vfi_fabric_receive kt b j ((fna_ref b 1 k)\<lparr>skbs := (skbs k)(j \<mapsto> m)\<rparr>) =
      Val (0, (fna_ref b 1 k)\<lparr>skbs := (skbs k)(j \<mapsto> m), tags := (tags k)(t \<mapsto> cb\<lparr>check := 0, rply_skb := Some j\<rparr>),
         Vfi_Rpc.rx := Vfi_Rpc.rx k\<rparr>)"
    using m rp by (simp add: vfi_fabric_receive_def receive_check_def receive_deliver_def set_tag_def fna_ref_def)
  ultimately have "k' = (fna_ref b 1 k)\<lparr>skbs := (skbs k)(j \<mapsto> m), tags := (tags k)(t \<mapsto> cb\<lparr>check := 0, rply_skb := Some j\<rparr>),
         Vfi_Rpc.rx := Vfi_Rpc.rx k\<rparr>"
    using rx f m(1) find by (simp add: vfi_rx_packet_def Let_def)
  then show ?thesis using b by (simp add: fna_ref_def fab_ref_def)
qed


text \<open>Registering a location a second time changes nothing, neither tables nor references: a call
  registers its location every time.\<close>

theorem registering_again_changes_nothing:
  assumes ok: "table_ok N" and i: "ucast (offset (l_desc (locs N l))) \<noteq> UNKNOWN_IDX" and opt: "vfi_get_option (l_desc (locs N l)) ''netdev'' = Val None"
    and first: "fabric_register True l N n = Val (0, N1, n1)"
  shows "fabric_register True l N1 n1 = Val (0, N1, n1)"
proof -
  let ?d = "l_desc (locs N l)"
  let ?i = "ucast (offset ?d) :: u32"
  from first obtain dev a N0 n0 old where dev: "register_device N ?d = Val (Some dev)"
    and find: "find_fabric_address True ?i (extent ?d) None (Some dev) N n = Val (a, N0, n0)" and old: "address ?d = Some old"
    and N1: "N1 = (let N3 = loc_ref l 1 (set_fna a (\<lambda>fp. fp\<lparr>reg_loc := Some l\<rparr>)
        (N0\<lparr>locs := (locs N0)(l := (locs N0 l)\<lparr>l_desc := ?d\<lparr>address := Some a\<rparr>\<rparr>)\<rparr>))
      in case reg_loc (fnas N3 old) of None \<Rightarrow> N3 | Some l' \<Rightarrow> loc_ref l' (- 1) N3)"
    by (auto simp: fabric_register_def Let_def cres_bind_eq_Val split: option.splits if_splits)
  have n0: "node_of N0 ?i = Some a" "ndev (fnas N0 a) = Some dev" "extent ?d \<noteq> 0 \<Longrightarrow> src_idx (fnas N0 a) = extent ?d"
    by (rule find_fabric_address_run [OF ok i, of "extent ?d" None "Some dev" n];
        use find in \<open>auto simp: set_fna_def update_fabric_address_def Let_def\<close>)+
  have tables: "address_table N1 = address_table N0" "\<And>x. fn_idx (fnas N1 x) = fn_idx (fnas N0 x)"
    "fnas N1 a = (fnas N0 a)\<lparr>reg_loc := Some l\<rparr>" "l_desc (locs N1 l) = ?d\<lparr>address := Some a\<rparr>"
    by (simp_all add: N1 Let_def loc_ref_def set_fna_def split: option.splits)
  have node: "find (\<lambda>x. fn_idx (fnas N1 x) = ?i) (address_table N1 (unat (?i AND 15))) = Some a"
    using n0(1) by (simp add: node_of_def tables)
  have opt': "vfi_get_option (?d\<lparr>address := Some a\<rparr>) ''netdev'' = Val None"
    using opt by (simp add: vfi_get_option_def cong: option.case_cong)
  have reg: "register_device N1 (?d\<lparr>address := Some a\<rparr>) = Val (Some dev)"
    using n0(2) by (simp add: register_device_def opt' tables)
  have same: "update_fabric_address (extent ?d) None (Some dev) (fnas N1 a) = fnas N1 a"
    using n0(2,3) by (simp add: update_fabric_address_def Let_def tables)
  have upd: "set_fna a (update_fabric_address (extent ?d) None (Some dev)) N1 = N1"
    by (simp add: set_fna_def same)
  have find1: "find_fabric_address True ?i (extent ?d) None (Some dev) N1 n1 = Val (a, N1, fna_ref a 1 n1)"
    using i node by (simp add: find_fabric_address_def upd)
  have l: "N1\<lparr>locs := (locs N1)(l := (locs N1 l)\<lparr>l_desc := ?d\<lparr>address := Some a\<rparr>\<rparr>)\<rparr> = N1"
    by (rule net.equality) (auto simp: tables fun_eq_iff intro!: net_loc.equality)
  have r: "set_fna a (\<lambda>fp. fp\<lparr>reg_loc := Some l\<rparr>) N1 = N1"
    by (rule net.equality) (auto simp: set_fna_def tables fun_eq_iff)
  have refs: "loc_ref l (- 1) (loc_ref l 1 N1) = N1"
    by (rule net.equality) (auto simp: loc_ref_def fun_eq_iff intro!: net_loc.equality)
  have reg_l: "reg_loc (fnas (loc_ref l 1 N1) a) = Some l" by (simp add: loc_ref_def tables)
  show ?thesis
    unfolding fabric_register_def Let_def tables(4)
    using reg find1 l r refs reg_l by (simp add: fna_ref_def fab_ref_def)
qed


theorem registering_again_changes_nothing_witness:
  "\<exists>N1 n1. fabric_register True 0 (demo_net\<lparr>locs := \<lambda>_. \<lparr>l_desc = zero_desc\<lparr>offset := 5, extent := 3, address := Some 7\<rparr>, l_refs = 1\<rparr>\<rparr>) demo_rpc
      = Val (0, N1, n1)
    \<and> fabric_register True 0 N1 n1 = Val (0, N1, n1)"
proof -
  let ?N = "demo_net\<lparr>locs := \<lambda>_. \<lparr>l_desc = zero_desc\<lparr>offset := 5, extent := 3, address := Some 7\<rparr>, l_refs = 1\<rparr>\<rparr>"
  have d: "l_desc (locs ?N 0) = zero_desc\<lparr>offset := 5, extent := 3, address := Some 7\<rparr>" by simp
  have ok: "table_ok ?N" by (simp add: table_ok_def demo_net_def)
  have i: "ucast (offset (l_desc (locs ?N 0))) \<noteq> UNKNOWN_IDX" by simp
  have opt: "vfi_get_option (l_desc (locs ?N 0)) ''netdev'' = Val None" by (simp add: vfi_get_option_def zero_desc_def)
  have "register_device ?N (l_desc (locs ?N 0)) = Val (Some 0)" unfolding register_device_def opt by (simp add: demo_net_def)
  then obtain N1 n1 where first: "fabric_register True 0 ?N demo_rpc = Val (0, N1, n1)"
    by (rule_tac find_fabric_address_run [OF ok i, of 3 None "Some 0" demo_rpc])
      (auto simp: fabric_register_def Let_def)
  from registering_again_changes_nothing [OF ok i opt first] first show ?thesis by blast
qed

end
