(* ===== verification/Vfi_Rionet.thy ===== *)
theory Vfi_Rionet
  imports Vfi_Doorbell
begin

text \<open>
  The event manager of \<open>vfi_fabric_rionet.c\<close>, the second implementation of the interface \<open>doorbells\<close>:
  RapidIO doorbells, numbered from \<open>first\<close> to \<open>last\<close>, in an array of bins. A bin is an array element
  and a list behind it; the list is here the tail, and a bin that is not in use (\<open>node.next\<close> is null)
  is empty. Events are handed out from the shortest bin: \<open>em_next\<close> is its index.
\<close>

section \<open>State\<close>

text \<open>A callback whose function is null, 0 here, is not called.\<close>

record event_node =
  ev_call :: callback
  ev_id :: int

record event_mgr =
  em_next :: int
  mindepth :: nat
  first_id :: int
  last_id :: int
  num_alloc :: int
  em_num :: int
  high_watermark :: int
  hashlen :: nat
  event_harray :: "event_node list list"

text \<open>The remainder of C.\<close>

definition c_rem :: "int \<Rightarrow> int \<Rightarrow> int" where
  "c_rem a b = (if a < 0 then - ((- a) mod b) else a mod b)"

definition bin_of :: "event_mgr \<Rightarrow> int \<Rightarrow> int" where
  "bin_of m i = c_rem (i - first_id m) (int (hashlen m))"

text \<open>The depth of a node in the list and the node; 0 when it is not there.\<close>

fun find_db_in_list :: "event_node list \<Rightarrow> int \<Rightarrow> nat \<times> event_node option" where
  "find_db_in_list [] v = (0, None)"
| "find_db_in_list (n # ns) v =
     (if ev_id n = v then (1, Some n)
      else case find_db_in_list ns v of (d, r) \<Rightarrow> (if d = 0 then (0, None) else (Suc d, r)))"

definition vfi_events_init :: "bool \<Rightarrow> bool \<Rightarrow> int \<Rightarrow> int \<Rightarrow> nat \<Rightarrow> event_mgr option" where
  "vfi_events_init ka kb f l hl =
     (if \<not> ka then None
      else if \<not> kb then None
      else Some \<lparr>em_next = 0, mindepth = 0, first_id = f, last_id = l, num_alloc = 0, em_num = l - f + 1,
        high_watermark = 0, hashlen = hl, event_harray = replicate hl []\<rparr>)"

section \<open>Operations\<close>

text \<open>\<open>vfi_event_dispatch\<close>: which callback is called.\<close>

definition vfi_event_dispatch :: "event_mgr \<Rightarrow> int \<Rightarrow> callback option cres" where
  "vfi_event_dispatch m i =
     (let b = bin_of m i in
      if b < 0 \<or> int (length (event_harray m)) \<le> b then Undef
      else Val (case event_harray m ! nat b of
          [] \<Rightarrow> None
        | h # t \<Rightarrow>
            (case (if ev_id h = i then Some h else snd (find_db_in_list t i)) of
               None \<Rightarrow> None
             | Some n \<Rightarrow> if fst (ev_call n) \<noteq> 0 then Some (ev_call n) else None)))"

text \<open>\<open>for (id = next + first; id <= last; id += hashlen)\<close>: the first number of the bin that is free.\<close>

function free_id :: "nat \<Rightarrow> int \<Rightarrow> int list \<Rightarrow> int \<Rightarrow> int" where
  "free_id hl l ids i = (if i \<le> l \<and> 0 < hl \<and> i \<in> set ids then free_id hl l ids (i + int hl) else i)"
  by pat_completeness auto
termination by (relation "measure (\<lambda>(hl, l, ids, i). nat (l + 1 - i))") auto

declare free_id.simps [simp del]

text \<open>
  The first half of \<open>vfi_get_event\<close>: the event gets its node, in the array element of an unused bin or at
  the end of a list. \<open>None\<close> stands for a return with \<open>-1\<close>.
\<close>

definition place_event :: "bool \<Rightarrow> callback \<Rightarrow> event_mgr \<Rightarrow> (int option \<times> event_mgr) cres" where
  "place_event ka c m =
     (let b = nat (em_next m); bs = event_harray m in
      if em_next m < 0 \<or> length bs \<le> b then Undef
      else if mindepth m \<noteq> 0 then
        (if \<not> ka then Val (None, m)
         else case bs ! b of
             [] \<Rightarrow> Undef
           | ns \<Rightarrow>
               let i = free_id (hashlen m) (last_id m) (map ev_id ns) (em_next m + first_id m) in
               if last_id m < i then Val (None, m\<lparr>em_next := - 1\<rparr>)
               else Val (Some i, m\<lparr>event_harray := bs[b := ns @ [\<lparr>ev_call = c, ev_id = i\<rparr>]]\<rparr>))
      else
        let i = em_next m + first_id m
        in Val (Some i, m\<lparr>event_harray := bs[b := [\<lparr>ev_call = c, ev_id = i\<rparr>]]\<rparr>))"

text \<open>
  The second half looks for the next shortest bin: from the bin behind the one just filled to the end of
  the array, for one that is no deeper than the minimum.
\<close>

fun shallow :: "nat \<Rightarrow> nat \<Rightarrow> nat list \<Rightarrow> nat option" where
  "shallow md i [] = None"
| "shallow md i (l # ls) = (if l = 0 \<or> l \<le> md then Some i else shallow md (Suc i) ls)"

text \<open>
  Then the minimum is raised until a bin has exactly that depth. The scan goes through the list of every
  bin, which an unused bin does not have; without a deeper bin the loop would never end. Both are \<open>Undef\<close>.
\<close>

fun depth_index :: "nat \<Rightarrow> nat \<Rightarrow> nat list \<Rightarrow> nat option cres" where
  "depth_index d i [] = Val None"
| "depth_index d i (l # ls) = (if l = 0 then Undef else if l = d then Val (Some i) else depth_index d (Suc i) ls)"

function raise_min :: "nat list \<Rightarrow> nat \<Rightarrow> (nat \<times> nat) cres" where
  "raise_min ls md =
     (if \<exists>l \<in> set ls. md < l then
        (case depth_index (Suc md) 0 ls of
           Undef \<Rightarrow> Undef
         | Val (Some i) \<Rightarrow> Val (Suc md, i)
         | Val None \<Rightarrow> raise_min ls (Suc md))
      else Undef)"
  by pat_completeness auto
termination
  by (relation "measure (\<lambda>(ls, md). Max (insert 0 (set ls)) - md)") (auto simp: Max_gr_iff intro!: diff_less_mono2)

declare raise_min.simps [simp del]

definition choose_next :: "nat list \<Rightarrow> nat \<Rightarrow> nat \<Rightarrow> (nat \<times> nat) cres" where
  "choose_next ls b md =
     (let s = Suc b mod length ls
      in case shallow md s (drop s ls) of Some i \<Rightarrow> Val (md, i) | None \<Rightarrow> raise_min ls md)"

text \<open>When there are no more numbers than bins, the next bin is the next unused one, if there is one.\<close>

definition next_unused :: "event_mgr \<Rightarrow> nat \<Rightarrow> int" where
  "next_unused m b = (case find (\<lambda>i. event_harray m ! i = []) [Suc b..<nat (em_num m)] of Some i \<Rightarrow> int i | None \<Rightarrow> - 1)"

definition vfi_get_event :: "bool \<Rightarrow> callback \<Rightarrow> event_mgr \<Rightarrow> (int \<times> event_mgr) cres" where
  "vfi_get_event ka c m =
     (if em_next m = - 1 then Val (- 1, m)
      else cres_bind (place_event ka c m) (\<lambda>(got, m1).
        case got of
          None \<Rightarrow> Val (- 1, m1)
        | Some i \<Rightarrow>
            let n = num_alloc m + 1; b = nat (em_next m);
                m2 = m1\<lparr>num_alloc := n, high_watermark := max (high_watermark m1) n\<rparr>
            in if em_num m \<le> int (hashlen m) then Val (i, m2\<lparr>em_next := next_unused m2 b\<rparr>)
               else cres_bind (choose_next (map length (event_harray m2)) b (mindepth m)) (\<lambda>(md, j).
                 Val (i, m2\<lparr>mindepth := md, em_next := int j\<rparr>))))"

definition vfi_put_event :: "int \<Rightarrow> event_mgr \<Rightarrow> (int \<times> event_mgr) cres" where
  "vfi_put_event i m =
     (if i < first_id m \<or> last_id m < i then Val (- 1, m)
      else let b = nat (bin_of m i); bs = event_harray m in
        if length bs \<le> b then Undef
        else case bs ! b of
            [] \<Rightarrow> Val (- 1, m)
          | h # t \<Rightarrow>
              let d = fst (find_db_in_list t i) in
              if d = 0 \<and> ev_id h \<noteq> i then Val (- 1, m)
              else let ns = (if 0 < d then h # take (d - 1) t @ drop d t else t);
                       k = length ns; m1 = m\<lparr>event_harray := bs[b := ns], num_alloc := num_alloc m - 1\<rparr>
                in Val (0,
                  if k = mindepth m then (if int b < em_next m then m1\<lparr>em_next := int b\<rparr> else m1)
                  else if k < mindepth m then m1\<lparr>mindepth := k, em_next := int b\<rparr>
                  else m1))"

text \<open>The operations of the fabric; \<open>dbmgr\<close> is the manager, null before the device has been probed.\<close>

definition vfi_dbell_event :: "event_mgr option \<Rightarrow> int \<Rightarrow> callback option cres" where
  "vfi_dbell_event dbmgr i = (case dbmgr of None \<Rightarrow> Undef | Some m \<Rightarrow> vfi_event_dispatch m i)"

definition vfi_get_doorbell :: "bool \<Rightarrow> callback \<Rightarrow> event_mgr option \<Rightarrow> (int \<times> event_mgr option) cres" where
  "vfi_get_doorbell ka c dbmgr =
     (case dbmgr of None \<Rightarrow> Undef | Some m \<Rightarrow> cres_bind (vfi_get_event ka c m) (\<lambda>(i, m). Val (i, Some m)))"

definition vfi_put_doorbell :: "int \<Rightarrow> event_mgr option \<Rightarrow> event_mgr option cres" where
  "vfi_put_doorbell i dbmgr =
     (case dbmgr of None \<Rightarrow> Undef | Some m \<Rightarrow> cres_bind (vfi_put_event i m) (\<lambda>(_, m). Val (Some m)))"


section \<open>The manager in order\<close>

text \<open>
  Numbers are used once and are in the bin they belong to; \<open>mindepth\<close> is a lower bound for the depth of
  the bins, and \<open>em_next\<close> the first bin that reaches it, or \<open>-1\<close>. The number of bins is smaller than the
  number of events, as it is in the driver: 256 bins for \<open>0x2000\<close> to \<open>0x4000\<close>.
\<close>

definition bin_ok :: "int \<Rightarrow> int \<Rightarrow> nat \<Rightarrow> nat \<Rightarrow> event_node list \<Rightarrow> bool" where
  "bin_ok f l hl b ns \<longleftrightarrow> distinct (map ev_id ns)
     \<and> (\<forall>n \<in> set ns. f \<le> ev_id n \<and> ev_id n \<le> l \<and> (ev_id n - f) mod int hl = int b)"

definition next_ok :: "nat list \<Rightarrow> nat \<Rightarrow> int \<Rightarrow> bool" where
  "next_ok ls md j \<longleftrightarrow> (\<forall>x \<in> set ls. md \<le> x)
     \<and> (j = - 1 \<or> 0 \<le> j \<and> nat j < length ls \<and> ls ! nat j = md \<and> (\<forall>k < nat j. md < ls ! k))"

definition mgr_ok :: "event_mgr \<Rightarrow> bool" where
  "mgr_ok m \<longleftrightarrow> 0 < hashlen m \<and> 0 \<le> first_id m \<and> length (event_harray m) = hashlen m \<and> em_num m = last_id m - first_id m + 1
     \<and> int (hashlen m) < em_num m
     \<and> (\<forall>b < hashlen m. bin_ok (first_id m) (last_id m) (hashlen m) b (event_harray m ! b))
     \<and> next_ok (map length (event_harray m)) (mindepth m) (em_next m)"

definition event_of :: "event_node list \<Rightarrow> int \<Rightarrow> callback option" where
  "event_of ns i = map_option ev_call (find (\<lambda>n. ev_id n = i) ns)"

definition event_at :: "event_mgr \<Rightarrow> int \<Rightarrow> callback option" where
  "event_at m i =
     (if first_id m \<le> i \<and> i \<le> last_id m
      then event_of (event_harray m ! nat ((i - first_id m) mod int (hashlen m))) i else None)"

lemma event_of_simps [simp]:
  "event_of [] i = None"
  "event_of (n # ns) i = (if ev_id n = i then Some (ev_call n) else event_of ns i)"
  by (simp_all add: event_of_def)

lemma event_of_None: "event_of ns i = None \<longleftrightarrow> i \<notin> ev_id ` set ns"
  by (induction ns) auto

lemma event_of_append: "event_of (xs @ ys) i = (case event_of xs i of None \<Rightarrow> event_of ys i | Some c \<Rightarrow> Some c)"
  by (induction xs) auto

lemma find_db_in_list_run:
  shows "fst (find_db_in_list ns i) = 0 \<longleftrightarrow> event_of ns i = None"
    and "map_option ev_call (snd (find_db_in_list ns i)) = event_of ns i"
    and "fst (find_db_in_list ns i) = Suc d \<Longrightarrow> d < length ns \<and> ev_id (ns ! d) = i"
proof -
  show z: "fst (find_db_in_list ns i) = 0 \<longleftrightarrow> event_of ns i = None" for ns
    by (induction ns) (auto split: prod.splits)
  show "map_option ev_call (snd (find_db_in_list ns i)) = event_of ns i"
  proof (induction ns)
    case (Cons n ns)
    then show ?case using z [of ns] by (auto split: prod.splits)
  qed simp
  show "d < length ns \<and> ev_id (ns ! d) = i" if "fst (find_db_in_list ns i) = Suc d"
    using that
  proof (induction ns arbitrary: d)
    case (Cons n ns)
    then show ?case by (cases d) (auto split: prod.splits if_splits)
  qed simp
qed

lemma event_of_delete:
  assumes "distinct (map ev_id ns)" "d < length ns"
  shows "event_of (take d ns @ drop (Suc d) ns) = (event_of ns)(ev_id (ns ! d) := None)"
  using assms
proof (induction ns arbitrary: d)
  case (Cons n ns)
  show ?case
  proof (cases d)
    case 0
    have "event_of ns (ev_id n) = None" using Cons.prems(1) by (auto simp: event_of_None)
    then show ?thesis using 0 by (auto simp: fun_eq_iff)
  next
    case (Suc k)
    have "k < length ns" using Cons.prems Suc by simp
    then have "ev_id (ns ! k) \<in> ev_id ` set ns" by simp
    then have "ev_id n \<noteq> ev_id (ns ! k)" using Cons.prems(1) by auto
    then show ?thesis using Cons.IH [of k] Cons.prems Suc by (auto simp: fun_eq_iff)
  qed
qed simp

lemma mgr_bin:
  assumes "mgr_ok m" "first_id m \<le> i" "i \<le> last_id m"
  shows "bin_of m i = (i - first_id m) mod int (hashlen m)" "0 \<le> bin_of m i" "nat (bin_of m i) < hashlen m"
    "length (event_harray m) = hashlen m"
    "bin_ok (first_id m) (last_id m) (hashlen m) (nat (bin_of m i)) (event_harray m ! nat (bin_of m i))"
    "event_at m i = event_of (event_harray m ! nat (bin_of m i)) i"
proof -
  show b: "bin_of m i = (i - first_id m) mod int (hashlen m)" using assms(2) by (simp add: bin_of_def c_rem_def)
  show r: "0 \<le> bin_of m i" "nat (bin_of m i) < hashlen m" using assms(1) by (auto simp: b mgr_ok_def nat_less_iff)
  then show "length (event_harray m) = hashlen m"
    "bin_ok (first_id m) (last_id m) (hashlen m) (nat (bin_of m i)) (event_harray m ! nat (bin_of m i))"
    using assms(1) by (auto simp: mgr_ok_def)
  show "event_at m i = event_of (event_harray m ! nat (bin_of m i)) i" using assms by (simp add: event_at_def b)
qed

lemma dispatch_run:
  assumes "mgr_ok m" "first_id m \<le> i" "i \<le> last_id m"
  shows "vfi_event_dispatch m i = Val (case event_at m i of None \<Rightarrow> None | Some c \<Rightarrow> if fst c \<noteq> 0 then Some c else None)"
proof -
  note b = mgr_bin [OF assms]
  have "int (length (event_harray m)) > bin_of m i" "\<not> bin_of m i < 0" using b by linarith+
  moreover have "snd (find_db_in_list t i) = None \<longleftrightarrow> event_of t i = None" for t
    using find_db_in_list_run(2) [of t i] by (metis option.map_disc_iff)
  moreover have "snd (find_db_in_list t i) = Some n \<Longrightarrow> event_of t i = Some (ev_call n)" for t n
    using find_db_in_list_run(2) [of t i] by simp
  ultimately show ?thesis unfolding b(6) vfi_event_dispatch_def Let_def
    by (auto split: list.splits option.splits)
qed

lemma event_at_bin:
  assumes same: "first_id m' = first_id m" "last_id m' = last_id m" "hashlen m' = hashlen m"
    and bs: "event_harray m' = (event_harray m)[b := ns]" "b < length (event_harray m)"
    and i: "first_id m \<le> i" "i \<le> last_id m" "(i - first_id m) mod int (hashlen m) = int b"
    and ns: "event_of ns = (event_of (event_harray m ! b))(i := v)"
  shows "event_at m' = (event_at m)(i := v)"
proof
  fix k
  show "event_at m' k = ((event_at m)(i := v)) k"
    using ns bs(2) i by (auto simp: event_at_def same bs(1) nth_list_update)
qed


section \<open>The shortest bin\<close>

lemma shallow_Some:
  "shallow md i ls = Some j \<Longrightarrow> i \<le> j \<and> j - i < length ls \<and> (ls ! (j - i) = 0 \<or> ls ! (j - i) \<le> md) \<and> (\<forall>k < j - i. md < ls ! k)"
proof (induction ls arbitrary: i)
  case (Cons l ls)
  show ?case
  proof (cases "l = 0 \<or> l \<le> md")
    case False
    with Cons.prems have "shallow md (Suc i) ls = Some j" by simp
    from Cons.IH [OF this] have ih: "Suc i \<le> j" "j - Suc i < length ls" "ls ! (j - Suc i) = 0 \<or> ls ! (j - Suc i) \<le> md"
      "\<forall>k < j - Suc i. md < ls ! k" by blast+
    then have "j - i = Suc (j - Suc i)" by simp
    then show ?thesis using ih False by (auto simp: less_Suc_eq_0_disj)
  qed (use Cons.prems in auto)
qed simp

lemma shallow_None: "shallow md i ls = None \<Longrightarrow> \<forall>l \<in> set ls. md < l"
  by (induction ls arbitrary: i) (auto split: if_splits)

lemma depth_index_run:
  "\<forall>l \<in> set ls. 0 < l \<Longrightarrow> d \<in> set ls \<Longrightarrow> \<exists>j. depth_index d i ls = Val (Some (i + j)) \<and> j < length ls \<and> ls ! j = d \<and> (\<forall>k < j. ls ! k \<noteq> d)"
proof (induction ls arbitrary: i)
  case (Cons l ls)
  show ?case
  proof (cases "l = d")
    case True
    then show ?thesis using Cons.prems by (intro exI [of _ 0]) auto
  next
    case False
    with Cons obtain j where "depth_index d (Suc i) ls = Val (Some (Suc i + j))" "j < length ls" "ls ! j = d" "\<forall>k < j. ls ! k \<noteq> d"
      by (metis list.set_intros(2) set_ConsD)
    then show ?thesis using False Cons.prems by (intro exI [of _ "Suc j"]) (auto simp: less_Suc_eq_0_disj)
  qed
qed simp

lemma choose_next_run:
  assumes b: "b < length ls" "ls ! b = Suc md" and before: "\<forall>k < b. md < ls ! k" and least: "\<forall>x \<in> set ls. md \<le> x"
  shows "\<exists>md' j. choose_next ls b md = Val (md', j) \<and> next_ok ls md' (int j)"
proof (cases "shallow md (Suc b mod length ls) (drop (Suc b mod length ls) ls)")
  case (Some j)
  have s: "Suc b mod length ls = Suc b" if "Suc b \<noteq> length ls" using that b by simp
  let ?s = "Suc b mod length ls"
  from shallow_Some [OF Some] have j0: "?s \<le> j" "j - ?s < length (drop ?s ls)" "drop ?s ls ! (j - ?s) = 0 \<or> drop ?s ls ! (j - ?s) \<le> md"
    "\<forall>k < j - ?s. md < drop ?s ls ! k" by blast+
  then have jl: "j < length ls" and small: "ls ! j = 0 \<or> ls ! j \<le> md" by simp_all
  have mid: "md < ls ! k" if "?s \<le> k" "k < j" for k using j0(4) [rule_format, of "k - ?s"] that jl by simp
  have "md < ls ! k" if "k < j" for k
  proof (cases "?s \<le> k")
    case False
    then have "k \<le> b" using s by (cases "Suc b = length ls") auto
    then show ?thesis using before b(2) by (cases "k = b") auto
  qed (rule mid [OF _ that])
  moreover have "ls ! j = md" using small least nth_mem [OF jl] by fastforce
  moreover note jl
  ultimately have "next_ok ls md (int j)" using least by (simp add: next_ok_def)
  then show ?thesis using Some by (auto simp: choose_next_def Let_def)
next
  case None
  from shallow_None [OF None] have after: "\<forall>x \<in> set (drop (Suc b mod length ls) ls). md < x" .
  have all: "\<forall>x \<in> set ls. md < x"
  proof
    fix x
    assume "x \<in> set ls"
    then obtain k where k: "k < length ls" "x = ls ! k" by (auto simp: in_set_conv_nth)
    show "md < x"
    proof (cases "k \<le> b")
      case True
      then show ?thesis using before b(2) k by (cases "k = b") auto
    next
      case False
      then have "Suc b mod length ls = Suc b" using k by simp
      moreover have "ls ! k = drop (Suc b) ls ! (k - Suc b)" "k - Suc b < length (drop (Suc b) ls)" using False k by auto
      ultimately show ?thesis using after k(2) nth_mem by metis
    qed
  qed
  have "Suc md \<in> set ls" using b nth_mem by metis
  with depth_index_run [of ls "Suc md" 0] all obtain j where
    j: "depth_index (Suc md) 0 ls = Val (Some j)" "j < length ls" "ls ! j = Suc md" "\<forall>k < j. ls ! k \<noteq> Suc md" by fastforce
  have "raise_min ls md = Val (Suc md, j)" using j \<open>Suc md \<in> set ls\<close> by (subst raise_min.simps) auto
  moreover have "next_ok ls (Suc md) (int j)"
  proof -
    have "Suc md < ls ! k" if "k < j" for k
    proof -
      have "md < ls ! k" using all nth_mem [of k ls] that j(2) by simp
      moreover have "ls ! k \<noteq> Suc md" using j(4) that by blast
      ultimately show ?thesis by linarith
    qed
    then show ?thesis using j all by (auto simp: next_ok_def Suc_le_eq)
  qed
  ultimately show ?thesis using None by (auto simp: choose_next_def Let_def)
qed


section \<open>Handing out events\<close>

lemma free_id_run:
  assumes "0 < hl"
  shows "i \<le> free_id hl l ids i" "(free_id hl l ids i - i) mod int hl = 0" "free_id hl l ids i \<le> l \<Longrightarrow> free_id hl l ids i \<notin> set ids"
    "\<And>x. i \<le> x \<Longrightarrow> x < free_id hl l ids i \<Longrightarrow> (x - i) mod int hl = 0 \<Longrightarrow> x \<in> set ids"
proof -
  have "i \<le> free_id hl l ids i \<and> (free_id hl l ids i - i) mod int hl = 0 \<and> (free_id hl l ids i \<le> l \<longrightarrow> free_id hl l ids i \<notin> set ids)
     \<and> (\<forall>x. i \<le> x \<longrightarrow> x < free_id hl l ids i \<longrightarrow> (x - i) mod int hl = 0 \<longrightarrow> x \<in> set ids)"
    using assms
  proof (induction hl l ids i rule: free_id.induct)
    case (1 hl l ids i)
    show ?case
    proof (cases "i \<le> l \<and> i \<in> set ids")
      case True
      let ?r = "free_id hl l ids (i + int hl)"
      have r: "free_id hl l ids i = ?r" using True 1(2) by (simp add: free_id.simps [of hl l ids i])
      from 1 True have ih: "i + int hl \<le> ?r" "(?r - (i + int hl)) mod int hl = 0" "?r \<le> l \<longrightarrow> ?r \<notin> set ids"
        "\<forall>x. i + int hl \<le> x \<longrightarrow> x < ?r \<longrightarrow> (x - (i + int hl)) mod int hl = 0 \<longrightarrow> x \<in> set ids" by simp_all
      have shift: "(x - (i + int hl)) mod int hl = (x - i) mod int hl" for x
        by (metis diff_diff_eq minus_mod_self2)
      have "x \<in> set ids" if "i \<le> x" "x < ?r" "(x - i) mod int hl = 0" for x
      proof (cases "x < i + int hl")
        case True
        then have "(x - i) mod int hl = x - i" using that by simp
        then show ?thesis using that \<open>i \<le> l \<and> i \<in> set ids\<close> by simp
      next
        case False
        then show ?thesis using ih(4) that shift by simp
      qed
      then show ?thesis unfolding r using ih(1,3) ih(2) [unfolded shift] by auto
    next
      case False
      then have "free_id hl l ids i = i" by (auto simp: free_id.simps [of hl l ids i])
      then show ?thesis using False by auto
    qed
  qed
  note all = this
  show "i \<le> free_id hl l ids i" "(free_id hl l ids i - i) mod int hl = 0" using all by simp_all
  show "free_id hl l ids i \<le> l \<Longrightarrow> free_id hl l ids i \<notin> set ids" using all by simp
  show "\<And>x. i \<le> x \<Longrightarrow> x < free_id hl l ids i \<Longrightarrow> (x - i) mod int hl = 0 \<Longrightarrow> x \<in> set ids" using all by simp
qed

text \<open>The numbers of a bin, and how many there are in comparison with another bin.\<close>

definition numbers :: "int \<Rightarrow> int \<Rightarrow> nat \<Rightarrow> nat \<Rightarrow> int set" where
  "numbers f l hl b = {i \<in> {f..l}. (i - f) mod int hl = int b}"

lemma finite_numbers [simp]: "finite (numbers f l hl b)"
  by (rule finite_subset [of _ "{f..l}"]) (auto simp: numbers_def)

lemma bin_in_numbers: "bin_ok f l hl b ns \<Longrightarrow> ev_id ` set ns \<subseteq> numbers f l hl b \<and> card (ev_id ` set ns) = length ns"
  by (auto simp: bin_ok_def numbers_def distinct_card [of "map ev_id ns", simplified])

lemma full_bin: "bin_ok f l hl b ns \<Longrightarrow> card (numbers f l hl b) \<le> length ns \<Longrightarrow> ev_id ` set ns = numbers f l hl b"
  using bin_in_numbers [of f l hl b ns] by (intro card_seteq) auto

lemma numbers_shift:
  assumes "b < b'" "b' < hl"
  shows "card (numbers f l hl b') \<le> card (numbers f l hl b)" "card (numbers f l hl b) \<le> Suc (card (numbers f l hl b'))"
proof -
  have m: "x mod int hl = int c \<Longrightarrow> 0 \<le> int c + d \<Longrightarrow> int c + d < int hl \<Longrightarrow> (x + d) mod int hl = int c + d" for x d c
    by (metis mod_add_left_eq mod_pos_pos_trivial)
  have "(\<lambda>i. i - int (b' - b)) ` numbers f l hl b' \<subseteq> numbers f l hl b"
  proof
    fix j
    assume "j \<in> (\<lambda>i. i - int (b' - b)) ` numbers f l hl b'"
    then obtain i where i: "f \<le> i" "i \<le> l" "(i - f) mod int hl = int b'" "j = i - int (b' - b)" by (auto simp: numbers_def)
    have "(i - f) mod int hl \<le> i - f" using i(1) by (simp add: zmod_le_nonneg_dividend)
    moreover have "(i - f + - int (b' - b)) mod int hl = int b' + - int (b' - b)" using assms i(3) by (intro m) auto
    moreover have e: "j - f = i - f + - int (b' - b)" using i(4) by simp
    ultimately have "(j - f) mod int hl = int b" using assms unfolding e by simp
    then show "j \<in> numbers f l hl b" using i assms \<open>(i - f) mod int hl \<le> i - f\<close> by (simp add: numbers_def)
  qed
  then show "card (numbers f l hl b') \<le> card (numbers f l hl b)" by (intro card_inj_on_le [of "\<lambda>i. i - int (b' - b)"]) (auto simp: inj_on_def)
  let ?d = "int hl - int (b' - b)"
  have "(\<lambda>i. i - ?d) ` (numbers f l hl b - {f + int b}) \<subseteq> numbers f l hl b'"
  proof
    fix j
    assume "j \<in> (\<lambda>i. i - ?d) ` (numbers f l hl b - {f + int b})"
    then obtain i where i: "f \<le> i" "i \<le> l" "(i - f) mod int hl = int b" "j = i - ?d" "i \<noteq> f + int b" by (auto simp: numbers_def)
    have "i - f \<noteq> int b" using i(5) by linarith
    then have "int hl \<le> i - f" using i(1,3) mod_pos_pos_trivial [of "i - f" "int hl"] by linarith
    then have "0 \<le> i - f - int hl" by simp
    moreover have "(i - f - int hl) mod int hl = int b" using i(3) by simp
    ultimately have "int b \<le> i - f - int hl" using zmod_le_nonneg_dividend by metis
    have "(i - f - int hl + int (b' - b)) mod int hl = int b + int (b' - b)"
      using assms i(3) by (intro m) auto
    moreover have e: "j - f = i - f - int hl + int (b' - b)" using i(4) by simp
    ultimately have "(j - f) mod int hl = int b'" using assms unfolding e by simp
    then show "j \<in> numbers f l hl b'" using i assms \<open>int b \<le> i - f - int hl\<close> by (simp add: numbers_def)
  qed
  then have "card (numbers f l hl b - {f + int b}) \<le> card (numbers f l hl b')"
    by (intro card_inj_on_le [of "\<lambda>i. i - ?d"]) (auto simp: inj_on_def)
  then show "card (numbers f l hl b) \<le> Suc (card (numbers f l hl b'))"
    by (simp add: card_Diff_singleton_if split: if_splits)
qed


lemma mgr_okD:
  assumes "mgr_ok m"
  shows "0 < hashlen m" "0 \<le> first_id m" "length (event_harray m) = hashlen m" "em_num m = last_id m - first_id m + 1"
    "int (hashlen m) < em_num m"
    "\<And>b. b < hashlen m \<Longrightarrow> bin_ok (first_id m) (last_id m) (hashlen m) b (event_harray m ! b)"
    "next_ok (map length (event_harray m)) (mindepth m) (em_next m)"
    "\<And>b. b < hashlen m \<Longrightarrow> mindepth m \<le> length (event_harray m ! b)"
  using assms by (auto simp: mgr_ok_def next_ok_def)

lemma class_event:
  assumes "mgr_ok m" "b < hashlen m" "i \<in> numbers (first_id m) (last_id m) (hashlen m) b"
  shows "event_at m i = event_of (event_harray m ! b) i"
  using assms by (simp add: event_at_def numbers_def)

text \<open>The event is put at the end of the shortest bin.\<close>

lemma place_ok:
  fixes c :: callback and n hw :: int
  assumes ok: "mgr_ok m" and b: "em_next m = int b" and i: "i \<in> numbers (first_id m) (last_id m) (hashlen m) b"
    and new: "event_of (event_harray m ! b) i = None"
  defines "m2 \<equiv> m\<lparr>event_harray := (event_harray m)[b := event_harray m ! b @ [\<lparr>ev_call = c, ev_id = i\<rparr>]],
      num_alloc := n, high_watermark := hw\<rparr>"
  shows "\<exists>md j. choose_next (map length (event_harray m2)) b (mindepth m) = Val (md, j)
    \<and> mgr_ok (m2\<lparr>mindepth := md, em_next := int j\<rparr>)
    \<and> event_at (m2\<lparr>mindepth := md, em_next := int j\<rparr>) = (event_at m)(i \<mapsto> c)"
proof -
  note okd = mgr_okD [OF ok]
  let ?ls = "map length (event_harray m)" and ?ls' = "map length (event_harray m2)"
  have nx: "b < hashlen m" "?ls ! b = mindepth m" "\<forall>k < b. mindepth m < ?ls ! k" "\<forall>x \<in> set ?ls. mindepth m \<le> x"
    using okd(3,7) b by (auto simp: next_ok_def)
  have ls': "?ls' = ?ls[b := Suc (mindepth m)]" using nx okd(3) by (simp add: m2_def map_update)
  have "\<exists>md j. choose_next ?ls' b (mindepth m) = Val (md, j) \<and> next_ok ?ls' md (int j)"
  proof (rule choose_next_run)
    show "b < length ?ls'" "?ls' ! b = Suc (mindepth m)" "\<forall>k < b. mindepth m < ?ls' ! k" using nx okd(3) by (simp_all add: ls')
    show "\<forall>x \<in> set ?ls'. mindepth m \<le> x"
    proof
      fix x
      assume "x \<in> set ?ls'"
      then have "x = Suc (mindepth m) \<or> x \<in> set ?ls" unfolding ls' using set_update_subset_insert [of ?ls b] by blast
      then show "mindepth m \<le> x" using nx(4) by auto
    qed
  qed
  then obtain md j where cn: "choose_next ?ls' b (mindepth m) = Val (md, j)" "next_ok ?ls' md (int j)" by blast
  let ?m = "m2\<lparr>mindepth := md, em_next := int j\<rparr>"
  have "bin_ok (first_id m) (last_id m) (hashlen m) b (event_harray m ! b @ [\<lparr>ev_call = c, ev_id = i\<rparr>])"
    using okd(6) [OF nx(1)] i new by (auto simp: bin_ok_def numbers_def event_of_None)
  then have "bin_ok (first_id m) (last_id m) (hashlen m) k (event_harray m2 ! k)" if "k < hashlen m" for k
    using that okd(3,6) by (cases "k = b") (auto simp: m2_def)
  then have "mgr_ok ?m" using okd cn(2) by (simp add: mgr_ok_def m2_def)
  moreover have "event_at ?m = (event_at m)(i \<mapsto> c)"
  proof (rule event_at_bin)
    show "event_of (event_harray m ! b @ [\<lparr>ev_call = c, ev_id = i\<rparr>]) = (event_of (event_harray m ! b))(i \<mapsto> c)"
      using new by (auto simp: event_of_append fun_eq_iff split: option.splits)
  qed (use i nx okd(3) in \<open>auto simp: m2_def numbers_def\<close>)
  ultimately show ?thesis using cn by blast
qed

text \<open>When the shortest bin has no number left, no bin has.\<close>

lemma shortest_bin_full:
  assumes ok: "mgr_ok m" and b: "em_next m = int b"
    and full: "numbers (first_id m) (last_id m) (hashlen m) b \<subseteq> ev_id ` set (event_harray m ! b)"
    and x: "first_id m \<le> x" "x \<le> last_id m"
  shows "event_at m x \<noteq> None"
proof -
  note okd = mgr_okD [OF ok]
  let ?N = "\<lambda>b. numbers (first_id m) (last_id m) (hashlen m) b" and ?bs = "event_harray m"
  have nx: "b < hashlen m" "length (?bs ! b) = mindepth m" "\<And>k. k < b \<Longrightarrow> mindepth m < length (?bs ! k)"
    using okd(3,7) b by (auto simp: next_ok_def)
  have "card (?N b) \<le> card (ev_id ` set (?bs ! b))" using full by (intro card_mono) auto
  also have "\<dots> \<le> mindepth m" using card_image_le [of "set (?bs ! b)" ev_id] card_length [of "?bs ! b"] nx(2) by simp
  finally have nb: "card (?N b) \<le> mindepth m" .
  have card: "card (?N k) \<le> length (?bs ! k)" if "k < hashlen m" for k
  proof -
    consider "k = b" | "b < k" | "k < b" by linarith
    then show ?thesis
    proof cases
      case 2
      then show ?thesis using numbers_shift(1) [OF 2 that, of "first_id m" "last_id m"] nb okd(8) [OF that] by linarith
    next
      case 3
      then show ?thesis using numbers_shift(2) [OF 3 nx(1), of "first_id m" "last_id m"] nb nx(3) [OF 3] by linarith
    qed (use nb nx in simp)
  qed
  let ?k = "nat ((x - first_id m) mod int (hashlen m))"
  have k: "?k < hashlen m" using okd(1) by (simp add: nat_less_iff)
  have "x \<in> ?N ?k" using x okd(1) by (simp add: numbers_def)
  then show ?thesis using class_event [OF ok k] full_bin [OF okd(6) [OF k] card [OF k]] by (auto simp: event_of_None)
qed

text \<open>
  A request is refused when one has been refused before (and no release has revived the manager), or when
  every number is in use; otherwise it gets a number that is not.
\<close>

lemma get_event_run:
  assumes ok: "mgr_ok m"
  obtains (old) "em_next m = - 1" "vfi_get_event True c m = Val (- 1, m)"
  | (full) "em_next m \<noteq> - 1" "vfi_get_event True c m = Val (- 1, m\<lparr>em_next := - 1\<rparr>)" "mgr_ok (m\<lparr>em_next := - 1\<rparr>)"
      "event_at (m\<lparr>em_next := - 1\<rparr>) = event_at m" "\<And>x. first_id m \<le> x \<Longrightarrow> x \<le> last_id m \<Longrightarrow> event_at m x \<noteq> None"
  | (new) i m' where "em_next m \<noteq> - 1" "vfi_get_event True c m = Val (i, m')" "first_id m \<le> i" "i \<le> last_id m"
      "event_at m i = None" "mgr_ok m'" "event_at m' = (event_at m)(i \<mapsto> c)"
proof (cases "em_next m = - 1")
  case True
  then show ?thesis using old by (simp add: vfi_get_event_def)
next
  case False
  note okd = mgr_okD [OF ok]
  obtain b where b: "em_next m = int b" "b < hashlen m" "length (event_harray m ! b) = mindepth m"
    using okd(3,7) False by (auto simp: next_ok_def intro: that [of "nat (em_next m)"])
  let ?bs = "event_harray m" and ?N = "numbers (first_id m) (last_id m) (hashlen m)"
  let ?bs' = "\<lambda>i. ?bs[b := ?bs ! b @ [\<lparr>ev_call = c, ev_id = i\<rparr>]]"
  have start: "int b + first_id m \<in> ?N b" using okd(4,5) b(2) by (simp add: numbers_def)
  consider (none) "place_event True c m = Val (None, m\<lparr>em_next := - 1\<rparr>)" "?N b \<subseteq> ev_id ` set (?bs ! b)"
    | (some) i where "place_event True c m = Val (Some i, m\<lparr>event_harray := ?bs' i\<rparr>)" "i \<in> ?N b" "event_of (?bs ! b) i = None"
  proof (cases "mindepth m = 0")
    case True
    then have "?bs ! b = []" using b by simp
    then show ?thesis using True b okd(3) start that(2) [of "int b + first_id m"] by (simp add: place_event_def Let_def)
  next
    case False
    then obtain n ns where ns: "?bs ! b = n # ns" using b(3) by (cases "?bs ! b") auto
    let ?i = "free_id (hashlen m) (last_id m) (map ev_id (?bs ! b)) (int b + first_id m)"
    note fr = free_id_run [OF okd(1), where i = "int b + first_id m" and l = "last_id m" and ids = "map ev_id (?bs ! b)"]
    have run: "place_event True c m = (if last_id m < ?i then Val (None, m\<lparr>em_next := - 1\<rparr>)
        else Val (Some ?i, m\<lparr>event_harray := ?bs' ?i\<rparr>))"
      using b okd(3) False ns by (simp add: place_event_def Let_def)
    have cls: "(x - (int b + first_id m)) mod int (hashlen m) = 0 \<longleftrightarrow> (x - first_id m) mod int (hashlen m) = int b" for x
    proof -
      have "(x - (int b + first_id m)) mod int (hashlen m) = 0 \<longleftrightarrow> (x - first_id m) mod int (hashlen m) = int b mod int (hashlen m)"
        by (metis add.commute diff_diff_eq mod_eq_dvd_iff dvd_eq_mod_eq_0)
      then show ?thesis using b(2) by simp
    qed
    show ?thesis
    proof (cases "last_id m < ?i")
      case True
      have "x \<in> ev_id ` set (?bs ! b)" if "x \<in> ?N b" for x
      proof -
        have "int b \<le> x - first_id m" using that zmod_le_nonneg_dividend [of "x - first_id m" "int (hashlen m)"] by (simp add: numbers_def)
        then show ?thesis using fr(4) [of x] True that cls [of x] by (simp add: numbers_def)
      qed
      then show ?thesis using that(1) run True by auto
    next
      case False
      have "?i \<in> ?N b" using fr(1,2) False cls [of ?i] by (simp add: numbers_def)
      moreover have "event_of (?bs ! b) ?i = None" using fr(3) False by (simp add: event_of_None)
      ultimately show ?thesis using that(2) [of ?i] run False by simp
    qed
  qed
  then show ?thesis
  proof cases
    case none
    have "mgr_ok (m\<lparr>em_next := - 1\<rparr>)" using okd by (auto simp: mgr_ok_def next_ok_def)
    moreover have "event_at (m\<lparr>em_next := - 1\<rparr>) = event_at m" by (simp add: event_at_def fun_eq_iff)
    ultimately show ?thesis using none shortest_bin_full [OF ok b(1) none(2)] False full by (simp add: vfi_get_event_def)
  next
    case some
    from place_ok [OF ok b(1) some(2,3), where c = c and n = "num_alloc m + 1" and hw = "max (high_watermark m) (num_alloc m + 1)"]
    obtain md j where "choose_next (map length (?bs' i)) b (mindepth m) = Val (md, j)"
      and m': "mgr_ok (m\<lparr>event_harray := ?bs' i, num_alloc := num_alloc m + 1, high_watermark := max (high_watermark m) (num_alloc m + 1),
          mindepth := md, em_next := int j\<rparr>)"
        "event_at (m\<lparr>event_harray := ?bs' i, num_alloc := num_alloc m + 1, high_watermark := max (high_watermark m) (num_alloc m + 1),
          mindepth := md, em_next := int j\<rparr>) = (event_at m)(i \<mapsto> c)" by auto
    then have "vfi_get_event True c m = Val (i, m\<lparr>event_harray := ?bs' i, num_alloc := num_alloc m + 1,
        high_watermark := max (high_watermark m) (num_alloc m + 1), mindepth := md, em_next := int j\<rparr>)"
      using some b(1) okd(5) by (simp add: vfi_get_event_def Let_def)
    moreover have "event_at m i = None" using class_event [OF ok b(2) some(2)] some(3) by simp
    ultimately show ?thesis using new [of i] False some(2) m' by (simp add: numbers_def)
  qed
qed


section \<open>Releasing events\<close>

lemma next_ok_release:
  assumes ok: "next_ok ls md j" and b: "b < length ls" "ls ! b = Suc k"
  shows "next_ok (ls[b := k]) (if k < md then k else md) (if k = md \<and> int b < j \<or> k < md then int b else j)"
proof -
  have ls: "md \<le> x" if "x \<in> set ls" for x using ok that by (simp add: next_ok_def)
  have nth: "md \<le> ls ! x" if "x < length ls" for x using ls that by simp
  have min: "\<forall>x \<in> set (ls[b := k]). (if k < md then k else md) \<le> x"
  proof
    fix x
    assume "x \<in> set (ls[b := k])"
    then have "x = k \<or> x \<in> set ls" using set_update_subset_insert [of ls b k] by blast
    then show "(if k < md then k else md) \<le> x" using ls [of x] by auto
  qed
  consider "k < md" | "k = md" "int b < j" | "k = md" "\<not> int b < j" | "md < k" by linarith
  then show ?thesis
  proof cases
    case 1
    then have "k < ls[b := k] ! x" if "x < b" for x using nth [of x] that b(1) by simp
    then show ?thesis using 1 min b(1) by (simp add: next_ok_def)
  next
    case 2
    then show ?thesis using ok min b by (auto simp: next_ok_def)
  next
    case 3
    then have "md < ls ! b" using b(2) by simp
    then show ?thesis using 3 ok min b by (auto simp: next_ok_def nth_list_update)
  next
    case 4
    then have "md < ls ! b" using b(2) by simp
    then show ?thesis using 4 ok min b by (auto simp: next_ok_def nth_list_update)
  qed
qed

lemma put_event_run:
  assumes ok: "mgr_ok m" and i: "first_id m \<le> i" "i \<le> last_id m"
  shows "event_at m i = None \<Longrightarrow> vfi_put_event i m = Val (- 1, m)"
    and "event_at m i \<noteq> None \<Longrightarrow> \<exists>m' k. vfi_put_event i m = Val (0, m') \<and> mgr_ok m' \<and> event_at m' = (event_at m)(i := None)
       \<and> k + 1 = length (event_harray m ! nat (bin_of m i)) \<and> first_id m' = first_id m \<and> last_id m' = last_id m
       \<and> em_next m' = (if k = mindepth m \<and> bin_of m i < em_next m \<or> k < mindepth m then bin_of m i else em_next m)"
proof -
  note okd = mgr_okD [OF ok] and bn = mgr_bin [OF ok i]
  let ?b = "nat (bin_of m i)" and ?bs = "event_harray m"
  let ?ns = "?bs ! ?b"
  have in_range: "\<not> (i < first_id m \<or> last_id m < i)" "\<not> length ?bs \<le> ?b" using i bn by auto
  show "vfi_put_event i m = Val (- 1, m)" if "event_at m i = None"
  proof (cases ?ns)
    case (Cons h t)
    then have "event_of t i = None" "ev_id h \<noteq> i" using that bn(6) by (auto split: if_splits)
    then show ?thesis using in_range Cons find_db_in_list_run(1) [of t i] by (simp add: vfi_put_event_def Let_def)
  next
    case Nil
    then show ?thesis using in_range by (simp add: vfi_put_event_def Let_def)
  qed
  show "\<exists>m' k. vfi_put_event i m = Val (0, m') \<and> mgr_ok m' \<and> event_at m' = (event_at m)(i := None)
       \<and> k + 1 = length (event_harray m ! nat (bin_of m i)) \<and> first_id m' = first_id m \<and> last_id m' = last_id m
       \<and> em_next m' = (if k = mindepth m \<and> bin_of m i < em_next m \<or> k < mindepth m then bin_of m i else em_next m)"
    if on: "event_at m i \<noteq> None"
  proof -
    obtain h t where ht: "?ns = h # t" using on bn(6) by (cases ?ns) auto
    let ?d = "fst (find_db_in_list t i)"
    let ?ns' = "if 0 < ?d then h # take (?d - 1) t @ drop ?d t else t"
    have there: "\<not> (?d = 0 \<and> ev_id h \<noteq> i)" using on bn(6) ht find_db_in_list_run(1) [of t i] by auto
    have "\<exists>p < length ?ns. ev_id (?ns ! p) = i \<and> ?ns' = take p ?ns @ drop (Suc p) ?ns"
    proof (cases ?d)
      case 0
      then show ?thesis using there ht by (intro exI [of _ 0]) simp
    next
      case (Suc d)
      then show ?thesis using find_db_in_list_run(3) [OF Suc] ht by (intro exI [of _ "Suc d"]) simp
    qed
    then obtain p where p: "p < length ?ns" "ev_id (?ns ! p) = i" "?ns' = take p ?ns @ drop (Suc p) ?ns" by blast
    have d: "distinct (map ev_id ?ns)" using bn(5) by (simp add: bin_ok_def)
    have len: "length ?ns = Suc (length ?ns')" unfolding p(3) using p(1) by simp
    have ev: "event_of ?ns' = (event_of ?ns)(i := None)" unfolding p(3) using event_of_delete [OF d p(1)] p(2) by simp
    have bin': "bin_ok (first_id m) (last_id m) (hashlen m) ?b ?ns'"
    proof -
      have "distinct (map ev_id (take p ?ns @ drop (Suc p) ?ns))"
        using d set_take_disj_set_drop_if_distinct [OF d, of p "Suc p"]
        by (simp only: map_append distinct_append take_map [symmetric] drop_map [symmetric] distinct_take distinct_drop)
      moreover have "set (take p ?ns @ drop (Suc p) ?ns) \<subseteq> set ?ns" using set_take_subset set_drop_subset by (metis Un_least set_append)
      ultimately show ?thesis using bn(5) unfolding p(3) bin_ok_def by blast
    qed
    let ?k = "length ?ns'"
    let ?m1 = "m\<lparr>event_harray := ?bs[?b := ?ns'], num_alloc := num_alloc m - 1\<rparr>"
    let ?m' = "if ?k = mindepth m then (if int ?b < em_next m then ?m1\<lparr>em_next := int ?b\<rparr> else ?m1)
                  else if ?k < mindepth m then ?m1\<lparr>mindepth := ?k, em_next := int ?b\<rparr> else ?m1"
    have run: "vfi_put_event i m = Val (0, ?m')" using in_range ht there by (simp add: vfi_put_event_def Let_def)
    have fields: "first_id ?m' = first_id m" "last_id ?m' = last_id m" "hashlen ?m' = hashlen m" "em_num ?m' = em_num m"
      "event_harray ?m' = ?bs[?b := ?ns']" "mindepth ?m' = (if ?k < mindepth m then ?k else mindepth m)"
      "em_next ?m' = (if ?k = mindepth m \<and> int ?b < em_next m \<or> ?k < mindepth m then int ?b else em_next m)"
      by (simp_all del: list.size length_append)
    have nx: "next_ok (map length (event_harray ?m')) (mindepth ?m') (em_next ?m')"
    proof -
      have "?b < length (map length ?bs)" "map length ?bs ! ?b = Suc ?k" using len bn(3,4) by simp_all
      from next_ok_release [OF okd(7) this] show ?thesis unfolding fields map_update .
    qed
    have "bin_ok (first_id m) (last_id m) (hashlen m) x (event_harray ?m' ! x)" if "x < hashlen m" for x
      using that okd(3) okd(6) [OF that] bin' unfolding fields by (cases "x = ?b") simp_all
    then have "mgr_ok ?m'" using okd nx unfolding mgr_ok_def fields by simp
    moreover have "event_at ?m' = (event_at m)(i := None)"
      by (rule event_at_bin [OF fields(1-3,5) _ i _ ev]) (use bn in simp_all)
    ultimately show ?thesis using run fields bn(2) len by (intro exI [of _ ?m'] exI [of _ ?k]) auto
  qed
qed

lemma events_init_ok:
  assumes "0 \<le> f" "0 < hl" "int hl < l - f + 1"
  shows "\<exists>m. vfi_events_init True True f l hl = Some m \<and> mgr_ok m \<and> event_at m = Map.empty"
proof -
  have "nat ((x - f) mod int hl) < hl" for x using assms(2) by (simp add: nat_less_iff)
  then show ?thesis using assms by (auto simp: vfi_events_init_def mgr_ok_def bin_ok_def next_ok_def event_at_def fun_eq_iff)
qed

interpretation rio_bells: doorbells "vfi_get_doorbell True" vfi_put_doorbell "\<lambda>_ _. True"
    "\<lambda>dbmgr. event_at (the dbmgr)" "\<lambda>dbmgr. \<exists>m. dbmgr = Some m \<and> mgr_ok m"
proof
  show "(\<exists>m. s' = Some m \<and> mgr_ok m) \<and> event_at (the s) e = None \<and> event_at (the s') = (event_at (the s))(e \<mapsto> c)"
    if "\<exists>m. s = Some m \<and> mgr_ok m" "vfi_get_doorbell True c s = Val (e, s')" "0 \<le> e" for s c e s'
  proof -
    from that(1) obtain m where m: "s = Some m" "mgr_ok m" by blast
    show ?thesis by (rule get_event_run [OF m(2), of c]) (use that(2,3) m(1) in \<open>auto simp: vfi_get_doorbell_def\<close>)
  qed
  show "(\<exists>m. s' = Some m \<and> mgr_ok m) \<and> event_at (the s') = event_at (the s)"
    if "\<exists>m. s = Some m \<and> mgr_ok m" "vfi_get_doorbell True c s = Val (e, s')" "e < 0" for s c e s'
  proof -
    from that(1) obtain m where m: "s = Some m" "mgr_ok m" by blast
    show ?thesis
      by (rule get_event_run [OF m(2), of c]) (use that(2,3) m mgr_okD(2) [OF m(2)] in \<open>auto simp: vfi_get_doorbell_def\<close>)
  qed
  show "\<exists>s'. vfi_put_doorbell e s = Val s' \<and> (\<exists>m. s' = Some m \<and> mgr_ok m) \<and> event_at (the s') = (event_at (the s))(e := None)"
    if "\<exists>m. s = Some m \<and> mgr_ok m" "event_at (the s) e \<noteq> None" "True" for s e
  proof -
    from that(1) obtain m where m: "s = Some m" "mgr_ok m" by blast
    then have e: "first_id m \<le> e" "e \<le> last_id m" "event_at m e \<noteq> None" using that(2) by (auto simp: event_at_def split: if_splits)
    from put_event_run(2) [OF m(2) e] m(1) show ?thesis by (auto simp: vfi_put_doorbell_def)
  qed
qed


section \<open>Properties\<close>

text \<open>C21: RapidIO doorbells, too, ring their present owner and nobody else, however registrations and
  releases are ordered; no release goes wrong. It is the same contract as that of the hash table.\<close>

theorem rio_bells_ring_their_owner:
  assumes run: "bell_run (vfi_get_doorbell True) vfi_put_doorbell (\<lambda>_ _. True) (vfi_events_init True True f l hl) own s"
    and range: "0 \<le> f" "0 < hl" "int hl < l - f + 1"
  shows "(\<forall>i \<in> {first_id (the s)..last_id (the s)}.
      vfi_dbell_event s i = Val (case own i of None \<Rightarrow> None | Some c \<Rightarrow> if fst c \<noteq> 0 then Some c else None))
    \<and> (\<forall>i \<in> dom own. \<exists>s'. vfi_put_doorbell i s = Val s' \<and> event_at (the s') = own(i := None))"
proof (intro conjI)
  from events_init_ok [OF range] obtain m0 where m0: "vfi_events_init True True f l hl = Some m0" "mgr_ok m0" "event_at m0 = Map.empty" by blast
  from rio_bells.bells_of_run [OF run] m0 obtain m where m: "s = Some m" "mgr_ok m" "event_at m = own" by auto
  then show "\<forall>i \<in> {first_id (the s)..last_id (the s)}.
    vfi_dbell_event s i = Val (case own i of None \<Rightarrow> None | Some c \<Rightarrow> if fst c \<noteq> 0 then Some c else None)"
    using dispatch_run [OF m(2)] by (simp add: vfi_dbell_event_def)
  show "\<forall>i \<in> dom own. \<exists>s'. vfi_put_doorbell i s = Val s' \<and> event_at (the s') = own(i := None)"
    using rio_bells.drop_bell [of s] m by auto
qed

theorem rio_bells_ring_their_owner_witness:
  "\<exists>s. bell_run (vfi_get_doorbell True) vfi_put_doorbell (\<lambda>_ _. True) (vfi_events_init True True 0x2000 0x2004 2)
      (Map.empty(0x2000 \<mapsto> (7, 1))) s \<and> vfi_dbell_event s 0x2000 = Val (Some (7, 1)) \<and> vfi_dbell_event s 0x2001 = Val None"
proof -
  let ?s0 = "vfi_events_init True True 0x2000 0x2004 2"
  obtain s where s: "vfi_get_doorbell True (7, 1) ?s0 = Val (0x2000, s)" "first_id (the s) = 0x2000" "last_id (the s) = 0x2004"
  proof -
    have "(case vfi_get_doorbell True (7, 1) ?s0 of Val (i, s) \<Rightarrow> i = 0x2000 \<and> first_id (the s) = 0x2000 \<and> last_id (the s) = 0x2004 | _ \<Rightarrow> False)"
      by code_simp
    then show ?thesis using that by (auto split: cres.splits prod.splits)
  qed
  from bell_run.register [OF bell_run.start, of "vfi_get_doorbell True" "(7, 1)" ?s0 "0x2000" s] s(1)
  have run: "bell_run (vfi_get_doorbell True) vfi_put_doorbell (\<lambda>_ _. True) ?s0 (Map.empty(0x2000 \<mapsto> (7, 1))) s"
    by (simp add: vfi_doorbell_register_def)
  from rio_bells_ring_their_owner [OF run] run s(2,3) show ?thesis by (intro exI [of _ s]) simp
qed

text \<open>A request gets a number that nobody has, in the range of the hardware; unless one has been
  refused before, it is refused only when every number is in use, although only the shortest bin is
  looked at.\<close>

theorem get_event_uses_every_number:
  assumes ok: "mgr_ok m" and "em_next m \<noteq> - 1"
  shows "\<exists>i m'. vfi_get_event True c m = Val (i, m') \<and> mgr_ok m'
    \<and> (if i = - 1 then (\<forall>x \<in> {first_id m..last_id m}. event_at m x \<noteq> None) \<and> event_at m' = event_at m
       else i \<in> {first_id m..last_id m} \<and> event_at m i = None \<and> event_at m' = (event_at m)(i \<mapsto> c))"
proof (rule get_event_run [OF ok, of c])
  fix i m'
  assume "vfi_get_event True c m = Val (i, m')" "first_id m \<le> i" "i \<le> last_id m" "event_at m i = None" "mgr_ok m'"
    "event_at m' = (event_at m)(i \<mapsto> c)"
  moreover from this(2) have "i \<noteq> - 1" using mgr_okD(2) [OF ok] by simp
  ultimately show ?thesis by (intro exI [of _ i] exI [of _ m']) simp
qed (use assms in auto)

definition demo_mgr :: event_mgr where
  "demo_mgr = \<lparr>em_next = 1, mindepth = 1, first_id = 0, last_id = 2, num_alloc = 3, em_num = 3, high_watermark = 3, hashlen = 2,
     event_harray = [[\<lparr>ev_call = (7, 0), ev_id = 0\<rparr>, \<lparr>ev_call = (7, 2), ev_id = 2\<rparr>], [\<lparr>ev_call = (7, 1), ev_id = 1\<rparr>]]\<rparr>"

lemma demo_mgr_ok: "mgr_ok demo_mgr" "mgr_ok (demo_mgr\<lparr>em_next := - 1\<rparr>)"
  by (auto simp: mgr_ok_def demo_mgr_def bin_ok_def next_ok_def less_Suc_eq numeral_2_eq_2)

theorem get_event_uses_every_number_witness:
  "vfi_get_event True (9, 9) demo_mgr = Val (- 1, demo_mgr\<lparr>em_next := - 1\<rparr>) \<and> event_at demo_mgr 0 \<noteq> None
    \<and> event_at demo_mgr 1 \<noteq> None \<and> event_at demo_mgr 2 \<noteq> None"
proof -
  have run: "vfi_get_event True (9, 9) demo_mgr = Val (- 1, demo_mgr\<lparr>em_next := - 1\<rparr>)"
    by (simp add: vfi_get_event_def place_event_def demo_mgr_def free_id.simps)
  have "em_next demo_mgr \<noteq> - 1" by (simp add: demo_mgr_def)
  from get_event_uses_every_number [OF demo_mgr_ok(1) this, of "(9, 9)"] run
  have "\<forall>x \<in> {first_id demo_mgr..last_id demo_mgr}. event_at demo_mgr x \<noteq> None" by simp
  with run show ?thesis by (simp add: demo_mgr_def)
qed

text \<open>A manager that has refused a request may go on refusing: when the released number is in a bin
  that stays as deep as the shortest one, nothing resets \<open>next\<close>, and the free number is not found.\<close>

theorem refused_once_refused_again:
  assumes ok: "mgr_ok m" and refused: "em_next m = - 1" and i: "event_at m i \<noteq> None"
    and deep: "mindepth m < length (event_harray m ! nat (bin_of m i))"
  shows "\<exists>m'. vfi_put_event i m = Val (0, m') \<and> event_at m' i = None \<and> vfi_get_event ka c m' = Val (- 1, m')"
proof -
  have r: "first_id m \<le> i" "i \<le> last_id m" using i by (auto simp: event_at_def split: if_splits)
  from put_event_run(2) [OF ok r i] mgr_bin(2) [OF ok r] deep refused show ?thesis by (auto simp: vfi_get_event_def)
qed

theorem refused_once_refused_again_witness:
  "\<exists>m'. vfi_put_event 0 (demo_mgr\<lparr>em_next := - 1\<rparr>) = Val (0, m') \<and> event_at m' 0 = None \<and> vfi_get_event True (9, 9) m' = Val (- 1, m')"
proof (rule refused_once_refused_again)
  show "mgr_ok (demo_mgr\<lparr>em_next := - 1\<rparr>)" by (rule demo_mgr_ok)
qed (simp_all add: demo_mgr_def event_at_def bin_of_def c_rem_def)

end
