(* ===== verification/Vfi_Fabric_Ops.thy ===== *)
theory Vfi_Fabric_Ops
  imports Vfi_Rpc
begin

text \<open>
  The operations on objects of other nodes, \<open>vfi_fabric_ops.c\<close>. An operation sends its command to the
  node of the object with \<open>vfi_fabric_call\<close>, parses the reply, reads the number in its option
  \<open>result\<close>, and when that is 0 makes or deletes the local stand-in (the shadow) of the object.

  As in \<open>Vfi_Ops\<close> the functions that are called are the environment: an answer for each call, given all
  the calls before it, and the calls are recorded in order. Parsing, cleaning and cloning of descriptors
  are the functions of \<open>Vfi_Parse\<close>, with their references. What the operations themselves write to
  binds and locations is in the state.
\<close>

section \<open>Calls\<close>

text \<open>
  A remote call with its location and command, or a function with its objects and one more argument. An
  answer is a number and an object; for a remote call also the reply, if one has come.
\<close>

datatype arg = A_none | A_text string | A_num int | A_desc vfi_desc_param | A_bind vfi_bind_param

datatype fcall = Call "nat option" string | Fn string "nat option list" arg

type_synonym fevent = "fcall \<times> errno \<times> nat option"

record fenv =
  fanswer :: "fevent list \<Rightarrow> fcall \<Rightarrow> errno \<times> nat option"
  freply :: "fevent list \<Rightarrow> fcall \<Rightarrow> string option"
  fkmem :: "fevent list \<Rightarrow> bool"
  fkmem4 :: "fevent list \<Rightarrow> bool \<times> bool \<times> bool \<times> bool"
  fgarbage :: vfi_desc_param
  bind_of :: "nat \<Rightarrow> nat option"
  has_smbs :: "fevent list \<Rightarrow> nat \<Rightarrow> bool"
  has_xfers :: "fevent list \<Rightarrow> nat \<Rightarrow> bool"
  has_syncs :: "fevent list \<Rightarrow> nat \<Rightarrow> bool"

text \<open>The events of a bind, with the numbers of the doorbells that belong to them.\<close>

record bind_events =
  b_dst_ready :: "nat option"
  b_dst_ready_id :: int
  b_dst_done :: "nat option"
  b_dst_done_id :: int
  b_src_ready :: "nat option"
  b_src_ready_id :: int
  b_src_done :: "nat option"
  b_src_done_id :: int

text \<open>\<open>f_desc\<close> and \<open>f_bdesc\<close> are the descriptors in objects, \<open>f_binds\<close> the events of binds.\<close>

record fstate =
  f_refs :: ref_state
  f_trace :: "fevent list"
  f_desc :: "nat \<Rightarrow> vfi_desc_param"
  f_bdesc :: "nat \<Rightarrow> vfi_bind_param"
  f_binds :: "nat \<Rightarrow> bind_events"

type_synonym 'a fm = "fstate \<Rightarrow> ('a \<times> fstate) cres"

definition fret :: "'a \<Rightarrow> 'a fm" where "fret x s = Val (x, s)"
definition fbind :: "'a fm \<Rightarrow> ('a \<Rightarrow> 'b fm) \<Rightarrow> 'b fm" where "fbind m f s = cres_bind (m s) (\<lambda>(x, s). f x s)"
definition flift :: "'a cres \<Rightarrow> 'a fm" where "flift m s = cres_bind m (\<lambda>x. Val (x, s))"
definition fget :: "(fstate \<Rightarrow> 'a) \<Rightarrow> 'a fm" where "fget f s = Val (f s, s)"
definition fput :: "(fstate \<Rightarrow> fstate) \<Rightarrow> unit fm" where "fput f s = Val ((), f s)"
definition fail :: "'a fm" where "fail s = Undef"

definition fn :: "fenv \<Rightarrow> string \<Rightarrow> nat option list \<Rightarrow> arg \<Rightarrow> (errno \<times> nat option) fm" where
  "fn E nm hs a s =
     (let c = Fn nm hs a; (ret, h) = fanswer E (f_trace s) c
      in Val ((ret, h), s\<lparr>f_trace := f_trace s @ [(c, ret, h)]\<rparr>))"

text \<open>A call whose result is not used.\<close>

definition fdo :: "fenv \<Rightarrow> string \<Rightarrow> nat option list \<Rightarrow> arg \<Rightarrow> unit fm" where
  "fdo E nm hs a = fbind (fn E nm hs a) (\<lambda>_. fret ())"

text \<open>
  \<open>vfi_fabric_call\<close> returns 0 exactly when there is a reply. Without a location it fails before it looks
  at it only when there is no memory.
\<close>

definition vfi_fabric_call :: "fenv \<Rightarrow> nat option \<Rightarrow> string cres \<Rightarrow> (errno \<times> string option) fm" where
  "vfi_fabric_call E loc cmd s =
     cres_bind cmd (\<lambda>m.
       let c = Call loc m; skb = freply E (f_trace s) c;
           ret = (if skb = None then fst (fanswer E (f_trace s) c) else 0)
       in if loc = None \<and> ret \<noteq> - ENOMEM then Undef
          else Val ((ret, skb), s\<lparr>f_trace := f_trace s @ [(c, ret, None)]\<rparr>))"

section \<open>Replies\<close>

text \<open>\<open>sscanf("%d")\<close> of an option; the option must be there.\<close>

definition is_digit :: "char \<Rightarrow> bool" where
  "is_digit c \<longleftrightarrow> 48 \<le> (of_char c :: nat) \<and> (of_char c :: nat) \<le> 57"

definition dec_value :: "string \<Rightarrow> nat" where
  "dec_value ds = foldl (\<lambda>v c. 10 * v + (of_char c - 48)) 0 (takeWhile is_digit ds)"

definition c_int :: "int \<Rightarrow> int" where
  "c_int v = sint (word_of_int v :: u32)"

definition scan_d :: "string \<Rightarrow> int option" where
  "scan_d s =
     (case dropWhile is_space s of
        [] \<Rightarrow> None
      | c # cs \<Rightarrow>
          if c = CHR ''-'' then (if cs \<noteq> [] \<and> is_digit (hd cs) then Some (c_int (- int (dec_value cs))) else None)
          else if is_digit c then Some (c_int (int (dec_value (c # cs)))) else None)"

definition option_number :: "vfi_desc_param \<Rightarrow> string \<Rightarrow> int option cres" where
  "option_number d nm = cres_bind (vfi_get_option d nm) (\<lambda>r.
     case r of None \<Rightarrow> Undef | Some i \<Rightarrow> cres_bind (text_of d (Some i)) (\<lambda>t. Val (scan_d t)))"

definition parse_reply :: "fenv \<Rightarrow> string \<Rightarrow> (errno \<times> vfi_desc_param) fm" where
  "parse_reply E m s =
     cres_bind (vfi_parse_desc (fkmem E (f_trace s)) (fgarbage E) (Some m) (reg (f_refs s))) (\<lambda>(ret, d, g).
       Val ((ret, d), s\<lparr>f_refs := (f_refs s)\<lparr>reg := g\<rparr>\<rparr>))"

definition parse_bind_reply :: "fenv \<Rightarrow> string \<Rightarrow> (errno \<times> vfi_bind_param) fm" where
  "parse_bind_reply E m s =
     cres_bind (vfi_parse_bind (fkmem4 E (f_trace s)) (Some m) (reg (f_refs s))) (\<lambda>(ret, p, g).
       Val ((ret, p), s\<lparr>f_refs := (f_refs s)\<lparr>reg := g\<rparr>\<rparr>))"

definition clean_reply :: "fenv \<Rightarrow> vfi_desc_param \<Rightarrow> unit fm" where
  "clean_reply E d = fbind (fdo E ''vfi_clean_desc'' [] (A_desc d)) (\<lambda>_.
     fput (\<lambda>s. s\<lparr>f_refs := vfi_clean_desc d (f_refs s)\<rparr>))"

definition clean_bind_reply :: "fenv \<Rightarrow> vfi_bind_param \<Rightarrow> unit fm" where
  "clean_bind_reply E p = fbind (fdo E ''vfi_clean_bind'' [] (A_bind p)) (\<lambda>_.
     fput (\<lambda>s. s\<lparr>f_refs := vfi_clean_bind p (f_refs s)\<rparr>))"

definition free_reply :: "fenv \<Rightarrow> unit fm" where
  "free_reply E = fdo E ''dev_kfree_skb'' [] A_none"

text \<open>
  What nearly every operation does with the reply to its command. \<open>start\<close> is the value that \<open>ret\<close> is set
  to once a reply has come, if it is set; \<open>act\<close> is the code for the result 0, with the descriptor of the
  reply, which it may change. The number in the reply becomes \<open>ret\<close>.
\<close>

definition remote ::
  "fenv \<Rightarrow> nat option \<Rightarrow> string cres \<Rightarrow> errno option \<Rightarrow> (vfi_desc_param \<Rightarrow> (errno \<times> nat option \<times> vfi_desc_param) fm)
     \<Rightarrow> (errno \<times> nat option) fm" where
  "remote E loc cmd start act =
     fbind (vfi_fabric_call E loc cmd) (\<lambda>(ret, skb).
       case skb of
         None \<Rightarrow> fret (ret, None)
       | Some m \<Rightarrow>
           let ret = (case start of None \<Rightarrow> ret | Some r \<Rightarrow> r) in
           fbind (parse_reply E m) (\<lambda>(bad, reply).
             if bad \<noteq> 0 then fret (ret, None)
             else fbind (free_reply E) (\<lambda>_.
               fbind (flift (option_number reply ''result'')) (\<lambda>res.
                 fbind (case res of
                     None \<Rightarrow> fret (ret, None, reply)
                   | Some r \<Rightarrow> if r = 0 then act reply else fret (r, None, reply)) (\<lambda>(ret, obj, reply).
                   fbind (clean_reply E reply) (\<lambda>_. fret (ret, obj)))))))"

text \<open>The same for a reply with the descriptors of a bind: the result is in the options of its source.\<close>

definition remote_bind ::
  "fenv \<Rightarrow> nat option \<Rightarrow> string cres \<Rightarrow> (vfi_bind_param \<Rightarrow> (errno \<times> nat option) fm) \<Rightarrow> (errno \<times> nat option) fm" where
  "remote_bind E loc cmd act =
     fbind (vfi_fabric_call E loc cmd) (\<lambda>(ret, skb).
       case skb of
         None \<Rightarrow> fret (ret, None)
       | Some m \<Rightarrow>
           fbind (parse_bind_reply E m) (\<lambda>(bad, reply).
             if bad \<noteq> 0 then fret (- EINVAL, None)
             else fbind (free_reply E) (\<lambda>_.
               fbind (flift (option_number (src reply) ''result'')) (\<lambda>res.
                 fbind (case res of
                     None \<Rightarrow> fret (- EINVAL, None)
                   | Some r \<Rightarrow> if r = 0 then act reply else fret (r, None)) (\<lambda>(ret, obj).
                   fbind (clean_bind_reply E reply) (\<lambda>_. fret (ret, obj)))))))"

definition void :: "'a fm \<Rightarrow> unit fm" where
  "void m = fbind m (\<lambda>_. fret ())"

text \<open>Making an object from the reply, and what a reply with result 0 is for operations that do nothing more.\<close>

definition make :: "fenv \<Rightarrow> string \<Rightarrow> nat option \<Rightarrow> vfi_desc_param \<Rightarrow> (errno \<times> nat option \<times> vfi_desc_param) fm" where
  "make E nm parent reply = fbind (fn E nm [parent] (A_desc reply)) (\<lambda>(ret, obj). fret (ret, obj, reply))"

definition done_with :: "vfi_desc_param \<Rightarrow> (errno \<times> nat option \<times> vfi_desc_param) fm" where
  "done_with reply = fret (0, None, reply)"

definition unmake :: "fenv \<Rightarrow> string \<Rightarrow> nat \<Rightarrow> arg \<Rightarrow> vfi_desc_param \<Rightarrow> (errno \<times> nat option \<times> vfi_desc_param) fm" where
  "unmake E nm obj a reply = fbind (fdo E nm [Some obj] a) (\<lambda>_. done_with reply)"

text \<open>The commands: an operation's name with the object it is about.\<close>

definition cmd_name :: "string \<Rightarrow> vfi_desc_param \<Rightarrow> string cres" where
  "cmd_name op d = cat [Val (op @ ''://''), fmt_name d]"

definition cmd_full :: "string \<Rightarrow> vfi_desc_param \<Rightarrow> string cres" where
  "cmd_full op d = cat [Val (op @ ''://''), fmt_full d]"

definition cmd_bind :: "string \<Rightarrow> vfi_bind_param \<Rightarrow> string cres" where
  "cmd_bind op p = cat [Val (op @ ''://''), fmt_bind p]"

definition kfind :: "fenv \<Rightarrow> nat \<Rightarrow> string cres \<Rightarrow> (errno \<times> nat option) fm" where
  "kfind E parent nm = fbind (flift nm) (\<lambda>t. fn E ''kset_find_obj'' [Some parent] (A_text t))"


section \<open>Blocks and mappings\<close>

definition vfi_fabric_smb_find :: "fenv \<Rightarrow> nat \<Rightarrow> vfi_desc_param \<Rightarrow> (errno \<times> nat option) fm" where
  "vfi_fabric_smb_find E parent desc =
     fbind (kfind E parent (text_of desc (name desc))) (\<lambda>(_, smb).
       if smb \<noteq> None then fret (0, smb)
       else remote E (Some parent) (cmd_name ''smb_find'' desc) None (\<lambda>reply.
         fbind (make E ''vfi_smb_create'' (Some parent) reply) (\<lambda>(ret, smb, reply).
           if ret \<noteq> - EEXIST then fret (ret, smb, reply)
           else fbind (kfind E parent (text_of desc (name desc))) (\<lambda>(_, smb).
             case smb of
               None \<Rightarrow> fret (ret, None, reply)
             | Some a \<Rightarrow>
                 fbind (fget (\<lambda>s. table_for (ops (f_desc s a)) ''smb_put'')) (\<lambda>t.
                   fbind (if t = None then fret () else fdo E ''smb_put'' [smb] (A_desc desc)) (\<lambda>_.
                     fret (0, smb, reply)))))))"

definition vfi_fabric_smb_put :: "fenv \<Rightarrow> nat \<Rightarrow> unit fm" where
  "vfi_fabric_smb_put E smb =
     fbind (fget (\<lambda>s. f_desc s smb)) (\<lambda>d.
       void (remote E (ploc d) (cmd_name ''smb_put'' d) None (unmake E ''vfi_smb_delete'' smb A_none)))"

text \<open>In \<open>vfi_fabric_smb_lose\<close> the test of the result has the cleaning of the reply as its body.\<close>

definition vfi_fabric_smb_lose :: "fenv \<Rightarrow> nat \<Rightarrow> unit fm" where
  "vfi_fabric_smb_lose E smb =
     fbind (fget (\<lambda>s. f_desc s smb)) (\<lambda>d. void (remote E (ploc d) (cmd_name ''smb_lose'' d) None done_with))"

definition vfi_fabric_smb_create :: "fenv \<Rightarrow> nat \<Rightarrow> vfi_desc_param \<Rightarrow> (errno \<times> nat option) fm" where
  "vfi_fabric_smb_create E loc desc =
     remote E (Some loc) (cmd_full ''smb_create'' desc) (Some (- EINVAL)) (make E ''vfi_smb_create'' (Some loc))"

definition vfi_fabric_smb_delete :: "fenv \<Rightarrow> nat \<Rightarrow> unit fm" where
  "vfi_fabric_smb_delete E smb = fdo E ''vfi_smb_delete'' [Some smb] A_none"

text \<open>Mappings are made at the node of their block only.\<close>

definition vfi_fabric_mmap_find :: "nat \<Rightarrow> vfi_desc_param \<Rightarrow> (errno \<times> nat option) fm" where
  "vfi_fabric_mmap_find parent desc = fret (- EINVAL, None)"

definition vfi_fabric_mmap_create :: "nat \<Rightarrow> vfi_desc_param \<Rightarrow> (errno \<times> nat option) fm" where
  "vfi_fabric_mmap_create smb desc = fret (- EINVAL, None)"

definition vfi_fabric_mmap_delete :: "nat \<Rightarrow> vfi_desc_param \<Rightarrow> unit fm" where
  "vfi_fabric_mmap_delete mm desc = fret ()"

definition vfi_fabric_mmap_put :: "nat \<Rightarrow> vfi_desc_param \<Rightarrow> unit fm" where
  "vfi_fabric_mmap_put mm desc = fret ()"

section \<open>Transfers and synchronisers\<close>

definition vfi_fabric_xfer_find :: "fenv \<Rightarrow> nat \<Rightarrow> vfi_desc_param \<Rightarrow> (errno \<times> nat option) fm" where
  "vfi_fabric_xfer_find E loc desc =
     fbind (kfind E loc (text_of desc (name desc))) (\<lambda>(_, xf).
       if xf \<noteq> None then fret (0, xf)
       else remote E (Some loc) (cmd_name ''xfer_find'' desc) (Some (- EINVAL)) (\<lambda>reply.
         make E ''vfi_xfer_create'' (Some loc) (reply\<lparr>extent := 0, offset := 0\<rparr>)))"

definition vfi_fabric_xfer_put :: "fenv \<Rightarrow> nat \<Rightarrow> unit fm" where
  "vfi_fabric_xfer_put E xf =
     fbind (fget (\<lambda>s. f_desc s xf)) (\<lambda>d.
       void (remote E (ploc d) (cmd_name ''xfer_put'' d) None (unmake E ''vfi_xfer_put'' xf A_none)))"

definition vfi_fabric_xfer_lose :: "fenv \<Rightarrow> nat \<Rightarrow> unit fm" where
  "vfi_fabric_xfer_lose E xf =
     fbind (fget (\<lambda>s. f_desc s xf)) (\<lambda>d. void (remote E (ploc d) (cmd_name ''xfer_lose'' d) None done_with))"

definition vfi_fabric_xfer_create :: "fenv \<Rightarrow> nat \<Rightarrow> vfi_desc_param \<Rightarrow> (errno \<times> nat option) fm" where
  "vfi_fabric_xfer_create E loc desc =
     remote E (Some loc) (cmd_full ''xfer_create'' desc) (Some (- EINVAL)) (make E ''vfi_xfer_create'' (Some loc))"

definition vfi_fabric_xfer_delete :: "fenv \<Rightarrow> nat \<Rightarrow> unit fm" where
  "vfi_fabric_xfer_delete E xf = fdo E ''vfi_xfer_delete'' [Some xf, None] A_none"

definition vfi_fabric_sync_find :: "fenv \<Rightarrow> nat \<Rightarrow> vfi_desc_param \<Rightarrow> (errno \<times> nat option) fm" where
  "vfi_fabric_sync_find E loc desc =
     fbind (fget (\<lambda>s. has_syncs E (f_trace s) loc)) (\<lambda>there.
       if \<not> there then fret (- EINVAL, None)
       else fbind (kfind E loc (text_of desc (name desc))) (\<lambda>(_, sy).
         if sy \<noteq> None then fret (0, sy)
         else remote E (Some loc) (cmd_name ''sync_find'' desc) (Some (- EINVAL)) (\<lambda>reply.
           fbind (make E ''vfi_sync_create'' (Some loc) (reply\<lparr>extent := 0, offset := 0\<rparr>)) (\<lambda>(ret, sy, reply).
             if ret \<noteq> - EEXIST then fret (ret, sy, reply)
             else fbind (kfind E loc (text_of desc (name desc))) (\<lambda>(_, sy).
               fret (if sy \<noteq> None then 0 else ret, sy, reply))))))"

definition vfi_fabric_sync_put :: "fenv \<Rightarrow> nat \<Rightarrow> unit fm" where
  "vfi_fabric_sync_put E sy = fdo E ''vfi_sync_put'' [Some sy] A_none"

text \<open>Sending and waiting carry a value, in the place of the offset.\<close>

definition cmd_value :: "string \<Rightarrow> vfi_desc_param \<Rightarrow> vfi_desc_param \<Rightarrow> string cres" where
  "cmd_value op d desc = cat [Val (op @ ''://''), fmt_name d, Val (''#'' @ hex_of_nat (unat (offset desc)))]"

definition vfi_fabric_sync_send :: "fenv \<Rightarrow> nat \<Rightarrow> vfi_desc_param \<Rightarrow> (errno \<times> nat option) fm" where
  "vfi_fabric_sync_send E sy desc =
     fbind (fget (\<lambda>s. f_desc s sy)) (\<lambda>d. remote E (ploc d) (cmd_value ''sync_send'' d desc) (Some (- EINVAL)) done_with)"

definition vfi_fabric_sync_wait :: "fenv \<Rightarrow> nat \<Rightarrow> vfi_desc_param \<Rightarrow> (errno \<times> nat option) fm" where
  "vfi_fabric_sync_wait E sy desc =
     fbind (fget (\<lambda>s. f_desc s sy)) (\<lambda>d. remote E (ploc d) (cmd_value ''sync_wait'' d desc) (Some (- EINVAL)) done_with)"

text \<open>\<open>vfi_fabric_sync_lose\<close> sends \<open>sync_put\<close>.\<close>

definition vfi_fabric_sync_lose :: "fenv \<Rightarrow> nat \<Rightarrow> vfi_desc_param \<Rightarrow> unit fm" where
  "vfi_fabric_sync_lose E sy desc =
     fbind (fget (\<lambda>s. f_desc s sy)) (\<lambda>d. void (remote E (ploc d) (cmd_name ''sync_put'' desc) (Some (- EINVAL)) done_with))"

definition vfi_fabric_sync_create :: "fenv \<Rightarrow> nat \<Rightarrow> vfi_desc_param \<Rightarrow> (errno \<times> nat option) fm" where
  "vfi_fabric_sync_create E loc desc =
     remote E (Some loc) (cmd_full ''sync_create'' desc) (Some (- EINVAL)) (make E ''vfi_sync_create'' (Some loc))"

definition vfi_fabric_sync_delete :: "fenv \<Rightarrow> nat \<Rightarrow> vfi_desc_param \<Rightarrow> unit fm" where
  "vfi_fabric_sync_delete E sy desc =
     fbind (fget (\<lambda>s. f_desc s sy)) (\<lambda>d.
       void (remote E (ploc d) (cmd_name ''sync_delete'' desc) (Some (- EINVAL)) (\<lambda>reply.
         unmake E ''vfi_sync_delete'' sy (A_desc reply) reply)))"

section \<open>Binds, destinations and sources\<close>

definition bind_name :: "vfi_desc_param \<Rightarrow> string" where
  "bind_name d = ''#'' @ hex_of_nat (unat (offset d)) @ '':'' @ hex_of_nat (unat (extent d))"

definition vfi_fabric_bind_find :: "fenv \<Rightarrow> nat \<Rightarrow> vfi_desc_param \<Rightarrow> (errno \<times> nat option) fm" where
  "vfi_fabric_bind_find E parent desc =
     fbind (kfind E parent (Val (bind_name desc))) (\<lambda>(_, b).
       if b \<noteq> None then fret (0, b)
       else fbind (fget (\<lambda>s. f_desc s parent)) (\<lambda>d.
         remote_bind E (ploc d) (cmd_full ''bind_find'' desc) (\<lambda>reply. fn E ''vfi_bind_create'' [Some parent] (A_bind reply))))"

definition cmd_bind_events :: "vfi_bind_param \<Rightarrow> string cres" where
  "cmd_bind_events p =
     cat [Val ''bind_create://'', fmt_full (xfer p), Val ''/'',
       fmt_full (dst p), Val ''?event_name('', option_text (dst p) ''event_name'', Val '')='',
       fmt_full (src p), Val ''?event_name('', option_text (src p) ''event_name'', Val '')'']"

definition vfi_fabric_bind_create :: "fenv \<Rightarrow> nat \<Rightarrow> vfi_bind_param \<Rightarrow> (errno \<times> nat option) fm" where
  "vfi_fabric_bind_create E parent desc =
     fbind (fget (\<lambda>s. f_desc s parent)) (\<lambda>d.
       remote_bind E (ploc d) (cmd_bind_events desc) (\<lambda>reply. fn E ''vfi_bind_create'' [Some parent] (A_bind reply)))"

definition vfi_fabric_bind_delete :: "fenv \<Rightarrow> nat \<Rightarrow> vfi_desc_param \<Rightarrow> unit fm" where
  "vfi_fabric_bind_delete E xf desc =
     fbind (fget (\<lambda>s. f_desc s xf)) (\<lambda>d.
       void (remote E (ploc d) (cmd_full ''bind_delete'' desc) (Some (- EINVAL)) (unmake E ''vfi_bind_delete'' xf (A_desc desc))))"

definition vfi_fabric_bind_lose :: "fenv \<Rightarrow> nat \<Rightarrow> vfi_desc_param \<Rightarrow> unit fm" where
  "vfi_fabric_bind_lose E xf desc =
     fbind (fget (\<lambda>s. f_desc s xf)) (\<lambda>d. void (remote E (ploc d) (cmd_full ''bind_lose'' desc) (Some (- EINVAL)) done_with))"

definition vfi_fabric_dst_find :: "fenv \<Rightarrow> nat \<Rightarrow> vfi_bind_param \<Rightarrow> (errno \<times> nat option) fm" where
  "vfi_fabric_dst_find E parent desc =
     fbind (fget (\<lambda>s. f_bdesc s parent)) (\<lambda>b.
       fbind (fn E ''vfi_local_dst_find'' [Some parent] (A_bind desc)) (\<lambda>(_, d).
         if d \<noteq> None then fret (0, d)
         else remote_bind E (ploc (dst b)) (cmd_bind ''dst_find'' desc) (\<lambda>reply. fn E ''vfi_dst_create'' [Some parent] (A_bind reply))))"

definition vfi_fabric_src_find :: "fenv \<Rightarrow> nat \<Rightarrow> vfi_bind_param \<Rightarrow> (errno \<times> nat option) fm" where
  "vfi_fabric_src_find E parent desc =
     fbind (fget (\<lambda>s. f_bdesc s parent)) (\<lambda>b.
       remote_bind E (ploc (src b)) (cmd_bind ''src_find'' desc) (\<lambda>reply. fn E ''vfi_src_create'' [Some parent] (A_bind reply)))"

text \<open>\<open>vfi_fabric_dst_create\<close> needs the source's event name; an empty one would be printed.\<close>

definition vfi_fabric_dst_create :: "fenv \<Rightarrow> nat \<Rightarrow> vfi_bind_param \<Rightarrow> (errno \<times> nat option) fm" where
  "vfi_fabric_dst_create E parent desc =
     fbind (flift (vfi_get_option (src desc) ''event_name'')) (\<lambda>ev.
       if ev = None then fret (- EINVAL, None)
       else fbind (fget (\<lambda>s. f_bdesc s parent)) (\<lambda>b.
         remote_bind E (ploc (xfer b))
           (cat [Val ''dst_create://'', fmt_bind desc, Val ''?event_name('', text_of (src desc) ev, Val '')''])
           (\<lambda>reply. fbind (fn E ''vfi_local_dst_find'' [Some parent] (A_bind reply)) (\<lambda>(ret, d).
              if d = None then fn E ''vfi_dst_create'' [Some parent] (A_bind reply) else fret (ret, d)))))"

text \<open>\<open>vfi_fabric_src_create\<close> forgets what the call has returned.\<close>

definition vfi_fabric_src_create :: "fenv \<Rightarrow> nat \<Rightarrow> vfi_bind_param \<Rightarrow> (errno \<times> nat option) fm" where
  "vfi_fabric_src_create E parent desc =
     fbind (fget (\<lambda>s. f_bdesc s parent)) (\<lambda>b.
       fbind (vfi_fabric_call E (ploc (xfer b)) (cmd_bind ''src_create'' desc)) (\<lambda>(_, skb).
         case skb of
           None \<Rightarrow> fret (- EINVAL, None)
         | Some m \<Rightarrow>
             fbind (parse_bind_reply E m) (\<lambda>(bad, reply).
               if bad \<noteq> 0 then fret (- EINVAL, None)
               else fbind (free_reply E) (\<lambda>_.
                 fbind (flift (option_number (src reply) ''result'')) (\<lambda>res.
                   fbind (case res of
                       None \<Rightarrow> fret (- EINVAL, None)
                     | Some r \<Rightarrow> if r = 0 then fn E ''vfi_src_create'' [Some parent] (A_bind reply) else fret (r, None)) (\<lambda>(ret, obj).
                     fbind (clean_bind_reply E reply) (\<lambda>_. fret (ret, obj))))))))"

definition vfi_fabric_dst_delete :: "fenv \<Rightarrow> nat \<Rightarrow> vfi_bind_param \<Rightarrow> unit fm" where
  "vfi_fabric_dst_delete E b desc =
     fbind (fget (\<lambda>s. f_bdesc s b)) (\<lambda>bd.
       fbind (fn E ''find_vfi_dst_in'' [Some b] (A_bind desc)) (\<lambda>(_, d).
         fbind (vfi_fabric_call E (ploc (xfer bd)) (cmd_bind ''dst_delete'' desc)) (\<lambda>(_, skb).
           fbind (if d \<noteq> None then fdo E ''vfi_dst_put'' [d] A_none else fret ()) (\<lambda>_.
             case skb of
               None \<Rightarrow> fret ()
             | Some m \<Rightarrow>
                 fbind (parse_bind_reply E m) (\<lambda>(bad, reply).
                   if bad \<noteq> 0 then fret ()
                   else fbind (free_reply E) (\<lambda>_.
                     fbind (flift (option_number (src reply) ''result'')) (\<lambda>res.
                       fbind (if res = Some 0 then fdo E ''vfi_dst_delete'' [Some b] (A_bind reply) else fret ()) (\<lambda>_.
                         clean_bind_reply E reply))))))))"

text \<open>The destination in the command of \<open>vfi_fabric_src_delete\<close> is that of the parent.\<close>

definition vfi_fabric_src_delete :: "fenv \<Rightarrow> nat \<Rightarrow> vfi_bind_param \<Rightarrow> unit fm" where
  "vfi_fabric_src_delete E parent desc =
     fbind (fget (\<lambda>s. f_bdesc s parent)) (\<lambda>b.
       void (remote_bind E (ploc (xfer b)) (cmd_bind ''src_delete'' (desc\<lparr>dst := dst b\<rparr>))
         (\<lambda>reply. fn E ''vfi_src_delete'' [Some parent] (A_bind reply))))"


section \<open>Locations\<close>

definition vfi_fabric_location_put :: "fenv \<Rightarrow> nat option \<Rightarrow> unit fm" where
  "vfi_fabric_location_put E loc = fdo E ''vfi_location_put'' [loc] A_none"

text \<open>
  A location that exists for one call only: a local one with a copy of the descriptor, whatever the copy
  comes to. Its name is the address of a variable.
\<close>

definition unique_loc :: "fenv \<Rightarrow> vfi_desc_param \<Rightarrow> nat \<Rightarrow> (errno \<times> nat option) fm" where
  "unique_loc E desc u =
     fbind (fput (\<lambda>s. let (_, d, refs) = vfi_clone_desc (fkmem E (f_trace s)) zero_desc desc (f_refs s)
         in s\<lparr>f_refs := refs, f_desc := (f_desc s)(u := d\<lparr>ops := Some Vfi_local_ops\<rparr>)\<rparr>)) (\<lambda>_.
       fn E ''kset_register'' [Some u] A_none)"

text \<open>A call through it.\<close>

definition unique_call :: "fenv \<Rightarrow> vfi_desc_param \<Rightarrow> string cres \<Rightarrow> (errno \<times> string option) fm" where
  "unique_call E desc cmd =
     fbind (fn E ''kzalloc'' [] A_none) (\<lambda>(_, u).
       case u of
         None \<Rightarrow> fret (- ENOMEM, None)
       | Some u \<Rightarrow>
           fbind (unique_loc E desc u) (\<lambda>(ret, _).
             fbind (if ret \<noteq> 0 then fret (ret, None)
                    else fbind (vfi_fabric_call E (Some u) cmd) (\<lambda>(ret, skb).
                      fbind (if ret \<noteq> - ENOMEM then fdo E ''vfi_address_unregister'' [Some u] A_none else fret ()) (\<lambda>_.
                        fret (ret, skb)))) (\<lambda>(ret, skb).
               fbind (fdo E ''vfi_location_put'' [Some u] A_none) (\<lambda>_. fret (ret, skb)))))"

definition vfi_fabric_location_lose :: "fenv \<Rightarrow> nat option \<Rightarrow> vfi_desc_param \<Rightarrow> unit fm" where
  "vfi_fabric_location_lose E loc desc =
     (if loc = None then fret ()
      else fbind (unique_call E desc (cmd_name ''location_put'' desc)) (\<lambda>(_, skb).
        case skb of
          None \<Rightarrow> fret ()
        | Some m \<Rightarrow>
            fbind (parse_reply E m) (\<lambda>(bad, reply).
              if bad \<noteq> 0 then fret ()
              else fbind (free_reply E) (\<lambda>_.
                fbind (flift (option_number reply ''result'')) (\<lambda>_. clean_reply E reply)))))"

text \<open>
  \<open>vfi_fabric_location_find\<close> changes its parameters: the offset, the extent and the operations of the
  location that is made are decided here. The result is the location and the parameters.
\<close>

definition found_at :: "vfi_desc_param \<Rightarrow> nat option \<Rightarrow> vfi_desc_param \<Rightarrow> vfi_desc_param fm" where
  "found_at reply loc desc =
     (case loc of
        None \<Rightarrow> fret (desc\<lparr>offset := offset reply, extent := 0\<rparr>)
      | Some l \<Rightarrow>
          fbind (fget (\<lambda>s. extent (f_desc s l))) (\<lambda>e.
            if e \<noteq> 0 then fret (desc\<lparr>offset := offset reply, extent := e\<rparr>)
            else fbind (fput (\<lambda>s. s\<lparr>f_desc := (f_desc s)(l := (f_desc s l)\<lparr>extent := ucast (offset reply)\<rparr>)\<rparr>)) (\<lambda>_.
              fret (desc\<lparr>offset := offset reply, extent := ucast (offset reply), ops := Some Vfi_local_ops\<rparr>))))"

definition unless :: "bool \<Rightarrow> fenv \<Rightarrow> string \<Rightarrow> nat \<Rightarrow> errno fm" where
  "unless there E nm l = (if there then fret 0 else fbind (fn E nm [Some l] A_none) (\<lambda>(ret, _). fret ret))"

text \<open>A location that is there already is completed: three ksets, in this order, up to the first failure.\<close>

definition complete_location :: "fenv \<Rightarrow> nat \<Rightarrow> (errno \<times> nat option) fm" where
  "complete_location E l =
     fbind (fget (\<lambda>s. has_smbs E (f_trace s) l)) (\<lambda>there. fbind (unless there E ''new_vfi_smbs'' l) (\<lambda>ret.
       fbind (if ret = 0 \<or> ret = - EEXIST then
           fbind (fget (\<lambda>s. has_xfers E (f_trace s) l)) (\<lambda>there. fbind (unless there E ''new_vfi_xfers'' l) (\<lambda>ret.
             if ret = 0 \<or> ret = - EEXIST then
               fbind (fget (\<lambda>s. has_syncs E (f_trace s) l)) (\<lambda>there. unless there E ''new_vfi_syncs'' l)
             else fret ret))
         else fret ret) (\<lambda>ret.
       if ret \<noteq> 0 \<and> ret \<noteq> - EEXIST then fbind (fdo E ''vfi_location_put'' [Some l] A_none) (\<lambda>_. fret (ret, None))
       else fret (0, Some l))))"

definition make_location :: "fenv \<Rightarrow> nat option \<Rightarrow> nat option \<Rightarrow> vfi_desc_param \<Rightarrow> (errno \<times> nat option) fm" where
  "make_location E oldloc loc desc =
     (case oldloc of
        Some old \<Rightarrow>
          fbind (fput (\<lambda>s. s\<lparr>f_desc := (f_desc s)(old := (f_desc s old)\<lparr>extent := extent desc, offset := offset desc\<rparr>)\<rparr>)) (\<lambda>_.
            fret (0, Some old))
      | None \<Rightarrow>
          fbind (fn E ''vfi_location_create'' [loc] (A_desc desc)) (\<lambda>(ret, my).
            if ret \<noteq> 0 then
              (if ret \<noteq> - EEXIST then fret (ret, None)
               else fbind (fn E ''find_vfi_name'' [loc] (A_desc desc)) (\<lambda>(ret, my).
                 if ret \<noteq> 0 then fret (ret, None)
                 else case my of None \<Rightarrow> fail | Some l \<Rightarrow> complete_location E l))
            else fbind (fget (\<lambda>s. case loc of None \<Rightarrow> None | Some l \<Rightarrow> address (f_desc s l))) (\<lambda>a.
              fbind (if a \<noteq> None then fdo E ''register_location'' [a, my] A_none else fret ()) (\<lambda>_.
                fret (0, my)))))"

definition vfi_fabric_location_find ::
  "fenv \<Rightarrow> nat option \<Rightarrow> vfi_desc_param \<Rightarrow> ((errno \<times> nat option) \<times> vfi_desc_param) fm" where
  "vfi_fabric_location_find E loc desc =
     fbind (fn E ''find_vfi_name'' [loc] (A_desc desc)) (\<lambda>(ret, oldloc).
       if ret = 0 then fret ((0, oldloc), desc)
       else fbind (if loc \<noteq> None then vfi_fabric_call E loc (cmd_name ''location_find'' desc)
                   else unique_call E desc (cat [Val ''location_find://'', text_of desc (name desc)])) (\<lambda>(ret, skb).
         if ret \<noteq> 0 then fret ((ret, None), desc)
         else case skb of
             None \<Rightarrow> fret ((- EINVAL, None), desc)
           | Some m \<Rightarrow>
               fbind (parse_reply E m) (\<lambda>(bad, reply).
                 if bad \<noteq> 0 then fret ((- EINVAL, None), desc)
                 else fbind (free_reply E) (\<lambda>_.
                   fbind (flift (option_number reply ''result'')) (\<lambda>res.
                     if res = Some 0 \<and> extent reply \<noteq> 0 then
                       fbind (found_at reply loc desc) (\<lambda>desc.
                         fbind (clean_reply E reply) (\<lambda>_.
                           fbind (make_location E oldloc loc desc) (\<lambda>r. fret (r, desc))))
                     else fbind (clean_reply E reply) (\<lambda>_. fret ((- EINVAL, None), desc)))))))"

definition vfi_fabric_location_create :: "fenv \<Rightarrow> nat option \<Rightarrow> vfi_desc_param \<Rightarrow> (errno \<times> nat option) fm" where
  "vfi_fabric_location_create E loc desc =
     fbind (fn E ''find_vfi_name'' [loc] (A_desc desc)) (\<lambda>(ret, old).
       if ret = 0 then fbind (fdo E ''vfi_location_put'' [old] A_none) (\<lambda>_. fret (- EEXIST, None))
       else if loc = None \<and> (extent desc \<noteq> 0 \<or> offset desc \<noteq> 0) then fret (- EINVAL, None)
       else fbind (fn E ''vfi_location_create'' [loc] (A_desc desc)) (\<lambda>(ret, new).
         if loc = None then fret (ret, new)
         else fbind (fget (\<lambda>s. case new of None \<Rightarrow> None | Some l \<Rightarrow> address (f_desc s l))) (\<lambda>a.
           fbind (if a \<noteq> None then fdo E ''register_location'' [a, new] A_none else fret ()) (\<lambda>_. fret (ret, new)))))"

definition vfi_fabric_location_delete :: "fenv \<Rightarrow> nat option \<Rightarrow> vfi_desc_param \<Rightarrow> unit fm" where
  "vfi_fabric_location_delete E loc desc =
     void (remote E loc (cmd_name ''location_delete'' desc) None (\<lambda>reply.
       fbind (fdo E ''vfi_location_delete'' [loc] A_none) (\<lambda>_. done_with reply)))"

section \<open>Events of a location\<close>

text \<open>These free the reply whether it parses or not.\<close>

definition remote_event :: "fenv \<Rightarrow> nat option \<Rightarrow> string cres \<Rightarrow> errno fm" where
  "remote_event E loc cmd =
     fbind (vfi_fabric_call E loc cmd) (\<lambda>(_, skb).
       case skb of
         None \<Rightarrow> fret (- EINVAL)
       | Some m \<Rightarrow>
           fbind (parse_reply E m) (\<lambda>(bad, reply).
             fbind (if bad \<noteq> 0 then fret (- EINVAL)
                    else fbind (flift (option_number reply ''result'')) (\<lambda>res.
                      fbind (clean_reply E reply) (\<lambda>_. fret (case res of None \<Rightarrow> - EINVAL | Some r \<Rightarrow> r)))) (\<lambda>ret.
               fbind (free_reply E) (\<lambda>_. fret ret))))"

definition vfi_fabric_event_start :: "fenv \<Rightarrow> nat option \<Rightarrow> vfi_desc_param \<Rightarrow> errno fm" where
  "vfi_fabric_event_start E loc desc = remote_event E loc (cmd_name ''event_start'' desc)"

definition vfi_fabric_event_find :: "fenv \<Rightarrow> nat option \<Rightarrow> vfi_desc_param \<Rightarrow> errno fm" where
  "vfi_fabric_event_find E loc desc = remote_event E loc (cmd_name ''event_find'' desc)"

definition vfi_fabric_event_chain :: "fenv \<Rightarrow> nat option \<Rightarrow> vfi_desc_param \<Rightarrow> errno fm" where
  "vfi_fabric_event_chain E loc desc =
     remote_event E loc (cat [cmd_name ''event_chain'' desc, Val ''?event_name('', option_text desc ''event_name'', Val '')''])"


section \<open>Events of a bind\<close>

text \<open>The callbacks come from tables of operations, which must be there.\<close>

definition bell_register :: "fenv \<Rightarrow> nat \<Rightarrow> (vfi_bind_param \<Rightarrow> vfi_desc_param) \<Rightarrow> int fm" where
  "bell_register E b part =
     fbind (fget (\<lambda>s. f_bdesc s b)) (\<lambda>bd.
       if address (xfer bd) = None \<or> ops (part bd) = None then fail
       else fbind (fn E ''vfi_doorbell_register'' [address (xfer bd), Some b] A_none) (\<lambda>(i, _). fret i))"

definition bell_unregister :: "fenv \<Rightarrow> nat \<Rightarrow> int \<Rightarrow> unit fm" where
  "bell_unregister E b i =
     fbind (fget (\<lambda>s. address (xfer (f_bdesc s b)))) (\<lambda>a. fdo E ''vfi_doorbell_unregister'' [a] (A_num i))"

definition set_events :: "nat \<Rightarrow> (bind_events \<Rightarrow> bind_events) \<Rightarrow> unit fm" where
  "set_events b u = fput (\<lambda>s. s\<lparr>f_binds := (f_binds s)(b := u (f_binds s b))\<rparr>)"

text \<open>The list of events with a name, made if there is none.\<close>

definition events_named :: "fenv \<Rightarrow> string \<Rightarrow> nat option fm" where
  "events_named E nm =
     fbind (fn E ''find_vfi_events'' [] (A_text nm)) (\<lambda>(_, l).
       if l \<noteq> None then fret l
       else fbind (fn E ''vfi_events_create'' [] (A_text nm)) (\<lambda>(_, l). fret l))"

definition new_event :: "fenv \<Rightarrow> nat option \<Rightarrow> nat \<Rightarrow> int \<Rightarrow> nat option fm" where
  "new_event E l b i = fbind (fn E ''vfi_event_create'' [l, Some b] (A_num i)) (\<lambda>(_, ev). fret ev)"

text \<open>The options \<open>event_id\<close> and \<open>event_name\<close>, when both are there; a number that cannot be read is -1.\<close>

definition event_options :: "vfi_desc_param \<Rightarrow> (int \<times> string) option cres" where
  "event_options d =
     cres_bind (vfi_get_option d ''event_id'') (\<lambda>i. cres_bind (vfi_get_option d ''event_name'') (\<lambda>n.
       if i = None \<or> n = None then Val None
       else cres_bind (text_of d i) (\<lambda>ti. cres_bind (text_of d n) (\<lambda>tn.
         Val (Some (case scan_d ti of None \<Rightarrow> - 1 | Some v \<Rightarrow> v, tn))))))"

definition vfi_fabric_dst_events :: "fenv \<Rightarrow> nat \<Rightarrow> vfi_bind_param \<Rightarrow> errno fm" where
  "vfi_fabric_dst_events E b desc =
     fbind (set_events b (\<lambda>e. e\<lparr>b_dst_ready := None\<rparr>)) (\<lambda>_.
       fbind (flift (event_options (dst desc))) (\<lambda>opts.
         case opts of
           None \<Rightarrow> fret (- EINVAL)
         | Some (i, nm) \<Rightarrow>
             fbind (events_named E nm) (\<lambda>l.
             fbind (fget (\<lambda>s. ops (xfer (f_bdesc s b)))) (\<lambda>t. if t = None then fail else
             fbind (new_event E l b i) (\<lambda>ev.
             fbind (set_events b (\<lambda>e. e\<lparr>b_dst_ready := ev, b_dst_ready_id := i\<rparr>)) (\<lambda>_.
             fbind (bell_register E b dst) (\<lambda>k.
             fbind (new_event E l b k) (\<lambda>ev.
             fbind (set_events b (\<lambda>e. e\<lparr>b_dst_done := ev, b_dst_done_id := k\<rparr>)) (\<lambda>_.
             fbind (fdo E ''vfi_events_put'' [l] A_none) (\<lambda>_. fret 0))))))))))"

definition vfi_fabric_dst_ev_delete :: "fenv \<Rightarrow> nat \<Rightarrow> unit fm" where
  "vfi_fabric_dst_ev_delete E b =
     fbind (fget (\<lambda>s. f_binds s b)) (\<lambda>e.
     fbind (fdo E ''vfi_event_delete'' [b_dst_ready e] A_none) (\<lambda>_.
     fbind (fdo E ''vfi_event_delete'' [b_dst_done e] A_none) (\<lambda>_.
     fbind (bell_unregister E b (b_dst_done_id e)) (\<lambda>_.
     set_events b (\<lambda>e. e\<lparr>b_dst_ready := None, b_dst_done := None, b_dst_ready_id := 0, b_dst_done_id := 0\<rparr>)))))"

definition vfi_fabric_src_events :: "fenv \<Rightarrow> nat \<Rightarrow> vfi_bind_param \<Rightarrow> errno fm" where
  "vfi_fabric_src_events E parent desc =
     (case bind_of E parent of
        None \<Rightarrow> fail
      | Some b \<Rightarrow>
          fbind (fget (\<lambda>s. b_src_ready (f_binds s b))) (\<lambda>there.
            if there \<noteq> None then fret 0
            else fbind (flift (event_options (src desc))) (\<lambda>opts.
              case opts of
                None \<Rightarrow> fret (- EINVAL)
              | Some (i, nm) \<Rightarrow>
                  fbind (events_named E nm) (\<lambda>l.
                  fbind (fget (\<lambda>s. ops (xfer (f_bdesc s b)))) (\<lambda>t. if t = None then fail else
                  fbind (new_event E l b i) (\<lambda>ev.
                  fbind (set_events b (\<lambda>e. e\<lparr>b_src_ready := ev, b_src_ready_id := i\<rparr>)) (\<lambda>_.
                  fbind (bell_register E b src) (\<lambda>k.
                  fbind (new_event E l b k) (\<lambda>ev.
                  fbind (set_events b (\<lambda>e. e\<lparr>b_src_done := ev, b_src_done_id := k\<rparr>)) (\<lambda>_.
                  fbind (fdo E ''vfi_events_put'' [l] A_none) (\<lambda>_. fret 0)))))))))))"

definition vfi_fabric_src_ev_delete :: "fenv \<Rightarrow> nat \<Rightarrow> unit fm" where
  "vfi_fabric_src_ev_delete E parent =
     (case bind_of E parent of
        None \<Rightarrow> fail
      | Some b \<Rightarrow>
          fbind (fget (\<lambda>s. f_binds s b)) (\<lambda>e.
          fbind (fdo E ''vfi_event_delete'' [b_src_ready e] A_none) (\<lambda>_.
          fbind (fdo E ''vfi_event_delete'' [b_src_done e] A_none) (\<lambda>_.
          fbind (bell_unregister E b (b_src_done_id e)) (\<lambda>_.
          set_events b (\<lambda>e. e\<lparr>b_src_ready := None, b_src_done := None, b_src_ready_id := 0, b_src_done_id := 0\<rparr>))))))"

section \<open>Destinations and sources of a bind as a whole\<close>

text \<open>
  \<open>vfi_fabric_dsts_create\<close> registers a doorbell, makes the list of destinations, sends its command and
  takes the number of the other side's doorbell from the reply; the labels at its end undo these steps
  in the opposite order. Whatever fails, it returns \<open>-EINVAL\<close>.
\<close>

definition dsts_command :: "vfi_bind_param \<Rightarrow> int \<Rightarrow> string \<Rightarrow> string \<Rightarrow> string cres" where
  "dsts_command desc i dn sn =
     cat [Val ''dsts_create://'', fmt_full (xfer desc), Val ''/'', fmt_full (dst desc),
       Val (''?event_id('' @ dec_of_int i @ ''),event_name('' @ dn @ '')=''), fmt_full (src desc),
       Val (''?event_name('' @ sn @ '')'')]"

definition dsts_undo :: "fenv \<Rightarrow> nat \<Rightarrow> int \<Rightarrow> nat option \<Rightarrow> (errno \<times> nat option) fm" where
  "dsts_undo E b i ds =
     fbind (fdo E ''vfi_dsts_delete'' [ds] A_none) (\<lambda>_. fbind (bell_unregister E b i) (\<lambda>_. fret (- EINVAL, ds)))"

definition dsts_reply :: "fenv \<Rightarrow> nat \<Rightarrow> int \<Rightarrow> vfi_bind_param \<Rightarrow> bool fm" where
  "dsts_reply E b i reply =
     fbind (flift (option_number (src reply) ''result'')) (\<lambda>res.
       if res \<noteq> None \<and> res \<noteq> Some 0 then fret False
       else fbind (flift (vfi_get_option (dst reply) ''event_id'')) (\<lambda>o1.
         if o1 = None then fret False
         else fbind (flift (text_of (dst reply) o1)) (\<lambda>t.
           case scan_d t of
             None \<Rightarrow> fret False
           | Some k \<Rightarrow>
               fbind (set_events b (\<lambda>e. e\<lparr>b_dst_done_id := k, b_dst_ready_id := i\<rparr>)) (\<lambda>_.
               fbind (fdo E ''vfi_bind_load_dsts'' [Some b] A_none) (\<lambda>_. fret True)))))"

definition vfi_fabric_dsts_create :: "fenv \<Rightarrow> nat \<Rightarrow> vfi_bind_param \<Rightarrow> (errno \<times> nat option) fm" where
  "vfi_fabric_dsts_create E b desc =
     fbind (fget (\<lambda>s. f_bdesc s b)) (\<lambda>bd.
     fbind (flift (vfi_get_option (dst bd) ''event_name'')) (\<lambda>dn.
     fbind (flift (vfi_get_option (src bd) ''event_name'')) (\<lambda>sn.
       if dn = None \<or> sn = None then fret (- EINVAL, None)
       else
     fbind (bell_register E b xfer) (\<lambda>i.
       if i < 0 then fret (- EINVAL, None)
       else
     fbind (fn E ''vfi_dsts_create'' [Some b] (A_bind desc)) (\<lambda>(ret, ds).
       if ret \<noteq> 0 \<or> ds = None then fbind (bell_unregister E b i) (\<lambda>_. fret (- EINVAL, ds))
       else
     fbind (flift (text_of (dst bd) dn)) (\<lambda>dt. fbind (flift (text_of (src bd) sn)) (\<lambda>st.
     fbind (vfi_fabric_call E (ploc (dst bd)) (dsts_command desc i dt st)) (\<lambda>(_, skb).
       case skb of
         None \<Rightarrow> dsts_undo E b i ds
       | Some m \<Rightarrow>
           fbind (parse_bind_reply E m) (\<lambda>(bad, reply).
             if bad \<noteq> 0 then fbind (free_reply E) (\<lambda>_. dsts_undo E b i ds)
             else fbind (dsts_reply E b i reply) (\<lambda>fine.
               if fine then fbind (free_reply E) (\<lambda>_. fbind (clean_bind_reply E reply) (\<lambda>_. fret (0, ds)))
               else fbind (clean_bind_reply E reply) (\<lambda>_. fbind (free_reply E) (\<lambda>_. dsts_undo E b i ds))))))))))))"

definition vfi_fabric_dsts_delete :: "fenv \<Rightarrow> nat \<Rightarrow> nat option \<Rightarrow> vfi_bind_param \<Rightarrow> unit fm" where
  "vfi_fabric_dsts_delete E b dsts desc =
     fbind (fget (\<lambda>s. f_bdesc s b)) (\<lambda>bd.
       fbind (vfi_fabric_call E (ploc (dst bd)) (cmd_bind ''dsts_delete'' desc)) (\<lambda>(_, skb).
         case skb of
           None \<Rightarrow> fret ()
         | Some m \<Rightarrow>
             fbind (parse_bind_reply E m) (\<lambda>(bad, reply).
               if bad \<noteq> 0 then fret ()
               else fbind (free_reply E) (\<lambda>_.
                 fbind (flift (option_number (src reply) ''result'')) (\<lambda>res.
                 fbind (if res = Some 0 then fbind (fget (\<lambda>s. b_dst_ready_id (f_binds s b))) (bell_unregister E b) else fret ()) (\<lambda>_.
                 fbind (fdo E ''vfi_dsts_delete'' [dsts] A_none) (\<lambda>_.
                 clean_bind_reply E reply)))))))"

text \<open>
  \<open>vfi_fabric_srcs_create\<close> is like it, with the bind of its destination; a doorbell is registered by the
  first source only, and the event number 0 of a bind counts as known.
\<close>

definition srcs_command :: "vfi_bind_param \<Rightarrow> string \<Rightarrow> int \<Rightarrow> string cres" where
  "srcs_command desc nm i =
     cat [Val ''srcs_create://'', fmt_bind desc, Val (''?event_name('' @ nm @ ''),event_id('' @ dec_of_int i @ '')'')]"

definition srcs_reply :: "fenv \<Rightarrow> nat \<Rightarrow> nat \<Rightarrow> vfi_bind_param \<Rightarrow> (bool \<times> errno) fm" where
  "srcs_reply E parent b reply =
     fbind (flift (option_number (src reply) ''result'')) (\<lambda>res.
       if res \<noteq> None \<and> res \<noteq> Some 0 then fret (False, the res)
       else let ret = (if res = Some 0 then 0 else - EINVAL) in
         fbind (fget (\<lambda>s. b_src_done_id (f_binds s b))) (\<lambda>k.
           fbind (if 0 \<le> k then fret True
                  else fbind (flift (vfi_get_option (src reply) ''event_id'')) (\<lambda>o1.
                    if o1 = None then fret False
                    else fbind (flift (text_of (src reply) o1)) (\<lambda>t.
                      case scan_d t of
                        None \<Rightarrow> fret False
                      | Some k \<Rightarrow> fbind (set_events b (\<lambda>e. e\<lparr>b_src_done_id := k\<rparr>)) (\<lambda>_. fret True)))) (\<lambda>fine.
             if \<not> fine then fret (False, ret)
             else fbind (fdo E ''vfi_dst_load_srcs'' [Some parent] A_none) (\<lambda>_. fret (True, ret)))))"

definition srcs_undo :: "fenv \<Rightarrow> nat \<Rightarrow> int \<Rightarrow> errno \<Rightarrow> nat option \<Rightarrow> (errno \<times> nat option) fm" where
  "srcs_undo E b i ret ss =
     fbind (if i \<noteq> - 1 then bell_unregister E b i else fret ()) (\<lambda>_.
     fbind (fdo E ''vfi_bind_put'' [Some b] A_none) (\<lambda>_. fret (ret, ss)))"

definition vfi_fabric_srcs_create :: "fenv \<Rightarrow> nat \<Rightarrow> vfi_bind_param \<Rightarrow> (errno \<times> nat option) fm" where
  "vfi_fabric_srcs_create E parent desc =
     fbind (flift (vfi_get_option (src desc) ''event_name'')) (\<lambda>nm.
       if nm = None then fret (- EINVAL, None)
       else case bind_of E parent of
           None \<Rightarrow> fret (- EINVAL, None)
         | Some b \<Rightarrow>
     fbind (fget (\<lambda>s. b_src_ready (f_binds s b))) (\<lambda>there.
     fbind (if there \<noteq> None then fret (- 1)
            else fbind (bell_register E b xfer) (\<lambda>i. fbind (set_events b (\<lambda>e. e\<lparr>b_src_ready_id := i\<rparr>)) (\<lambda>_. fret i))) (\<lambda>i.
       if there = None \<and> i < 0 then fbind (fdo E ''vfi_bind_put'' [Some b] A_none) (\<lambda>_. fret (- EINVAL, None))
       else
     fbind (fn E ''vfi_srcs_create'' [Some parent] (A_bind desc)) (\<lambda>(ret, ss).
       if ss = None then srcs_undo E b i ret ss
       else
     fbind (fget (\<lambda>s. (ploc (src (f_bdesc s parent)), b_src_ready_id (f_binds s b)))) (\<lambda>(sloc, rid).
     fbind (flift (text_of (src desc) nm)) (\<lambda>nt.
     fbind (vfi_fabric_call E sloc (srcs_command desc nt rid)) (\<lambda>(ret, skb).
       case skb of
         None \<Rightarrow> fbind (fdo E ''vfi_srcs_delete'' [ss] A_none) (\<lambda>_. srcs_undo E b i ret ss)
       | Some m \<Rightarrow>
           fbind (parse_bind_reply E m) (\<lambda>(bad, reply).
             if bad \<noteq> 0 then
               fbind (free_reply E) (\<lambda>_. fbind (fdo E ''vfi_srcs_delete'' [ss] A_none) (\<lambda>_. srcs_undo E b i (- EINVAL) ss))
             else fbind (srcs_reply E parent b reply) (\<lambda>(fine, ret).
               if fine then fbind (clean_bind_reply E reply) (\<lambda>_. fbind (free_reply E) (\<lambda>_. fret (ret, ss)))
               else fbind (clean_bind_reply E reply) (\<lambda>_. fbind (free_reply E) (\<lambda>_.
                 fbind (fdo E ''vfi_srcs_delete'' [ss] A_none) (\<lambda>_. srcs_undo E b i ret ss))))))))))))"

definition vfi_fabric_srcs_delete :: "fenv \<Rightarrow> nat \<Rightarrow> nat option \<Rightarrow> vfi_bind_param \<Rightarrow> unit fm" where
  "vfi_fabric_srcs_delete E parent srcs desc =
     fbind (fget (\<lambda>s. f_bdesc s parent)) (\<lambda>pd.
       fbind (vfi_fabric_call E (ploc (src pd)) (cmd_bind ''srcs_delete'' desc)) (\<lambda>(_, skb).
         case skb of
           None \<Rightarrow> fret ()
         | Some m \<Rightarrow>
             fbind (parse_bind_reply E m) (\<lambda>(bad, reply).
               if bad \<noteq> 0 then fret ()
               else fbind (free_reply E) (\<lambda>_.
                 fbind (flift (option_number (src reply) ''result'')) (\<lambda>res.
                 fbind (if res = Some 0 then
                     (case bind_of E parent of
                        None \<Rightarrow> fail
                      | Some b \<Rightarrow>
                          fbind (fget (\<lambda>s. b_src_ready_id (f_binds s b))) (\<lambda>i.
                          fbind (bell_unregister E b i) (\<lambda>_. fdo E ''vfi_srcs_delete'' [srcs] A_none)))
                   else fret ()) (\<lambda>_.
                 clean_bind_reply E reply))))))"


section \<open>The table of operations\<close>

text \<open>
  \<open>vfi_fabric_ops\<close>: the operations of an object of another node. \<open>F_done\<close> and the like, which send no
  command, are in \<open>Vfi_Bind\<close>.
\<close>

datatype fabric_op =
    F_location_create "nat option" vfi_desc_param
  | F_location_delete "nat option" vfi_desc_param
  | F_location_find "nat option" vfi_desc_param
  | F_location_put "nat option"
  | F_location_lose "nat option" vfi_desc_param
  | F_smb_create nat vfi_desc_param
  | F_smb_delete nat
  | F_smb_find nat vfi_desc_param
  | F_smb_put nat
  | F_smb_lose nat
  | F_mmap_create nat vfi_desc_param
  | F_mmap_delete nat vfi_desc_param
  | F_mmap_find nat vfi_desc_param
  | F_mmap_put nat vfi_desc_param
  | F_xfer_create nat vfi_desc_param
  | F_xfer_delete nat
  | F_xfer_find nat vfi_desc_param
  | F_xfer_put nat
  | F_xfer_lose nat
  | F_sync_create nat vfi_desc_param
  | F_sync_delete nat vfi_desc_param
  | F_sync_find nat vfi_desc_param
  | F_sync_put nat
  | F_sync_wait nat vfi_desc_param
  | F_sync_send nat vfi_desc_param
  | F_sync_lose nat vfi_desc_param
  | F_srcs_create nat vfi_bind_param
  | F_srcs_delete nat "nat option" vfi_bind_param
  | F_src_create nat vfi_bind_param
  | F_src_delete nat vfi_bind_param
  | F_src_find nat vfi_bind_param
  | F_dsts_create nat vfi_bind_param
  | F_dsts_delete nat "nat option" vfi_bind_param
  | F_dst_create nat vfi_bind_param
  | F_dst_delete nat vfi_bind_param
  | F_dst_find nat vfi_bind_param
  | F_bind_find nat vfi_desc_param
  | F_bind_create nat vfi_bind_param
  | F_bind_delete nat vfi_desc_param
  | F_bind_lose nat vfi_desc_param
  | F_src_events nat vfi_bind_param
  | F_dst_events nat vfi_bind_param
  | F_src_ev_delete nat
  | F_dst_ev_delete nat
  | F_event_start "nat option" vfi_desc_param
  | F_event_find "nat option" vfi_desc_param
  | F_event_chain "nat option" vfi_desc_param

fun vfi_fabric_ops :: "fenv \<Rightarrow> fabric_op \<Rightarrow> unit fm" where
  "vfi_fabric_ops E (F_location_create l d) = void (vfi_fabric_location_create E l d)"
| "vfi_fabric_ops E (F_location_delete l d) = vfi_fabric_location_delete E l d"
| "vfi_fabric_ops E (F_location_find l d) = void (vfi_fabric_location_find E l d)"
| "vfi_fabric_ops E (F_location_put l) = vfi_fabric_location_put E l"
| "vfi_fabric_ops E (F_location_lose l d) = vfi_fabric_location_lose E l d"
| "vfi_fabric_ops E (F_smb_create l d) = void (vfi_fabric_smb_create E l d)"
| "vfi_fabric_ops E (F_smb_delete a) = vfi_fabric_smb_delete E a"
| "vfi_fabric_ops E (F_smb_find l d) = void (vfi_fabric_smb_find E l d)"
| "vfi_fabric_ops E (F_smb_put a) = vfi_fabric_smb_put E a"
| "vfi_fabric_ops E (F_smb_lose a) = vfi_fabric_smb_lose E a"
| "vfi_fabric_ops E (F_mmap_create a d) = void (vfi_fabric_mmap_create a d)"
| "vfi_fabric_ops E (F_mmap_delete m d) = vfi_fabric_mmap_delete m d"
| "vfi_fabric_ops E (F_mmap_find a d) = void (vfi_fabric_mmap_find a d)"
| "vfi_fabric_ops E (F_mmap_put m d) = vfi_fabric_mmap_put m d"
| "vfi_fabric_ops E (F_xfer_create l d) = void (vfi_fabric_xfer_create E l d)"
| "vfi_fabric_ops E (F_xfer_delete x) = vfi_fabric_xfer_delete E x"
| "vfi_fabric_ops E (F_xfer_find l d) = void (vfi_fabric_xfer_find E l d)"
| "vfi_fabric_ops E (F_xfer_put x) = vfi_fabric_xfer_put E x"
| "vfi_fabric_ops E (F_xfer_lose x) = vfi_fabric_xfer_lose E x"
| "vfi_fabric_ops E (F_sync_create l d) = void (vfi_fabric_sync_create E l d)"
| "vfi_fabric_ops E (F_sync_delete y d) = vfi_fabric_sync_delete E y d"
| "vfi_fabric_ops E (F_sync_find l d) = void (vfi_fabric_sync_find E l d)"
| "vfi_fabric_ops E (F_sync_put y) = vfi_fabric_sync_put E y"
| "vfi_fabric_ops E (F_sync_wait y d) = void (vfi_fabric_sync_wait E y d)"
| "vfi_fabric_ops E (F_sync_send y d) = void (vfi_fabric_sync_send E y d)"
| "vfi_fabric_ops E (F_sync_lose y d) = vfi_fabric_sync_lose E y d"
| "vfi_fabric_ops E (F_srcs_create d p) = void (vfi_fabric_srcs_create E d p)"
| "vfi_fabric_ops E (F_srcs_delete d ss p) = vfi_fabric_srcs_delete E d ss p"
| "vfi_fabric_ops E (F_src_create d p) = void (vfi_fabric_src_create E d p)"
| "vfi_fabric_ops E (F_src_delete d p) = vfi_fabric_src_delete E d p"
| "vfi_fabric_ops E (F_src_find d p) = void (vfi_fabric_src_find E d p)"
| "vfi_fabric_ops E (F_dsts_create b p) = void (vfi_fabric_dsts_create E b p)"
| "vfi_fabric_ops E (F_dsts_delete b ds p) = vfi_fabric_dsts_delete E b ds p"
| "vfi_fabric_ops E (F_dst_create b p) = void (vfi_fabric_dst_create E b p)"
| "vfi_fabric_ops E (F_dst_delete b p) = vfi_fabric_dst_delete E b p"
| "vfi_fabric_ops E (F_dst_find b p) = void (vfi_fabric_dst_find E b p)"
| "vfi_fabric_ops E (F_bind_find x d) = void (vfi_fabric_bind_find E x d)"
| "vfi_fabric_ops E (F_bind_create x p) = void (vfi_fabric_bind_create E x p)"
| "vfi_fabric_ops E (F_bind_delete x d) = vfi_fabric_bind_delete E x d"
| "vfi_fabric_ops E (F_bind_lose x d) = vfi_fabric_bind_lose E x d"
| "vfi_fabric_ops E (F_src_events d p) = void (vfi_fabric_src_events E d p)"
| "vfi_fabric_ops E (F_dst_events b p) = void (vfi_fabric_dst_events E b p)"
| "vfi_fabric_ops E (F_src_ev_delete d) = vfi_fabric_src_ev_delete E d"
| "vfi_fabric_ops E (F_dst_ev_delete b) = vfi_fabric_dst_ev_delete E b"
| "vfi_fabric_ops E (F_event_start l d) = void (vfi_fabric_event_start E l d)"
| "vfi_fabric_ops E (F_event_find l d) = void (vfi_fabric_event_find E l d)"
| "vfi_fabric_ops E (F_event_chain l d) = void (vfi_fabric_event_chain E l d)"

text \<open>The command an operation sends, if it sends one; two of them send another operation's.\<close>

fun sends :: "fabric_op \<Rightarrow> string option" where
  "sends (F_location_delete l d) = Some ''location_delete''"
| "sends (F_location_find l d) = Some ''location_find''"
| "sends (F_location_lose l d) = Some ''location_put''"
| "sends (F_smb_create l d) = Some ''smb_create''"
| "sends (F_smb_find l d) = Some ''smb_find''"
| "sends (F_smb_put a) = Some ''smb_put''"
| "sends (F_smb_lose a) = Some ''smb_lose''"
| "sends (F_xfer_create l d) = Some ''xfer_create''"
| "sends (F_xfer_find l d) = Some ''xfer_find''"
| "sends (F_xfer_put x) = Some ''xfer_put''"
| "sends (F_xfer_lose x) = Some ''xfer_lose''"
| "sends (F_sync_create l d) = Some ''sync_create''"
| "sends (F_sync_delete y d) = Some ''sync_delete''"
| "sends (F_sync_find l d) = Some ''sync_find''"
| "sends (F_sync_wait y d) = Some ''sync_wait''"
| "sends (F_sync_send y d) = Some ''sync_send''"
| "sends (F_sync_lose y d) = Some ''sync_put''"
| "sends (F_srcs_create d p) = Some ''srcs_create''"
| "sends (F_srcs_delete d ss p) = Some ''srcs_delete''"
| "sends (F_src_create d p) = Some ''src_create''"
| "sends (F_src_delete d p) = Some ''src_delete''"
| "sends (F_src_find d p) = Some ''src_find''"
| "sends (F_dsts_create b p) = Some ''dsts_create''"
| "sends (F_dsts_delete b ds p) = Some ''dsts_delete''"
| "sends (F_dst_create b p) = Some ''dst_create''"
| "sends (F_dst_delete b p) = Some ''dst_delete''"
| "sends (F_dst_find b p) = Some ''dst_find''"
| "sends (F_bind_find x d) = Some ''bind_find''"
| "sends (F_bind_create x p) = Some ''bind_create''"
| "sends (F_bind_delete x d) = Some ''bind_delete''"
| "sends (F_bind_lose x d) = Some ''bind_lose''"
| "sends (F_event_start l d) = Some ''event_start''"
| "sends (F_event_find l d) = Some ''event_find''"
| "sends (F_event_chain l d) = Some ''event_chain''"
| "sends _ = None"

section \<open>Reasoning about runs\<close>

text \<open>What holds after every defined run.\<close>

definition wp :: "'a fm \<Rightarrow> ('a \<Rightarrow> fstate \<Rightarrow> bool) \<Rightarrow> fstate \<Rightarrow> bool" where
  "wp m Q s \<longleftrightarrow> (\<forall>r s'. m s = Val (r, s') \<longrightarrow> Q r s')"

named_theorems wp_simps "weakest preconditions of the steps"

lemma wp_fret [wp_simps]: "wp (fret x) Q s = Q x s"
  by (simp add: wp_def fret_def)

lemma wp_fbind [wp_simps]: "wp (fbind m f) Q s = wp m (\<lambda>x. wp (f x) Q) s"
  by (auto simp: wp_def fbind_def cres_bind_eq_Val)

lemma wp_fget [wp_simps]: "wp (fget g) Q s = Q (g s) s"
  by (simp add: wp_def fget_def)

lemma wp_fput [wp_simps]: "wp (fput u) Q s = Q () (u s)"
  by (simp add: wp_def fput_def)

lemma wp_flift [wp_simps]: "wp (flift v) Q s = (\<forall>x. v = Val x \<longrightarrow> Q x s)"
  by (simp add: wp_def flift_def cres_bind_eq_Val)

lemma wp_fail [wp_simps]: "wp fail Q s"
  by (simp add: wp_def fail_def)

lemma wp_fn [wp_simps]:
  "wp (fn E nm hs a) Q s = Q (fanswer E (f_trace s) (Fn nm hs a))
     (s\<lparr>f_trace := f_trace s @ [(Fn nm hs a, fanswer E (f_trace s) (Fn nm hs a))]\<rparr>)"
  by (auto simp: wp_def fn_def Let_def split: prod.splits)

lemma wp_mono: "wp m Q s \<Longrightarrow> (\<And>r s'. Q r s' \<Longrightarrow> R r s') \<Longrightarrow> wp m R s"
  by (simp add: wp_def)

lemma fbind_assoc: "fbind (fbind m f) g = fbind m (\<lambda>x. fbind (f x) g)"
  by (rule ext) (auto simp: fbind_def cres_bind_assoc intro!: arg_cong2 [where f = cres_bind] split: prod.splits)

lemma fret_fbind: "fbind (fret x) f = f x"
  by (rule ext) (simp add: fbind_def fret_def)

section \<open>What an operation sends and frees\<close>

text \<open>
  What has become of the command of an operation: not sent, sent without a reply, its reply held, its
  reply freed; \<open>Broken\<close> is a second command, a command of another name, or the release of a reply that
  is not held.
\<close>

datatype exchange = Unsent | Unanswered | Held | Freed | Broken

fun watch :: "string option \<Rightarrow> exchange \<Rightarrow> fevent \<Rightarrow> exchange" where
  "watch op n (Call l m, r, h) =
     (case op of
        None \<Rightarrow> Broken
      | Some nm \<Rightarrow> if n = Unsent \<and> starts_with m (nm @ ''://'') then (if r = 0 then Held else Unanswered) else Broken)"
| "watch op n (Fn nm hs a, r, h) = (if nm \<noteq> ''dev_kfree_skb'' then n else if n = Held then Freed else Broken)"

definition exchange_of :: "string option \<Rightarrow> fstate \<Rightarrow> exchange" where
  "exchange_of op s = foldl (watch op) Unsent (f_trace s)"

definition silent :: "'a fm \<Rightarrow> bool" where
  "silent m \<longleftrightarrow> (\<forall>op s. wp m (\<lambda>_ s'. exchange_of op s' = exchange_of op s) s)"

definition proper_from :: "exchange \<Rightarrow> string option \<Rightarrow> 'a fm \<Rightarrow> bool" where
  "proper_from n op m \<longleftrightarrow> (\<forall>s. exchange_of op s = n \<longrightarrow> wp m (\<lambda>_ s'. exchange_of op s' \<noteq> Broken) s)"

abbreviation proper :: "string option \<Rightarrow> 'a fm \<Rightarrow> bool" where "proper \<equiv> proper_from Unsent"
abbreviation owing :: "string option \<Rightarrow> 'a fm \<Rightarrow> bool" where "owing \<equiv> proper_from Held"

named_theorems silent_intros "functions that neither send a command nor free a reply"
named_theorems proper_intros "functions that send at most one command and free its reply at most once"

lemma exchange_of_fn:
  "exchange_of op (s\<lparr>f_trace := f_trace s @ [(Fn nm hs a, rh)]\<rparr>)
     = (if nm \<noteq> ''dev_kfree_skb'' then exchange_of op s else if exchange_of op s = Held then Freed else Broken)"
  by (cases rh) (simp add: exchange_of_def)

lemma silent_steps [silent_intros]:
  "silent (fret x)" "silent (fget g)" "silent (flift v)" "silent fail"
  by (simp_all add: silent_def wp_simps)

lemma silent_fput [silent_intros]: "(\<And>s. f_trace (u s) = f_trace s) \<Longrightarrow> silent (fput u)"
  by (simp add: silent_def wp_simps exchange_of_def)

lemma silent_fn [silent_intros]: "nm \<noteq> ''dev_kfree_skb'' \<Longrightarrow> silent (fn E nm hs a)"
  by (simp add: silent_def wp_simps exchange_of_fn)

lemma silent_fbind [silent_intros]: "silent m \<Longrightarrow> (\<And>x. silent (f x)) \<Longrightarrow> silent (fbind m f)"
  by (simp add: silent_def wp_def fbind_def cres_bind_eq_Val split: prod.splits) metis

lemma silent_fdo [silent_intros]: "nm \<noteq> ''dev_kfree_skb'' \<Longrightarrow> silent (fdo E nm hs a)"
  by (auto simp: fdo_def intro!: silent_intros)

lemma silent_if [silent_intros]: "(b \<Longrightarrow> silent m) \<Longrightarrow> (\<not> b \<Longrightarrow> silent m') \<Longrightarrow> silent (if b then m else m')"
  by simp

lemma silent_option [silent_intros]:
  "(v = None \<Longrightarrow> silent m) \<Longrightarrow> (\<And>x. v = Some x \<Longrightarrow> silent (f x)) \<Longrightarrow> silent (case v of None \<Rightarrow> m | Some x \<Rightarrow> f x)"
  by (cases v) simp_all

lemma silent_prod [silent_intros]: "(\<And>a b. v = (a, b) \<Longrightarrow> silent (f a b)) \<Longrightarrow> silent (case v of (a, b) \<Rightarrow> f a b)"
  by (cases v) simp

lemma silent_parse [silent_intros]: "silent (parse_reply E m)" "silent (parse_bind_reply E m)"
  by (auto simp: silent_def wp_def parse_reply_def parse_bind_reply_def cres_bind_eq_Val exchange_of_def)

lemma silent_clean [silent_intros]: "silent (clean_reply E d)" "silent (clean_bind_reply E p)"
  by (auto simp: clean_reply_def clean_bind_reply_def intro!: silent_intros)

lemma silent_bells [silent_intros]:
  "silent (bell_register E b part)" "silent (bell_unregister E b i)" "silent (set_events b u)"
  "silent (events_named E nm)" "silent (new_event E l b i)"
  by (auto simp: bell_register_def bell_unregister_def set_events_def events_named_def new_event_def intro!: silent_intros)

lemma silent_helpers [silent_intros]:
  "silent (kfind E p nm)" "silent (make E nm' par d)" "silent (done_with d)"
  if "nm' \<noteq> ''dev_kfree_skb''"
  using that by (auto simp: kfind_def make_def done_with_def intro!: silent_intros)

lemma silent_unmake [silent_intros]: "nm \<noteq> ''dev_kfree_skb'' \<Longrightarrow> silent (unmake E nm x a d)"
  by (auto simp: unmake_def intro!: silent_intros)

lemma proper_silent: "silent m \<Longrightarrow> n \<noteq> Broken \<Longrightarrow> proper_from n op m"
  by (auto simp: silent_def proper_from_def wp_def)

lemma proper_fbind:
  "silent m \<Longrightarrow> (\<And>x. proper_from n op (f x)) \<Longrightarrow> proper_from n op (fbind m f)"
  by (simp add: silent_def proper_from_def wp_def fbind_def cres_bind_eq_Val split: prod.splits) metis

lemma owing_free [proper_intros]:
  assumes "\<And>x. silent (f x)"
  shows "owing op (fbind (free_reply E) f)"
  unfolding proper_from_def
proof (intro allI impI)
  fix s assume h: "exchange_of op s = Held"
  show "wp (fbind (free_reply E) f) (\<lambda>_ s'. exchange_of op s' \<noteq> Broken) s"
    unfolding wp_fbind free_reply_def fdo_def wp_fn wp_fret
    using assms [of "()", unfolded silent_def, rule_format, of op]
    by (rule wp_mono) (simp add: exchange_of_fn h)
qed

text \<open>That a command begins with the name \<open>nm\<close>.\<close>

definition begins :: "string cres \<Rightarrow> string \<Rightarrow> bool" where
  "begins cmd nm \<longleftrightarrow> (\<forall>m. cmd = Val m \<longrightarrow> starts_with m (nm @ ''://''))"

lemma proper_call [proper_intros]:
  assumes m: "begins cmd nm"
    and none: "\<And>r. silent (f (r, None))" and some: "\<And>t. owing (Some nm) (f (0, Some t))"
  shows "proper (Some nm) (fbind (vfi_fabric_call E loc cmd) f)"
  unfolding proper_from_def wp_def
proof (intro allI impI)
  fix s r s' assume start: "exchange_of (Some nm) s = Unsent"
    and run: "fbind (vfi_fabric_call E loc cmd) f s = Val (r, s')"
  obtain ret skb s1 where c: "vfi_fabric_call E loc cmd s = Val ((ret, skb), s1)" and k: "f (ret, skb) s1 = Val (r, s')"
    using run by (auto simp: fbind_def cres_bind_eq_Val)
  obtain t where t: "cmd = Val t" and s1: "s1 = s\<lparr>f_trace := f_trace s @ [(Call loc t, ret, None)]\<rparr>"
    and x: "skb = None \<or> ret = 0"
    using c by (auto simp: vfi_fabric_call_def Let_def cres_bind_eq_Val split: if_splits)
  have e: "exchange_of (Some nm) s1 = (if ret = 0 then Held else Unanswered)"
    using start m t by (simp add: s1 exchange_of_def begins_def)
  show "exchange_of (Some nm) s' \<noteq> Broken"
  proof (cases skb)
    case None
    then have "exchange_of (Some nm) s' = exchange_of (Some nm) s1"
      using none [of ret] k by (auto simp: silent_def wp_def)
    then show ?thesis using e by simp
  next
    case (Some v)
    then show ?thesis using some [of v] x k e by (auto simp: proper_from_def wp_def)
  qed
qed

lemmas proper_steps [proper_intros] =
  silent_steps [THEN proper_fbind] silent_fput [THEN proper_fbind] silent_fn [THEN proper_fbind]
  silent_fdo [THEN proper_fbind] silent_parse [THEN proper_fbind] silent_clean [THEN proper_fbind]
  silent_bells [THEN proper_fbind] silent_unmake [THEN proper_fbind] silent_helpers [THEN proper_fbind]

lemmas proper_lasts [proper_intros] =
  silent_steps [THEN proper_silent] silent_fn [THEN proper_silent] silent_fdo [THEN proper_silent]
  silent_clean [THEN proper_silent] silent_bells [THEN proper_silent]

lemma proper_if [proper_intros]: "(b \<Longrightarrow> proper_from n op m) \<Longrightarrow> (\<not> b \<Longrightarrow> proper_from n op m') \<Longrightarrow> proper_from n op (if b then m else m')"
  by simp

lemma proper_prod [proper_intros]:
  "(\<And>a b. v = (a, b) \<Longrightarrow> proper_from n op (f a b)) \<Longrightarrow> proper_from n op (case v of (a, b) \<Rightarrow> f a b)"
  by (cases v) simp

lemma proper_option [proper_intros]:
  "(v = None \<Longrightarrow> proper_from n op m) \<Longrightarrow> (\<And>x. v = Some x \<Longrightarrow> proper_from n op (f x))
     \<Longrightarrow> proper_from n op (case v of None \<Rightarrow> m | Some x \<Rightarrow> f x)"
  by (cases v) simp_all

lemma starts_with_append: "starts_with (s @ t) s"
  by (simp add: starts_with_def)

lemma starts_with_cat: "cat (Val s # ms) = Val m \<Longrightarrow> starts_with m s"
  by (auto simp: cres_bind_eq_Val starts_with_append)

lemma commands_start:
  "cmd_name op d = Val m \<Longrightarrow> starts_with m (op @ ''://'')"
  "cmd_full op d = Val m \<Longrightarrow> starts_with m (op @ ''://'')"
  "cmd_bind op p = Val m \<Longrightarrow> starts_with m (op @ ''://'')"
  "cmd_value op d d' = Val m \<Longrightarrow> starts_with m (op @ ''://'')"
  unfolding cmd_name_def cmd_full_def cmd_bind_def cmd_value_def by (rule starts_with_cat, assumption)+

lemma begins [proper_intros]:
  "begins (cmd_name op d) op" "begins (cmd_full op d) op" "begins (cmd_bind op p) op" "begins (cmd_value op d d') op"
  by (simp_all add: begins_def commands_start)

lemma silent_void [silent_intros]: "silent m \<Longrightarrow> silent (void m)"
  by (simp add: void_def silent_intros)

lemma fbind_cases:
  "fbind (if b then m else m') f = (if b then fbind m f else fbind m' f)"
  "fbind (case v of None \<Rightarrow> m | Some x \<Rightarrow> g x) f = (case v of None \<Rightarrow> fbind m f | Some x \<Rightarrow> fbind (g x) f)"
  "fbind (case w of (a, b) \<Rightarrow> h a b) f = (case w of (a, b) \<Rightarrow> fbind (h a b) f)"
  by (simp_all split: option.splits prod.splits)

lemmas fbind_norm = fbind_assoc fret_fbind fbind_cases

lemma proper_remote:
  assumes m: "begins cmd nm" and act: "\<And>d. silent (act d)" and k: "\<And>x. silent (k x)"
  shows "proper (Some nm) (fbind (remote E loc cmd start act) k)"
  unfolding remote_def fbind_assoc
  by (intro proper_call m) (auto simp: fbind_norm Let_def intro!: silent_intros proper_intros act k proper_silent [OF k])

lemma proper_remote_bind:
  assumes m: "begins cmd nm" and act: "\<And>d. silent (act d)" and k: "\<And>x. silent (k x)"
  shows "proper (Some nm) (fbind (remote_bind E loc cmd act) k)"
  unfolding remote_bind_def fbind_assoc
  by (intro proper_call m) (auto simp: fbind_norm Let_def intro!: silent_intros proper_intros act k proper_silent [OF k])

lemma proper_remote_event:
  assumes m: "begins cmd nm" and k: "\<And>x. silent (k x)"
  shows "proper (Some nm) (fbind (remote_event E loc cmd) k)"
  unfolding remote_event_def fbind_assoc
  by (intro proper_call m) (auto simp: fbind_norm Let_def intro!: silent_intros proper_intros k proper_silent [OF k])


lemma proper_void [proper_intros]: "proper_from n op (fbind m (\<lambda>_. fret ())) \<Longrightarrow> proper_from n op (void m)"
  by (simp add: void_def)

lemma fbind_void: "fbind (void m) f = fbind m (\<lambda>_. f ())"
  by (simp add: void_def fbind_norm)

lemmas proper_replies = proper_remote proper_remote_bind proper_remote_event

lemma proper_blocks:
  "proper (sends (F_smb_create l d)) (vfi_fabric_ops E (F_smb_create l d))"
  "proper (sends (F_smb_delete a)) (vfi_fabric_ops E (F_smb_delete a))"
  "proper (sends (F_smb_find l d)) (vfi_fabric_ops E (F_smb_find l d))"
  "proper (sends (F_smb_put a)) (vfi_fabric_ops E (F_smb_put a))"
  "proper (sends (F_smb_lose a)) (vfi_fabric_ops E (F_smb_lose a))"
  "proper (sends (F_mmap_create a d)) (vfi_fabric_ops E (F_mmap_create a d))"
  "proper (sends (F_mmap_delete a d)) (vfi_fabric_ops E (F_mmap_delete a d))"
  "proper (sends (F_mmap_find a d)) (vfi_fabric_ops E (F_mmap_find a d))"
  "proper (sends (F_mmap_put a d)) (vfi_fabric_ops E (F_mmap_put a d))"
  by (auto simp: vfi_fabric_smb_create_def vfi_fabric_smb_delete_def vfi_fabric_smb_find_def vfi_fabric_smb_put_def
      vfi_fabric_smb_lose_def vfi_fabric_mmap_create_def vfi_fabric_mmap_delete_def vfi_fabric_mmap_find_def
      vfi_fabric_mmap_put_def void_def fbind_norm
      intro!: proper_replies silent_intros proper_intros)

lemma proper_transfers:
  "proper (sends (F_xfer_create l d)) (vfi_fabric_ops E (F_xfer_create l d))"
  "proper (sends (F_xfer_delete x)) (vfi_fabric_ops E (F_xfer_delete x))"
  "proper (sends (F_xfer_find l d)) (vfi_fabric_ops E (F_xfer_find l d))"
  "proper (sends (F_xfer_put x)) (vfi_fabric_ops E (F_xfer_put x))"
  "proper (sends (F_xfer_lose x)) (vfi_fabric_ops E (F_xfer_lose x))"
  by (auto simp: vfi_fabric_xfer_create_def vfi_fabric_xfer_delete_def vfi_fabric_xfer_find_def vfi_fabric_xfer_put_def
      vfi_fabric_xfer_lose_def void_def fbind_norm
      intro!: proper_replies silent_intros proper_intros)

lemma proper_syncs:
  "proper (sends (F_sync_create l d)) (vfi_fabric_ops E (F_sync_create l d))"
  "proper (sends (F_sync_delete y d)) (vfi_fabric_ops E (F_sync_delete y d))"
  "proper (sends (F_sync_find l d)) (vfi_fabric_ops E (F_sync_find l d))"
  "proper (sends (F_sync_put y)) (vfi_fabric_ops E (F_sync_put y))"
  "proper (sends (F_sync_wait y d)) (vfi_fabric_ops E (F_sync_wait y d))"
  "proper (sends (F_sync_send y d)) (vfi_fabric_ops E (F_sync_send y d))"
  "proper (sends (F_sync_lose y d)) (vfi_fabric_ops E (F_sync_lose y d))"
  by (auto simp: vfi_fabric_sync_create_def vfi_fabric_sync_delete_def vfi_fabric_sync_find_def
      vfi_fabric_sync_put_def vfi_fabric_sync_wait_def vfi_fabric_sync_send_def vfi_fabric_sync_lose_def void_def fbind_norm
      intro!: proper_replies silent_intros proper_intros)


lemma starts_with_iff: "starts_with s t \<longleftrightarrow> (\<exists>u. s = t @ u)"
  by (metis append_eq_conv_conj append_take_drop_id starts_with_def)

lemma begins_cat [proper_intros]:
  "starts_with s (op @ ''://'') \<Longrightarrow> begins (cat (Val s # ms)) op"
  "starts_with s (op @ ''://'') \<Longrightarrow> begins (Val s) op"
  by (fastforce simp: begins_def cres_bind_eq_Val starts_with_iff)+

lemma begins_cat_rest: "begins m op \<Longrightarrow> begins (cat (m # ms)) op"
  by (fastforce simp: begins_def cres_bind_eq_Val starts_with_iff)

lemma begins_bind_events [proper_intros]: "begins (cmd_bind_events p) ''bind_create''"
  unfolding cmd_bind_events_def by (rule begins_cat) (simp add: starts_with_def)

lemma begins_ends [proper_intros]:
  "begins (dsts_command p i dn sn) ''dsts_create''" "begins (srcs_command p nm k) ''srcs_create''"
  unfolding dsts_command_def srcs_command_def by (rule begins_cat, simp add: starts_with_def)+

lemma proper_binds:
  "proper (sends (F_bind_find x d)) (vfi_fabric_ops E (F_bind_find x d))"
  "proper (sends (F_bind_create x p)) (vfi_fabric_ops E (F_bind_create x p))"
  "proper (sends (F_bind_delete x d)) (vfi_fabric_ops E (F_bind_delete x d))"
  "proper (sends (F_bind_lose x d)) (vfi_fabric_ops E (F_bind_lose x d))"
  by (auto simp: vfi_fabric_bind_find_def vfi_fabric_bind_create_def vfi_fabric_bind_delete_def
      vfi_fabric_bind_lose_def void_def fbind_norm
      intro!: proper_replies silent_intros proper_intros)

lemma proper_members:
  "proper (sends (F_dst_find b p)) (vfi_fabric_ops E (F_dst_find b p))"
  "proper (sends (F_src_find b p)) (vfi_fabric_ops E (F_src_find b p))"
  "proper (sends (F_dst_create b p)) (vfi_fabric_ops E (F_dst_create b p))"
  "proper (sends (F_src_create b p)) (vfi_fabric_ops E (F_src_create b p))"
  "proper (sends (F_dst_delete b p)) (vfi_fabric_ops E (F_dst_delete b p))"
  "proper (sends (F_src_delete b p)) (vfi_fabric_ops E (F_src_delete b p))"
  by (auto simp: vfi_fabric_dst_find_def vfi_fabric_src_find_def vfi_fabric_dst_create_def vfi_fabric_src_create_def
      vfi_fabric_dst_delete_def vfi_fabric_src_delete_def void_def fbind_norm starts_with_def
      simp del: cat.simps
      intro!: proper_replies silent_intros proper_intros)

lemma proper_events:
  "proper (sends (F_src_events b p)) (vfi_fabric_ops E (F_src_events b p))"
  "proper (sends (F_dst_events b p)) (vfi_fabric_ops E (F_dst_events b p))"
  "proper (sends (F_src_ev_delete b)) (vfi_fabric_ops E (F_src_ev_delete b))"
  "proper (sends (F_dst_ev_delete b)) (vfi_fabric_ops E (F_dst_ev_delete b))"
  "proper (sends (F_event_start l d)) (vfi_fabric_ops E (F_event_start l d))"
  "proper (sends (F_event_find l d)) (vfi_fabric_ops E (F_event_find l d))"
  "proper (sends (F_event_chain l d)) (vfi_fabric_ops E (F_event_chain l d))"
  by (auto simp: vfi_fabric_src_events_def vfi_fabric_dst_events_def vfi_fabric_src_ev_delete_def
      vfi_fabric_dst_ev_delete_def vfi_fabric_event_start_def vfi_fabric_event_find_def vfi_fabric_event_chain_def
      void_def fbind_norm
      simp del: cat.simps
      intro!: proper_replies silent_intros proper_intros begins_cat_rest)

lemma proper_dsts:
  "proper (sends (F_dsts_create b p)) (vfi_fabric_ops E (F_dsts_create b p))"
  "proper (sends (F_dsts_delete b ds p)) (vfi_fabric_ops E (F_dsts_delete b ds p))"
  by (auto simp: vfi_fabric_dsts_create_def vfi_fabric_dsts_delete_def dsts_undo_def dsts_reply_def void_def fbind_norm
      intro!: silent_intros proper_intros)

lemma proper_srcs:
  "proper (sends (F_srcs_create b p)) (vfi_fabric_ops E (F_srcs_create b p))"
  "proper (sends (F_srcs_delete b ss p)) (vfi_fabric_ops E (F_srcs_delete b ss p))"
  by (auto simp: vfi_fabric_srcs_create_def vfi_fabric_srcs_delete_def srcs_undo_def srcs_reply_def Let_def void_def fbind_norm
      intro!: silent_intros proper_intros)

lemma silent_unique_loc [silent_intros]: "silent (unique_loc E d u)"
  by (auto simp: unique_loc_def Let_def intro!: silent_intros split: prod.splits)

lemma proper_unique [proper_intros]:
  assumes m: "begins cmd nm" and none: "\<And>r. silent (f (r, None))" and some: "\<And>t. owing (Some nm) (f (0, Some t))"
  shows "proper (Some nm) (fbind (unique_call E d cmd) f)"
proof -
  have end_none: "proper (Some nm) (f (r, None))" for r
    by (rule proper_silent [OF none]) simp
  show ?thesis
    unfolding unique_call_def
    by (simp add: fbind_norm cong: if_cong option.case_cong)
      (auto intro!: proper_call m silent_intros proper_intros silent_unique_loc [THEN proper_fbind] none some end_none)
qed

lemma proper_locations:
  "proper (sends (F_location_create l d)) (vfi_fabric_ops E (F_location_create l d))"
  "proper (sends (F_location_delete l d)) (vfi_fabric_ops E (F_location_delete l d))"
  "proper (sends (F_location_put l)) (vfi_fabric_ops E (F_location_put l))"
  "proper (sends (F_location_lose l d)) (vfi_fabric_ops E (F_location_lose l d))"
  by (auto simp: vfi_fabric_location_create_def vfi_fabric_location_delete_def vfi_fabric_location_put_def
      vfi_fabric_location_lose_def void_def fbind_norm
      intro!: proper_replies silent_intros proper_intros)

lemma proper_location_find:
  "proper (sends (F_location_find l d)) (vfi_fabric_ops E (F_location_find l d))"
  by (auto simp: vfi_fabric_location_find_def void_def fbind_norm found_at_def make_location_def
      complete_location_def unless_def starts_with_iff
      simp del: cat.simps
      intro!: silent_intros proper_intros)


lemma proper_ops: "proper (sends op) (vfi_fabric_ops E op)"
  by (cases op) (simp_all only: proper_blocks proper_transfers proper_syncs proper_binds proper_members proper_events
      proper_dsts proper_srcs proper_locations proper_location_find)

lemma watch_Broken: "watch op Broken e = Broken"
  by (cases "(op, Broken, e)" rule: watch.cases) (auto split: option.splits)

lemma foldl_Broken: "foldl (watch op) Broken es = Broken"
  by (induction es) (simp_all add: watch_Broken)

lemma watch_commands:
  "foldl (watch op) n tr \<noteq> Broken \<Longrightarrow> (Call l m, a) \<in> set tr \<Longrightarrow> \<exists>nm d. op = Some nm \<and> m = nm @ ''://'' @ d"
proof (induction tr arbitrary: n)
  case (Cons e tr)
  show ?case
  proof (cases "e = (Call l m, a)")
    case True
    then show ?thesis using Cons.prems foldl_Broken [of op tr]
      by (cases a) (auto simp: starts_with_iff split: option.splits if_splits)
  next
    case False
    then show ?thesis using Cons.IH [of "watch op n e"] Cons.prems by simp
  qed
qed simp

definition command_names :: "string list" where
  "command_names = filter (\<lambda>nm. length nm \<le> 15 \<and> CHR '':'' \<notin> set nm) (map fst ops_table)"

lemma sends_names: "case sends op of None \<Rightarrow> True | Some nm \<Rightarrow> nm \<in> set command_names"
  by (induction op; code_simp)

lemma sends_table: "sends op = Some nm \<Longrightarrow> map_of ops_table nm \<noteq> None \<and> length nm \<le> 15 \<and> CHR '':'' \<notin> set nm"
  using sends_names [of op] by (auto simp: command_names_def map_of_eq_None_iff)

lemma strstr_sep: "CHR '':'' \<notin> set nm \<Longrightarrow> strstr (nm @ ''://'' @ d) ''://'' = Some (length nm)"
  using strstr_after [of "CHR '':''" nm "''//'' @ d" "''//''"] strstr_here [of "''://''" d] by simp

lemma lookup_sent:
  assumes "sends op = Some nm"
  shows "\<exists>h. lookup_op (nm @ ''://'' @ d) = Some (h, d) \<and> (nm, h) \<in> set ops_table"
proof -
  obtain h where "map_of ops_table nm = Some h" using sends_table [OF assms] by auto
  then show ?thesis
    using sends_table [OF assms] strstr_sep [of nm d] map_of_SomeD [of ops_table nm h]
    by (simp add: lookup_op_def)
qed

text \<open>What the node at the other end makes of an event.\<close>

definition understood :: "string option \<Rightarrow> fevent \<Rightarrow> bool" where
  "understood op e =
     (case fst e of
        Fn nm hs a \<Rightarrow> True
      | Call l m \<Rightarrow>
          (case (op, lookup_op m) of
             (Some nm, Some (h, d)) \<Rightarrow> m = nm @ ''://'' @ d \<and> (nm, h) \<in> set ops_table
           | _ \<Rightarrow> False))"


text \<open>An environment in which every call succeeds and every command is answered with success.\<close>

definition demo_fenv :: "string \<Rightarrow> fenv" where
  "demo_fenv m = \<lparr>fanswer = (\<lambda>tr c. (0, Some 9)), freply = (\<lambda>tr c. Some m), fkmem = (\<lambda>_. True),
     fkmem4 = (\<lambda>_. (True, True, True, True)), fgarbage = zero_desc, bind_of = Some, has_smbs = (\<lambda>_ _. True),
     has_xfers = (\<lambda>_ _. True), has_syncs = (\<lambda>_ _. True)\<rparr>"

definition demo_fstate :: fstate where
  "demo_fstate = \<lparr>f_refs = \<lparr>reg = demo_registry, loc_refs = (\<lambda>_. 1)\<rparr>, f_trace = [],
     f_desc = (\<lambda>_. zero_desc\<lparr>ploc := Some 1\<rparr>), f_bdesc = (\<lambda>_. \<lparr>xfer = zero_desc, dst = zero_desc, src = zero_desc\<rparr>),
     f_binds = (\<lambda>_. \<lparr>b_dst_ready = None, b_dst_ready_id = 0, b_dst_done = None, b_dst_done_id = 0,
        b_src_ready = None, b_src_ready_id = 0, b_src_done = None, b_src_done_id = 0\<rparr>)\<rparr>"




section \<open>What is kept and what is undone\<close>

named_theorems wp_intros "rules that follow a run step by step"

lemma wp_call [wp_intros]:
  assumes "\<And>m r. cmd = Val m \<Longrightarrow> Q (r, None) (s\<lparr>f_trace := f_trace s @ [(Call loc m, r, None)]\<rparr>)"
    and "\<And>m t. cmd = Val m \<Longrightarrow> Q (0, Some t) (s\<lparr>f_trace := f_trace s @ [(Call loc m, 0, None)]\<rparr>)"
  shows "wp (vfi_fabric_call E loc cmd) Q s"
  unfolding wp_def
proof (intro allI impI)
  fix r s' assume "vfi_fabric_call E loc cmd s = Val (r, s')"
  then obtain m where m: "cmd = Val m" and "r = (if freply E (f_trace s) (Call loc m) = None
        then fst (fanswer E (f_trace s) (Call loc m)) else 0, freply E (f_trace s) (Call loc m))"
    and "s' = s\<lparr>f_trace := f_trace s @ [(Call loc m, fst r, None)]\<rparr>"
    by (auto simp: vfi_fabric_call_def Let_def cres_bind_eq_Val split: if_splits)
  then show "Q r s'" using assms [OF m] by (cases "freply E (f_trace s) (Call loc m)") auto
qed

lemma wp_parse [wp_intros]:
  "(\<And>bad p g. Q (bad, p) (s\<lparr>f_refs := g\<rparr>)) \<Longrightarrow> wp (parse_bind_reply E m) Q s"
  "(\<And>bad d g. Q' (bad, d) (s\<lparr>f_refs := g\<rparr>)) \<Longrightarrow> wp (parse_reply E m) Q' s"
  by (auto simp: wp_def parse_bind_reply_def parse_reply_def cres_bind_eq_Val)

lemma wp_fnI [wp_intros]:
  "(\<And>ret h. Q (ret, h) (s\<lparr>f_trace := f_trace s @ [(Fn nm hs a, ret, h)]\<rparr>)) \<Longrightarrow> wp (fn E nm hs a) Q s"
  by (cases "fanswer E (f_trace s) (Fn nm hs a)") (simp add: wp_fn)

lemma wp_fliftI [wp_intros]: "(\<And>x. v = Val x \<Longrightarrow> Q x s) \<Longrightarrow> wp (flift v) Q s"
  by (simp add: wp_flift)

lemma wp_cases [wp_intros]:
  "(b \<Longrightarrow> wp m Q s) \<Longrightarrow> (\<not> b \<Longrightarrow> wp m' Q s) \<Longrightarrow> wp (if b then m else m') Q s"
  "(v = None \<Longrightarrow> wp m Q s) \<Longrightarrow> (\<And>x. v = Some x \<Longrightarrow> wp (f x) Q s) \<Longrightarrow> wp (case v of None \<Rightarrow> m | Some x \<Rightarrow> f x) Q s"
  by (cases b; simp) (cases v; simp)

lemma wp_prod [wp_intros]: "(\<And>a b. w = (a, b) \<Longrightarrow> wp (f a b) Q s) \<Longrightarrow> wp (case w of (a, b) \<Rightarrow> f a b) Q s"
  by (cases w) simp

lemmas wp_direct = wp_fret wp_fbind wp_fget wp_fput wp_fail

text \<open>The doorbells that are registered and the lists that exist at the end of a trace.\<close>

fun keep :: "int list \<times> nat list \<Rightarrow> fevent \<Rightarrow> int list \<times> nat list" where
  "keep (bs, ls) (Call l m, a) = (bs, ls)"
| "keep (bs, ls) (Fn nm hs a, ret, h) =
     (if nm = ''vfi_doorbell_register'' then (if 0 \<le> ret then ret # bs else bs, ls)
      else if nm = ''vfi_doorbell_unregister'' then (case a of A_num i \<Rightarrow> remove1 i bs | _ \<Rightarrow> bs, ls)
      else if nm = ''vfi_dsts_create'' \<and> ret = 0 \<or> nm = ''vfi_srcs_create'' then (bs, case h of None \<Rightarrow> ls | Some l \<Rightarrow> l # ls)
      else if nm \<in> {''vfi_dsts_delete'', ''vfi_srcs_delete''} then (bs, case hs of [Some l] \<Rightarrow> remove1 l ls | _ \<Rightarrow> ls)
      else (bs, ls))"

definition kept :: "fevent list \<Rightarrow> int list \<times> nat list" where
  "kept tr = foldl keep ([], []) tr"

lemma kept_simps [simp]: "kept [] = ([], [])" "kept (tr @ es) = foldl keep (kept tr) es"
  by (simp_all add: kept_def)

lemma dsts_create_keeps:
  assumes k: "kept (f_trace s) = ([], [])"
  shows "wp (vfi_fabric_dsts_create E b desc) (\<lambda>(ret, ds) s'.
    ret = 0 \<and> (\<exists>i d. ds = Some d \<and> kept (f_trace s') = ([i], [d])) \<or> ret = - EINVAL \<and> kept (f_trace s') = ([], [])) s"
  unfolding vfi_fabric_dsts_create_def dsts_undo_def dsts_reply_def bell_register_def bell_unregister_def set_events_def
    free_reply_def clean_bind_reply_def fdo_def
  by (auto simp: wp_direct k intro!: wp_intros)

lemma srcs_create_keeps:
  assumes k: "kept (f_trace s) = ([], [])"
  shows "wp (vfi_fabric_srcs_create E d desc) (\<lambda>(ret, ss) s'.
    (\<exists>x is. ss = Some x \<and> kept (f_trace s') = (is, [x])
       \<and> length is = (if b_src_ready (f_binds s (the (bind_of E d))) = None then 1 else 0) \<and> (ret = 0 \<or> ret = - EINVAL))
    \<or> kept (f_trace s') = ([], [])) s"
  unfolding vfi_fabric_srcs_create_def srcs_undo_def srcs_reply_def bell_register_def bell_unregister_def set_events_def
    free_reply_def clean_bind_reply_def fdo_def Let_def
  by (auto simp: wp_direct k intro!: wp_intros split: if_splits)

text \<open>A descriptor with an event name, and binds whose descriptors have one, an engine and a location.\<close>

definition named_event :: vfi_desc_param where
  "named_event = zero_desc\<lparr>buf := Some (''b'' @ [NUL] @ ''event_name=e'' @ [NUL]), name := Some 0, location := Some 0,
     query := Some [Some 2, None], ploc := Some 1, address := Some 6, ops := Some Vfi_fabric_ops\<rparr>"

definition named_bind :: vfi_bind_param where
  "named_bind = \<lparr>xfer = named_event, dst = named_event, src = named_event\<rparr>"

definition bind_fstate :: fstate where
  "bind_fstate = demo_fstate\<lparr>f_bdesc := (\<lambda>_. named_bind),
     f_binds := (\<lambda>b. (f_binds demo_fstate b)\<lparr>b_src_done_id := - 1, b_dst_done_id := - 1\<rparr>)\<rparr>"


text \<open>C25: Asking the other node for the destinations of a bind takes two things here, a doorbell and a list,
  and keeps both when it succeeds. When it fails, wherever it does (no event name, no doorbell, no memory,
  no reply, a reply that does not parse, a refusal, no event number in the reply), it has given both back and
  returns \<open>-EINVAL\<close>.\<close>

theorem dsts_create_undoes_what_it_did:
  assumes "vfi_fabric_dsts_create E b desc (s\<lparr>f_trace := []\<rparr>) = Val ((ret, ds), s')"
  shows "ret = 0 \<and> (\<exists>i d. ds = Some d \<and> kept (f_trace s') = ([i], [d]))
    \<or> ret = - EINVAL \<and> kept (f_trace s') = ([], [])"
  using dsts_create_keeps [of "s\<lparr>f_trace := []\<rparr>" E b desc] assms by (simp add: wp_def)

theorem dsts_create_undoes_what_it_did_witness:
  "\<exists>s'. vfi_fabric_dsts_create (demo_fenv ''dsts_create://x.l#0:1/d.m#0:1=s.n#0:1?result(0),reply(9)'') 3 named_bind
      (bind_fstate\<lparr>f_trace := []\<rparr>) = Val ((- EINVAL, Some 9), s') \<and> length (f_trace s') = 7 \<and> kept (f_trace s') = ([], [])"
proof -
  let ?m = "vfi_fabric_dsts_create (demo_fenv ''dsts_create://x.l#0:1/d.m#0:1=s.n#0:1?result(0),reply(9)'') 3 named_bind
    (bind_fstate\<lparr>f_trace := []\<rparr>)"
  have "(case ?m of Val (r, s') \<Rightarrow> (Some r, length (f_trace s')) | Undef \<Rightarrow> (None, 0)) = (Some (- EINVAL, Some 9), 7)"
    by code_simp
  then obtain s' where run: "?m = Val ((- EINVAL, Some 9), s')" and n: "length (f_trace s') = 7"
    by (cases ?m) auto
  show ?thesis using dsts_create_undoes_what_it_did [OF run] run n by simp
qed

text \<open>Asking for the sources of a destination keeps all it has taken here (a list, and a doorbell when
  the bind had no source yet) or nothing of it, whatever happens in between.\<close>

theorem srcs_create_all_or_nothing:
  assumes "vfi_fabric_srcs_create E d desc (s\<lparr>f_trace := []\<rparr>) = Val ((ret, ss), s')"
  shows "(\<exists>x is. ss = Some x \<and> kept (f_trace s') = (is, [x])
       \<and> length is = (if b_src_ready (f_binds s (the (bind_of E d))) = None then 1 else 0) \<and> (ret = 0 \<or> ret = - EINVAL))
    \<or> kept (f_trace s') = ([], [])"
  using srcs_create_keeps [of "s\<lparr>f_trace := []\<rparr>" E d desc] assms by (simp add: wp_def)

text \<open>The witness is a reply of success without the event number: everything is undone, yet the value
  returned is 0 and the list that is handed out has been deleted.\<close>

theorem srcs_create_all_or_nothing_witness:
  "\<exists>s'. vfi_fabric_srcs_create (demo_fenv ''srcs_create://x.l#0:1/d.m#0:1=s.n#0:1?result(0),reply(9)'') 3 named_bind
      (bind_fstate\<lparr>f_trace := []\<rparr>) = Val ((0, Some 9), s') \<and> kept (f_trace s') = ([], [])"
proof -
  let ?m = "vfi_fabric_srcs_create (demo_fenv ''srcs_create://x.l#0:1/d.m#0:1=s.n#0:1?result(0),reply(9)'') 3 named_bind
    (bind_fstate\<lparr>f_trace := []\<rparr>)"
  have "(case ?m of Val (r, s') \<Rightarrow> (Some r, snd (kept (f_trace s'))) | Undef \<Rightarrow> (None, [])) = (Some (0, Some 9), [])"
    by code_simp
  then obtain s' where run: "?m = Val ((0, Some 9), s')" and n: "snd (kept (f_trace s')) = []"
    by (cases ?m) auto
  have "kept (f_trace s') = ([], [])"
    using srcs_create_all_or_nothing [OF run] n by auto
  with run show ?thesis by blast
qed

section \<open>Numbers that cross\<close>

lemma dec_of_nat_value:
  "dec_of_nat n \<noteq> [] \<and> list_all is_digit (dec_of_nat n) \<and> foldl (\<lambda>v c. 10 * v + (of_char c - 48)) 0 (dec_of_nat n) = n"
proof (induction n rule: dec_of_nat.induct)
  case (1 n)
  show ?case
  proof (cases "n < 10")
    case True
    then show ?thesis by (simp add: dec_of_nat.simps [of n] is_digit_def of_char_of)
  next
    case False
    moreover have "10 * (n div 10) + n mod 10 = n" by simp
    ultimately show ?thesis using 1 by (simp add: dec_of_nat.simps [of n] is_digit_def of_char_of)
  qed
qed

lemma dec_value_printed: "dec_value (dec_of_nat n) = n"
  using dec_of_nat_value [of n] by (simp add: dec_value_def list_all_iff takeWhile_eq_all_conv [THEN iffD2])

lemma digit_facts: "is_digit c \<Longrightarrow> c \<noteq> CHR ''-'' \<and> \<not> is_space c"
  by (auto simp: is_digit_def is_space_def)

lemma scan_d_printed:
  assumes "- (2 ^ 31) \<le> v" "v < 2 ^ 31"
  shows "scan_d (dec_of_int v) = Some v"
proof -
  have c: "c_int v = v"
    using assms by (simp add: c_int_def sint_sbintrunc' signed_take_bit_int_eq_self)
  obtain c cs where ds: "dec_of_nat (nat \<bar>v\<bar>) = c # cs" "is_digit c"
    using dec_of_nat_value [of "nat \<bar>v\<bar>"] by (cases "dec_of_nat (nat \<bar>v\<bar>)") auto
  show ?thesis
    using c ds digit_facts [OF ds(2)] dec_value_printed [of "nat \<bar>v\<bar>"]
    by (auto simp: scan_d_def dec_of_int_def is_space_def split: if_splits)
qed




end
