(* ===== verification/Vfi_Cdev.thy ===== *)
theory Vfi_Cdev
  imports Vfi_Ops "HOL-Library.Multiset"
begin

text \<open>
  The character device of \<open>vfi_cdev.c\<close>: commands are written to it line by line, each is run by
  \<open>do_operation\<close>, and the replies are read back in the order in which the commands ran. A reply that has
  been read is kept for a while, so that it can be read again after a seek backwards.

  A semaphore makes the operations of a file exclude one another, so each is one step here; \<open>sig\<close> says
  that a signal arrives while an operation waits for it. The work items of non-blocking writes, each on a
  workqueue of its own, are steps of their own.
\<close>

section \<open>State\<close>

text \<open>
  A message and the state of an open file. \<open>m_reply\<close> is what is left of the 1024 bytes allocated for a
  message. A number stands for each allocation; the numbers that have been freed, the commands that have
  been run and the bytes of the list heads are not in the code.
\<close>

definition reply_room :: nat where "reply_room = 1024 - 20"

record mybuffers =
  m_id :: nat
  m_cmd :: string
  m_reply :: string
  m_size :: nat

record privdata =
  p_open :: bool
  p_refs :: int
  readlist :: "mybuffers list"
  seeklist :: "mybuffers list"
  seekbufs :: int
  p_pos :: int
  f_pos :: int
  mybuf :: "mybuffers option"
  p_offset :: nat
  p_size :: nat
  works :: "mybuffers list"
  fresh_id :: nat
  freed :: "nat list"
  ran :: "string list"

definition vfi_open :: "bool \<Rightarrow> errno \<times> privdata option" where
  "vfi_open mem =
     (if \<not> mem then (- ENOMEM, None)
      else (0, Some \<lparr>p_open = True, p_refs = 1, readlist = [], seeklist = [], seekbufs = 0, p_pos = 0, f_pos = 0,
        mybuf = None, p_offset = 0, p_size = 0, works = [], fresh_id = 0, freed = [], ran = []\<rparr>))"

section \<open>Seeking\<close>

text \<open>
  Only two kinds of seek relative to the current position are understood: backwards, by whatever distance,
  is one message back; by 0 resets the position.
\<close>

definition vfi_llseek :: "bool \<Rightarrow> int \<Rightarrow> int \<Rightarrow> privdata \<Rightarrow> int \<times> privdata" where
  "vfi_llseek sig off origin s =
     (if sig then (- ERESTARTSYS, s)
      else if origin = 1 \<and> off < 0 \<and> seeklist s \<noteq> [] then
        (p_pos s + off, s\<lparr>readlist := hd (seeklist s) # readlist s, seeklist := tl (seeklist s),
           seekbufs := seekbufs s - 1, p_pos := p_pos s + off\<rparr>)
      else if origin = 1 \<and> off = 0 then (0, s\<lparr>p_pos := 0\<rparr>)
      else (- ESPIPE, s))"

section \<open>Reading\<close>

datatype read_end = Returned int string | Asleep

definition next_message :: "privdata \<Rightarrow> (mybuffers \<times> privdata) option" where
  "next_message s =
     (case mybuf s of
        Some m \<Rightarrow> Some (m, s)
      | None \<Rightarrow>
          (case readlist s of
             [] \<Rightarrow> None
           | m # ms \<Rightarrow> Some (m, s\<lparr>mybuf := Some m, readlist := ms, p_size := m_size m, p_offset := 0\<rparr>)))"

text \<open>A message that has been read goes to the front of the seek list; at most 17 are kept.\<close>

definition finish_message :: "mybuffers \<Rightarrow> privdata \<Rightarrow> privdata" where
  "finish_message m s =
     (let l = m # seeklist s; s1 = s\<lparr>mybuf := None\<rparr>
      in if 16 < seekbufs s then s1\<lparr>seeklist := butlast l, freed := freed s @ [m_id (last l)]\<rparr>
         else s1\<lparr>seeklist := l, seekbufs := seekbufs s + 1\<rparr>)"

text \<open>After copying: the message has been read in part, or to its end.\<close>

definition after_copy :: "mybuffers \<Rightarrow> bool \<Rightarrow> nat \<Rightarrow> privdata \<Rightarrow> privdata" where
  "after_copy m partly got s = (if partly then s\<lparr>p_offset := p_offset s + got\<rparr> else finish_message m s)"

text \<open>
  One round of the loop of \<open>vfi_read\<close>, of whose bytes \<open>uncopied\<close> fail to reach the user. It ends with the bytes
  at the start of the user's buffer, or asleep, to be started over when a message has come, or goes round
  again. Reading beyond the message's memory is undefined.
\<close>

definition read_round :: "bool \<Rightarrow> nat \<Rightarrow> nat \<Rightarrow> privdata \<Rightarrow> (read_end option \<times> privdata) cres" where
  "read_round nonblock uncopied want s =
     (case next_message s of
        None \<Rightarrow> Val (Some (if nonblock then Returned (- EAGAIN) [] else Asleep), s)
      | Some (m, s) \<Rightarrow>
          let left = p_size s - p_offset s; copied = min want left; ret = min uncopied copied; got = copied - ret
          in if length (m_reply m) < p_offset s + copied then Undef
             else let s' = after_copy m (ret \<noteq> 0 \<or> want < left) got s
                  in if got = 0 then Val (None, s')
                     else Val (Some (Returned (int got) (take got (drop (p_offset s) (m_reply m)))),
                       s'\<lparr>p_pos := f_pos s + int got, f_pos := f_pos s + int got\<rparr>))"

text \<open>The loop, with fuel; \<open>uncopied\<close> by the fuel that is left.\<close>

fun read_loop :: "nat \<Rightarrow> bool \<Rightarrow> (nat \<Rightarrow> nat) \<Rightarrow> nat \<Rightarrow> privdata \<Rightarrow> (read_end \<times> privdata) cres option" where
  "read_loop 0 nonblock uncopied want s = None"
| "read_loop (Suc k) nonblock uncopied want s =
     (case read_round nonblock (uncopied k) want s of
        Undef \<Rightarrow> Some Undef
      | Val (Some e, s) \<Rightarrow> Some (Val (e, s))
      | Val (None, s) \<Rightarrow> read_loop k nonblock uncopied want s)"

definition vfi_read :: "nat \<Rightarrow> bool \<Rightarrow> bool \<Rightarrow> (nat \<Rightarrow> nat) \<Rightarrow> nat \<Rightarrow> privdata \<Rightarrow> (read_end \<times> privdata) cres option" where
  "vfi_read fuel sig nonblock uncopied want s =
     (if sig then Some (Val (Returned (- ERESTARTSYS) [], s)) else read_loop fuel nonblock uncopied want s)"

section \<open>Running commands\<close>

text \<open>\<open>vfi_real_write\<close> returns the size that \<open>do_operation\<close> reports; the memory of the reply starts out zero.\<close>

definition vfi_real_write :: "env \<Rightarrow> mybuffers \<Rightarrow> (nat \<times> mybuffers) cres" where
  "vfi_real_write E m =
     cres_bind (do_operation E (m_cmd m) reply_room) (\<lambda>(ret, t, n, out).
       Val (n, m\<lparr>m_reply := t @ replicate (reply_room - length t) NUL\<rparr>))"

definition queue_to_read :: "mybuffers \<Rightarrow> privdata \<Rightarrow> privdata" where
  "queue_to_read m s =
     (if p_open s then s\<lparr>readlist := readlist s @ [m]\<rparr> else s\<lparr>freed := freed s @ [m_id m]\<rparr>)"

text \<open>Running the command of a message and queueing its reply, as a writer and a work item do.\<close>

definition run_command :: "(string list \<Rightarrow> env) \<Rightarrow> mybuffers \<Rightarrow> privdata \<Rightarrow> privdata cres" where
  "run_command E m s =
     cres_bind (vfi_real_write (E (ran s)) m) (\<lambda>(n, m).
       Val (queue_to_read (m\<lparr>m_size := n\<rparr>) (s\<lparr>ran := ran s @ [m_cmd m]\<rparr>)))"

text \<open>
  What the kernel answers to a writer, by the number of the line: memory for the message, for the text
  that is left, for a work item; and a signal.
\<close>

record wanswers =
  a_mybuf :: "nat \<Rightarrow> bool"
  a_rest :: "nat \<Rightarrow> bool"
  a_work :: "nat \<Rightarrow> bool"
  a_sig :: "nat \<Rightarrow> bool"

text \<open>\<open>strsep(&buffer, "\n")\<close>: the line, and how much of the text it takes up.\<close>

definition line_of :: "string \<Rightarrow> string" where
  "line_of t = takeWhile (\<lambda>c. c \<noteq> CHR 0x0A \<and> c \<noteq> NUL) t"

definition line_len :: "string \<Rightarrow> nat" where
  "line_len t = (let k = length (line_of t) in if k < length t \<and> t ! k = CHR 0x0A then Suc k else length t)"

lemma drop_line: "drop (line_len t) t \<noteq> [] \<Longrightarrow> length (drop (line_len t) t) < length t"
  by (auto simp: line_len_def Let_def split: if_splits)

text \<open>One round of the loop of \<open>vfi_write\<close>, and the loop; \<open>Some r\<close> when it returns early.\<close>

definition write_line ::
  "(string list \<Rightarrow> env) \<Rightarrow> wanswers \<Rightarrow> bool \<Rightarrow> nat \<Rightarrow> string \<Rightarrow> privdata \<Rightarrow> (errno option \<times> privdata) cres" where
  "write_line E A nonblock k t s =
     (if \<not> a_mybuf A k then Undef
      else
        let m = \<lparr>m_id = fresh_id s, m_cmd = line_of t, m_reply = replicate reply_room NUL, m_size = 0\<rparr>;
            s1 = s\<lparr>fresh_id := Suc (fresh_id s)\<rparr>
        in if nonblock then
             (if \<not> a_work A k then Val (Some (- ENOMEM), s1)
              else Val (None, s1\<lparr>works := works s1 @ [m], p_refs := p_refs s1 + 1\<rparr>))
           else if a_sig A k then Val (Some (- ERESTARTSYS), s1)
           else cres_bind (run_command E m (s1\<lparr>f_pos := f_pos s1 + int (line_len t)\<rparr>)) (\<lambda>s. Val (None, s)))"

function (sequential) write_loop ::
  "(string list \<Rightarrow> env) \<Rightarrow> wanswers \<Rightarrow> bool \<Rightarrow> nat \<Rightarrow> string \<Rightarrow> privdata \<Rightarrow> (errno option \<times> privdata) cres" where
  "write_loop E A nonblock k t s =
     (case write_line E A nonblock k t s of
        Undef \<Rightarrow> Undef
      | Val (Some e, s) \<Rightarrow> Val (Some e, s)
      | Val (None, s) \<Rightarrow>
          if drop (line_len t) t \<noteq> [] \<and> a_rest A k then write_loop E A nonblock (Suc k) (drop (line_len t) t) s
          else Val (None, s))"
  by pat_completeness auto
termination
  by (relation "measure (\<lambda>(E, A, nb, k, t, s). length t)") (auto simp: line_len_def Let_def split: if_splits)

declare write_loop.simps [simp del]

definition vfi_write ::
  "(string list \<Rightarrow> env) \<Rightarrow> wanswers \<Rightarrow> bool option \<Rightarrow> bool \<Rightarrow> bool \<Rightarrow> string \<Rightarrow> privdata \<Rightarrow> (int \<times> privdata) cres" where
  "vfi_write E A mem sig nonblock t s =
     (case mem of
        None \<Rightarrow> Val (- ENOMEM, s)
      | Some fault \<Rightarrow>
          if fault then Val (- EFAULT, s)
          else cres_bind (write_loop E A nonblock 0 t s) (\<lambda>(r, s).
            case r of
              Some e \<Rightarrow> Val (e, s)
            | None \<Rightarrow>
                if \<not> nonblock then Val (int (length t), s)
                else if sig then Val (- ERESTARTSYS, s)
                else Val (int (length t), s\<lparr>p_pos := f_pos s + int (length t), f_pos := f_pos s + int (length t)\<rparr>)))"

text \<open>A work item of a non-blocking write; any of them may be next. The last to let go of the file frees it.\<close>

definition def_write :: "(string list \<Rightarrow> env) \<Rightarrow> nat \<Rightarrow> privdata \<Rightarrow> privdata cres" where
  "def_write E i s =
     cres_bind (run_command E (works s ! i) (s\<lparr>works := take i (works s) @ drop (Suc i) (works s)\<rparr>)) (\<lambda>s.
       Val (s\<lparr>p_refs := p_refs s - 1\<rparr>))"

section \<open>Polling and closing\<close>

definition vfi_poll :: "bool \<Rightarrow> privdata \<Rightarrow> int" where
  "vfi_poll sig s =
     (if sig then - ERESTARTSYS
      else (4 + 256) + (if mybuf s \<noteq> None \<or> readlist s \<noteq> [] then 1 + 64 else 0))"

definition vfi_release :: "bool \<Rightarrow> privdata \<Rightarrow> errno \<times> privdata" where
  "vfi_release sig s =
     (if sig then (- ERESTARTSYS, s)
      else (0, s\<lparr>p_open := False, freed := freed s @ map m_id (readlist s) @ map m_id (seeklist s),
        readlist := [], seeklist := [], seekbufs := 0, p_pos := 0, p_refs := p_refs s - 1\<rparr>))"


section \<open>Runs\<close>

text \<open>
  The operations on an open file, each with what the kernel answers. A run is a sequence of them; what it
  returns is the bytes that have been read, in order. A work item that is not there is no step.
\<close>

datatype cdev_call =
    Write wanswers "bool option" bool bool string
  | Work nat
  | Read nat bool bool "nat \<Rightarrow> nat" nat
  | Seek bool int int
  | Release bool

fun cdev_do :: "(string list \<Rightarrow> env) \<Rightarrow> cdev_call \<Rightarrow> privdata \<Rightarrow> (string \<times> privdata) cres" where
  "cdev_do E (Write A mem sig nonblock t) s = cres_bind (vfi_write E A mem sig nonblock t s) (\<lambda>(r, s). Val ([], s))"
| "cdev_do E (Work i) s = (if i < length (works s) then cres_bind (def_write E i s) (\<lambda>s. Val ([], s)) else Val ([], s))"
| "cdev_do E (Read fuel sig nonblock uncopied want) s =
     (case vfi_read fuel sig nonblock uncopied want s of
        None \<Rightarrow> Undef
      | Some r \<Rightarrow> cres_bind r (\<lambda>(e, s). Val (case e of Returned n bs \<Rightarrow> bs | Asleep \<Rightarrow> [], s)))"
| "cdev_do E (Seek sig off origin) s = Val ([], snd (vfi_llseek sig off origin s))"
| "cdev_do E (Release sig) s = Val ([], if p_open s then snd (vfi_release sig s) else s)"

fun cdev_run :: "(string list \<Rightarrow> env) \<Rightarrow> cdev_call list \<Rightarrow> privdata \<Rightarrow> (string \<times> privdata) cres" where
  "cdev_run E [] s = Val ([], s)"
| "cdev_run E (c # cs) s = cres_bind (cdev_do E c s) (\<lambda>(bs, s). cres_bind (cdev_run E cs s) (\<lambda>(bs', s). Val (bs @ bs', s)))"

fun only_reads_and_writes :: "cdev_call \<Rightarrow> bool" where
  "only_reads_and_writes (Seek sig off origin) = False"
| "only_reads_and_writes (Release sig) = False"
| "only_reads_and_writes _ = True"

section \<open>Well-formed files\<close>

definition message_ok :: "mybuffers \<Rightarrow> bool" where
  "message_ok m \<longleftrightarrow> length (m_reply m) = reply_room"

definition current :: "privdata \<Rightarrow> mybuffers list" where
  "current s = (case mybuf s of None \<Rightarrow> [] | Some m \<Rightarrow> [m])"

text \<open>Where the messages are: waiting to be run, being read, to be read, kept for seeking, freed.\<close>

definition places :: "privdata \<Rightarrow> nat list" where
  "places s = map m_id (works s @ current s @ readlist s @ seeklist s) @ freed s"

definition cdev_ok :: "privdata \<Rightarrow> bool" where
  "cdev_ok s \<longleftrightarrow> distinct (places s) \<and> set (places s) \<subseteq> {..< fresh_id s}
     \<and> list_all message_ok (current s @ readlist s @ seeklist s)
     \<and> seekbufs s = int (length (seeklist s)) \<and> length (seeklist s) \<le> 17
     \<and> (\<forall>m. mybuf s = Some m \<longrightarrow> p_size s = m_size m \<and> p_offset s \<le> m_size m)
     \<and> p_refs s = int (length (works s)) + (if p_open s then 1 else 0)"


lemma moved_ok:
  assumes "cdev_ok s" and "mset (places s') = mset (places s)" and "fresh_id s' = fresh_id s"
  shows "distinct (places s') \<and> set (places s') \<subseteq> {..< fresh_id s'}"
  using mset_eq_imp_distinct_iff [OF assms(2)] mset_eq_setD [OF assms(2)] assms(1,3) by (simp add: cdev_ok_def)

lemma cdev_ok_pos: "cdev_ok (s\<lparr>p_pos := a\<rparr>) = cdev_ok s" "cdev_ok (s\<lparr>f_pos := b\<rparr>) = cdev_ok s"
  "cdev_ok (s\<lparr>p_pos := a, f_pos := b\<rparr>) = cdev_ok s"
  by (simp_all add: cdev_ok_def places_def current_def)

lemma cdev_ok_open [inv_intros]: "vfi_open mem = (r, Some s) \<Longrightarrow> cdev_ok s"
  by (auto simp: vfi_open_def cdev_ok_def places_def current_def split: if_splits)

lemma cdev_ok_llseek [inv_intros]:
  assumes ok: "cdev_ok s" shows "cdev_ok (snd (vfi_llseek sig off origin s))"
proof (cases "\<not> sig \<and> origin = 1 \<and> off < 0 \<and> seeklist s \<noteq> []")
  case True
  let ?s = "snd (vfi_llseek sig off origin s)"
  obtain m ms where sl: "seeklist s = m # ms" using True by (cases "seeklist s") auto
  have s': "?s = s\<lparr>readlist := m # readlist s, seeklist := ms, seekbufs := seekbufs s - 1, p_pos := p_pos s + off\<rparr>"
    using True sl by (simp add: vfi_llseek_def)
  have "mset (places ?s) = mset (places s)" by (simp add: s' places_def current_def sl)
  then have "distinct (places ?s) \<and> set (places ?s) \<subseteq> {..< fresh_id ?s}"
    by (rule moved_ok [OF ok]) (simp add: s')
  then show ?thesis using ok sl by (auto simp: cdev_ok_def s' current_def)
next
  case False
  have pos: "cdev_ok (s\<lparr>p_pos := 0\<rparr>)" using ok by (simp add: cdev_ok_pos)
  from False have "snd (vfi_llseek sig off origin s) = s \<or> snd (vfi_llseek sig off origin s) = s\<lparr>p_pos := 0\<rparr>"
    by (auto simp: vfi_llseek_def)
  with ok pos show ?thesis by (elim disjE) simp_all
qed

lemma next_message_ok:
  assumes ok: "cdev_ok s" and n: "next_message s = Some (m, s')"
  shows "cdev_ok s' \<and> mybuf s' = Some m"
proof (cases "mybuf s")
  case None
  then obtain ms where rl: "readlist s = m # ms"
    and s': "s' = s\<lparr>mybuf := Some m, readlist := ms, p_size := m_size m, p_offset := 0\<rparr>"
    using n by (auto simp: next_message_def split: list.splits)
  have "mset (places s') = mset (places s)" by (simp add: s' places_def current_def rl None)
  then have "distinct (places s') \<and> set (places s') \<subseteq> {..< fresh_id s'}"
    by (rule moved_ok [OF ok]) (simp add: s')
  then show ?thesis using ok rl None by (simp add: cdev_ok_def s' current_def)
qed (use n ok in \<open>auto simp: next_message_def\<close>)

lemma mset_butlast_last: "l \<noteq> [] \<Longrightarrow> mset l = mset (butlast l) + {# last l #}"
  by (cases l rule: rev_cases) auto

lemma finish_message_ok:
  assumes ok: "cdev_ok s" and m: "mybuf s = Some m"
  shows "cdev_ok (finish_message m s)"
proof -
  let ?l = "m # seeklist s" and ?s = "finish_message m s"
  have split: "mset ?l = mset (butlast ?l) + {# last ?l #}"
    by (rule mset_butlast_last) simp
  have "mset (map m_id ?l) = mset (map m_id (butlast ?l)) + {# m_id (last ?l) #}"
    using arg_cong [OF split, of "image_mset m_id"] by (simp add: mset_map)
  then have "mset (places ?s) = mset (places s)"
    using m by (simp add: finish_message_def Let_def places_def current_def)
  then have "distinct (places ?s) \<and> set (places ?s) \<subseteq> {..< fresh_id ?s}"
    by (rule moved_ok [OF ok]) (simp add: finish_message_def Let_def)
  moreover have "list_all message_ok (current ?s @ readlist ?s @ seeklist ?s)"
    using ok m by (auto simp: cdev_ok_def finish_message_def Let_def current_def list_all_iff dest: in_set_butlastD)
  moreover have "seekbufs ?s = int (length (seeklist ?s))" "length (seeklist ?s) \<le> 17"
    using ok by (auto simp: cdev_ok_def finish_message_def Let_def)
  moreover have "mybuf ?s = None" "p_refs ?s = int (length (works ?s)) + (if p_open ?s then 1 else 0)"
    using ok by (auto simp: cdev_ok_def finish_message_def Let_def)
  ultimately show ?thesis by (simp add: cdev_ok_def)
qed

lemma cdev_ok_advance: "cdev_ok s \<Longrightarrow> mybuf s = Some m \<Longrightarrow> g \<le> p_size s \<Longrightarrow> cdev_ok (s\<lparr>p_offset := g\<rparr>)"
  by (auto simp: cdev_ok_def places_def current_def)

lemma read_round_ok:
  assumes ok: "cdev_ok s" and r: "read_round nonblock n want s = Val (e, s')"
  shows "cdev_ok s'"
proof (cases "next_message s")
  case None
  then show ?thesis using ok r by (auto simp: read_round_def)
next
  case (Some ms)
  obtain m s1 where ms: "ms = (m, s1)" by (cases ms)
  have s1: "cdev_ok s1" "mybuf s1 = Some m" using next_message_ok [OF ok] Some ms by auto
  have le: "p_offset s1 \<le> p_size s1" using s1 by (auto simp: cdev_ok_def)
  have t: "cdev_ok (after_copy m partly (min want (p_size s1 - p_offset s1) - i) s1)" for partly i
    using cdev_ok_advance [OF s1, of "p_offset s1 + (min want (p_size s1 - p_offset s1) - i)"] finish_message_ok [OF s1] le
    by (simp add: after_copy_def)
  have t0: "cdev_ok (after_copy m partly 0 s1)" for partly
    using finish_message_ok [OF s1] s1(1) by (simp add: after_copy_def)
  show ?thesis
    using r by (auto simp: read_round_def Let_def Some ms cdev_ok_pos t t0 simp del: min.commute split: if_splits)
qed

lemma read_loop_ok:
  "cdev_ok s \<Longrightarrow> read_loop k nonblock uncopied want s = Some (Val (e, s')) \<Longrightarrow> cdev_ok s'"
proof (induction k nonblock uncopied want s rule: read_loop.induct)
  case (2 k nonblock uncopied want s)
  then show ?case by (auto split: cres.splits option.splits dest: read_round_ok)
qed simp

lemma run_command_ok:
  assumes ok: "cdev_ok s" and r: "run_command E m s = Val s'"
    and new: "m_id m < fresh_id s" "m_id m \<notin> set (places s)"
  shows "cdev_ok s'"
proof -
  obtain ret t n out where d: "do_operation (E (ran s)) (m_cmd m) reply_room = Val (ret, t, n, out)"
    and s': "s' = queue_to_read (m\<lparr>m_reply := t @ replicate (reply_room - length t) NUL, m_size := n\<rparr>) (s\<lparr>ran := ran s @ [m_cmd m]\<rparr>)"
    using r by (auto simp: run_command_def vfi_real_write_def cres_bind_eq_Val)
  have "length t \<le> reply_room - 1"
    using d by (auto simp: do_operation_def snprintf_def cres_bind_eq_Val Let_def split: option.splits)
  then show ?thesis
    using ok new unfolding s'
    by (auto simp: queue_to_read_def cdev_ok_def places_def current_def message_ok_def)
qed

lemma write_line_ok:
  assumes ok: "cdev_ok s" and w: "write_line E A nonblock k t s = Val (r, s')"
  shows "cdev_ok s'"
proof -
  let ?s = "s\<lparr>fresh_id := Suc (fresh_id s)\<rparr>"
  have new: "fresh_id s \<notin> set (places s)" using ok by (auto simp: cdev_ok_def)
  have s1: "cdev_ok ?s" using ok by (auto simp: cdev_ok_def places_def current_def less_Suc_eq)
  have queued: "cdev_ok (s\<lparr>fresh_id := Suc (fresh_id s), works := works s @ [m], p_refs := p_refs s + 1\<rparr>)"
    if "m_id m = fresh_id s" for m
    using s1 new that by (simp add: cdev_ok_def places_def current_def) 
  have run: "cdev_ok u" if "run_command E m (s\<lparr>fresh_id := Suc (fresh_id s), f_pos := a\<rparr>) = Val u" "m_id m = fresh_id s" for m a u
    using s1 new that(2) by (intro run_command_ok [OF _ that(1)]) (auto simp: cdev_ok_def places_def current_def)
  show ?thesis
    using w s1 queued run by (auto simp: write_line_def Let_def cres_bind_eq_Val split: if_splits)
qed

lemma write_loop_ok:
  "cdev_ok s \<Longrightarrow> write_loop E A nonblock k t s = Val (r, s') \<Longrightarrow> cdev_ok s'"
proof (induction E A nonblock k t s rule: write_loop.induct)
  case (1 E A nonblock k t s)
  then show ?case
    by (subst (asm) (2) write_loop.simps) (auto split: cres.splits option.splits if_splits dest: write_line_ok)
qed

lemma vfi_write_ok: "cdev_ok s \<Longrightarrow> vfi_write E A mem sig nonblock t s = Val (r, s') \<Longrightarrow> cdev_ok s'"
  by (auto simp: vfi_write_def cres_bind_eq_Val cdev_ok_pos split: option.splits if_splits dest: write_loop_ok)

lemma run_command_refs:
  "run_command E m s = Val s1 \<Longrightarrow> p_refs s1 = p_refs s \<and> run_command E m (s\<lparr>p_refs := r\<rparr>) = Val (s1\<lparr>p_refs := r\<rparr>)"
  by (cases "vfi_real_write (E (ran s)) m") (auto simp: run_command_def queue_to_read_def split: prod.splits)

lemma def_write_ok:
  assumes ok: "cdev_ok s" and i: "i < length (works s)" and w: "def_write E i s = Val s'"
  shows "cdev_ok s'"
proof -
  define m a b where "m = works s ! i" and "a = take i (works s)" and "b = drop (Suc i) (works s)"
  let ?u = "s\<lparr>works := a @ b, p_refs := p_refs s - 1\<rparr>"
  have split: "works s = a @ m # b" unfolding m_def a_def b_def by (rule id_take_nth_drop [OF i])
  have "mset (places s) = mset (m_id m # places ?u)"
    using split by (simp add: places_def current_def)
  note eq = mset_eq_imp_distinct_iff [OF this] mset_eq_setD [OF this]
  have "distinct (places s)" "set (places s) \<subseteq> {..< fresh_id s}" using ok by (simp_all add: cdev_ok_def)
  then have p: "distinct (m_id m # places ?u)" "set (m_id m # places ?u) \<subseteq> {..< fresh_id s}"
    unfolding eq by simp_all
  have len: "length (works s) = Suc (length (works ?u))" using split by simp
  have "distinct (places ?u) \<and> set (places ?u) \<subseteq> {..< fresh_id ?u}" using p by simp
  then have u: "cdev_ok ?u" using ok len by (simp add: cdev_ok_def current_def)
  obtain s1 where s1: "run_command E (works s ! i) (s\<lparr>works := take i (works s) @ drop (Suc i) (works s)\<rparr>) = Val s1"
    and s': "s' = s1\<lparr>p_refs := p_refs s1 - 1\<rparr>" using w by (auto simp: def_write_def cres_bind_eq_Val)
  have "run_command E m ?u = Val s'"
    using run_command_refs [OF s1, of "p_refs s - 1"] s' by (simp add: a_def b_def m_def)
  then show ?thesis using run_command_ok [OF u] p by simp
qed

lemma vfi_release_ok: "cdev_ok s \<Longrightarrow> p_open s \<Longrightarrow> cdev_ok (snd (vfi_release sig s))"
  by (auto simp: vfi_release_def cdev_ok_def places_def current_def)

lemma cdev_do_ok: "cdev_ok s \<Longrightarrow> cdev_do E c s = Val (bs, s') \<Longrightarrow> cdev_ok s'"
  by (cases c) (auto simp: cres_bind_eq_Val vfi_read_def
      split: if_splits option.splits dest: vfi_write_ok def_write_ok read_loop_ok intro: cdev_ok_llseek vfi_release_ok)

lemma cdev_run_ok: "cdev_ok s \<Longrightarrow> cdev_run E cs s = Val (bs, s') \<Longrightarrow> cdev_ok s'"
  by (induction cs arbitrary: s bs) (auto simp: cres_bind_eq_Val dest: cdev_do_ok)


section \<open>What is read\<close>

text \<open>The reply to a command, and the replies to commands that are run one after the other.\<close>

definition reply_of :: "env \<Rightarrow> string \<Rightarrow> string" where
  "reply_of E c =
     (case do_operation E c reply_room of
        Undef \<Rightarrow> []
      | Val (ret, t, n, out) \<Rightarrow> take n (t @ replicate (reply_room - length t) NUL))"

fun replies :: "(string list \<Rightarrow> env) \<Rightarrow> string list \<Rightarrow> string list \<Rightarrow> string list" where
  "replies E pre [] = []"
| "replies E pre (c # cs) = reply_of (E pre) c # replies E (pre @ [c]) cs"

definition message_text :: "mybuffers \<Rightarrow> string" where
  "message_text m = take (m_size m) (m_reply m)"

text \<open>What is still to be read.\<close>

definition unread :: "privdata \<Rightarrow> string" where
  "unread s = (case mybuf s of None \<Rightarrow> [] | Some m \<Rightarrow> drop (p_offset s) (take (p_size s) (m_reply m)))
     @ concat (map message_text (readlist s))"

lemma replies_snoc: "replies E pre (cs @ [c]) = replies E pre cs @ [reply_of (E (pre @ cs)) c]"
  by (induction cs arbitrary: pre) simp_all

lemma unread_pos: "unread (s\<lparr>p_pos := a, f_pos := b\<rparr>) = unread s" "unread (s\<lparr>f_pos := b\<rparr>) = unread s"
  "unread (s\<lparr>fresh_id := i\<rparr>) = unread s" "unread (s\<lparr>works := w\<rparr>) = unread s" "unread (s\<lparr>p_refs := r\<rparr>) = unread s"
  "unread (s\<lparr>ran := cs\<rparr>) = unread s" "unread (s\<lparr>p_pos := a\<rparr>) = unread s"
  by (simp_all add: unread_def split: option.splits)

lemma unread_next: "next_message s = Some (m, s') \<Longrightarrow> unread s' = unread s \<and> mybuf s' = Some m \<and> ran s' = ran s \<and> p_open s' = p_open s"
  by (auto simp: next_message_def unread_def message_text_def split: option.splits list.splits)

lemma unread_finish:
  "unread (finish_message m s) = concat (map message_text (readlist s))" "ran (finish_message m s) = ran s"
  "p_open (finish_message m s) = p_open s"
  by (simp_all add: unread_def finish_message_def Let_def)

lemma taken_in_part:
  "off + g \<le> n \<Longrightarrow> take g (drop off r) @ drop (off + g) (take n r) = drop off (take n r)"
  using take_add [of g "n - (off + g)" "drop off r"] by (simp add: drop_take add.commute)

definition bytes_of :: "read_end \<Rightarrow> string" where
  "bytes_of e = (case e of Returned n bs \<Rightarrow> bs | Asleep \<Rightarrow> [])"

lemma unread_round:
  assumes ok: "cdev_ok s" and r: "read_round nonblock n want s = Val (e, s')"
  shows "unread s = (case e of None \<Rightarrow> [] | Some e \<Rightarrow> bytes_of e) @ unread s' \<and> ran s' = ran s \<and> p_open s' = p_open s"
proof (cases "next_message s")
  case None
  then show ?thesis using r by (auto simp: read_round_def bytes_of_def)
next
  case (Some ms)
  obtain m s1 where ms: "ms = (m, s1)" by (cases ms)
  have s1: "cdev_ok s1" "mybuf s1 = Some m" using next_message_ok [OF ok] Some ms by auto
  have le: "p_offset s1 \<le> p_size s1" using s1 by (auto simp: cdev_ok_def)
  let ?left = "p_size s1 - p_offset s1"
  let ?copied = "min want ?left"
  let ?got = "?copied - min n ?copied"
  let ?t = "after_copy m (min n ?copied \<noteq> 0 \<or> want < ?left) ?got s1"
  have whole: "unread s1 = take ?got (drop (p_offset s1) (m_reply m)) @ unread ?t"
  proof (cases "min n ?copied \<noteq> 0 \<or> want < ?left")
    case True
    have "p_offset s1 + ?got \<le> p_size s1" using le by simp
    from taken_in_part [OF this, of "m_reply m"] True s1 show ?thesis
      by (simp add: after_copy_def unread_def)
  next
    case False
    then have got: "?got = ?left" by auto
    from False have t: "?t = finish_message m s1" by (simp only: after_copy_def if_False)
    show ?thesis unfolding t unfolding got using s1 by (simp add: unread_finish unread_def [of s1] drop_take)
  qed
  have "unread s = unread s1" "ran s1 = ran s" "p_open s1 = p_open s" using unread_next [of s m s1] Some ms by simp_all
  moreover have "ran ?t = ran s1" "p_open ?t = p_open s1" by (simp_all add: after_copy_def unread_finish)
  moreover have "(e = None \<and> ?got = 0 \<and> s' = ?t) \<or> (\<exists>a b. e = Some (Returned a (take ?got (drop (p_offset s1) (m_reply m)))) \<and> s' = ?t\<lparr>p_pos := b, f_pos := b\<rparr>)"
    using r unfolding read_round_def Some ms option.case prod.case Let_def
    by (simp only: cres.inject cres.distinct prod.inject split: if_split_asm) blast+
  ultimately show ?thesis using whole by (elim disjE exE conjE) (simp_all add: unread_pos bytes_of_def)
qed

lemma unread_read:
  "cdev_ok s \<Longrightarrow> read_loop k nonblock uncopied want s = Some (Val (e, s'))
     \<Longrightarrow> unread s = bytes_of e @ unread s' \<and> ran s' = ran s \<and> p_open s' = p_open s"
proof (induction k nonblock uncopied want s rule: read_loop.induct)
  case (2 k nonblock uncopied want s)
  show ?case
  proof (cases "read_round nonblock (uncopied k) want s")
    case (Val r)
    obtain o1 s1 where r: "r = (o1, s1)" by (cases r)
    note round = unread_round [OF 2(2) Val [unfolded r]] and ok = read_round_ok [OF 2(2) Val [unfolded r]]
    show ?thesis
    proof (cases o1)
      case None
      then have "read_loop k nonblock uncopied want s1 = Some (Val (e, s'))" using 2(3) Val r by simp
      from 2(1) [OF Val r [symmetric] None ok this] round None show ?thesis by simp
    next
      case (Some e1)
      then show ?thesis using 2(3) Val r round by simp
    qed
  qed (use 2(3) in simp)
qed simp

lemma ran_command:
  assumes "run_command E m s = Val s'" and "p_open s" and "cdev_ok s"
  shows "unread s' = unread s @ reply_of (E (ran s)) (m_cmd m) \<and> ran s' = ran s @ [m_cmd m] \<and> p_open s'"
  using assms by (auto simp: run_command_def vfi_real_write_def queue_to_read_def cres_bind_eq_Val reply_of_def unread_def
      message_text_def split: option.splits)

text \<open>The bytes read so far and those still to be read are the replies.\<close>

definition faithful :: "(string list \<Rightarrow> env) \<Rightarrow> string \<Rightarrow> privdata \<Rightarrow> bool" where
  "faithful E bs s \<longleftrightarrow> p_open s \<and> cdev_ok s \<and> concat (replies E [] (ran s)) = bs @ unread s"

lemma faithful_run:
  assumes "faithful E bs s" and "run_command E m s = Val s'" and "cdev_ok s'"
  shows "faithful E bs s'"
  using assms ran_command [OF assms(2)] by (auto simp: faithful_def replies_snoc)

lemma faithful_line:
  assumes f: "faithful E bs s" and w: "write_line E A nonblock k t s = Val (r, s')"
  shows "faithful E bs s'"
proof -
  have ok': "cdev_ok s'" using write_line_ok [OF _ w] f by (simp add: faithful_def)
  show ?thesis
    using w f ok' by (auto simp: write_line_def Let_def cres_bind_eq_Val faithful_def run_command_def
        vfi_real_write_def queue_to_read_def reply_of_def replies_snoc unread_def message_text_def
        split: if_splits option.splits)
qed

lemma faithful_loop: "faithful E bs s \<Longrightarrow> write_loop E A nonblock k t s = Val (r, s') \<Longrightarrow> faithful E bs s'"
proof (induction E A nonblock k t s rule: write_loop.induct)
  case (1 E A nonblock k t s)
  then show ?case
    by (subst (asm) (2) write_loop.simps) (auto split: cres.splits option.splits if_splits dest: faithful_line)
qed

lemma faithful_pos: "faithful E bs (s\<lparr>p_pos := a, f_pos := b\<rparr>) = faithful E bs s"
  by (simp add: faithful_def cdev_ok_pos unread_pos)

lemma faithful_write: "faithful E bs s \<Longrightarrow> vfi_write E A mem sig nonblock t s = Val (r, s') \<Longrightarrow> faithful E bs s'"
  by (auto simp: vfi_write_def cres_bind_eq_Val faithful_pos split: option.splits if_splits dest: faithful_loop)

lemma faithful_work:
  assumes f: "faithful E bs s" and i: "i < length (works s)" and w: "def_write E i s = Val s'"
  shows "faithful E bs s'"
proof -
  have "cdev_ok s'" using def_write_ok [OF _ i w] f by (simp add: faithful_def)
  then show ?thesis
    using w f by (auto simp: def_write_def cres_bind_eq_Val faithful_def run_command_def vfi_real_write_def
        queue_to_read_def reply_of_def replies_snoc unread_def message_text_def split: if_splits option.splits)
qed

lemma faithful_do:
  assumes f: "faithful E bs s" and c: "only_reads_and_writes c" and d: "cdev_do E c s = Val (bs', s')"
  shows "faithful E (bs @ bs') s'"
proof (cases c)
  case (Read fuel sig nonblock uncopied want)
  then obtain e where r: "vfi_read fuel sig nonblock uncopied want s = Some (Val (e, s'))" and bs': "bs' = bytes_of e"
    using d by (auto simp: cres_bind_eq_Val bytes_of_def split: option.splits)
  show ?thesis
  proof (cases sig)
    case False
    then show ?thesis
      using r f unread_read [of s fuel nonblock uncopied want e s'] read_loop_ok [of s fuel nonblock uncopied want e s'] bs'
      by (simp add: vfi_read_def faithful_def)
  qed (use r f bs' in \<open>auto simp: vfi_read_def bytes_of_def\<close>)
qed (use f c d in \<open>auto simp: cres_bind_eq_Val split: if_splits dest: faithful_write faithful_work\<close>)

lemma faithful_runs:
  "faithful E bs s \<Longrightarrow> list_all only_reads_and_writes cs \<Longrightarrow> cdev_run E cs s = Val (bs', s') \<Longrightarrow> faithful E (bs @ bs') s'"
proof (induction cs arbitrary: s bs bs')
  case (Cons c cs)
  then obtain b1 s1 b2 where "cdev_do E c s = Val (b1, s1)" "cdev_run E cs s1 = Val (b2, s')" "bs' = b1 @ b2"
    by (auto simp: cres_bind_eq_Val)
  with Cons.IH [of "bs @ b1" s1 b2] Cons.prems faithful_do [of E bs s c b1 s1] show ?case by simp
qed simp


section \<open>Reads that return and reads that do not\<close>

lemma next_message_shrinks:
  "next_message s = Some (m, s1) \<Longrightarrow> length (readlist s1) + (if mybuf s = None then 1 else 0) = length (readlist s)"
  by (auto simp: next_message_def split: option.splits list.splits)

lemma round_shrinks:
  assumes "0 < want" and "read_round nonblock 0 want s = Val (None, s')"
  shows "mybuf s' = None \<and> length (readlist s') + (if mybuf s = None then 1 else 0) = length (readlist s)"
proof (cases "next_message s")
  case None
  then show ?thesis using assms by (auto simp: read_round_def)
next
  case (Some ms)
  then obtain m s1 where ms: "next_message s = Some (m, s1)" by (cases ms) auto
  show ?thesis
    using assms next_message_shrinks [OF ms]
    by (auto simp: read_round_def ms Let_def after_copy_def finish_message_def split: if_splits)
qed

lemma read_loop_ends:
  assumes "0 < want" and "\<And>k. uncopied k = 0" and "length (readlist s) + (if mybuf s = None then 0 else 1) < k"
  shows "read_loop k nonblock uncopied want s \<noteq> None"
  using assms(3)
proof (induction k arbitrary: s)
  case (Suc k)
  show ?case
  proof (cases "read_round nonblock (uncopied k) want s")
    case (Val r)
    obtain o1 s1 where r: "r = (o1, s1)" by (cases r)
    show ?thesis
    proof (cases o1)
      case None
      have "mybuf s1 = None \<and> length (readlist s1) + (if mybuf s = None then 1 else 0) = length (readlist s)"
        by (rule round_shrinks [OF assms(1), of nonblock]) (use Val r None assms(2) in simp)
      then show ?thesis using Suc Val r None by (auto split: if_splits)
    qed (use Val r in simp)
  qed simp
qed simp


section \<open>Seeking back\<close>

text \<open>Going back after a message has been read to its end makes it the next to be read again: the next
  read returns the same bytes, and the messages behind it are where they were.\<close>

theorem seek_back_rereads:
  assumes ok: "cdev_ok s" and idle: "mybuf s = None" and m: "readlist s = m # ms"
    and size: "0 < m_size m" "m_size m \<le> reply_room" "m_size m \<le> want" and off: "off < 0"
  shows "\<exists>s1 s3. vfi_read 1 False nonblock (\<lambda>_. 0) want s = Some (Val (Returned (int (m_size m)) (message_text m), s1))
    \<and> vfi_read 1 False nonblock (\<lambda>_. 0) want (snd (vfi_llseek False off 1 s1))
        = Some (Val (Returned (int (m_size m)) (message_text m), s3))
    \<and> readlist s1 = ms \<and> readlist s3 = ms \<and> mybuf s3 = None"
proof -
  have room: "length (m_reply m) = reply_room" using ok m by (simp add: cdev_ok_def message_ok_def)
  have one: "vfi_read 1 False nonblock (\<lambda>_. 0) want t = Some (Val (Returned (int (m_size m)) (message_text m),
      (finish_message m (t\<lparr>mybuf := Some m, readlist := ms, p_size := m_size m, p_offset := 0\<rparr>))
        \<lparr>p_pos := f_pos t + int (m_size m), f_pos := f_pos t + int (m_size m)\<rparr>))"
    if "mybuf t = None" "readlist t = m # ms" for t
    using that room size
    by (simp add: vfi_read_def read_round_def next_message_def after_copy_def message_text_def min_absorb2 Let_def)
  let ?u = "s\<lparr>mybuf := Some m, readlist := ms, p_size := m_size m, p_offset := 0\<rparr>"
  let ?s1 = "(finish_message m ?u)\<lparr>p_pos := f_pos s + int (m_size m), f_pos := f_pos s + int (m_size m)\<rparr>"
  have hd: "seeklist (finish_message m ?u) \<noteq> [] \<and> hd (seeklist (finish_message m ?u)) = m"
    using ok by (auto simp: finish_message_def Let_def cdev_ok_def)
  have s1: "readlist ?s1 = ms" "mybuf ?s1 = None" "seeklist ?s1 \<noteq> [] \<and> hd (seeklist ?s1) = m"
    using hd by (simp_all add: finish_message_def Let_def)
  let ?s2 = "snd (vfi_llseek False off 1 ?s1)"
  have s2: "mybuf ?s2 = None" "readlist ?s2 = m # ms"
    using s1 off by (simp_all add: vfi_llseek_def)
  have rest: "readlist (finish_message m t) = readlist t \<and> mybuf (finish_message m t) = None" for t
    by (simp add: finish_message_def Let_def)
  show ?thesis
    by (intro exI conjI, rule one [OF idle m], rule one [OF s2]) (simp_all add: rest)
qed

section \<open>Several lines at once\<close>

fun write_each :: "(string list \<Rightarrow> env) \<Rightarrow> wanswers \<Rightarrow> string list \<Rightarrow> privdata \<Rightarrow> privdata cres" where
  "write_each E A [] s = Val s"
| "write_each E A (l # ls) s =
     cres_bind (vfi_write E A (Some False) False False (l @ newline) s) (\<lambda>(r, s). write_each E A ls s)"

definition willing :: wanswers where
  "willing = \<lparr>a_mybuf = (\<lambda>_. True), a_rest = (\<lambda>_. True), a_work = (\<lambda>_. True), a_sig = (\<lambda>_. False)\<rparr>"

definition one_line :: "string \<Rightarrow> bool" where
  "one_line l \<longleftrightarrow> CHR 0x0A \<notin> set l \<and> NUL \<notin> set l"

lemma line_split:
  assumes "one_line l"
  shows "line_of (l @ newline @ t) = l" and "line_len (l @ newline @ t) = Suc (length l)"
proof -
  have "takeWhile (\<lambda>c. c \<noteq> CHR 0x0A \<and> c \<noteq> NUL) (l @ newline @ t) = l @ takeWhile (\<lambda>c. c \<noteq> CHR 0x0A \<and> c \<noteq> NUL) (newline @ t)"
    using assms by (intro takeWhile_append2) (auto simp: one_line_def)
  then show l: "line_of (l @ newline @ t) = l" by (simp add: line_of_def)
  show "line_len (l @ newline @ t) = Suc (length l)" by (simp add: line_len_def l [simplified])
qed

lemma write_line_willing: "write_line E willing False k t s = write_line E willing False 0 t s"
  by (simp add: write_line_def willing_def)

lemma write_line_same:
  "one_line l \<Longrightarrow> write_line E willing False 0 (l @ newline @ t) s = write_line E willing False 0 (l @ newline) s"
  using line_split [of l t] line_split [of l "[]"] by (simp add: write_line_def Let_def)

lemma write_line_result: "write_line E willing False 0 t s = Val (r, s') \<Longrightarrow> r = None"
  by (auto simp: write_line_def willing_def Let_def cres_bind_eq_Val)

lemma write_loop_lines:
  "ls \<noteq> [] \<Longrightarrow> list_all one_line ls \<Longrightarrow>
   write_loop E willing False k (concat (map (\<lambda>l. l @ newline) ls)) s
     = cres_bind (write_each E willing ls s) (\<lambda>s. Val (None, s))"
proof (induction ls arbitrary: k s)
  case (Cons l ls)
  let ?t = "concat (map (\<lambda>l. l @ newline) ls)"
  have l: "one_line l" using Cons by simp
  have single: "write_loop E willing False 0 (l @ newline) s = write_line E willing False 0 (l @ newline) s"
    using line_split(2) [OF l, of "[]"] write_line_result [of E "l @ newline" s]
    by (subst write_loop.simps) (auto split: cres.splits option.splits)
  show ?case
  proof (cases "write_line E willing False 0 (l @ newline) s")
    case (Val r)
    then obtain s1 where r: "r = (None, s1)" using write_line_result by (cases r) auto
    have e: "ls = [] \<longleftrightarrow> ?t = []" by (cases ls) simp_all
    show ?thesis
    proof (cases ls)
      case Nil
      then show ?thesis using Val r single by (subst write_loop.simps)
        (use line_split(2) [OF l, of "[]"] write_line_willing [of E k] in \<open>simp add: vfi_write_def\<close>)
    next
      case (Cons l' ls')
      have "write_loop E willing False k (l @ newline @ ?t) s = write_loop E willing False (Suc k) ?t s1"
        using line_split(2) [OF l, of ?t] write_line_willing [of E k] write_line_same [OF l, of E ?t s] Val r Cons
        by (subst write_loop.simps) (simp add: willing_def)
      then show ?thesis using Cons.IH [of "Suc k" s1] Cons.prems Cons Val r single by (simp add: vfi_write_def)
    qed
  next
    case Undef
    then show ?thesis using write_line_willing [of E k] write_line_same [OF l, of E ?t s] single
      by (subst write_loop.simps) (simp add: vfi_write_def)
  qed
qed simp


section \<open>Asynchronous writes\<close>

text \<open>
  \<open>vfi_aio_write\<close> copies its commands and pins the pages of the user's buffer for the reply, whose address it
  takes from \<open>ki_pos\<close>; \<open>aio_def_write\<close> runs the commands later. Addresses are 32 bits wide.
\<close>

definition PAGE_MASK :: u32 where "PAGE_MASK = NOT 4095"
definition PAGE_ALIGN :: "u32 \<Rightarrow> u32" where "PAGE_ALIGN a = (a + 4095) AND PAGE_MASK"

definition pages_of :: "u32 \<Rightarrow> nat \<Rightarrow> nat" where
  "pages_of pos n = unat (drop_bit 12 (PAGE_ALIGN (pos + of_nat n) - (pos AND PAGE_MASK)))"

record aio_work =
  w_iovs :: "string list"
  w_pos :: u32
  w_uctx :: bool

text \<open>
  What the kernel answers: memory for the work item, the vectors, each vector and the list of pages, how many
  bytes of each vector fail to be copied, and how many pages are pinned.
\<close>

record aanswers =
  b_work :: bool
  b_iovs :: bool
  b_base :: "nat \<Rightarrow> bool"
  b_fault :: "nat \<Rightarrow> nat"
  b_uctx :: bool
  b_pinned :: nat

text \<open>The number of bytes that the first vector to fail lacks, or \<open>None\<close> when all have been copied.\<close>

fun copy_iovs :: "aanswers \<Rightarrow> nat \<Rightarrow> string list \<Rightarrow> nat option cres" where
  "copy_iovs A i [] = Val None"
| "copy_iovs A i (t # ts) =
     (if \<not> b_base A i then Undef
      else if min (b_fault A i) (length t) \<noteq> 0 then Val (Some (min (b_fault A i) (length t)))
      else copy_iovs A (Suc i) ts)"

definition EIOCBQUEUED :: errno where "EIOCBQUEUED = 529"

definition vfi_aio_write ::
  "aanswers \<Rightarrow> bool \<Rightarrow> u32 \<Rightarrow> string list \<Rightarrow> privdata \<Rightarrow> (int \<times> aio_work option \<times> privdata) cres" where
  "vfi_aio_write A sync pos iovs s =
     (if sync then Val (- EIO, None, s)
      else if \<not> b_work A \<or> (iovs \<noteq> [] \<and> \<not> b_iovs A) then Undef
      else cres_bind (copy_iovs A 0 iovs) (\<lambda>r.
        case r of
          Some n \<Rightarrow> Val (int n, None, s)
        | None \<Rightarrow>
            if pos \<noteq> 0 \<and> b_pinned A \<noteq> pages_of pos 256 then Undef
            else Val (- EIOCBQUEUED, Some \<lparr>w_iovs = iovs, w_pos = pos, w_uctx = pos \<noteq> 0 \<and> b_uctx A\<rparr>,
              s\<lparr>p_refs := p_refs s + 1\<rparr>)))"

text \<open>
  The loop over the commands. The reply and its \<open>NUL\<close> are copied to the address in \<open>ki_pos\<close> when one page holds
  them; else the length of the first part is computed from the wrong pointer and exceeds a page. The list of
  pages is freed after the first reply. The result is the number of bytes of the commands and the texts that
  have been copied to the user.
\<close>

fun aio_loop :: "(string list \<Rightarrow> env) \<Rightarrow> (nat \<Rightarrow> bool) \<Rightarrow> u32 \<Rightarrow> nat \<Rightarrow> bool \<Rightarrow> string list \<Rightarrow> privdata
    \<Rightarrow> (nat \<times> (u32 \<times> string) list \<times> privdata) cres" where
  "aio_loop E mem pos i uctx [] s = Val (0, [], s)"
| "aio_loop E mem pos i uctx (t # ts) s =
     (if \<not> mem i then aio_loop E mem pos (Suc i) uctx ts s
      else
        let m = \<lparr>m_id = fresh_id s, m_cmd = takeWhile (\<lambda>c. c \<noteq> NUL) t, m_reply = replicate reply_room NUL, m_size = 0\<rparr>
        in cres_bind (vfi_real_write (E (ran s)) m) (\<lambda>(n, m).
             let s1 = s\<lparr>ran := ran s @ [m_cmd m]\<rparr>; text1 = takeWhile (\<lambda>c. c \<noteq> NUL) (m_reply m)
             in if pos \<noteq> 0 \<and> (\<not> uctx \<or> pages_of pos (length text1 + 1) \<noteq> 1) then Undef
                else cres_bind (aio_loop E mem pos (Suc i) False ts s1) (\<lambda>(c, out, s).
                  Val (length t + c, (if pos \<noteq> 0 then [(pos, text1)] else []) @ out, s))))"

definition aio_def_write :: "(string list \<Rightarrow> env) \<Rightarrow> (nat \<Rightarrow> bool) \<Rightarrow> aio_work \<Rightarrow> privdata
    \<Rightarrow> (nat \<times> (u32 \<times> string) list \<times> privdata) cres" where
  "aio_def_write E mem w s =
     cres_bind (aio_loop E mem (w_pos w) 0 (w_uctx w) (w_iovs w) s) (\<lambda>(c, out, s).
       Val (c, out, s\<lparr>p_refs := p_refs s - 1\<rparr>))"

text \<open>The text of a reply as C sees it, up to its first \<open>NUL\<close>.\<close>

definition reply_string :: "env \<Rightarrow> string \<Rightarrow> string cres" where
  "reply_string E c = cres_bind (do_operation E c reply_room) (\<lambda>(ret, t, n, out). Val (takeWhile (\<lambda>c. c \<noteq> NUL) (t @ replicate (reply_room - length t) NUL)))"

lemma cres_bind_Undef_pair: "cres_bind v (\<lambda>(a, b). Undef) = Undef"
  by (cases v) (simp_all split: prod.splits)

text \<open>An asynchronous write with an address for the reply works for one command only, whose reply lies in
  one page: the reply is then at that address, the length of the command is reported, and the reference to the
  file given back. With the reply across a page boundary, or with a second command, it writes to memory it does not own.\<close>

theorem async_write_of_one_command:
  assumes q: "vfi_aio_write A False pos (t # ts) s = Val (r, Some w, s1)" and pos: "pos \<noteq> 0"
    and run: "reply_string (E (ran s)) (takeWhile (\<lambda>c. c \<noteq> NUL) t) = Val rep" and uctx: "b_uctx A"
  shows "r = - EIOCBQUEUED \<and> aio_def_write E (\<lambda>_. True) w s1 =
    (if ts = [] \<and> pages_of pos (length rep + 1) = 1
     then Val (length t, [(pos, rep)], s\<lparr>ran := ran s @ [takeWhile (\<lambda>c. c \<noteq> NUL) t]\<rparr>) else Undef)"
proof -
  have w: "w = \<lparr>w_iovs = t # ts, w_pos = pos, w_uctx = True\<rparr>" "s1 = s\<lparr>p_refs := p_refs s + 1\<rparr>" "r = - EIOCBQUEUED"
    using q pos uctx by (auto simp: vfi_aio_write_def cres_bind_eq_Val split: if_splits option.splits)
  obtain ret u n out where d: "do_operation (E (ran s)) (takeWhile (\<lambda>c. c \<noteq> NUL) t) reply_room = Val (ret, u, n, out)"
    and rep: "rep = takeWhile (\<lambda>c. c \<noteq> NUL) (u @ replicate (reply_room - length u) NUL)"
    using run by (auto simp: reply_string_def cres_bind_eq_Val)
  show ?thesis
  proof (cases ts)
    case Nil
    then show ?thesis using pos by (simp add: w aio_def_write_def vfi_real_write_def d rep [symmetric] Let_def)
  next
    case (Cons t' ts')
    then show ?thesis using pos by (simp add: cres_bind_Undef_pair w aio_def_write_def vfi_real_write_def d rep [symmetric] Let_def)
  qed
qed

section \<open>Examples\<close>

definition new_file :: privdata where "new_file = the (snd (vfi_open True))"

lemma new_file: "vfi_open True = (0, Some new_file)"
  by (simp add: new_file_def vfi_open_def)

definition demo_calls :: "cdev_call list" where
  "demo_calls = [Write willing (Some False) False False ''smb_munge://b.n'', Write willing (Some False) False True ''x'',
     Read 9 False True (\<lambda>_. 0) 5, Work 0]"

definition demo_cdev :: "string \<times> privdata" where
  "demo_cdev = (case cdev_run (\<lambda>_. demo_env) demo_calls new_file of Val r \<Rightarrow> r | Undef \<Rightarrow> ([], new_file))"

lemma demo_cdev_run: "cdev_run (\<lambda>_. demo_env) demo_calls new_file = Val (fst demo_cdev, snd demo_cdev)"
proof -
  have "(case cdev_run (\<lambda>_. demo_env) demo_calls new_file of Val r \<Rightarrow> True | Undef \<Rightarrow> False)" by code_simp
  then show ?thesis by (cases "cdev_run (\<lambda>_. demo_env) demo_calls new_file") (simp_all add: demo_cdev_def)
qed



definition demo_file :: privdata where
  "demo_file = new_file\<lparr>fresh_id := 2, readlist := [\<lparr>m_id = 0, m_cmd = ''a'', m_reply = ''ok'' @ replicate 1002 NUL, m_size = 2\<rparr>,
     \<lparr>m_id = 1, m_cmd = ''b'', m_reply = ''no'' @ replicate 1002 NUL, m_size = 2\<rparr>]\<rparr>"

theorem seek_back_rereads_witness:
  "\<exists>s1 s3. vfi_read 1 False True (\<lambda>_. 0) 80 demo_file = Some (Val (Returned 2 ''ok'', s1))
     \<and> vfi_read 1 False True (\<lambda>_. 0) 80 (snd (vfi_llseek False (- 2) 1 s1)) = Some (Val (Returned 2 ''ok'', s3))"
proof -
  have "cdev_ok demo_file"
    by (simp add: cdev_ok_def demo_file_def new_file_def vfi_open_def places_def current_def message_ok_def reply_room_def)
  from seek_back_rereads [OF this, of "hd (readlist demo_file)" "tl (readlist demo_file)" 80 "- 2" True]
  show ?thesis
    by (simp add: demo_file_def new_file_def vfi_open_def reply_room_def message_text_def) blast
qed


definition demo_aanswers :: aanswers where
  "demo_aanswers = \<lparr>b_work = True, b_iovs = True, b_base = (\<lambda>_. True), b_fault = (\<lambda>_. 0), b_uctx = True, b_pinned = 1\<rparr>"

theorem async_write_of_one_command_witness:
  "\<exists>w s1 rep. vfi_aio_write demo_aanswers False 0x1000 [''a'', ''b''] new_file = Val (- EIOCBQUEUED, Some w, s1)
     \<and> reply_string demo_env ''a'' = Val rep \<and> aio_def_write (\<lambda>_. demo_env) (\<lambda>_. True) w s1 = Undef"
proof -
  let ?q = "vfi_aio_write demo_aanswers False 0x1000 [''a'', ''b''] new_file"
  have pages: "pages_of 0x1000 256 = 1" by (simp add: pages_of_def PAGE_ALIGN_def PAGE_MASK_def)
  have q: "?q = Val (- EIOCBQUEUED, Some \<lparr>w_iovs = [''a'', ''b''], w_pos = 0x1000, w_uctx = True\<rparr>, new_file\<lparr>p_refs := p_refs new_file + 1\<rparr>)"
    by (simp add: vfi_aio_write_def demo_aanswers_def pages)
  have "(case reply_string demo_env ''a'' of Val r \<Rightarrow> True | Undef \<Rightarrow> False)" by code_simp
  then obtain rep where rep: "reply_string demo_env ''a'' = Val rep" by (cases "reply_string demo_env ''a''") auto
  have "aio_def_write (\<lambda>_. demo_env) (\<lambda>_. True) \<lparr>w_iovs = [''a'', ''b''], w_pos = 0x1000, w_uctx = True\<rparr> (new_file\<lparr>p_refs := p_refs new_file + 1\<rparr>) = Undef"
    using async_write_of_one_command [OF q, of "\<lambda>_. demo_env" rep] rep by (simp add: demo_aanswers_def)
  with q rep show ?thesis by blast
qed

end
