(* ===== verification/Vfi_Local.thy ===== *)
theory Vfi_Local
  imports Vfi_Fabric_Ops Vfi_Segment
begin

text \<open>
  The operations on objects of this node, \<open>vfi_local_ops.c\<close>, in the monad of \<open>Vfi_Fabric_Ops\<close>: the functions
  they call answer from an environment and are recorded in order. The two loops that cut a bind into segments
  are in \<open>Vfi_Segment\<close>, the votes in \<open>Vfi_Bind\<close>, finding and making mappings in \<open>Vfi_Mmap\<close>.
\<close>

text \<open>The lists of objects: the members of a kset, the lists of destinations and sources, addresses of members.\<close>

record lenv =
  members :: "fevent list \<Rightarrow> nat \<Rightarrow> nat list"
  list_in :: "fevent list \<Rightarrow> nat \<Rightarrow> nat option"
  slot :: "nat \<Rightarrow> string \<Rightarrow> nat"

text \<open>Calling an operation through a table, which must be there and have it.\<close>

definition op_call :: "fenv \<Rightarrow> ops_tab option \<Rightarrow> string \<Rightarrow> nat option list \<Rightarrow> arg \<Rightarrow> (errno \<times> nat option) fm" where
  "op_call E t nm hs a = (if table_for t nm = None then fail else fn E nm hs a)"

definition op_do :: "fenv \<Rightarrow> ops_tab option \<Rightarrow> string \<Rightarrow> nat option list \<Rightarrow> arg \<Rightarrow> unit fm" where
  "op_do E t nm hs a = void (op_call E t nm hs a)"

fun for_each :: "(nat \<Rightarrow> unit fm) \<Rightarrow> nat list \<Rightarrow> unit fm" where
  "for_each f [] = fret ()"
| "for_each f (x # xs) = fbind (f x) (\<lambda>_. for_each f xs)"

section \<open>Finding and releasing\<close>

definition vfi_local_location_find :: "fenv \<Rightarrow> nat option \<Rightarrow> vfi_desc_param \<Rightarrow> (errno \<times> nat option) fm" where
  "vfi_local_location_find E loc desc = fn E ''find_vfi_name'' [loc] (A_desc desc)"

definition vfi_local_location_put :: "fenv \<Rightarrow> nat option \<Rightarrow> vfi_desc_param \<Rightarrow> unit fm" where
  "vfi_local_location_put E loc desc =
     fbind (fn E ''find_vfi_name'' [loc] (A_desc desc)) (\<lambda>(ret, l).
       if ret \<noteq> 0 then fret ()
       else fbind (fdo E ''vfi_location_put'' [l] A_none) (\<lambda>_. fdo E ''vfi_location_put'' [l] A_none))"

definition vfi_local_location_lose :: "nat option \<Rightarrow> vfi_desc_param \<Rightarrow> unit fm" where
  "vfi_local_location_lose loc desc = fret ()"

text \<open>Looking for a name in a list of the location, which must exist; what \<open>absent\<close> says if there is none.\<close>

definition find_in :: "fenv \<Rightarrow> bool \<Rightarrow> errno \<Rightarrow> nat \<Rightarrow> string cres \<Rightarrow> (errno \<times> nat option) fm" where
  "find_in E there absent parent nm =
     (if \<not> there then fail
      else fbind (kfind E parent nm) (\<lambda>(_, h). fret (if h = None then absent else 0, h)))"

definition vfi_local_smb_find :: "fenv \<Rightarrow> nat \<Rightarrow> vfi_desc_param \<Rightarrow> (errno \<times> nat option) fm" where
  "vfi_local_smb_find E parent desc =
     fbind (fget (\<lambda>s. has_smbs E (f_trace s) parent)) (\<lambda>there. find_in E there (- EINVAL) parent (text_of desc (name desc)))"

definition vfi_local_smb_put :: "fenv \<Rightarrow> nat \<Rightarrow> unit fm" where
  "vfi_local_smb_put E smb = fdo E ''vfi_smb_put'' [Some smb] A_none"

definition vfi_local_smb_lose :: "fenv \<Rightarrow> nat \<Rightarrow> unit fm" where
  "vfi_local_smb_lose E smb = fdo E ''vfi_smb_put'' [Some smb] A_none"

definition vfi_local_xfer_find :: "fenv \<Rightarrow> nat \<Rightarrow> vfi_desc_param \<Rightarrow> (errno \<times> nat option) fm" where
  "vfi_local_xfer_find E parent desc =
     fbind (fget (\<lambda>s. has_xfers E (f_trace s) parent)) (\<lambda>there. find_in E there 1 parent (text_of desc (name desc)))"

definition vfi_local_xfer_put :: "fenv \<Rightarrow> nat \<Rightarrow> unit fm" where
  "vfi_local_xfer_put E xf = fdo E ''vfi_xfer_put'' [Some xf] A_none"

definition vfi_local_xfer_lose :: "fenv \<Rightarrow> nat \<Rightarrow> unit fm" where
  "vfi_local_xfer_lose E xf = fdo E ''vfi_xfer_put'' [Some xf] A_none"

definition vfi_local_sync_find :: "fenv \<Rightarrow> nat \<Rightarrow> vfi_desc_param \<Rightarrow> (errno \<times> nat option) fm" where
  "vfi_local_sync_find E parent desc =
     fbind (fget (\<lambda>s. has_syncs E (f_trace s) parent)) (\<lambda>there.
       if \<not> there then fret (- EINVAL, None) else find_in E True 1 parent (text_of desc (name desc)))"

definition vfi_local_sync_put :: "fenv \<Rightarrow> nat \<Rightarrow> unit fm" where
  "vfi_local_sync_put E sy = fdo E ''vfi_sync_put'' [Some sy] A_none"

definition vfi_local_sync_lose :: "nat \<Rightarrow> unit fm" where
  "vfi_local_sync_lose sy = fret ()"

definition vfi_local_mmap_put :: "fenv \<Rightarrow> nat \<Rightarrow> unit fm" where
  "vfi_local_mmap_put E mm = fdo E ''vfi_mmap_put'' [Some mm] A_none"

text \<open>The name of a bind is its range; the buffer of 128 bytes is never too short for it.\<close>

definition vfi_local_bind_find :: "fenv \<Rightarrow> nat \<Rightarrow> vfi_desc_param \<Rightarrow> (errno \<times> nat option) fm" where
  "vfi_local_bind_find E parent desc =
     (if 128 < length (bind_name desc) then fret (1, None) else find_in E True 1 parent (Val (bind_name desc)))"

text \<open>Destinations and sources are looked for in the list of their parent, with a name that is printed first.\<close>

definition find_named :: "fenv \<Rightarrow> lenv \<Rightarrow> nat \<Rightarrow> string cres \<Rightarrow> (errno \<times> nat option) fm" where
  "find_named E L parent nm =
     fbind (fn E ''kzalloc'' [] A_none) (\<lambda>(_, m).
       if m = None then fret (1, None)
       else fbind (flift nm) (\<lambda>t.
         if 2048 \<le> length t then fret (1, None)
         else fbind (fget (\<lambda>s. list_in L (f_trace s) parent)) (\<lambda>l.
           case l of None \<Rightarrow> fail | Some l \<Rightarrow> find_in E True 1 l (Val t))))"

definition vfi_local_dst_find :: "fenv \<Rightarrow> lenv \<Rightarrow> nat \<Rightarrow> vfi_bind_param \<Rightarrow> (errno \<times> nat option) fm" where
  "vfi_local_dst_find E L parent desc =
     find_named E L parent (cat [fmt_name (dst desc), Val (''#'' @ hex_of_nat (unat (offset (dst desc))))])"

definition vfi_local_src_find :: "fenv \<Rightarrow> lenv \<Rightarrow> nat \<Rightarrow> vfi_bind_param \<Rightarrow> (errno \<times> nat option) fm" where
  "vfi_local_src_find E L parent desc = find_named E L parent (Val (bind_name (src desc)))"

section \<open>Making\<close>

text \<open>A location takes the extent of the first location made in it, if it has none.\<close>

definition vfi_local_location_create :: "fenv \<Rightarrow> nat option \<Rightarrow> vfi_desc_param \<Rightarrow> (errno \<times> nat option) fm" where
  "vfi_local_location_create E loc desc =
     fbind (fn E ''find_vfi_name'' [loc] (A_desc desc)) (\<lambda>(ret, old).
       if ret = 0 then fbind (fdo E ''vfi_location_put'' [old] A_none) (\<lambda>_. fret (- EEXIST, None))
       else fbind (fn E ''vfi_location_create'' [loc] (A_desc desc)) (\<lambda>(ret, new).
         if ret \<noteq> 0 then fret (ret, new)
         else fbind (fget (\<lambda>s. case loc of None \<Rightarrow> False | Some l \<Rightarrow> extent (f_desc s l) = 0)) (\<lambda>unset.
           fbind (if \<not> unset then fret ()
               else case new of
                 None \<Rightarrow> fail
               | Some n \<Rightarrow> fput (\<lambda>s. s\<lparr>f_desc := (f_desc s)(the loc := (f_desc s (the loc))\<lparr>extent := extent (f_desc s n)\<rparr>)\<rparr>)) (\<lambda>_.
             fbind (fget (\<lambda>s. case new of None \<Rightarrow> None | Some n \<Rightarrow> address (f_desc s n))) (\<lambda>a.
               fbind (if a \<noteq> None then fdo E ''vfi_address_register'' [new] A_none else fret ()) (\<lambda>_.
                 fret (0, new)))))))"

text \<open>
  The size of a new block: its extent, or that of the option \<open>map_extent\<close>; with \<open>map_address\<close>, pages of the
  user are pinned, and offset and extent grow by the distance of the address from its page.
\<close>

definition smb_size :: "vfi_desc_param \<Rightarrow> vfi_desc_param option cres" where
  "smb_size d =
     (if extent d \<noteq> 0 then Val (Some d)
      else cres_bind (vfi_get_option d ''map_extent'') (\<lambda>r.
        case r of
          None \<Rightarrow> Val None
        | Some i \<Rightarrow> cres_bind (text_of d (Some i)) (\<lambda>t. Val (Some (d\<lparr>extent := fst (simple_strtoul16 t)\<rparr>)))))"

definition smb_address :: "vfi_desc_param \<Rightarrow> (vfi_desc_param \<times> u32) cres" where
  "smb_address d =
     cres_bind (vfi_get_option d ''map_address'') (\<lambda>r.
       case r of
         None \<Rightarrow> Val (d, 0)
       | Some i \<Rightarrow> cres_bind (text_of d (Some i)) (\<lambda>t.
           let a = fst (simple_strtoul16 t); off = a AND 4095
           in Val (d\<lparr>offset := offset d + ucast off, extent := extent d + off\<rparr>, a AND NOT 4095)))"

definition drop_block :: "fenv \<Rightarrow> nat \<Rightarrow> errno \<Rightarrow> (errno \<times> nat option) fm" where
  "drop_block E a ret = fbind (fdo E ''vfi_smb_delete'' [Some a] A_none) (\<lambda>_. fret (ret, None))"

definition vfi_local_smb_create :: "fenv \<Rightarrow> nat \<Rightarrow> vfi_desc_param \<Rightarrow> (errno \<times> nat option) fm" where
  "vfi_local_smb_create E loc desc =
     fbind (fn E ''vfi_smb_create'' [Some loc] (A_desc desc)) (\<lambda>(ret, smb).
       if ret \<noteq> 0 then fret (ret, None)
       else case smb of
         None \<Rightarrow> fail
       | Some a \<Rightarrow>
           fbind (fget (\<lambda>s. f_desc s a)) (\<lambda>d. fbind (flift (smb_size d)) (\<lambda>r.
             case r of
               None \<Rightarrow> drop_block E a 0
             | Some d \<Rightarrow>
                 fbind (flift (smb_address d)) (\<lambda>(d, addr).
                   fbind (fput (\<lambda>s. s\<lparr>f_desc := (f_desc s)(a := d)\<rparr>)) (\<lambda>_.
                     if 4096 - 32 < offset d then drop_block E a (- EINVAL)
                     else fbind (fn E ''vfi_alloc_pages'' [Some a] (A_num (uint addr))) (\<lambda>(ret, _).
                       if ret = 0 then fret (0, Some a) else drop_block E a ret))))))"

definition vfi_local_xfer_create :: "fenv \<Rightarrow> nat \<Rightarrow> vfi_desc_param \<Rightarrow> (errno \<times> nat option) fm" where
  "vfi_local_xfer_create E loc desc = fn E ''vfi_xfer_create'' [Some loc] (A_desc (desc\<lparr>offset := 0, extent := 0\<rparr>))"

definition vfi_local_sync_create :: "fenv \<Rightarrow> nat \<Rightarrow> vfi_desc_param \<Rightarrow> (errno \<times> nat option) fm" where
  "vfi_local_sync_create E loc desc = fn E ''vfi_sync_create'' [Some loc] (A_desc desc)"

definition vfi_local_src_create :: "fenv \<Rightarrow> nat \<Rightarrow> vfi_bind_param \<Rightarrow> (errno \<times> nat option) fm" where
  "vfi_local_src_create E parent desc = fn E ''vfi_src_create'' [Some parent] (A_bind desc)"

definition vfi_local_dst_create :: "fenv \<Rightarrow> nat \<Rightarrow> vfi_bind_param \<Rightarrow> (errno \<times> nat option) fm" where
  "vfi_local_dst_create E parent desc =
     fbind (fn E ''vfi_dst_create'' [Some parent] (A_bind desc)) (\<lambda>(ret, d).
       if ret \<noteq> 0 then fret (ret, d)
       else if d = None then fret (- ENOMEM, None)
       else fbind (fget (\<lambda>s. ops (src (f_bdesc s parent)))) (\<lambda>t.
         fbind (op_call E t ''srcs_create'' [d] (A_bind desc)) (\<lambda>(ret, ss).
           if ret \<noteq> 0 \<or> ss = None then
             fbind (fdo E ''vfi_dst_put'' [d] A_none) (\<lambda>_. fret (if ret \<noteq> 0 then ret else - ENOMEM, None))
           else fret (0, d))))"

section \<open>Events of a bind\<close>

text \<open>
  The events of a bind on this node: one with no callback, that tells the end of a transfer, and one whose
  callback votes for the next. Their numbers are the addresses of members of the bind, given by \<open>slot\<close>.
\<close>

definition slot_event :: "fenv \<Rightarrow> nat option \<Rightarrow> nat \<Rightarrow> nat \<Rightarrow> string \<Rightarrow> (errno \<times> nat option) fm" where
  "slot_event E l b i callback = fn E ''vfi_event_create'' [l, Some b, Some i] (A_text callback)"

definition vfi_local_dst_events :: "fenv \<Rightarrow> lenv \<Rightarrow> nat \<Rightarrow> errno fm" where
  "vfi_local_dst_events E L b =
     fbind (fget (\<lambda>s. dst (f_bdesc s b))) (\<lambda>d.
     fbind (flift (vfi_get_option d ''event_name'')) (\<lambda>o1.
       if o1 = None then fret (- EINVAL)
       else fbind (flift (text_of d o1)) (\<lambda>nm.
     fbind (events_named E nm) (\<lambda>l.
       if l = None then fret (- EINVAL)
       else
     fbind (slot_event E l b (slot L b ''dst_done_event'') '''') (\<lambda>(ret, ev).
     fbind (set_events b (\<lambda>e. e\<lparr>b_dst_done := ev\<rparr>)) (\<lambda>_.
       if ret \<noteq> 0 then fbind (fdo E ''vfi_events_put'' [l] A_none) (\<lambda>_. fret (- EINVAL))
       else if ops d = None then fail
       else
     fbind (slot_event E l b (slot L b ''dst_ready_event'') ''dst_ready'') (\<lambda>(ret, ev).
     fbind (set_events b (\<lambda>e. e\<lparr>b_dst_ready := ev\<rparr>)) (\<lambda>_.
       if ret \<noteq> 0 then
         fbind (fget (\<lambda>s. b_dst_done (f_binds s b))) (\<lambda>done.
         fbind (fdo E ''vfi_event_put'' [done] A_none) (\<lambda>_.
         fbind (fdo E ''vfi_events_put'' [l] A_none) (\<lambda>_. fret (- EINVAL))))
       else fbind (fdo E ''vfi_events_put'' [l] A_none) (\<lambda>_. fret ret)))))))))"

definition vfi_local_dst_ev_delete :: "fenv \<Rightarrow> nat \<Rightarrow> unit fm" where
  "vfi_local_dst_ev_delete E b =
     fbind (fget (\<lambda>s. f_binds s b)) (\<lambda>e.
     fbind (fdo E ''vfi_event_delete'' [b_dst_ready e] A_none) (\<lambda>_.
     fbind (fdo E ''vfi_event_delete'' [b_dst_done e] A_none) (\<lambda>_.
     set_events b (\<lambda>e. e\<lparr>b_dst_ready := None, b_dst_done := None, b_dst_ready_id := 0, b_dst_done_id := 0\<rparr>))))"

text \<open>The events of the source are made once for a bind, by the first of its destinations.\<close>

definition vfi_local_src_events :: "fenv \<Rightarrow> lenv \<Rightarrow> nat \<Rightarrow> vfi_bind_param \<Rightarrow> errno fm" where
  "vfi_local_src_events E L parent desc =
     (case bind_of E parent of
        None \<Rightarrow> fail
      | Some b \<Rightarrow>
     fbind (fget (\<lambda>s. b_src_done (f_binds s b))) (\<lambda>there.
       if there \<noteq> None then fret 0
       else
     fbind (flift (vfi_get_option (src desc) ''event_name'')) (\<lambda>o1.
       if o1 = None then fret (- EINVAL)
       else fbind (flift (text_of (src desc) o1)) (\<lambda>nm.
     fbind (fn E ''find_vfi_events'' [] (A_text nm)) (\<lambda>(ret, l).
     fbind (if l \<noteq> None then fret (ret, l) else fn E ''vfi_events_create'' [] (A_text nm)) (\<lambda>(ret, l).
       if ret \<noteq> 0 then fret (- EINVAL)
       else
     fbind (slot_event E l b parent '''') (\<lambda>(ret, ev).
     fbind (set_events b (\<lambda>e. e\<lparr>b_src_done := ev\<rparr>)) (\<lambda>_.
       if ret \<noteq> 0 then fbind (fdo E ''vfi_events_put'' [l] A_none) (\<lambda>_. fret (- EINVAL))
       else
     fbind (fget (\<lambda>s. ops (src (f_bdesc s b)))) (\<lambda>t.
       if t = None then fail
       else
     fbind (slot_event E l b (slot L parent ''srcs'') ''src_ready'') (\<lambda>(ret, ev).
     fbind (set_events b (\<lambda>e. e\<lparr>b_src_ready := ev\<rparr>)) (\<lambda>_.
       if ret \<noteq> 0 then
         fbind (fget (\<lambda>s. b_src_done (f_binds s b))) (\<lambda>done.
         fbind (fdo E ''vfi_event_put'' [done] A_none) (\<lambda>_.
         fbind (fdo E ''vfi_events_put'' [l] A_none) (\<lambda>_. fret (- EINVAL))))
       else fbind (fdo E ''vfi_events_put'' [l] A_none) (\<lambda>_. fret ret))))))))))))"

definition vfi_local_src_ev_delete :: "fenv \<Rightarrow> nat \<Rightarrow> unit fm" where
  "vfi_local_src_ev_delete E parent =
     (case bind_of E parent of
        None \<Rightarrow> fail
      | Some b \<Rightarrow>
          fbind (fget (\<lambda>s. f_binds s b)) (\<lambda>e.
          fbind (fdo E ''vfi_event_delete'' [b_src_ready e] A_none) (\<lambda>_.
          fbind (fdo E ''vfi_event_delete'' [b_src_done e] A_none) (\<lambda>_.
          set_events b (\<lambda>e. e\<lparr>b_src_ready := None, b_src_done := None, b_src_ready_id := 0, b_src_done_id := 0\<rparr>)))))"

section \<open>Making a bind\<close>

text \<open>
  A bind without an offset is put behind the others of its transfer, whose extent grows. The labels at the
  end of the function, from the last one to be reached.
\<close>

definition undo_bind :: "fenv \<Rightarrow> nat \<Rightarrow> vfi_bind_param \<Rightarrow> errno \<Rightarrow> (errno \<times> nat option) fm" where
  "undo_bind E xf desc ret = fbind (fdo E ''vfi_bind_delete'' [Some xf] (A_desc (xfer desc))) (\<lambda>_. fret (ret, None))"

definition undo_dsts :: "fenv \<Rightarrow> nat \<Rightarrow> vfi_bind_param \<Rightarrow> nat option \<Rightarrow> errno \<Rightarrow> (errno \<times> nat option) fm" where
  "undo_dsts E xf desc ds ret = fbind (fdo E ''vfi_dsts_delete'' [ds] A_none) (\<lambda>_. undo_bind E xf desc ret)"

definition put_block :: "fenv \<Rightarrow> nat \<Rightarrow> unit fm" where
  "put_block E a = fbind (fget (\<lambda>s. f_desc s a)) (\<lambda>d. op_do E (ops d) ''smb_put'' [Some a] (A_desc d))"

definition undo_dblock :: "fenv \<Rightarrow> nat \<Rightarrow> vfi_bind_param \<Rightarrow> nat option \<Rightarrow> nat \<Rightarrow> errno \<Rightarrow> (errno \<times> nat option) fm" where
  "undo_dblock E xf desc ds db ret = fbind (put_block E db) (\<lambda>_. undo_dsts E xf desc ds ret)"

definition undo_sblock :: "fenv \<Rightarrow> nat \<Rightarrow> vfi_bind_param \<Rightarrow> nat option \<Rightarrow> nat \<Rightarrow> nat \<Rightarrow> errno \<Rightarrow> (errno \<times> nat option) fm" where
  "undo_sblock E xf desc ds db sb ret = fbind (put_block E sb) (\<lambda>_. undo_dblock E xf desc ds db ret)"

text \<open>Both sides of the bind take engine, fabric, location and operations from their blocks.\<close>

definition inherit_blocks :: "nat \<Rightarrow> nat \<Rightarrow> nat \<Rightarrow> unit fm" where
  "inherit_blocks b sb db = fput (\<lambda>s.
     let p = f_bdesc s b; (cs, r1) = vfi_inherit (src p) (f_desc s sb) (f_refs s);
         (cd, r2) = vfi_inherit (dst p) (f_desc s db) r1
     in s\<lparr>f_refs := r2, f_bdesc := (f_bdesc s)(b := p\<lparr>src := cs, dst := cd\<rparr>)\<rparr>)"

definition placed :: "vfi_bind_param \<Rightarrow> u32 \<Rightarrow> vfi_bind_param" where
  "placed desc e = (if offset (xfer desc) = 0 then desc\<lparr>xfer := (xfer desc)\<lparr>offset := ucast e\<rparr>\<rparr> else desc)"

definition grow :: "nat \<Rightarrow> u32 \<Rightarrow> unit fm" where
  "grow xf n = fput (\<lambda>s. s\<lparr>f_desc := (f_desc s)(xf := (f_desc s xf)\<lparr>extent := extent (f_desc s xf) + n\<rparr>)\<rparr>)"

definition vfi_local_bind_create :: "fenv \<Rightarrow> nat \<Rightarrow> vfi_bind_param \<Rightarrow> (errno \<times> nat option) fm" where
  "vfi_local_bind_create E xf desc0 =
     fbind (fget (\<lambda>s. placed desc0 (extent (f_desc s xf)))) (\<lambda>desc.
     fbind (grow xf (extent (xfer desc))) (\<lambda>_.
     fbind (fn E ''vfi_bind_create'' [Some xf] (A_bind desc)) (\<lambda>(ret, bd).
       if ret \<noteq> 0 then fret (ret, None)
       else case bd of None \<Rightarrow> fail | Some b \<Rightarrow>
     fbind (fn E ''vfi_dsts_create'' [Some b] (A_bind desc)) (\<lambda>(ret, ds).
       if ret \<noteq> 0 then undo_bind E xf desc ret
       else
     fbind (fn E ''find_vfi_smb'' [] (A_desc (dst desc))) (\<lambda>(ret, dsmb).
       case dsmb of None \<Rightarrow> undo_dsts E xf desc ds ret | Some db \<Rightarrow>
     fbind (fget (\<lambda>s. f_desc s db)) (\<lambda>dd.
       if \<not> DESC_VALID dd (dst desc) then undo_dblock E xf desc ds db ret
       else
     fbind (fn E ''find_vfi_smb'' [] (A_desc (src desc))) (\<lambda>(ret, ssmb).
       case ssmb of None \<Rightarrow> undo_dblock E xf desc ds db ret | Some sb \<Rightarrow>
     fbind (fget (\<lambda>s. f_desc s sb)) (\<lambda>sd.
       if \<not> DESC_VALID sd (src desc) then undo_sblock E xf desc ds db sb ret
       else
     fbind (inherit_blocks b sb db) (\<lambda>_.
     fbind (fget (\<lambda>s. ops (dst (f_bdesc s b)))) (\<lambda>t.
     fbind (op_call E t ''dsts_create'' [Some b] (A_bind desc)) (\<lambda>(ret, rds).
       if rds = None then undo_sblock E xf desc ds db sb ret
       else fbind (fdo E ''vfi_xfer_load_binds'' [Some xf, Some b] A_none) (\<lambda>_. fret (0, Some b)))))))))))))"

section \<open>Deleting\<close>

definition vfi_local_location_delete :: "fenv \<Rightarrow> nat option \<Rightarrow> vfi_desc_param \<Rightarrow> unit fm" where
  "vfi_local_location_delete E loc desc =
     fbind (fn E ''find_vfi_name'' [loc] (A_desc desc)) (\<lambda>(ret, target).
       if ret \<noteq> 0 then fret ()
       else fbind (fdo E ''vfi_location_delete'' [target] A_none) (\<lambda>_. fdo E ''vfi_location_put'' [target] A_none))"

definition vfi_local_smb_delete :: "fenv \<Rightarrow> nat option \<Rightarrow> unit fm" where
  "vfi_local_smb_delete E smb = (if smb = None then fret () else fdo E ''vfi_smb_delete'' [smb] A_none)"

definition vfi_local_mmap_delete :: "fenv \<Rightarrow> nat \<Rightarrow> unit fm" where
  "vfi_local_mmap_delete E mm = fdo E ''vfi_mmap_delete'' [Some mm] A_none"

definition vfi_local_xfer_delete :: "fenv \<Rightarrow> nat \<Rightarrow> vfi_desc_param \<Rightarrow> unit fm" where
  "vfi_local_xfer_delete E xf desc = fdo E ''vfi_xfer_delete'' [Some xf] (A_desc desc)"

definition vfi_local_sync_delete :: "fenv \<Rightarrow> nat \<Rightarrow> vfi_desc_param \<Rightarrow> unit fm" where
  "vfi_local_sync_delete E sy desc = fdo E ''vfi_sync_delete'' [Some sy] (A_desc desc)"

definition vfi_local_src_delete :: "fenv \<Rightarrow> nat \<Rightarrow> vfi_bind_param \<Rightarrow> unit fm" where
  "vfi_local_src_delete E parent desc = fdo E ''vfi_src_delete'' [Some parent] (A_bind desc)"

text \<open>
  The loops over the members of a list are safe against the removal of the member at hand, and run over
  those that are there when they begin. A table of operations must be there, an operation of it need not.
\<close>

definition op_maybe :: "fenv \<Rightarrow> ops_tab option \<Rightarrow> string \<Rightarrow> nat option list \<Rightarrow> arg \<Rightarrow> unit fm" where
  "op_maybe E t nm hs a =
     (if t = None then fail else if table_for t nm = None then fret () else fdo E nm hs a)"

definition vfi_local_srcs_delete :: "fenv \<Rightarrow> lenv \<Rightarrow> nat \<Rightarrow> vfi_bind_param \<Rightarrow> unit fm" where
  "vfi_local_srcs_delete E L parent desc =
     fbind (fget (\<lambda>s. list_in L (f_trace s) parent)) (\<lambda>ss.
       case ss of
         None \<Rightarrow> fret ()
       | Some l \<Rightarrow>
     fbind (fget (\<lambda>s. members L (f_trace s) l)) (\<lambda>ms.
     fbind (for_each (\<lambda>x. fbind (fget (\<lambda>s. f_bdesc s x)) (\<lambda>d.
         op_maybe E (ops (xfer d)) ''src_delete'' [Some parent] (A_bind d))) ms) (\<lambda>_.
     fbind (fget (\<lambda>s. ops (xfer (f_bdesc s parent)))) (\<lambda>t.
     fbind (op_maybe E t ''src_ev_delete'' [Some parent] (A_bind desc)) (\<lambda>_.
     fdo E ''vfi_srcs_delete'' [ss] A_none)))))"

definition vfi_local_dsts_delete :: "fenv \<Rightarrow> lenv \<Rightarrow> nat \<Rightarrow> vfi_bind_param \<Rightarrow> unit fm" where
  "vfi_local_dsts_delete E L b desc =
     fbind (fget (\<lambda>s. list_in L (f_trace s) b)) (\<lambda>ds.
       case ds of
         None \<Rightarrow> fret ()
       | Some l \<Rightarrow>
     fbind (fget (\<lambda>s. members L (f_trace s) l)) (\<lambda>ms.
     fbind (for_each (\<lambda>x. fbind (fget (\<lambda>s. f_bdesc s x)) (\<lambda>d.
         op_do E (ops (xfer d)) ''dst_delete'' [Some b] (A_bind d))) ms) (\<lambda>_.
     fbind (fget (\<lambda>s. ops (xfer (f_bdesc s b)))) (\<lambda>t.
     fbind (op_maybe E t ''dst_ev_delete'' [Some b] (A_bind desc)) (\<lambda>_.
     fdo E ''vfi_dsts_delete'' [ds] A_none)))))"

definition vfi_local_dst_delete :: "fenv \<Rightarrow> nat \<Rightarrow> vfi_bind_param \<Rightarrow> unit fm" where
  "vfi_local_dst_delete E b desc =
     fbind (fn E ''find_vfi_dst_in'' [Some b] (A_bind desc)) (\<lambda>(ret, d).
       if ret \<noteq> 0 then fret ()
       else fbind (fget (\<lambda>s. ops (src (f_bdesc s b)))) (\<lambda>t.
         fbind (op_do E t ''srcs_delete'' [d] (A_bind desc)) (\<lambda>_.
         fbind (fdo E ''vfi_dst_delete'' [Some b] (A_bind desc)) (\<lambda>_. fdo E ''vfi_dst_put'' [d] A_none))))"

text \<open>The binds that a range means: all from its offset on if it has no extent.\<close>

definition in_range :: "vfi_desc_param \<Rightarrow> vfi_desc_param \<Rightarrow> bool" where
  "in_range r x \<longleftrightarrow> offset r \<le> offset x \<and> (extent r = 0 \<or> offset x \<le> offset r + ucast (extent r))"

text \<open>A block that a bind keeps is looked up again, and put twice: for the lookup and for the bind.\<close>

definition give_back :: "fenv \<Rightarrow> vfi_desc_param \<Rightarrow> unit fm" where
  "give_back E d =
     fbind (fn E ''find_vfi_smb'' [] (A_desc d)) (\<lambda>(ret, b).
       if ret \<noteq> 0 then fret ()
       else fbind (fdo E ''vfi_smb_put'' [b] A_none) (\<lambda>_. fdo E ''vfi_smb_put'' [b] A_none))"

definition delete_bind :: "fenv \<Rightarrow> nat \<Rightarrow> vfi_desc_param \<Rightarrow> nat \<Rightarrow> unit fm" where
  "delete_bind E xf r b =
     fbind (fget (\<lambda>s. f_bdesc s b)) (\<lambda>p.
       if \<not> in_range r (xfer p) then fret ()
       else
     fbind (op_do E (ops (dst p)) ''dsts_delete'' [Some b] (A_bind p)) (\<lambda>_.
     fbind (give_back E (dst p)) (\<lambda>_.
     fbind (give_back E (src p)) (\<lambda>_.
     fdo E ''vfi_bind_delete'' [Some xf] (A_desc (xfer p))))))"

definition vfi_local_bind_delete :: "fenv \<Rightarrow> lenv \<Rightarrow> nat \<Rightarrow> vfi_desc_param \<Rightarrow> unit fm" where
  "vfi_local_bind_delete E L xf desc =
     fbind (fget (\<lambda>s. members L (f_trace s) xf)) (\<lambda>bs. for_each (delete_bind E xf desc) bs)"

definition lose_bind :: "fenv \<Rightarrow> nat \<Rightarrow> vfi_desc_param \<Rightarrow> nat \<Rightarrow> unit fm" where
  "lose_bind E xf r b =
     fbind (fget (\<lambda>s. xfer (f_bdesc s b))) (\<lambda>d.
       if in_range r d then fdo E ''vfi_bind_delete'' [Some xf] (A_desc d) else fret ())"

definition vfi_local_bind_lose :: "fenv \<Rightarrow> lenv \<Rightarrow> nat \<Rightarrow> vfi_desc_param \<Rightarrow> unit fm" where
  "vfi_local_bind_lose E L xf desc =
     fbind (fget (\<lambda>s. members L (f_trace s) xf)) (\<lambda>bs. for_each (lose_bind E xf desc) bs)"

section \<open>Synchronisers\<close>

text \<open>
  A synchroniser is a barrier: a count under a semaphore. The first arrival after the count was 0 sets it to
  the value it brings, each arrival counts one down, and one that waits sleeps until the count is 0. The two
  functions up to the point where the second goes to sleep are one step each, as the semaphore is held; so
  is the part of the loop from one sleep to the next. The count is an \<open>int\<close> and takes the low half of the
  offset. A process is named by a number.
\<close>

record sync_state =
  sy_count :: u32
  sy_asleep :: "nat set"

definition arrive :: "u64 \<Rightarrow> u32 \<Rightarrow> u32" where
  "arrive v c = (let c = (if c = 0 then ucast v else c) in if c = 0 then 0 else c - 1)"

definition vfi_local_sync_send :: "u64 \<Rightarrow> sync_state \<Rightarrow> sync_state" where
  "vfi_local_sync_send v s = s\<lparr>sy_count := arrive v (sy_count s)\<rparr>"

definition vfi_local_sync_wait :: "nat \<Rightarrow> u64 \<Rightarrow> sync_state \<Rightarrow> sync_state \<times> errno option" where
  "vfi_local_sync_wait p v s =
     (let c = arrive v (sy_count s)
      in if c = 0 then (s\<lparr>sy_count := c\<rparr>, Some 0) else (s\<lparr>sy_count := c, sy_asleep := insert p (sy_asleep s)\<rparr>, None))"

text \<open>A process that sleeps has been woken or not: what counts is the count when it holds the semaphore again.\<close>

definition vfi_local_sync_wake :: "nat \<Rightarrow> bool \<Rightarrow> sync_state \<Rightarrow> sync_state \<times> errno option" where
  "vfi_local_sync_wake p signal s =
     (if signal then (s\<lparr>sy_asleep := sy_asleep s - {p}\<rparr>, Some (- ERESTARTSYS))
      else if sy_count s = 0 then (s\<lparr>sy_asleep := sy_asleep s - {p}\<rparr>, Some 0)
      else (s, None))"

text \<open>What can happen to a synchroniser.\<close>

datatype sync_event = Send u64 | Wait nat u64 | Wake nat | Signal nat

fun sync_do :: "sync_event \<Rightarrow> sync_state \<Rightarrow> sync_state" where
  "sync_do (Send v) s = vfi_local_sync_send v s"
| "sync_do (Wait p v) s = fst (vfi_local_sync_wait p v s)"
| "sync_do (Wake p) s = (if p \<in> sy_asleep s then fst (vfi_local_sync_wake p False s) else s)"
| "sync_do (Signal p) s = (if p \<in> sy_asleep s then fst (vfi_local_sync_wake p True s) else s)"

fun sync_run :: "sync_event list \<Rightarrow> sync_state \<Rightarrow> sync_state" where
  "sync_run [] s = s"
| "sync_run (e # es) s = sync_run es (sync_do e s)"

fun arrival :: "sync_event \<Rightarrow> u64 option" where
  "arrival (Send v) = Some v"
| "arrival (Wait p v) = Some v"
| "arrival _ = None"

section \<open>Lists of events\<close>

text \<open>
  The lists of events by name, with their reference counts, and the pointers by which one list is started
  after another.
\<close>

record event_lists =
  ev_find :: "string \<Rightarrow> nat option"
  ev_next :: "nat \<Rightarrow> nat option"
  ev_prev :: "nat \<Rightarrow> nat option"
  ev_refs :: "nat \<Rightarrow> int"

definition find_vfi_events :: "string \<Rightarrow> event_lists \<Rightarrow> nat option \<times> event_lists" where
  "find_vfi_events nm S =
     (case ev_find S nm of
        None \<Rightarrow> (None, S)
      | Some l \<Rightarrow> (Some l, S\<lparr>ev_refs := (ev_refs S)(l := ev_refs S l + 1)\<rparr>))"

definition vfi_events_put :: "nat \<Rightarrow> event_lists \<Rightarrow> event_lists" where
  "vfi_events_put l S = S\<lparr>ev_refs := (ev_refs S)(l := ev_refs S l - 1)\<rparr>"

definition vfi_local_event_find :: "vfi_desc_param \<Rightarrow> event_lists \<Rightarrow> (errno \<times> event_lists) cres" where
  "vfi_local_event_find desc S =
     cres_bind (text_of desc (name desc)) (\<lambda>nm.
       Val (case find_vfi_events nm S of (None, S) \<Rightarrow> (- EINVAL, S) | (Some l, S) \<Rightarrow> (0, S)))"

definition vfi_local_event_chain :: "vfi_desc_param \<Rightarrow> event_lists \<Rightarrow> (errno \<times> event_lists) cres" where
  "vfi_local_event_chain desc S =
     cres_bind (vfi_get_option desc ''event_name'') (\<lambda>o1.
       if o1 = None then Val (- EINVAL, S)
       else cres_bind (text_of desc (name desc)) (\<lambda>this. cres_bind (text_of desc o1) (\<lambda>that.
         case find_vfi_events this S of
           (None, S) \<Rightarrow> Val (- EINVAL, S)
         | (Some l, S) \<Rightarrow>
             (case find_vfi_events that S of
                (None, S) \<Rightarrow> Val (- EINVAL, S)
              | (Some l', S) \<Rightarrow>
                  (let S = S\<lparr>ev_next := (ev_next S)(l := Some l'), ev_prev := (ev_prev S)(l' := Some l)\<rparr>
                   in Val (0, vfi_events_put l' (vfi_events_put l S)))))))"

text \<open>
  Starting: the lists that are started, in order. The loop follows the pointers and need not end, so that
  its value is \<open>None\<close> when it does not.
\<close>

partial_function (option) start_from :: "(nat \<Rightarrow> nat option) \<Rightarrow> nat option \<Rightarrow> nat list option" where
  "start_from nx l =
     (case l of
        None \<Rightarrow> Some []
      | Some a \<Rightarrow> Option.bind (start_from nx (nx a)) (\<lambda>ls. Some (a # ls)))"



text \<open>The reference to the first list is given back when that list has been started.\<close>

definition vfi_local_event_start :: "vfi_desc_param \<Rightarrow> event_lists \<Rightarrow> (errno \<times> nat list \<times> event_lists) option cres" where
  "vfi_local_event_start desc S =
     cres_bind (text_of desc (name desc)) (\<lambda>nm.
       case find_vfi_events nm S of
         (None, S) \<Rightarrow> Val (Some (- EINVAL, [], S))
       | (Some l, S) \<Rightarrow>
           Val (Option.bind (start_from (ev_next S) (Some l)) (\<lambda>ls. Some (0, ls, vfi_events_put l S))))"


section \<open>What is kept and what is given back\<close>

definition tally :: "(fevent \<Rightarrow> int) \<Rightarrow> fevent list \<Rightarrow> int" where
  "tally f tr = sum_list (map f tr)"

lemma tally_simps [simp]: "tally f [] = 0" "tally f (tr @ tr') = tally f tr + tally f tr'" "tally f (e # tr) = f e + tally f tr"
  by (simp_all add: tally_def)

text \<open>The answers that count for one more, and the calls that count for one less.\<close>

fun gains :: "string \<Rightarrow> fevent \<Rightarrow> int" where
  "gains nm (Fn f hs a, ret, h) = (if f = nm \<and> ret = 0 then 1 else 0)"
| "gains nm (Call l m, r) = 0"

fun calls_to :: "string \<Rightarrow> fevent \<Rightarrow> int" where
  "calls_to nm (Fn f hs a, r) = (if f = nm then 1 else 0)"
| "calls_to nm (Call l m, r) = 0"

fun refs_to :: "nat \<Rightarrow> fevent \<Rightarrow> int" where
  "refs_to x (Fn f hs a, ret, h) =
     (if f = ''find_vfi_smb'' \<and> h = Some x then 1
      else if f = ''smb_put'' \<and> hs = [Some x] then - 1 else 0)"
| "refs_to x (Call l m, r) = 0"

definition binds_made :: "fevent list \<Rightarrow> int" where
  "binds_made tr = tally (gains ''vfi_bind_create'') tr - tally (calls_to ''vfi_bind_delete'') tr"

definition lists_made :: "fevent list \<Rightarrow> int" where
  "lists_made tr = tally (gains ''vfi_dsts_create'') tr - tally (calls_to ''vfi_dsts_delete'') tr"

lemmas undo_defs = undo_bind_def undo_dsts_def undo_dblock_def undo_sblock_def put_block_def

lemma wp_op_call [wp_intros]:
  "(\<And>ret h. Q (ret, h) (s\<lparr>f_trace := f_trace s @ [(Fn nm hs a, ret, h)]\<rparr>)) \<Longrightarrow> wp (op_call E t nm hs a) Q s"
  unfolding op_call_def by (cases "table_for t nm") (auto simp: wp_fail intro: wp_fnI)

lemma wp_op_do [wp_intros]:
  "(\<And>ret h. Q () (s\<lparr>f_trace := f_trace s @ [(Fn nm hs a, ret, h)]\<rparr>)) \<Longrightarrow> wp (op_do E t nm hs a) Q s"
  unfolding op_do_def void_def wp_fbind by (rule wp_op_call) (simp add: wp_fret)

lemma wp_fdo [wp_intros]:
  "(\<And>ret h. Q () (s\<lparr>f_trace := f_trace s @ [(Fn nm hs a, ret, h)]\<rparr>)) \<Longrightarrow> wp (fdo E nm hs a) Q s"
  unfolding fdo_def wp_fbind by (rule wp_fnI) (simp add: wp_fret)

lemma wp_inherit [wp_intros]:
  "(\<And>r p. Q () (s\<lparr>f_refs := r, f_bdesc := (f_bdesc s)(b := p)\<rparr>)) \<Longrightarrow> wp (inherit_blocks b sb db) Q s"
  unfolding inherit_blocks_def wp_fput by (auto simp: Let_def split: prod.splits)

lemma extent_placed [simp]: "extent (xfer (placed desc e)) = extent (xfer desc)"
  by (simp add: placed_def)

lemmas wp_ready = wp_fret [THEN iffD2] wp_fbind [THEN iffD2] wp_fget [THEN iffD2] wp_fput [THEN iffD2] wp_fail

lemma bind_create_keeps:
  assumes "f_trace s = []"
  shows "wp (vfi_local_bind_create E xf desc) (\<lambda>(ret, b) s'.
    ((ret = 0 \<and> b \<noteq> None \<and> binds_made (f_trace s') = 1 \<and> lists_made (f_trace s') = 1
       \<and> (\<exists>db sb. \<forall>x. tally (refs_to x) (f_trace s') = of_bool (x = db) + of_bool (x = sb)))
     \<or> (b = None \<and> binds_made (f_trace s') = 0 \<and> lists_made (f_trace s') = 0 \<and> (\<forall>x. tally (refs_to x) (f_trace s') = 0)))
    \<and> extent (f_desc s' xf) = extent (f_desc s xf) + extent (xfer desc)) s"
  unfolding vfi_local_bind_create_def undo_defs grow_def
  apply (intro wp_ready wp_intros)
  apply (simp_all add: assms binds_made_def lists_made_def)
  subgoal for _ _ _ _ _ _ _ _ db _ _ sb by (rule exI [of _ db], rule exI [of _ sb]) auto
  done

text \<open>What deleting binds has done: the binds deleted, and for a block the references it has lost and gained.\<close>

fun deleted :: "fevent \<Rightarrow> vfi_desc_param list" where
  "deleted (Fn nm hs (A_desc d), r) = (if nm = ''vfi_bind_delete'' then [d] else [])"
| "deleted e = []"

definition binds_deleted :: "fevent list \<Rightarrow> vfi_desc_param list" where
  "binds_deleted tr = concat (map deleted tr)"

fun found :: "nat \<Rightarrow> fevent \<Rightarrow> int" where
  "found x (Fn f hs a, ret, h) = (if f = ''find_vfi_smb'' \<and> ret = 0 \<and> h = Some x then 1 else 0)"
| "found x (Call l m, r) = 0"

fun put_back :: "nat \<Rightarrow> fevent \<Rightarrow> int" where
  "put_back x (Fn f hs a, r) = (if f = ''vfi_smb_put'' \<and> hs = [Some x] then 1 else 0)"
| "put_back x (Call l m, r) = 0"

lemma binds_deleted_simps [simp]:
  "binds_deleted [] = []" "binds_deleted (tr @ tr') = binds_deleted tr @ binds_deleted tr'"
  "binds_deleted (e # tr) = deleted e @ binds_deleted tr"
  by (simp_all add: binds_deleted_def)

definition evenly :: "(nat \<Rightarrow> vfi_bind_param) \<Rightarrow> vfi_desc_param list \<Rightarrow> fstate \<Rightarrow> bool" where
  "evenly B ds s \<longleftrightarrow> f_bdesc s = B \<and> binds_deleted (f_trace s) = ds
     \<and> (\<forall>x. tally (put_back x) (f_trace s) = 2 * tally (found x) (f_trace s))"

lemma give_back_evenly: "evenly B ds s \<Longrightarrow> wp (give_back E d) (\<lambda>_. evenly B ds) s"
  unfolding give_back_def
  by (intro wp_ready wp_intros; simp add: evenly_def)

lemma delete_bind_evenly:
  assumes "evenly B ds s"
  shows "wp (delete_bind E xf r b) (\<lambda>_. evenly B (ds @ (if in_range r (xfer (B b)) then [xfer (B b)] else []))) s"
proof -
  have B: "f_bdesc s = B" using assms by (simp add: evenly_def)
  show ?thesis
  proof (cases "in_range r (xfer (B b))")
    case False
    then show ?thesis using assms by (simp add: delete_bind_def B wp_simps)
  next
    case True
    have 1: "evenly B ds (s\<lparr>f_trace := f_trace s @ [(Fn ''dsts_delete'' [Some b] (A_bind p), ret, h)]\<rparr>)" for p ret h
      using assms by (simp add: evenly_def)
    show ?thesis
      unfolding delete_bind_def wp_fbind wp_fget B
      apply (simp only: True not_True_eq_False if_False if_True wp_fbind)
      apply (rule wp_op_do, unfold wp_fbind)
      apply (rule wp_mono [OF give_back_evenly [OF 1]])
      apply (rule wp_mono [OF give_back_evenly], assumption)
      apply (rule wp_fdo)
      apply (simp add: evenly_def)
      done
  qed
qed

lemma delete_binds_evenly:
  "evenly B ds s \<Longrightarrow> wp (for_each (delete_bind E xf r) bs)
     (\<lambda>_. evenly B (ds @ filter (in_range r) (map (\<lambda>b. xfer (B b)) bs))) s"
proof (induction bs arbitrary: ds s)
  case (Cons b bs)
  show ?case
    unfolding for_each.simps wp_fbind
    by (rule wp_mono [OF delete_bind_evenly [OF Cons.prems]]) (auto dest: Cons.IH)
qed (simp add: wp_fret)


text \<open>C31: Making a bind keeps all it takes or nothing. When it succeeds there is one bind with one list of
  destinations, and one reference is held to each of two blocks. When it fails (no bind, no list, a block
  that is not there, a range outside its block, no destinations), everything taken has been given back and
  no bind is returned. In either case the extent of the transfer has grown.\<close>

theorem bind_create_all_or_nothing:
  assumes "vfi_local_bind_create E xf desc (s\<lparr>f_trace := []\<rparr>) = Val ((ret, b), s')"
  shows "((ret = 0 \<and> b \<noteq> None \<and> binds_made (f_trace s') = 1 \<and> lists_made (f_trace s') = 1
       \<and> (\<exists>db sb. \<forall>x. tally (refs_to x) (f_trace s') = of_bool (x = db) + of_bool (x = sb)))
     \<or> (b = None \<and> binds_made (f_trace s') = 0 \<and> lists_made (f_trace s') = 0 \<and> (\<forall>x. tally (refs_to x) (f_trace s') = 0)))
    \<and> extent (f_desc s' xf) = extent (f_desc s xf) + extent (xfer desc)"
  using bind_create_keeps [of "s\<lparr>f_trace := []\<rparr>" E xf desc] assms by (auto simp: wp_def)

text \<open>The witness is a destination outside its block: the result is 0 all the same, with no bind.\<close>

definition local_desc :: vfi_desc_param where
  "local_desc = zero_desc\<lparr>ops := Some Vfi_local_ops, extent := 64\<rparr>"

definition local_bind :: vfi_bind_param where
  "local_bind = \<lparr>xfer = local_desc\<lparr>offset := 16\<rparr>, dst = local_desc, src = local_desc\<rparr>"

definition local_fstate :: fstate where
  "local_fstate = demo_fstate\<lparr>f_desc := (\<lambda>_. local_desc), f_bdesc := (\<lambda>b. local_bind\<lparr>xfer := local_desc\<lparr>offset := 16 * of_nat b\<rparr>\<rparr>)\<rparr>"


theorem bind_create_all_or_nothing_witness:
  "\<exists>s'. vfi_local_bind_create (demo_fenv []) 5 (local_bind\<lparr>dst := local_desc\<lparr>offset := 32\<rparr>\<rparr>) (local_fstate\<lparr>f_trace := []\<rparr>)
        = Val ((0, None), s')
     \<and> length (f_trace s') = 6 \<and> lists_made (f_trace s') = 0 \<and> tally (refs_to 9) (f_trace s') = 0 \<and> extent (f_desc s' 5) = 128"
proof -
  let ?m = "vfi_local_bind_create (demo_fenv []) 5 (local_bind\<lparr>dst := local_desc\<lparr>offset := 32\<rparr>\<rparr>) (local_fstate\<lparr>f_trace := []\<rparr>)"
  have len: "(case ?m of Val (r, s') \<Rightarrow> (r, length (f_trace s')) | Undef \<Rightarrow> ((1, None), 0)) = ((0, None), 6)" by code_simp
  then obtain s' where run: "?m = Val ((0, None), s')" "length (f_trace s') = 6" by (cases ?m) auto
  have "extent (f_desc local_fstate 5) + extent (xfer (local_bind\<lparr>dst := local_desc\<lparr>offset := 32\<rparr>\<rparr>)) = 128" by code_simp
  then show ?thesis
    using bind_create_all_or_nothing [OF run(1)] run by auto
qed

text \<open>C32: Deleting binds deletes exactly the members of the transfer whose offset is in the range given, both ends
  included, in order; and each block that is looked up for this is put twice, so that the reference a bind
  has kept since it was made is given back with that of the lookup.\<close>

theorem bind_delete_gives_back:
  assumes "vfi_local_bind_delete E L xf desc (s\<lparr>f_trace := []\<rparr>) = Val ((), s')"
  shows "binds_deleted (f_trace s') = filter (in_range desc) (map (\<lambda>b. xfer (f_bdesc s b)) (members L [] xf))
    \<and> (\<forall>x. tally (put_back x) (f_trace s') = 2 * tally (found x) (f_trace s'))"
proof -
  have "evenly (f_bdesc s) [] (s\<lparr>f_trace := []\<rparr>)" by (simp add: evenly_def)
  from delete_binds_evenly [OF this, of E xf desc "members L [] xf"] show ?thesis
    using assms by (auto simp: vfi_local_bind_delete_def wp_def fbind_def fget_def evenly_def)
qed

text \<open>The range of the witness is the 16 bytes from 16 on: the bind at 32, right behind it, is deleted too.\<close>

definition demo_lenv :: lenv where
  "demo_lenv = \<lparr>members = (\<lambda>_ _. [1, 2, 3]), list_in = (\<lambda>_ _. Some 4), slot = (\<lambda>_ _. 0)\<rparr>"


theorem bind_delete_gives_back_witness:
  "\<exists>s'. vfi_local_bind_delete (demo_fenv []) demo_lenv 5 (zero_desc\<lparr>offset := 16, extent := 16\<rparr>) (local_fstate\<lparr>f_trace := []\<rparr>)
        = Val ((), s')
     \<and> map offset (binds_deleted (f_trace s')) = [16, 32] \<and> tally (found 9) (f_trace s') = 4 \<and> tally (put_back 9) (f_trace s') = 8"
proof -
  let ?d = "zero_desc\<lparr>offset := 16, extent := 16\<rparr>"
  let ?m = "vfi_local_bind_delete (demo_fenv []) demo_lenv 5 ?d (local_fstate\<lparr>f_trace := []\<rparr>)"
  have f: "(case ?m of Val (r, s') \<Rightarrow> tally (found 9) (f_trace s') | Undef \<Rightarrow> 0) = 4" by code_simp
  then obtain s' where run: "?m = Val ((), s')" "tally (found 9) (f_trace s') = 4" by (cases ?m) auto
  have "map offset (filter (in_range ?d) (map (\<lambda>b. xfer (f_bdesc local_fstate b)) (members demo_lenv [] 5))) = [16, 32]"
    by code_simp
  then show ?thesis
    using bind_delete_gives_back [OF run(1)] run by auto
qed

section \<open>Events and blocks\<close>

fun event_made :: "fevent \<Rightarrow> nat option list" where
  "event_made (Fn f hs a, ret, h) = (if f = ''vfi_event_create'' \<and> ret = 0 then [h] else [])"
| "event_made (Call l m, r) = []"

fun list_refs :: "fevent \<Rightarrow> int" where
  "list_refs (Fn f hs a, ret, h) =
     (if (f = ''find_vfi_events'' \<or> f = ''vfi_events_create'') \<and> h \<noteq> None then 1
      else if f = ''vfi_events_put'' then - 1 else 0)"
| "list_refs (Call l m, r) = 0"

lemma dst_events_keep:
  assumes "f_trace s = []"
  shows "wp (vfi_local_dst_events E L b) (\<lambda>ret s'. tally list_refs (f_trace s') = 0 \<and>
    (ret = 0 \<and> concat (map event_made (f_trace s')) = [b_dst_done (f_binds s' b), b_dst_ready (f_binds s' b)]
       \<and> tally (calls_to ''vfi_event_put'') (f_trace s') = 0
     \<or> ret = - EINVAL
       \<and> tally (gains ''vfi_event_create'') (f_trace s') = tally (calls_to ''vfi_event_put'') (f_trace s'))) s"
  unfolding vfi_local_dst_events_def events_named_def slot_event_def set_events_def
  apply (intro wp_ready wp_intros)
  apply (simp_all add: assms)
  done

text \<open>Making the events of a destination on this node is all or nothing: the bind gets both of them, or each that
  was made is put again and the result is \<open>-EINVAL\<close>. The reference to the list of events is given back in
  every case, whether the list was found or made.\<close>

theorem dst_events_all_or_nothing:
  assumes "vfi_local_dst_events E L b (s\<lparr>f_trace := []\<rparr>) = Val (ret, s')"
  shows "tally list_refs (f_trace s') = 0 \<and>
    (ret = 0 \<and> concat (map event_made (f_trace s')) = [b_dst_done (f_binds s' b), b_dst_ready (f_binds s' b)]
       \<and> tally (calls_to ''vfi_event_put'') (f_trace s') = 0
     \<or> ret = - EINVAL
       \<and> tally (gains ''vfi_event_create'') (f_trace s') = tally (calls_to ''vfi_event_put'') (f_trace s'))"
  using dst_events_keep [of "s\<lparr>f_trace := []\<rparr>" E L b] assms by (auto simp: wp_def)

text \<open>An environment in which the event with a callback cannot be made.\<close>

definition refuses_callbacks :: fenv where
  "refuses_callbacks = (demo_fenv [])\<lparr>fanswer := (\<lambda>tr c.
     case c of Fn f hs a \<Rightarrow> if f = ''vfi_event_create'' \<and> a \<noteq> A_text '''' then (- ENOMEM, None) else (0, Some 9)
     | Call l m \<Rightarrow> (0, None))\<rparr>"


theorem dst_events_all_or_nothing_witness:
  "\<exists>s'. vfi_local_dst_events refuses_callbacks demo_lenv 2 (bind_fstate\<lparr>f_trace := []\<rparr>) = Val (- EINVAL, s')
     \<and> tally list_refs (f_trace s') = 0 \<and> tally (calls_to ''vfi_event_put'') (f_trace s') = 1
     \<and> tally (gains ''vfi_event_create'') (f_trace s') = 1"
proof -
  let ?m = "vfi_local_dst_events refuses_callbacks demo_lenv 2 (bind_fstate\<lparr>f_trace := []\<rparr>)"
  have f: "(case ?m of Val (r, s') \<Rightarrow> (r, tally (calls_to ''vfi_event_put'') (f_trace s')) | Undef \<Rightarrow> (0, 0)) = (- EINVAL, 1)"
    by code_simp
  then obtain s' where run: "?m = Val (- EINVAL, s')" "tally (calls_to ''vfi_event_put'') (f_trace s') = 1" by (cases ?m) auto
  then show ?thesis
    using dst_events_all_or_nothing [OF run(1)] by auto
qed

text \<open>
  The events of the source: after a failure to make the second, the bind still names the first, which has
  been put. The next attempt takes that for success.
\<close>

lemma src_events_forget_their_failure:
  "\<exists>s1. vfi_local_src_events refuses_callbacks demo_lenv 2 named_bind bind_fstate = Val (- EINVAL, s1)
     \<and> tally (calls_to ''vfi_event_put'') (f_trace s1) = 1
     \<and> vfi_local_src_events refuses_callbacks demo_lenv 2 named_bind s1 = Val (0, s1)"
proof -
  let ?m = "vfi_local_src_events refuses_callbacks demo_lenv 2 named_bind bind_fstate"
  have f: "(case ?m of Val (r, s') \<Rightarrow> (r, tally (calls_to ''vfi_event_put'') (f_trace s'), b_src_done (f_binds s' 2))
      | Undef \<Rightarrow> (0, 0, None)) = (- EINVAL, 1, Some 9)" by code_simp
  then obtain s1 where "?m = Val (- EINVAL, s1)" "tally (calls_to ''vfi_event_put'') (f_trace s1) = 1"
    "b_src_done (f_binds s1 2) = Some 9" by (cases ?m) auto
  moreover have "bind_of refuses_callbacks 2 = Some 2" by (simp add: refuses_callbacks_def demo_fenv_def)
  ultimately show ?thesis
    by (auto simp: vfi_local_src_events_def fbind_def fget_def fret_def)
qed

lemma smb_create_keeps:
  assumes "f_trace s = []"
  shows "wp (vfi_local_smb_create E loc desc) (\<lambda>(ret, smb) s'.
     case smb of
       None \<Rightarrow> tally (gains ''vfi_smb_create'') (f_trace s') = tally (calls_to ''vfi_smb_delete'') (f_trace s')
     | Some a \<Rightarrow> ret = 0 \<and> offset (f_desc s' a) \<le> 4064 \<and> tally (calls_to ''vfi_smb_delete'') (f_trace s') = 0
         \<and> tally (gains ''vfi_alloc_pages'') (f_trace s') = 1) s"
  unfolding vfi_local_smb_create_def drop_block_def
  apply (intro wp_ready wp_intros)
  apply (simp_all add: assms)
  done

text \<open>Making a block on this node gives a block that has its pages and that begins at least 32 bytes before the end
  of its first page, or gives none and has deleted what it made. That happens with the result 0 when neither
  an extent nor the option for it is given.\<close>

theorem smb_create_has_pages_or_is_deleted:
  assumes "vfi_local_smb_create E loc desc (s\<lparr>f_trace := []\<rparr>) = Val ((ret, smb), s')"
  shows "case smb of
       None \<Rightarrow> tally (gains ''vfi_smb_create'') (f_trace s') = tally (calls_to ''vfi_smb_delete'') (f_trace s')
     | Some a \<Rightarrow> ret = 0 \<and> offset (f_desc s' a) \<le> 4064 \<and> tally (calls_to ''vfi_smb_delete'') (f_trace s') = 0
         \<and> tally (gains ''vfi_alloc_pages'') (f_trace s') = 1"
  using smb_create_keeps [of "s\<lparr>f_trace := []\<rparr>" E loc desc] assms by (auto simp: wp_def)

text \<open>A block with the option \<open>map_address=12345\<close>, whose 64 bytes grow by the offset \<open>345\<close>, and one with no extent.\<close>

definition mapped_desc :: vfi_desc_param where
  "mapped_desc = zero_desc\<lparr>buf := Some (''b'' @ [NUL] @ ''map_address=12345'' @ [NUL]), name := Some 0, location := Some 0,
     query := Some [Some 2, None], extent := 64\<rparr>"


theorem smb_create_has_pages_or_is_deleted_witness:
  "\<exists>s' s''. vfi_local_smb_create (demo_fenv []) 1 mapped_desc (demo_fstate\<lparr>f_desc := (\<lambda>_. mapped_desc), f_trace := []\<rparr>) = Val ((0, Some 9), s')
     \<and> offset (f_desc s' 9) = 837 \<and> extent (f_desc s' 9) = 901 \<and> offset (f_desc s' 9) \<le> 4064
     \<and> vfi_local_smb_create (demo_fenv []) 1 zero_desc (demo_fstate\<lparr>f_desc := (\<lambda>_. zero_desc), f_trace := []\<rparr>) = Val ((0, None), s'')
     \<and> tally (gains ''vfi_smb_create'') (f_trace s'') = tally (calls_to ''vfi_smb_delete'') (f_trace s'')"
proof -
  let ?m = "vfi_local_smb_create (demo_fenv []) 1 mapped_desc (demo_fstate\<lparr>f_desc := (\<lambda>_. mapped_desc), f_trace := []\<rparr>)"
  let ?n = "vfi_local_smb_create (demo_fenv []) 1 zero_desc (demo_fstate\<lparr>f_desc := (\<lambda>_. zero_desc), f_trace := []\<rparr>)"
  have f: "(case ?m of Val (r, s') \<Rightarrow> (r, offset (f_desc s' 9), extent (f_desc s' 9)) | Undef \<Rightarrow> ((1, None), 0, 0)) = ((0, Some 9), 837, 901)"
    by code_simp
  obtain s' where m: "?m = Val ((0, Some 9), s')" "offset (f_desc s' 9) = 837" "extent (f_desc s' 9) = 901"
    using f by (cases ?m) auto
  have f: "(case ?n of Val (r, s') \<Rightarrow> r | Undef \<Rightarrow> (1, None)) = (0, None)" by code_simp
  obtain s'' where n: "?n = Val ((0, None), s'')" using f by (cases ?n) auto
  show ?thesis
    using m n smb_create_has_pages_or_is_deleted [OF m(1)] smb_create_has_pages_or_is_deleted [OF n] by simp
qed

section \<open>The barrier\<close>

definition arrivals :: "sync_event list \<Rightarrow> u64 list" where
  "arrivals es = List.map_filter arrival es"

lemma arrivals_simps [simp]:
  "arrivals [] = []" "arrivals (Send v # es) = v # arrivals es" "arrivals (Wait p v # es) = v # arrivals es"
  "arrivals (Wake p # es) = arrivals es" "arrivals (Signal p # es) = arrivals es"
  by (simp_all add: arrivals_def List.map_filter_def)

definition arrived :: "nat \<Rightarrow> nat \<Rightarrow> u32" where
  "arrived n k = (if k mod n = 0 then 0 else of_nat (n - k mod n))"

lemma value_fits: "n = unat (ucast v :: u32) \<Longrightarrow> n < 2 ^ 32"
  using unsigned_less [of "ucast v :: u32", where 'a = nat] by simp

lemma of_nat_small: "0 < m \<Longrightarrow> m < 2 ^ 32 \<Longrightarrow> (of_nat m :: u32) \<noteq> 0"
  by (simp add: word_of_nat_eq_0_iff) (auto dest: nat_dvd_not_less)

lemma arrive_counts:
  assumes n: "n = unat (ucast v :: u32)" "0 < n"
  shows "arrive v (arrived n k) = arrived n (Suc k)"
proof -
  note b = value_fits [OF n(1)]
  have v: "(ucast v :: u32) = of_nat n" by (simp add: n(1))
  have m: "k mod n < n" using n(2) by simp
  show ?thesis
  proof (cases "k mod n = 0")
    case True
    then show ?thesis
      using of_nat_small [of n] n(2) b v
      by (cases "n = 1") (auto simp: arrive_def arrived_def mod_Suc of_nat_diff Let_def)
  next
    case False
    define r where "r = n - Suc (k mod n)"
    have r: "n - k mod n = Suc r" using m by (simp add: r_def)
    moreover have "(of_nat (Suc r) :: u32) \<noteq> 0" using m b r by (intro of_nat_small) auto
    ultimately show ?thesis
      using False m by (auto simp: arrive_def arrived_def mod_Suc Let_def r_def simp del: of_nat_diff)
  qed
qed

lemma sync_run_append: "sync_run (es @ es') s = sync_run es' (sync_run es s)"
  by (induction es arbitrary: s) auto

lemma sync_counts:
  assumes n: "n = unat (ucast v :: u32)" "0 < n" and k: "sy_count s = arrived n k" and "set (arrivals es) \<subseteq> {v}"
  shows "sy_count (sync_run es s) = arrived n (k + length (arrivals es))"
  using k assms(4)
proof (induction es arbitrary: k s)
  case (Cons e es)
  note step = arrive_counts [OF n]
  show ?case
  proof (cases e)
    case (Send w)
    then show ?thesis using Cons.prems Cons.IH [of "sync_do e s" "Suc k"] step by (simp add: vfi_local_sync_send_def)
  next
    case (Wait p w)
    then show ?thesis using Cons.prems Cons.IH [of "sync_do e s" "Suc k"] step by (simp add: vfi_local_sync_wait_def Let_def)
  next
    case (Wake p)
    then show ?thesis using Cons.prems Cons.IH [of "sync_do e s" k] by (simp add: vfi_local_sync_wake_def)
  next
    case (Signal p)
    then show ?thesis using Cons.prems Cons.IH [of "sync_do e s" k] by (simp add: vfi_local_sync_wake_def)
  qed
qed simp

lemma arrived_0:
  assumes "0 < n" "n < 2 ^ 32"
  shows "arrived n k = 0 \<longleftrightarrow> n dvd k"
proof -
  have "k mod n < n" using assms(1) by simp
  then show ?thesis
    using of_nat_small [of "n - k mod n"] assms by (auto simp: arrived_def mod_eq_0_iff_dvd)
qed

text \<open>C33: A synchroniser is a barrier for rounds of \<open>n\<close>. When all who arrive, sending or waiting, bring the value
  \<open>n\<close>, a process that sleeps leaves when it looks again after \<open>k\<close> arrivals just if \<open>k\<close> is a multiple of \<open>n\<close>;
  so one that is late to look while the first of the next round arrives stays for that round.\<close>

theorem barrier_opens_after_each_round:
  assumes "n = unat (ucast v :: u32)" "0 < n" "set (arrivals es) \<subseteq> {v}" "p \<in> sy_asleep (sync_run es \<lparr>sy_count = 0, sy_asleep = {}\<rparr>)"
  shows "p \<in> sy_asleep (sync_run (es @ [Wake p]) \<lparr>sy_count = 0, sy_asleep = {}\<rparr>) \<longleftrightarrow> \<not> n dvd length (arrivals es)"
proof -
  let ?s = "sync_run es \<lparr>sy_count = 0, sy_asleep = {}\<rparr>"
  have "sy_count ?s = 0 \<longleftrightarrow> n dvd length (arrivals es)"
    using sync_counts [OF assms(1,2) _ assms(3), of "\<lparr>sy_count = 0, sy_asleep = {}\<rparr>" 0] arrived_0 [OF assms(2) value_fits [OF assms(1)]]
    by (simp add: arrived_def)
  then show ?thesis using assms(4) by (simp add: sync_run_append vfi_local_sync_wake_def)
qed

text \<open>Three processes; the first looks in time, the second only after a fourth arrival.\<close>


theorem barrier_opens_after_each_round_witness:
  "let round = [Wait 7 3, Wait 8 3, Send 3]; s0 = \<lparr>sy_count = 0, sy_asleep = {}\<rparr>
   in 7 \<notin> sy_asleep (sync_run (round @ [Wake 7]) s0)
     \<and> 8 \<in> sy_asleep (sync_run ((round @ [Wake 7, Send 3]) @ [Wake 8]) s0)"
proof -
  have n: "3 = unat (ucast (3 :: u64) :: u32)" by simp
  let ?s0 = "\<lparr>sy_count = 0, sy_asleep = {}\<rparr>"
  have a: "7 \<in> sy_asleep (sync_run [Wait 7 3, Wait 8 3, Send 3] ?s0)"
    "8 \<in> sy_asleep (sync_run ([Wait 7 3, Wait 8 3, Send 3] @ [Wake 7, Send 3]) ?s0)"
    by (simp_all add: vfi_local_sync_wait_def vfi_local_sync_send_def vfi_local_sync_wake_def arrive_def Let_def)
  have d: "3 dvd Suc (Suc (Suc 0))" "\<not> 3 dvd Suc (Suc (Suc (Suc 0)))" by presburger+
  have "7 \<notin> sy_asleep (sync_run ([Wait 7 3, Wait 8 3, Send 3] @ [Wake 7]) ?s0)"
    using barrier_opens_after_each_round [OF n _ _ a(1)] d by (simp del: sync_run.simps)
  moreover have "8 \<in> sy_asleep (sync_run (([Wait 7 3, Wait 8 3, Send 3] @ [Wake 7, Send 3]) @ [Wake 8]) ?s0)"
    using barrier_opens_after_each_round [OF n _ _ a(2)] d by (simp del: sync_run.simps)
  ultimately show ?thesis unfolding Let_def by blast
qed

section \<open>Chains of lists of events\<close>

fun follow :: "(nat \<Rightarrow> nat option) \<Rightarrow> nat \<Rightarrow> nat option \<Rightarrow> nat option" where
  "follow nx 0 l = l"
| "follow nx (Suc n) l = (case l of None \<Rightarrow> None | Some a \<Rightarrow> follow nx n (nx a))"

lemma start_from_simps: "start_from nx None = Some []"
  "start_from nx (Some a) = map_option (\<lambda>ls. a # ls) (start_from nx (nx a))"
  by (subst start_from.simps; auto split: Option.bind_split)+

lemma start_ends: "follow nx n l = None \<Longrightarrow> \<exists>ls. start_from nx l = Some ls"
  by (induction n arbitrary: l) (auto simp: start_from_simps split: option.splits)

lemma start_follows: "start_from nx l = Some ls \<Longrightarrow> follow nx (length ls) l = None \<and> (\<forall>b\<in>set ls. \<exists>k. start_from nx (Some b) = Some (drop k ls))"
proof (induction ls arbitrary: l)
  case Nil
  then show ?case by (cases l) (auto simp: start_from_simps)
next
  case (Cons a ls)
  then have "l = Some a" and r: "start_from nx (nx a) = Some ls"
    by (cases l; auto simp: start_from_simps)+
  then show ?case
    using Cons.IH [OF r] Cons.prems by (auto intro: exI [of _ 0] exI [of _ "Suc _"] dest: spec [of _ "Suc _"])
      (metis drop_Suc_Cons)
qed

lemma start_distinct: "start_from nx l = Some ls \<Longrightarrow> distinct ls"
proof (induction ls arbitrary: l)
  case (Cons a ls)
  then have la: "l = Some a" and r: "start_from nx (nx a) = Some ls"
    by (cases l; auto simp: start_from_simps)+
  have "a \<notin> set ls"
  proof
    assume "a \<in> set ls"
    then obtain k where "start_from nx (Some a) = Some (drop k ls)" using start_follows [OF r] by blast
    with Cons.prems la have "a # ls = drop k ls" by simp
    then have "length (a # ls) = length (drop k ls)" by (rule arg_cong)
    then show False by simp
  qed
  with Cons.IH [OF r] show ?case by simp
qed simp


text \<open>The witness: two lists, chained once; chaining the second to the first as well closes a circle, and starting
  either never returns.\<close>

definition two_lists :: event_lists where
  "two_lists = \<lparr>ev_find = (\<lambda>nm. if nm = ''b'' then Some 1 else if nm = ''e'' then Some 2 else None),
     ev_next = (\<lambda>_. None), ev_prev = (\<lambda>_. None), ev_refs = (\<lambda>_. 1)\<rparr>"

definition back_desc :: vfi_desc_param where
  "back_desc = zero_desc\<lparr>buf := Some (''e'' @ [NUL] @ ''event_name=b'' @ [NUL]), name := Some 0, location := Some 0,
     query := Some [Some 2, None]\<rparr>"



end
