(* ===== verification/Vfi_Objects.thy ===== *)
theory Vfi_Objects
  imports Vfi_Local
begin

text \<open>
  Making, finding and deleting the objects that commands name (\<open>vfi_location.c\<close>, \<open>vfi_smb.c\<close>, \<open>vfi_xfer.c\<close>,
  \<open>vfi_sync.c\<close>, \<open>vfi_bind.c\<close>, \<open>vfi_dst.c\<close>, \<open>vfi_src.c\<close>, \<open>vfi_event.c\<close> and their lists), in the monad of
  \<open>Vfi_Fabric_Ops\<close>. The kernel allocates, registers, looks up and releases; its answers are the environment,
  and what it is asked for (which object, in which list, under which name) is in the trace. The root of all
  locations is the object 0. Attributes shown in sysfs are not modelled.
\<close>

section \<open>New objects\<close>

text \<open>An object is registered in a list under a name. If that fails its first reference is put.\<close>

definition enter :: "fenv \<Rightarrow> string \<Rightarrow> string \<Rightarrow> nat \<Rightarrow> nat \<Rightarrow> string cres \<Rightarrow> (errno \<times> nat option) fm" where
  "enter E how undo h l nm =
     fbind (flift nm) (\<lambda>t.
     fbind (fn E how [Some h, Some l] (A_text t)) (\<lambda>(ret, _).
       if ret \<noteq> 0 then fbind (fdo E undo [Some h] A_none) (\<lambda>_. fret (ret, None)) else fret (ret, Some h)))"

definition allocate :: "fenv \<Rightarrow> (nat \<Rightarrow> (errno \<times> nat option) fm) \<Rightarrow> (errno \<times> nat option) fm" where
  "allocate E f =
     fbind (fn E ''kzalloc'' [] A_none) (\<lambda>(_, h). case h of None \<Rightarrow> fret (- ENOMEM, None) | Some h \<Rightarrow> f h)"

text \<open>Steps on the descriptors of an object.\<close>

definition on_desc :: "nat \<Rightarrow> (fstate \<Rightarrow> vfi_desc_param \<times> ref_state) \<Rightarrow> unit fm" where
  "on_desc h f = fput (\<lambda>s. let (d, r) = f s in s\<lparr>f_refs := r, f_desc := (f_desc s)(h := d)\<rparr>)"

definition on_bdesc :: "nat \<Rightarrow> (fstate \<Rightarrow> vfi_bind_param \<times> ref_state) \<Rightarrow> unit fm" where
  "on_bdesc h f = fput (\<lambda>s. let (d, r) = f s in s\<lparr>f_refs := r, f_bdesc := (f_bdesc s)(h := d)\<rparr>)"

definition clone_desc_of :: "fenv \<Rightarrow> nat \<Rightarrow> vfi_desc_param \<Rightarrow> unit fm" where
  "clone_desc_of E h desc = on_desc h (\<lambda>s. snd (vfi_clone_desc (fkmem E (f_trace s)) zero_desc desc (f_refs s)))"

definition zero_bind :: vfi_bind_param where
  "zero_bind = \<lparr>xfer = zero_desc, dst = zero_desc, src = zero_desc\<rparr>"

definition clone_bind_of :: "fenv \<Rightarrow> nat \<Rightarrow> vfi_bind_param \<Rightarrow> unit fm" where
  "clone_bind_of E h p = on_bdesc h (\<lambda>s.
     let (m1, m2, m3, _) = fkmem4 E (f_trace s) in snd (vfi_clone_bind (m1, m2, m3) zero_bind p (f_refs s)))"

text \<open>Blocks, transfers and synchronisers take what they lack from their location.\<close>

definition at_place :: "nat \<Rightarrow> nat \<Rightarrow> unit fm" where
  "at_place h loc = on_desc h (\<lambda>s.
     let (d, r) = vfi_inherit (f_desc s h) (f_desc s loc) (f_refs s) in vfi_update_ploc d (Some loc) r)"

definition new_vfi_smb :: "fenv \<Rightarrow> nat \<Rightarrow> vfi_desc_param \<Rightarrow> (errno \<times> nat option) fm" where
  "new_vfi_smb E loc desc = allocate E (\<lambda>h.
     fbind (clone_desc_of E h desc) (\<lambda>_. fbind (at_place h loc) (\<lambda>_.
     fbind (fget (\<lambda>s. (has_smbs E (f_trace s) loc, f_desc s h))) (\<lambda>(there, d).
       if \<not> there then fail else enter E ''kset_register'' ''kset_put'' h loc (text_of d (name d))))))"

definition vfi_smb_create :: "fenv \<Rightarrow> nat \<Rightarrow> vfi_desc_param \<Rightarrow> (errno \<times> nat option) fm" where
  "vfi_smb_create E loc desc = new_vfi_smb E loc desc"

definition vfi_smb_delete :: "fenv \<Rightarrow> nat \<Rightarrow> unit fm" where
  "vfi_smb_delete E smb = fdo E ''vfi_smb_put'' [Some smb] A_none"

definition new_vfi_xfer :: "fenv \<Rightarrow> nat \<Rightarrow> vfi_desc_param \<Rightarrow> (errno \<times> nat option) fm" where
  "new_vfi_xfer E loc desc = allocate E (\<lambda>h.
     fbind (clone_desc_of E h desc) (\<lambda>_. fbind (at_place h loc) (\<lambda>_.
     fbind (fget (\<lambda>s. has_xfers E (f_trace s) loc)) (\<lambda>there.
       if \<not> there then fail else enter E ''kset_register'' ''kset_put'' h loc (text_of desc (name desc))))))"

text \<open>A transfer that is there already is returned with the reference of the search.\<close>

definition vfi_xfer_create :: "fenv \<Rightarrow> nat \<Rightarrow> vfi_desc_param \<Rightarrow> (errno \<times> nat option) fm" where
  "vfi_xfer_create E loc desc =
     fbind (fget (\<lambda>s. has_xfers E (f_trace s) loc)) (\<lambda>there.
       if \<not> there then fail
       else fbind (kfind E loc (text_of desc (name desc))) (\<lambda>(_, xf).
         if xf \<noteq> None then fret (0, xf)
         else fbind (new_vfi_xfer E loc desc) (\<lambda>(ret, xf). fret (ret, if ret \<noteq> 0 then None else xf))))"

definition vfi_xfer_delete :: "fenv \<Rightarrow> nat \<Rightarrow> unit fm" where
  "vfi_xfer_delete E xf = fdo E ''vfi_xfer_put'' [Some xf] A_none"

definition new_vfi_sync :: "fenv \<Rightarrow> nat \<Rightarrow> vfi_desc_param \<Rightarrow> (errno \<times> nat option) fm" where
  "new_vfi_sync E loc desc = allocate E (\<lambda>h.
     fbind (clone_desc_of E h desc) (\<lambda>_. fbind (at_place h loc) (\<lambda>_.
     fbind (fget (\<lambda>s. (has_syncs E (f_trace s) loc, f_desc s h))) (\<lambda>(there, d).
       if \<not> there then fail else enter E ''kobject_init_and_add'' ''kobject_put'' h loc (text_of d (name d))))))"

definition vfi_sync_create :: "fenv \<Rightarrow> nat \<Rightarrow> vfi_desc_param \<Rightarrow> (errno \<times> nat option) fm" where
  "vfi_sync_create E loc desc = new_vfi_sync E loc desc"

definition vfi_sync_delete :: "fenv \<Rightarrow> nat \<Rightarrow> unit fm" where
  "vfi_sync_delete E sy = fdo E ''vfi_sync_put'' [Some sy] A_none"

section \<open>Binds\<close>

text \<open>
  All three sides of a bind inherit from its transfer, then the operations of both ends are the local ones.
\<close>

definition no_events :: bind_events where
  "no_events = \<lparr>b_dst_ready = None, b_dst_ready_id = - 1, b_dst_done = None, b_dst_done_id = - 1,
     b_src_ready = None, b_src_ready_id = - 1, b_src_done = None, b_src_done_id = - 1\<rparr>"

definition new_vfi_bind :: "fenv \<Rightarrow> nat \<Rightarrow> vfi_bind_param \<Rightarrow> (errno \<times> nat option) fm" where
  "new_vfi_bind E xf desc = allocate E (\<lambda>h.
     fbind (clone_bind_of E h desc) (\<lambda>_.
     fbind (on_bdesc h (\<lambda>s.
         let p = f_bdesc s h; x = f_desc s xf;
             (cx, r1) = vfi_inherit (xfer p) x (f_refs s); (cd, r2) = vfi_inherit (dst p) x r1; (cs, r3) = vfi_inherit (src p) x r2
         in (\<lparr>xfer = cx, dst = cd\<lparr>ops := Some Vfi_local_ops\<rparr>, src = cs\<lparr>ops := Some Vfi_local_ops\<rparr>\<rparr>, r3))) (\<lambda>_.
     fbind (set_events h (\<lambda>_. no_events)) (\<lambda>_.
     enter E ''kobject_init_and_add'' ''kobject_put'' h xf (Val (bind_name (xfer desc)))))))"

definition vfi_bind_create :: "fenv \<Rightarrow> nat \<Rightarrow> vfi_bind_param \<Rightarrow> (errno \<times> nat option) fm" where
  "vfi_bind_create E xf desc =
     fbind (kfind E xf (Val (bind_name (xfer desc)))) (\<lambda>(_, b).
       if b \<noteq> None then fret (0, b) else new_vfi_bind E xf desc)"

text \<open>Deleting puts twice, for the search and for the first reference.\<close>

definition vfi_bind_delete :: "fenv \<Rightarrow> nat \<Rightarrow> vfi_desc_param \<Rightarrow> unit fm" where
  "vfi_bind_delete E xf desc =
     fbind (kfind E xf (Val (bind_name desc))) (\<lambda>(_, b).
     fbind (fdo E ''vfi_bind_put'' [b] A_none) (\<lambda>_. fdo E ''vfi_bind_put'' [b] A_none))"

section \<open>Destinations and sources\<close>

definition inherit_bind :: "nat \<Rightarrow> nat \<Rightarrow> unit fm" where
  "inherit_bind h parent = on_bdesc h (\<lambda>s. vfi_bind_inherit (f_bdesc s h) (f_bdesc s parent) (f_refs s))"

definition change_bind :: "nat \<Rightarrow> (vfi_bind_param \<Rightarrow> vfi_bind_param) \<Rightarrow> unit fm" where
  "change_bind h f = on_bdesc h (\<lambda>s. (f (f_bdesc s h), f_refs s))"

definition dst_name :: "vfi_bind_param \<Rightarrow> string cres" where
  "dst_name p = cat [fmt_name (dst p), Val (''#'' @ hex_of_nat (unat (offset (dst p))))]"

text \<open>The list that a destination or source goes into must be there.\<close>

definition enter_list :: "fenv \<Rightarrow> lenv \<Rightarrow> nat \<Rightarrow> nat \<Rightarrow> (vfi_bind_param \<Rightarrow> string cres) \<Rightarrow> (errno \<times> nat option) fm" where
  "enter_list E L h parent nm =
     fbind (fget (\<lambda>s. (list_in L (f_trace s) parent, f_bdesc s h))) (\<lambda>(l, p).
       case l of None \<Rightarrow> fail | Some l \<Rightarrow> enter E ''kobject_init_and_add'' ''kobject_put'' h l (nm p))"

definition new_vfi_dst :: "fenv \<Rightarrow> lenv \<Rightarrow> nat \<Rightarrow> vfi_bind_param \<Rightarrow> (errno \<times> nat option) fm" where
  "new_vfi_dst E L parent desc = allocate E (\<lambda>h.
     fbind (clone_bind_of E h desc) (\<lambda>_.
     fbind (change_bind h (\<lambda>p. p\<lparr>dst := (dst p)\<lparr>extent := extent (src p)\<rparr>\<rparr>)) (\<lambda>_.
     fbind (inherit_bind h parent) (\<lambda>_. enter_list E L h parent dst_name))))"

definition vfi_dst_create :: "fenv \<Rightarrow> lenv \<Rightarrow> nat \<Rightarrow> vfi_bind_param \<Rightarrow> (errno \<times> nat option) fm" where
  "vfi_dst_create E L parent desc = new_vfi_dst E L parent desc"

text \<open>A name of 128 characters and more is not survived: \<open>krealloc\<close> is given the address of the pointer.\<close>

definition vfi_dst_delete :: "fenv \<Rightarrow> lenv \<Rightarrow> nat \<Rightarrow> vfi_bind_param \<Rightarrow> unit fm" where
  "vfi_dst_delete E L b desc =
     fbind (fn E ''kmalloc'' [] A_none) (\<lambda>(_, m).
     fbind (flift (dst_name desc)) (\<lambda>t.
       if m = None \<or> 128 \<le> length t then fail
       else fbind (fget (\<lambda>s. list_in L (f_trace s) b)) (\<lambda>l.
         case l of
           None \<Rightarrow> fail
         | Some l \<Rightarrow>
             fbind (kfind E l (Val t)) (\<lambda>(_, d).
               if d = None then fret ()
               else fbind (fdo E ''vfi_dst_put'' [d] A_none) (\<lambda>_. fdo E ''vfi_dst_put'' [d] A_none)))))"

text \<open>
  A source contains descriptors for the DMA controller and is to be aligned to 32 bytes; the pointer that is
  returned is, but what is filled in and registered is the object at the address from the kernel. The
  address of the destination is in \<open>dst.extent\<close> of the parameters.
\<close>

definition aligned :: "nat \<Rightarrow> nat" where
  "aligned a = (if a mod 32 = 0 then a else (a + 32) div 32 * 32)"

definition new_vfi_src :: "fenv \<Rightarrow> lenv \<Rightarrow> nat \<Rightarrow> vfi_bind_param \<Rightarrow> (errno \<times> nat option) fm" where
  "new_vfi_src E L parent desc = allocate E (\<lambda>h.
     fbind (clone_bind_of E h desc) (\<lambda>_.
     fbind (inherit_bind h parent) (\<lambda>_.
     fbind (change_bind h (\<lambda>p. p\<lparr>dst := (dst p)\<lparr>offset := ucast (extent (dst p)), extent := extent (src p)\<rparr>\<rparr>)) (\<lambda>_.
     fbind (enter_list E L h parent (\<lambda>p. fmt_full (src p))) (\<lambda>(ret, x). fret (ret, map_option aligned x))))))"

definition vfi_src_create :: "fenv \<Rightarrow> lenv \<Rightarrow> nat \<Rightarrow> vfi_bind_param \<Rightarrow> (errno \<times> nat option) fm" where
  "vfi_src_create E L parent desc = new_vfi_src E L parent desc"

definition find_vfi_src :: "fenv \<Rightarrow> lenv \<Rightarrow> vfi_desc_param \<Rightarrow> nat \<Rightarrow> (errno \<times> nat option) fm" where
  "find_vfi_src E L desc parent =
     fbind (fget (\<lambda>s. list_in L (f_trace s) parent)) (\<lambda>l.
       case l of None \<Rightarrow> fail | Some l \<Rightarrow> find_in E True 1 l (Val (bind_name desc)))"

text \<open>The name is cut to the buffer.\<close>

definition vfi_src_delete :: "fenv \<Rightarrow> lenv \<Rightarrow> nat \<Rightarrow> vfi_bind_param \<Rightarrow> unit fm" where
  "vfi_src_delete E L parent desc =
     fbind (flift (fmt_full (src desc))) (\<lambda>t.
     fbind (fget (\<lambda>s. list_in L (f_trace s) parent)) (\<lambda>l.
       case l of
         None \<Rightarrow> fail
       | Some l \<Rightarrow>
           fbind (kfind E l (Val (take 127 t))) (\<lambda>(_, x).
             if x = None then fret ()
             else fbind (fdo E ''vfi_src_put'' [x] A_none) (\<lambda>_. fdo E ''vfi_src_put'' [x] A_none))))"

section \<open>Lists of objects\<close>

text \<open>The lists of a location; one that is there already is not an error, but is not found either.\<close>

definition new_set :: "fenv \<Rightarrow> string \<Rightarrow> nat \<Rightarrow> (errno \<times> nat option) fm" where
  "new_set E nm parent = allocate E (\<lambda>h. enter E ''kset_register'' ''kset_put'' h parent (Val nm))"

definition new_vfi_smbs :: "fenv \<Rightarrow> nat \<Rightarrow> (errno \<times> nat option) fm" where
  "new_vfi_smbs E parent = new_set E ''smbs'' parent"

definition new_vfi_xfers :: "fenv \<Rightarrow> nat \<Rightarrow> (errno \<times> nat option) fm" where
  "new_vfi_xfers E parent = new_set E ''xfers'' parent"

definition new_vfi_syncs :: "fenv \<Rightarrow> nat \<Rightarrow> (errno \<times> nat option) fm" where
  "new_vfi_syncs E parent = new_set E ''syncs'' parent"

text \<open>The lists of destinations and of sources. The third component is what the pointer of the parent is set to.\<close>

definition new_vfi_dsts :: "fenv \<Rightarrow> vfi_bind_param \<Rightarrow> nat \<Rightarrow> (errno \<times> nat option) fm" where
  "new_vfi_dsts E p parent = allocate E (\<lambda>h.
     enter E ''kset_register'' ''kset_put'' h parent (cat [fmt_full (dst p), Val ''='', fmt_full (src p)]))"

definition vfi_dsts_create :: "fenv \<Rightarrow> lenv \<Rightarrow> nat \<Rightarrow> vfi_bind_param \<Rightarrow> (errno \<times> nat option \<times> nat option) fm" where
  "vfi_dsts_create E L parent desc =
     fbind (fget (\<lambda>s. list_in L (f_trace s) parent)) (\<lambda>l.
       if l \<noteq> None then fret (0, l, l) else fbind (new_vfi_dsts E desc parent) (\<lambda>(ret, d). fret (ret, d, d)))"

definition vfi_dsts_delete :: "fenv \<Rightarrow> nat option \<Rightarrow> unit fm" where
  "vfi_dsts_delete E l = (if l = None then fret () else fdo E ''kset_unregister'' [l] A_none)"

definition new_vfi_srcs :: "fenv \<Rightarrow> vfi_bind_param \<Rightarrow> nat \<Rightarrow> (errno \<times> nat option) fm" where
  "new_vfi_srcs E p parent = allocate E (\<lambda>h. enter E ''kset_register'' ''kset_put'' h parent (fmt_full (src p)))"

definition vfi_srcs_create :: "fenv \<Rightarrow> nat \<Rightarrow> vfi_bind_param \<Rightarrow> (errno \<times> nat option) fm" where
  "vfi_srcs_create E parent desc = new_vfi_srcs E desc parent"

definition vfi_srcs_delete :: "fenv \<Rightarrow> nat \<Rightarrow> unit fm" where
  "vfi_srcs_delete E l = fdo E ''kset_unregister'' [Some l] A_none"

section \<open>Events\<close>

text \<open>An event is named after the address of its descriptor (\<open>slot\<close>) and its number.\<close>

definition new_vfi_event :: "fenv \<Rightarrow> lenv \<Rightarrow> nat \<Rightarrow> nat \<Rightarrow> vfi_desc_param \<Rightarrow> u32 \<Rightarrow> (errno \<times> nat option) fm" where
  "new_vfi_event E L l b desc i =
     fbind (fn E ''kzalloc'' [] A_none) (\<lambda>(_, h).
       case h of
         None \<Rightarrow> fret (- ENOMEM, None)
       | Some h \<Rightarrow>
           fbind (clone_desc_of E h desc) (\<lambda>_.
           fbind (fn E ''kobject_init_and_add'' [Some h, Some l]
               (A_text (ptr_text (of_nat (slot L b ''desc'')) @ '':'' @ hex_of_nat (unat i)))) (\<lambda>(ret, _).
           fbind (if ret \<noteq> 0 then fdo E ''kobject_put'' [Some h] A_none else fret ()) (\<lambda>_. fret (ret, Some h)))))"

definition vfi_event_create :: "fenv \<Rightarrow> lenv \<Rightarrow> nat \<Rightarrow> nat \<Rightarrow> vfi_desc_param \<Rightarrow> u32 \<Rightarrow> (errno \<times> nat option) fm" where
  "vfi_event_create E L l b desc i = new_vfi_event E L l b desc i"

definition vfi_event_delete :: "fenv \<Rightarrow> nat option \<Rightarrow> unit fm" where
  "vfi_event_delete E e = fdo E ''vfi_event_put'' [e] A_none"

definition new_vfi_events :: "fenv \<Rightarrow> nat \<Rightarrow> string \<Rightarrow> (errno \<times> nat option) fm" where
  "new_vfi_events E parent nm = allocate E (\<lambda>h. enter E ''kset_register'' ''kset_put'' h parent (Val nm))"

definition vfi_events_create :: "fenv \<Rightarrow> nat \<Rightarrow> string \<Rightarrow> (errno \<times> nat option) fm" where
  "vfi_events_create E parent nm = new_vfi_events E parent nm"

text \<open>
  Starting a list of events: those with a callback vote, and then as many completions are waited for. The
  result of the loop is the number of events that have voted. \<open>vote\<close> gives the callback of an event, if it has
  one, with its bind.
\<close>

fun start_each :: "fenv \<Rightarrow> (nat \<Rightarrow> (string \<times> nat) option) \<Rightarrow> nat list \<Rightarrow> nat \<Rightarrow> nat fm" where
  "start_each E vote [] n = fret n"
| "start_each E vote (e # es) n =
     (case vote e of
        None \<Rightarrow> start_each E vote es n
      | Some (cb, b) \<Rightarrow> fbind (fdo E cb [Some b] A_none) (\<lambda>_. start_each E vote es (Suc n)))"

fun wait_each :: "fenv \<Rightarrow> nat \<Rightarrow> nat \<Rightarrow> unit fm" where
  "wait_each E l 0 = fret ()"
| "wait_each E l (Suc n) = fbind (fdo E ''wait_for_completion'' [Some l] A_none) (\<lambda>_. wait_each E l n)"

definition vfi_events_start :: "fenv \<Rightarrow> lenv \<Rightarrow> (nat \<Rightarrow> (string \<times> nat) option) \<Rightarrow> nat option \<Rightarrow> unit fm" where
  "vfi_events_start E L vote events =
     (case events of
        None \<Rightarrow> fret ()
      | Some l \<Rightarrow>
     fbind (fn E ''down_trylock'' [Some l] A_none) (\<lambda>(busy, _).
       if busy \<noteq> 0 then fret ()
       else
     fbind (fget (\<lambda>s. members L (f_trace s) l)) (\<lambda>es.
     fbind (start_each E vote es 0) (\<lambda>n.
     fbind (wait_each E l n) (\<lambda>_. fdo E ''up'' [Some l] A_none)))))"

section \<open>Locations\<close>

text \<open>What a new location takes from the one it is in, or else from nowhere.\<close>

definition fill_from :: "nat option \<Rightarrow> vfi_desc_param option \<Rightarrow> vfi_desc_param \<Rightarrow> ref_state \<Rightarrow> vfi_desc_param \<times> ref_state" where
  "fill_from l p d r =
     (case p of
        None \<Rightarrow> (if ops d = None then d\<lparr>ops := Some Vfi_fabric_ops\<rparr> else d, r)
      | Some q \<Rightarrow>
          let d1 = d\<lparr>extent := (if extent d = 0 then extent q else extent d), offset := (if offset d = 0 then offset q else offset d),
                     ops := (if ops d \<noteq> None then ops d else if ops q \<noteq> None then ops q else Some Vfi_fabric_ops)\<rparr>;
              (e, r1) = (if rde d = None \<and> rde q \<noteq> None then on_reg (vfi_dma_get (rde q)) r else (rde d, r));
              (a, r2) = (if address d = None \<and> address q \<noteq> None then on_reg (vfi_fabric_get (address q)) r1 else (address d, r1));
              (pl, r3) = (if ploc d = None then vfi_location_get l r2 else (ploc d, r2))
          in (d1\<lparr>rde := e, address := a, ploc := pl\<rparr>, r3))"

text \<open>The three lists of the new location, and the labels that undo them.\<close>

definition lists_of :: "fenv \<Rightarrow> nat \<Rightarrow> (errno \<times> nat option) fm" where
  "lists_of E h =
     fbind (new_vfi_smbs E h) (\<lambda>(ret, smbs).
       if ret \<noteq> 0 \<and> ret \<noteq> - EEXIST then fbind (fdo E ''vfi_location_put'' [Some h] A_none) (\<lambda>_. fret (ret, None))
       else
     fbind (new_vfi_xfers E h) (\<lambda>(ret, xfers).
       if ret \<noteq> 0 \<and> ret \<noteq> - EEXIST then
         fbind (fdo E ''vfi_smbs_put'' [smbs] A_none) (\<lambda>_.
         fbind (fdo E ''vfi_location_put'' [Some h] A_none) (\<lambda>_. fret (ret, None)))
       else
     fbind (new_vfi_syncs E h) (\<lambda>(ret, _).
       if ret \<noteq> 0 \<and> ret \<noteq> - EEXIST then
         fbind (fdo E ''vfi_xfers_put'' [xfers] A_none) (\<lambda>_.
         fbind (fdo E ''vfi_smbs_put'' [smbs] A_none) (\<lambda>_.
         fbind (fdo E ''vfi_location_put'' [Some h] A_none) (\<lambda>_. fret (ret, None))))
       else fret (0, Some h))))"

definition new_vfi_location :: "fenv \<Rightarrow> nat option \<Rightarrow> vfi_desc_param \<Rightarrow> (errno \<times> nat option) fm" where
  "new_vfi_location E loc desc = allocate E (\<lambda>h.
     fbind (clone_desc_of E h desc) (\<lambda>_.
     fbind (on_desc h (\<lambda>s. fill_from loc (map_option (f_desc s) loc) (f_desc s h) (f_refs s))) (\<lambda>_.
     fbind (fget (\<lambda>s. f_desc s h)) (\<lambda>d.
     fbind (enter E ''kset_register'' ''vfi_location_put'' h (case loc of None \<Rightarrow> 0 | Some l \<Rightarrow> l) (text_of d (name d))) (\<lambda>(ret, _).
       if ret \<noteq> 0 then fret (ret, None) else lists_of E h)))))"

definition vfi_location_create :: "fenv \<Rightarrow> nat option \<Rightarrow> vfi_desc_param \<Rightarrow> (errno \<times> nat option) fm" where
  "vfi_location_create E loc desc = new_vfi_location E loc desc"

definition vfi_location_delete :: "fenv \<Rightarrow> nat option \<Rightarrow> unit fm" where
  "vfi_location_delete E loc =
     (if loc = None then fret ()
      else fbind (fdo E ''vfi_smbs_put'' [loc] A_none) (\<lambda>_.
        fbind (fdo E ''vfi_xfers_put'' [loc] A_none) (\<lambda>_.
        fbind (fdo E ''vfi_syncs_put'' [loc] A_none) (\<lambda>_.
        fbind (fdo E ''vfi_address_unregister'' [loc] A_none) (\<lambda>_.
        fdo E ''vfi_location_put'' [loc] A_none)))))"

definition find_vfi_name :: "fenv \<Rightarrow> nat option \<Rightarrow> vfi_desc_param \<Rightarrow> (errno \<times> nat option) fm" where
  "find_vfi_name E loc desc =
     fbind (kfind E (case loc of None \<Rightarrow> 0 | Some l \<Rightarrow> l) (text_of desc (name desc))) (\<lambda>(_, l).
       fret (if l \<noteq> None then 0 else - EINVAL, l))"

section \<open>Searching\<close>

text \<open>
  A location \<open>a.b.c\<close> is searched for from its end: \<open>c\<close> under the root, \<open>b\<close> in it with its operation
  \<open>location_find\<close>, then \<open>a\<close>. Each step parses the location of its parameters, which is shorter, and \<open>fuel\<close>
  bounds the number of steps. The location that a step has found is put when the next has used it.
\<close>

fun find_location :: "nat \<Rightarrow> fenv \<Rightarrow> vfi_desc_param \<Rightarrow> (errno \<times> nat option) fm" where
  "find_location 0 E params = fail"
| "find_location (Suc fuel) E params =
     fbind (flift (text_of params (location params))) (\<lambda>m.
     fbind (if location params = None \<or> m = [] then
              fbind (kfind E 0 (text_of params (name params))) (\<lambda>(_, l). fret l)
            else
              fbind (parse_reply E m) (\<lambda>(bad, tmp).
                if bad \<noteq> 0 then fret None
                else
              fbind (find_location fuel E tmp) (\<lambda>(ret, t).
              fbind (if ret \<noteq> 0 then fret None
                     else case t of
                         None \<Rightarrow> fail
                       | Some t \<Rightarrow>
                           fbind (fget (\<lambda>s. ops (f_desc s t))) (\<lambda>tab.
                           fbind (op_call E tab ''location_find'' [Some t] (A_desc params)) (\<lambda>(_, l).
                           fbind (fdo E ''vfi_location_put'' [Some t] A_none) (\<lambda>_. fret l)))) (\<lambda>l.
              fbind (clean_reply E tmp) (\<lambda>_. fret l))))) (\<lambda>l.
       fret (if l \<noteq> None then 0 else - EINVAL, l)))"

definition find_vfi_location :: "fenv \<Rightarrow> nat option \<Rightarrow> vfi_desc_param \<Rightarrow> (errno \<times> nat option) fm" where
  "find_vfi_location E loc params =
     (case loc of
        Some l \<Rightarrow> fbind (fget (\<lambda>s. ops (f_desc s l))) (\<lambda>tab. op_call E tab ''location_find'' [loc] (A_desc params))
      | None \<Rightarrow>
          fbind (flift (text_of params (location params))) (\<lambda>m. find_location (Suc (length m)) E params))"

text \<open>
  Locating: the first component of the location becomes the name, by writing a null over its dot, and the rest
  the location, if there is any; all of it is put back after the search.
\<close>

definition step_out :: "vfi_desc_param \<Rightarrow> vfi_desc_param cres" where
  "step_out d =
     (case location d of
        None \<Rightarrow> Val d
      | Some p \<Rightarrow> cres_bind (text_of d (Some p)) (\<lambda>m.
          if CHR ''.'' \<in> set m then
            (let k = p + length (takeWhile (\<lambda>c. c \<noteq> CHR ''.'') m)
             in Val (d\<lparr>buf := map_option (\<lambda>b. b[k := NUL]) (buf d), name := Some p, location := Some (k + 1)\<rparr>))
          else Val (d\<lparr>name := Some p, location := None\<rparr>)))"

definition locate_vfi_location :: "fenv \<Rightarrow> nat option \<Rightarrow> vfi_desc_param \<Rightarrow> (errno \<times> nat option) fm" where
  "locate_vfi_location E loc desc = fbind (flift (step_out desc)) (\<lambda>d. find_vfi_location E loc d)"

text \<open>Finding a block or a transfer: in the location given, in that of the descriptor, or in one searched for.\<close>

definition find_at :: "fenv \<Rightarrow> string \<Rightarrow> nat option \<Rightarrow> vfi_desc_param \<Rightarrow> (errno \<times> nat option) fm" where
  "find_at E op loc desc =
     fbind (fget (\<lambda>s l. case l of None \<Rightarrow> False | Some l \<Rightarrow> table_for (ops (f_desc s l)) op \<noteq> None)) (\<lambda>has.
       if has loc then fn E op [loc] (A_desc desc)
       else if has (ploc desc) then fn E op [ploc desc] (A_desc desc)
       else
     fbind (locate_vfi_location E None desc) (\<lambda>(ret, t).
       if ret \<noteq> 0 then fret (ret, None)
       else
     fbind (fput (\<lambda>s. s\<lparr>f_refs := snd (vfi_update_ploc desc t (f_refs s))\<rparr>)) (\<lambda>_.
     fbind (fget (\<lambda>s. case t of None \<Rightarrow> False | Some l \<Rightarrow> table_for (ops (f_desc s l)) op \<noteq> None)) (\<lambda>able.
       if \<not> able then fret (ret, None)
       else fbind (fn E op [t] (A_desc desc)) (\<lambda>r.
         fbind (fdo E ''vfi_location_put'' [t] A_none) (\<lambda>_. fret r))))))"

definition find_vfi_smb_in :: "fenv \<Rightarrow> nat option \<Rightarrow> vfi_desc_param \<Rightarrow> (errno \<times> nat option) fm" where
  "find_vfi_smb_in E loc desc = find_at E ''smb_find'' loc desc"

definition find_vfi_xfer_in :: "fenv \<Rightarrow> nat option \<Rightarrow> vfi_desc_param \<Rightarrow> (errno \<times> nat option) fm" where
  "find_vfi_xfer_in E loc desc = find_at E ''xfer_find'' loc desc"

text \<open>A synchroniser: its operation is that of the descriptor's location, but the location passed to it is \<open>loc\<close>, null.\<close>

definition find_vfi_sync_in :: "fenv \<Rightarrow> nat option \<Rightarrow> vfi_desc_param \<Rightarrow> (errno \<times> nat option) fm" where
  "find_vfi_sync_in E loc desc =
     (case (loc, ploc desc) of
        (Some l, _) \<Rightarrow> fbind (fget (\<lambda>s. ops (f_desc s l))) (\<lambda>tab. op_call E tab ''sync_find'' [loc] (A_desc desc))
      | (None, Some p) \<Rightarrow> fbind (fget (\<lambda>s. ops (f_desc s p))) (\<lambda>tab. op_call E tab ''sync_find'' [loc] (A_desc desc))
      | (None, None) \<Rightarrow>
          fbind (locate_vfi_location E None desc) (\<lambda>(ret, t).
            if ret \<noteq> 0 then fret (ret, None)
            else
          fbind (fput (\<lambda>s. s\<lparr>f_refs := snd (vfi_update_ploc desc t (f_refs s))\<rparr>)) (\<lambda>_.
            case t of
              None \<Rightarrow> fret (ret, None)
            | Some l \<Rightarrow>
                fbind (fget (\<lambda>s. ops (f_desc s l))) (\<lambda>tab.
                fbind (op_call E tab ''sync_find'' [t] (A_desc desc)) (\<lambda>r.
                fbind (fdo E ''vfi_location_put'' [t] A_none) (\<lambda>_. fret r))))))"

definition find_vfi_bind_in :: "fenv \<Rightarrow> nat option \<Rightarrow> vfi_desc_param \<Rightarrow> (errno \<times> nat option) fm" where
  "find_vfi_bind_in E xf desc =
     fbind (fget (\<lambda>s. case xf of None \<Rightarrow> None | Some x \<Rightarrow> ops (f_desc s x))) (\<lambda>tab.
       if tab \<noteq> None then op_call E tab ''bind_find'' [xf] (A_desc desc)
       else
     fbind (find_vfi_xfer_in E None desc) (\<lambda>(ret, x).
       if ret \<noteq> 0 then fret (ret, None)
       else case x of
           None \<Rightarrow> fret (- EINVAL, None)
         | Some a \<Rightarrow>
             fbind (fget (\<lambda>s. ops (f_desc s a))) (\<lambda>tab.
             fbind (if tab \<noteq> None then op_call E tab ''bind_find'' [x] (A_desc desc) else fret (- EINVAL, None)) (\<lambda>r.
             fbind (fdo E ''vfi_xfer_put'' [x] A_none) (\<lambda>_. fret r)))))"

text \<open>A destination: the list of destinations is made if it is not there. Without a table of operations the result is
  that of the search for the bind, and if the bind was given, an uninitialised variable.\<close>

definition find_vfi_dst_in :: "fenv \<Rightarrow> lenv \<Rightarrow> nat option \<Rightarrow> vfi_bind_param \<Rightarrow> (errno \<times> nat option) fm" where
  "find_vfi_dst_in E L b desc =
     fbind (if b \<noteq> None then fret (0, b) else find_vfi_bind_in E None (xfer desc)) (\<lambda>(ret, mine).
       if ret \<noteq> 0 then fret (ret, None)
       else case mine of
           None \<Rightarrow> fail
         | Some m \<Rightarrow>
     fbind (vfi_dsts_create E L m desc) (\<lambda>_.
     fbind (fget (\<lambda>s. ops (xfer (f_bdesc s m)))) (\<lambda>tab.
     fbind (if tab \<noteq> None then op_call E tab ''dst_find'' [mine] (A_bind desc)
            else if b \<noteq> None then fail else fret (ret, None)) (\<lambda>(ret, d).
     fbind (if b = None then fdo E ''vfi_bind_put'' [mine] A_none else fret ()) (\<lambda>_.
       fret (if ret \<noteq> 0 then ret else if d = None then 1 else 0, d))))))"

section \<open>Names\<close>

text \<open>The names under which a run has registered objects, and those it has looked for.\<close>

fun entered :: "fevent \<Rightarrow> string list" where
  "entered (Fn f hs (A_text t), r) = (if f = ''kobject_init_and_add'' then [t] else [])"
| "entered e = []"

fun sought :: "fevent \<Rightarrow> string list" where
  "sought (Fn f hs (A_text t), r) = (if f = ''kset_find_obj'' then [t] else [])"
| "sought e = []"

definition names_entered :: "fstate \<Rightarrow> string list" where
  "names_entered s = concat (map entered (f_trace s))"

definition names_sought :: "fstate \<Rightarrow> string list" where
  "names_sought s = concat (map sought (f_trace s))"

lemma wp_allocate:
  "(\<And>r. Q (- ENOMEM, None) (s\<lparr>f_trace := f_trace s @ [(Fn ''kzalloc'' [] A_none, r, None)]\<rparr>)) \<Longrightarrow>
   (\<And>r h. wp (f h) Q (s\<lparr>f_trace := f_trace s @ [(Fn ''kzalloc'' [] A_none, r, Some h)]\<rparr>)) \<Longrightarrow> wp (allocate E f) Q s"
  unfolding allocate_def by (intro wp_ready wp_intros) simp_all

lemma wp_on_bdesc [wp_intros]:
  "(\<And>r p. Q () (s\<lparr>f_refs := r, f_bdesc := (f_bdesc s)(h := p)\<rparr>)) \<Longrightarrow> wp (on_bdesc h f) Q s"
  unfolding on_bdesc_def wp_fput by (simp split: prod.splits)

lemma wp_on_desc [wp_intros]:
  "(\<And>r p. Q () (s\<lparr>f_refs := r, f_desc := (f_desc s)(h := p)\<rparr>)) \<Longrightarrow> wp (on_desc h f) Q s"
  unfolding on_desc_def wp_fput by (simp split: prod.splits)

lemma cat_dot: "cat (fmt_name d # ms) = Val t \<Longrightarrow> CHR ''.'' \<in> set t"
  by (auto simp: fmt_name_def cres_bind_eq_Val)

lemma full_name_dot: "fmt_full d = Val t \<Longrightarrow> CHR ''.'' \<in> set t"
  unfolding fmt_full_def by (rule cat_dot)

lemma hex_no_dot: "CHR ''.'' \<notin> set (hex_of_nat n)"
  by (rule hex_digit_not) (simp add: hex_digit_val_def)

lemma bind_name_no_dot: "CHR ''.'' \<notin> set (bind_name d)"
  by (simp add: bind_name_def hex_no_dot)

lemma src_entered:
  "f_trace s = [] \<Longrightarrow> wp (vfi_src_create E L parent desc) (\<lambda>r s'. (\<forall>t\<in>set (names_entered s'). CHR ''.'' \<in> set t) \<and> (fst r = 0 \<longrightarrow> names_entered s' \<noteq> [])) s"
  unfolding vfi_src_create_def new_vfi_src_def clone_bind_of_def inherit_bind_def change_bind_def enter_list_def enter_def
  apply (intro wp_ready wp_allocate wp_intros)
  apply (auto simp: names_entered_def dest: full_name_dot)
  done

lemma src_sought:
  "f_trace s = [] \<Longrightarrow> wp (find_vfi_src E L d parent) (\<lambda>_ s'. \<forall>t\<in>set (names_sought s'). CHR ''.'' \<notin> set t) s"
  "f_trace s = [] \<Longrightarrow> wp (vfi_local_src_find E L parent desc) (\<lambda>_ s'. \<forall>t\<in>set (names_sought s'). CHR ''.'' \<notin> set t) s"
  unfolding find_vfi_src_def vfi_local_src_find_def find_named_def find_in_def kfind_def
   apply (intro wp_ready wp_intros)
   apply (auto simp: names_sought_def bind_name_no_dot)[2]
  apply (intro wp_ready wp_intros)
  apply (auto simp: names_sought_def bind_name_no_dot)
  done


text \<open>C35: A source is never found by its name. Making one registers it as \<open>name.location#offset:extent\<close>; the two
  functions that look for a source ask for \<open>#offset:extent\<close>, and whatever the names, the locations and the
  numbers are, no name asked for is one that a source was registered under.\<close>

theorem sources_are_never_found:
  assumes "vfi_src_create E L parent desc (s1\<lparr>f_trace := []\<rparr>) = Val (r1, t1)"
    and "find_vfi_src E' L' d p (s2\<lparr>f_trace := []\<rparr>) = Val (r2, t2)"
    and "vfi_local_src_find E'' L'' p' d' (s3\<lparr>f_trace := []\<rparr>) = Val (r3, t3)"
  shows "set (names_entered t1) \<inter> (set (names_sought t2) \<union> set (names_sought t3)) = {}"
  using src_entered [of "s1\<lparr>f_trace := []\<rparr>" E L parent desc] src_sought(1) [of "s2\<lparr>f_trace := []\<rparr>" E' L' d p]
    src_sought(2) [of "s3\<lparr>f_trace := []\<rparr>" E'' L'' p' d'] assms
  by (auto simp: wp_def)


theorem sources_are_never_found_witness:
  "\<exists>t1 t2 t3. vfi_src_create (demo_fenv []) demo_lenv 2 zero_bind (demo_fstate\<lparr>f_trace := []\<rparr>) = Val ((0, Some 32), t1)
     \<and> names_entered t1 \<noteq> [] \<and> names_sought t2 = [''#0:0''] \<and> names_sought t3 = [''#0:0'']
     \<and> set (names_entered t1) \<inter> (set (names_sought t2) \<union> set (names_sought t3)) = {}"
proof -
  let ?a = "vfi_src_create (demo_fenv []) demo_lenv 2 zero_bind (demo_fstate\<lparr>f_trace := []\<rparr>)"
  let ?b = "find_vfi_src (demo_fenv []) demo_lenv zero_desc 2 (demo_fstate\<lparr>f_trace := []\<rparr>)"
  let ?c = "vfi_local_src_find (demo_fenv []) demo_lenv 2 zero_bind (demo_fstate\<lparr>f_trace := []\<rparr>)"
  have a: "(case ?a of Val (r, t) \<Rightarrow> r | Undef \<Rightarrow> (1, None)) = (0, Some 32)" by code_simp
  have b: "(case ?b of Val (r, t) \<Rightarrow> names_sought t | Undef \<Rightarrow> []) = [''#0:0'']" by code_simp
  have c: "(case ?c of Val (r, t) \<Rightarrow> names_sought t | Undef \<Rightarrow> []) = [''#0:0'']" by code_simp
  from a obtain t1 where 1: "?a = Val ((0, Some 32), t1)" by (cases ?a) auto
  from b obtain r2 t2 where 2: "?b = Val (r2, t2)" "names_sought t2 = [''#0:0'']" by (cases ?b) auto
  from c obtain r3 t3 where 3: "?c = Val (r3, t3)" "names_sought t3 = [''#0:0'']" by (cases ?c) auto
  have "names_entered t1 \<noteq> []"
    using src_entered [of "demo_fstate\<lparr>f_trace := []\<rparr>" "demo_fenv []" demo_lenv 2 zero_bind] 1 by (simp add: wp_def)
  then show ?thesis using sources_are_never_found [OF 1 2(1) 3(1)] 1 2 3 by blast
qed

section \<open>Searching ends\<close>

lemma spec_skip_shorter: "spec_skip nm loc = (n, Some x) \<Longrightarrow> \<exists>l. loc = Some l \<and> length x \<le> length l"
proof (induction nm loc rule: spec_skip.induct)
  case (1 nm loc)
  show ?case
  proof (cases loc)
    case None
    then show ?thesis using 1(2) by (simp add: spec_skip_simps)
  next
    case (Some l)
    show ?thesis
    proof (cases "nm = []")
      case False
      then show ?thesis using 1(2) Some by (cases nm) (simp_all add: spec_skip_simps)
    next
      case True
      obtain n' r where c: "str_cut CHR ''.'' l = (n', r)" by (cases "str_cut CHR ''.'' l")
      then have "\<exists>l'. r = Some l' \<and> length x \<le> length l'"
        using 1(1) [OF Some True c [symmetric]] 1(2) Some True by (simp add: spec_skip_simps)
      then show ?thesis using Some cut_shorter c by fastforce
    qed
  qed
qed

lemma str_cut_le: "str_cut c s = (x, r) \<Longrightarrow> length x \<le> length s"
  by (auto simp: str_cut_def length_takeWhile_le)

lemma spec_numbers_le: "spec_numbers t = (t', e, f) \<Longrightarrow> length t' \<le> length t"
proof -
  have 1: "length (fst (str_cut c t)) \<le> length t" for c t using str_cut_le [of c t] by (cases "str_cut c t") auto
  assume "spec_numbers t = (t', e, f)"
  then have "t' = fst (str_cut CHR ''#'' (fst (str_cut CHR '':'' t)))"
    by (auto simp: spec_numbers_def Let_def split: prod.splits option.splits)
  then show ?thesis using 1 [of "CHR ''#''" "fst (str_cut CHR '':'' t)"] 1 [of "CHR '':''" t] by simp
qed

lemma location_shorter:
  assumes "p_location (grammar s) = Some l"
  shows "length l < length s"
proof -
  obtain h q where h: "str_cut CHR ''?'' (spec_body s) = (h, q)" by (cases "str_cut CHR ''?'' (spec_body s)")
  obtain n0 l0 where c: "str_cut CHR ''.'' h = (n0, l0)" by (cases "str_cut CHR ''.'' h")
  obtain n l1 where k: "spec_skip n0 l0 = (n, l1)" by (cases "spec_skip n0 l0")
  obtain x where x: "l1 = Some x" "fst (spec_numbers x) = l"
    using assms h c k by (cases l1) (auto simp: grammar_def Let_def split: prod.splits)
  obtain y where y: "l0 = Some y" "length x \<le> length y" using spec_skip_shorter k x(1) by blast
  have "length l \<le> length x" using spec_numbers_le x(2) by (cases "spec_numbers x") auto
  also note y(2)
  also have "length y < length h" using cut_shorter c y(1) by blast
  also have "length h \<le> length (spec_body s)" by (rule str_cut_le [OF h])
  also have "\<dots> \<le> length s" using spec_body_suffix [of s] by (auto simp flip: length_append) (metis le_add2 length_append)
  finally show ?thesis .
qed

lemma text_no_NUL: "text_of d p = Val m \<Longrightarrow> NUL \<notin> set m"
  by (auto simp: text_of_def cstr_def split: option.splits if_splits dest: set_takeWhileD)

lemma parsed_location:
  assumes "parse_reply E m s = Val ((0, tmp), s')" "NUL \<notin> set m" "location tmp \<noteq> None" "text_of tmp (location tmp) = Val m'"
  shows "length m' < length m"
proof -
  obtain g where run: "vfi_parse_desc (fkmem E (f_trace s)) (fgarbage E) (Some m) (reg (f_refs s)) = Val (0, tmp, g)"
    using assms(1) by (auto simp: parse_reply_def cres_bind_eq_Val)
  then have mem: "fkmem E (f_trace s)" and fits: "dup_size m \<le> 4096"
    by (auto simp: vfi_parse_desc_def vfi_str_dup_def split: if_splits option.splits)
  obtain d' ret where all: "vfi_parse_desc True (fgarbage E) (Some m) (reg (f_refs s)) = cres_bind (spec_select (p_options (grammar m)) (reg (f_refs s))) (\<lambda>(t, a, e, g').
      if ret \<noteq> 0 then Val (ret, d'\<lparr>ops := t, address := a, rde := e, buf := None, buflen := 0\<rparr>, g')
      else Val (ret, d'\<lparr>ops := t, address := a, rde := e\<rparr>, g'))"
    and den: "\<And>t a e. desc_denotes (d'\<lparr>ops := t, address := a, rde := e\<rparr>) (grammar m)"
    by (rule parse_desc_run [OF assms(2) fits, where d = "fgarbage E" and g = "reg (f_refs s)"]) (rule that)
  have "desc_denotes tmp (grammar m)"
    using run all den mem by (auto simp: cres_bind_eq_Val split: if_splits)
  then have "p_location (grammar m) = Some m'"
    using assms(3,4) by (auto simp: desc_denotes_def text_of_def split: option.splits if_splits)
  then show ?thesis by (rule location_shorter)
qed

lemma fbind_same: "(\<And>x s'. m s = Val (x, s') \<Longrightarrow> f x s' = g x s') \<Longrightarrow> fbind m f s = fbind m g s"
  by (cases "m s") (auto simp: fbind_def)

lemma fbind_cong_left: "m s = m' s \<Longrightarrow> fbind m f s = fbind m' f s"
  by (simp add: fbind_def)

lemma find_location_root: "location p = None \<Longrightarrow> find_location (Suc a) E p = find_location (Suc b) E p"
  by simp

lemma find_location_fuel:
  assumes "text_of p (location p) = Val m" "length m < n" "length m < k"
  shows "find_location n E p s = find_location k E p s"
  using assms
proof (induction n arbitrary: k p m s)
  case (Suc n)
  obtain k' where k: "k = Suc k'" using Suc.prems(3) by (cases k) auto
  show ?case
  proof (cases "location p = None \<or> m = []")
    case True
    then show ?thesis using Suc.prems(1) by (auto simp: k flift_def intro!: fbind_same)
  next
    case False
    then have len: "0 < length m" by simp
    have pos: "0 < n" "0 < k'" using len Suc.prems(2,3) unfolding k by linarith+
    then obtain a b where ab: "n = Suc a" "k' = Suc b" by (auto simp: gr0_conv_Suc)
    have same: "find_location n E tmp t' = find_location k' E tmp t'" if tmp: "parse_reply E m t = Val ((0, tmp), t')" for tmp t t'
    proof (cases "text_of tmp (location tmp)")
      case Undef
      then show ?thesis using ab by (simp add: fbind_def flift_def)
    next
      case (Val m')
      show ?thesis
      proof (cases "location tmp = None")
        case True
        then show ?thesis unfolding ab by (metis find_location_root)
      next
        case there: False
        have l: "length m' < length m" using parsed_location [OF tmp text_no_NUL [OF Suc.prems(1)] there Val] .
        have "length m' < n" using l Suc.prems(2) by linarith
        moreover have "length m' < k'" using l Suc.prems(3) k by linarith
        ultimately show ?thesis by (rule Suc.IH [OF Val])
      qed
    qed
    show ?thesis
      unfolding k find_location.simps
      apply (rule fbind_same)
      apply (rule fbind_cong_left)
      using Suc.prems(1) False
      apply (auto simp: flift_def intro!: fbind_same)
      apply (intro fbind_cong_left same)
      apply simp
      done
  qed
qed simp

text \<open>The references to locations that a run has got, less those it has put.\<close>

fun loc_gains :: "fevent \<Rightarrow> int" where
  "loc_gains (Fn f hs a, ret, h) =
     (if (f = ''location_find'' \<or> f = ''kset_find_obj'') \<and> h \<noteq> None then 1
      else if f = ''vfi_location_put'' then - 1 else 0)"
| "loc_gains (Call l m, r) = 0"

lemma wp_parse_trace:
  "(\<And>bad d g. Q (bad, d) (s\<lparr>f_refs := g\<rparr>)) \<Longrightarrow> wp (parse_reply E m) Q s"
  by (rule wp_parse(2))

lemma find_location_refs:
  "wp (find_location n E p) (\<lambda>(ret, l) s'. (ret = 0 \<longleftrightarrow> l \<noteq> None)
     \<and> tally loc_gains (f_trace s') = tally loc_gains (f_trace s) + of_bool (l \<noteq> None)) s"
proof (induction n arbitrary: p s)
  case 0
  show ?case by (simp add: wp_fail)
next
  case (Suc n)
  show ?case
    unfolding find_location.simps clean_reply_def kfind_def
    apply (intro wp_ready wp_intros)
         apply (simp_all add: wp_fret)
    apply (rule wp_mono [OF Suc.IH])
    apply (simp only: split_paired_all prod.case)
    apply (intro wp_ready wp_intros)
       apply (auto simp: wp_fret)
    done
qed

text \<open>C36: The search for a location ends: each step parses a location that is shorter than the last, so that any
  bound on the number of steps beyond the length of the location gives the result of \<open>find_vfi_location\<close>.
  It returns 0 just if it has found the location, and keeps one reference to it; those to the locations on
  the way have been put, whatever the operations that were called have answered.\<close>

theorem location_search_ends:
  assumes "text_of p (location p) = Val m" "length m < n"
    and run: "find_vfi_location E None p (s\<lparr>f_trace := []\<rparr>) = Val ((ret, l), s')"
  shows "find_location n E p (s\<lparr>f_trace := []\<rparr>) = Val ((ret, l), s')
    \<and> (ret = 0 \<longleftrightarrow> l \<noteq> None) \<and> tally loc_gains (f_trace s') = of_bool (l \<noteq> None)"
proof -
  have "find_location (Suc (length m)) E p (s\<lparr>f_trace := []\<rparr>) = Val ((ret, l), s')"
    using run assms(1) by (simp add: find_vfi_location_def fbind_def flift_def del: find_location.simps)
  moreover from this have "find_location n E p (s\<lparr>f_trace := []\<rparr>) = Val ((ret, l), s')"
    using find_location_fuel [OF assms(1), of n "Suc (length m)"] assms(2) by simp
  ultimately show ?thesis
    using find_location_refs [of "Suc (length m)" E p "s\<lparr>f_trace := []\<rparr>"] by (auto simp: wp_def simp del: find_location.simps)
qed

text \<open>The witness: \<open>a\<close> in \<open>b.c\<close>; the root is asked for \<open>c\<close>, then that for \<open>b\<close>, then that for \<open>a\<close>.\<close>

definition deep_desc :: vfi_desc_param where
  "deep_desc = zero_desc\<lparr>buf := Some (''a'' @ [NUL] @ ''b.c'' @ [NUL]), name := Some 0, location := Some 2\<rparr>"


theorem location_search_ends_witness:
  "\<exists>s'. find_vfi_location (demo_fenv []) None deep_desc (local_fstate\<lparr>f_trace := []\<rparr>) = Val ((0, Some 9), s')
     \<and> find_location 99 (demo_fenv []) deep_desc (local_fstate\<lparr>f_trace := []\<rparr>) = Val ((0, Some 9), s')
     \<and> names_sought s' = [''c''] \<and> tally (calls_to ''location_find'') (f_trace s') = 2
     \<and> tally (calls_to ''vfi_location_put'') (f_trace s') = 2 \<and> tally loc_gains (f_trace s') = 1"
proof -
  let ?m = "find_vfi_location (demo_fenv []) None deep_desc (local_fstate\<lparr>f_trace := []\<rparr>)"
  have t: "text_of deep_desc (location deep_desc) = Val ''b.c''" by code_simp
  have f: "(case ?m of Val (r, s') \<Rightarrow> (r, names_sought s', tally (calls_to ''location_find'') (f_trace s'),
      tally (calls_to ''vfi_location_put'') (f_trace s')) | Undef \<Rightarrow> ((1, None), [], 0, 0)) = ((0, Some 9), [''c''], 2, 2)"
    by code_simp
  then obtain s' where run: "?m = Val ((0, Some 9), s')" "names_sought s' = [''c'']"
    "tally (calls_to ''location_find'') (f_trace s') = 2" "tally (calls_to ''vfi_location_put'') (f_trace s') = 2"
    by (cases ?m) auto
  show ?thesis
    using location_search_ends [OF t _ run(1), of 99] run by (auto simp del: find_location.simps)
qed

section \<open>Starting events\<close>

definition votes_of :: "(nat \<Rightarrow> (string \<times> nat) option) \<Rightarrow> nat list \<Rightarrow> fcall list" where
  "votes_of vote es = map (\<lambda>(cb, b). Fn cb [Some b] A_none) (List.map_filter vote es)"

lemma votes_of_simps [simp]:
  "votes_of vote [] = []"
  "votes_of vote (e # es) = (case vote e of None \<Rightarrow> votes_of vote es | Some (cb, b) \<Rightarrow> Fn cb [Some b] A_none # votes_of vote es)"
  by (auto simp: votes_of_def List.map_filter_def split: option.splits)

lemma start_each_calls:
  "wp (start_each E vote es n) (\<lambda>k s'. k = n + length (votes_of vote es)
     \<and> map fst (f_trace s') = map fst (f_trace s) @ votes_of vote es) s"
proof (induction es arbitrary: n s)
  case (Cons e es)
  show ?case
  proof (cases "vote e")
    case None
    then show ?thesis using Cons.IH by (simp add: wp_fret)
  next
    case (Some x)
    obtain cb b where x: "x = (cb, b)" by (cases x)
    show ?thesis
      unfolding start_each.simps Some x option.case prod.case votes_of_simps
      apply (intro wp_ready wp_fdo)
      apply (rule wp_mono [OF Cons.IH])
      apply simp
      done
  qed
qed (simp add: wp_fret)

lemma wait_each_calls:
  "wp (wait_each E l n) (\<lambda>_ s'. map fst (f_trace s') = map fst (f_trace s) @ replicate n (Fn ''wait_for_completion'' [Some l] A_none)) s"
proof (induction n arbitrary: s)
  case (Suc n)
  show ?case
    unfolding wait_each.simps
    apply (intro wp_ready wp_fdo)
    apply (rule wp_mono [OF Suc.IH])
    apply (simp add: replicate_append_same)
    done
qed (simp add: wp_fret)




text \<open>
  Finding a synchroniser by a descriptor that has a location calls the operation of that location with no
  location, so that it follows a null pointer.
\<close>

lemma find_sync_passes_no_location:
  "ploc desc = Some p \<Longrightarrow> wp (find_vfi_sync_in E None desc) (\<lambda>_ s'. map fst (f_trace s') = [Fn ''sync_find'' [None] (A_desc desc)]) (s\<lparr>f_trace := []\<rparr>)"
  unfolding find_vfi_sync_in_def by simp (intro wp_ready wp_intros; simp)

end
