(* ===== verification/Vfi_Dma_6460.thy ===== *)
theory Vfi_Dma_6460
  imports Vfi_Dma_Rio
begin

text \<open>
  The DMA engine driver of the PPC8245, \<open>vfi_dma_6460.c\<close> with \<open>mpc10xdma.h\<close>: descriptors and chains, two
  channels with their queues, the interrupt handler, the completion thread and the address test that the
  file is compiled with (\<open>LOCAL_DMA_ADDRESS_TEST\<close>).

  The driver follows the one for RapidIO and differs from it in what happens after an error, in its byte
  counts and in its choice of a channel. Its pair of rings is the same code; the facts about the rings are
  taken over from \<open>Vfi_Dma_Rio\<close> through \<open>ring_view\<close>, which reads the state of this driver as a state of
  the other, and those about chains through \<open>seg_view\<close>. Names that both drivers use carry the suffix \<open>_6460\<close>.

  \<open>__pa\<close>, \<open>phys_to_virt\<close> and the value of the status register are arguments, as there.
\<close>

section \<open>Descriptors\<close>

record dma_link_6460 =
  l_saddr :: u32
  l_saddr_ext :: u32
  l_daddr :: u32
  l_daddr_ext :: u32
  l_next :: u32
  l_next_ext :: u32
  l_nbytes :: u32

record seg_desc_6460 =
  s_hw :: dma_link_6460
  s_paddr :: u64

abbreviation (input) DMA_BUS_LOCAL_MEM :: u32 where "DMA_BUS_LOCAL_MEM \<equiv> 0"
abbreviation DMA_MODE_START :: u32 where "DMA_MODE_START \<equiv> 1"
abbreviation (input) DMA_MODE_PCI_DELAY2 :: u32 where "DMA_MODE_PCI_DELAY2 \<equiv> 0"
abbreviation DMA_MODE_ERR_INT_EN :: u32 where "DMA_MODE_ERR_INT_EN \<equiv> 0x100"
abbreviation DMA_MODE_CHAIN_INT_EN :: u32 where "DMA_MODE_CHAIN_INT_EN \<equiv> 0x80"
abbreviation DMA_STAT_MEM_ERR :: u32 where "DMA_STAT_MEM_ERR \<equiv> 0x80"
abbreviation DMA_STAT_PCI_ERR :: u32 where "DMA_STAT_PCI_ERR \<equiv> 0x10"
abbreviation DMA_STAT_CB :: u32 where "DMA_STAT_CB \<equiv> 0x4"
abbreviation DMA_STAT_SEGMENT_INTERRUPT :: u32 where "DMA_STAT_SEGMENT_INTERRUPT \<equiv> 0x2"
abbreviation DMA_STAT_CHAIN_INTERRUPT :: u32 where "DMA_STAT_CHAIN_INTERRUPT \<equiv> 0x1"
abbreviation DMA_OK :: int where "DMA_OK \<equiv> 1"
abbreviation DMA_ERROR :: int where "DMA_ERROR \<equiv> 6"
abbreviation MPC10X_DMA_NCHANS :: nat where "MPC10X_DMA_NCHANS \<equiv> 2"
abbreviation VFI_BIND_READY :: u32 where "VFI_BIND_READY \<equiv> 2"
abbreviation VFI_BIND_QUEUED :: u32 where "VFI_BIND_QUEUED \<equiv> 3"
abbreviation VFI_BIND_DMA_RUNNING :: u32 where "VFI_BIND_DMA_RUNNING \<equiv> 5"

text \<open>
  The address test stamps every word of the source with its own address, over whatever it held. Memory
  is a function from word addresses; \<open>*p++ = (unsigned int) p\<close> leaves open whether \<open>p\<close> is read before
  or after it is incremented, which is the argument \<open>after\<close>.
\<close>

fun address_stamp :: "bool \<Rightarrow> nat \<Rightarrow> u32 \<Rightarrow> (u32 \<Rightarrow> u32) \<Rightarrow> u32 \<Rightarrow> u32" where
  "address_stamp after 0 p mem = mem"
| "address_stamp after (Suc k) p mem = address_stamp after k (p + 4) (mem(p := if after then p + 4 else p))"

text \<open>\<open>pa\<close> is the physical address of the descriptor, \<open>d\<close> the descriptor of the source segment.\<close>

definition dma_6460_load ::
  "(u64 \<Rightarrow> u32) \<Rightarrow> bool \<Rightarrow> u64 \<Rightarrow> vfi_bind_param \<Rightarrow> seg_desc_6460 \<Rightarrow> (u32 \<Rightarrow> u32) \<Rightarrow> seg_desc_6460 \<times> (u32 \<Rightarrow> u32)" where
  "dma_6460_load pa_of after pa d rio mem =
     (rio\<lparr>s_paddr := pa,
          s_hw := (s_hw rio)\<lparr>l_saddr := pa_of (offset (src d) AND 0xffffffff), l_saddr_ext := 0,
                             l_daddr := pa_of (offset (dst d) AND 0xffffffff), l_daddr_ext := 0,
                             l_nbytes := extent (src d), l_next_ext := 0,
                             l_next := DMA_END_OF_CHAIN OR DMA_BUS_LOCAL_MEM\<rparr>\<rparr>,
      address_stamp after (unat (extent (src d) div 4)) (ucast (offset (src d))) mem)"

text \<open>The last descriptor of a chain loses its end-of-chain bit and gains the address of the next.\<close>

definition set_next_6460 :: "nat \<Rightarrow> u64 \<Rightarrow> (nat \<Rightarrow> seg_desc_6460) \<Rightarrow> nat \<Rightarrow> seg_desc_6460" where
  "set_next_6460 i pa segs =
     (let val = (l_next (s_hw (segs i)) AND NOT DMA_END_OF_CHAIN) OR ucast (pa AND 0xffffffe0)
      in segs(i := (segs i)\<lparr>s_hw := (s_hw (segs i))\<lparr>l_next := val\<rparr>\<rparr>))"

definition dma_6460_link_src ::
  "nat list \<Rightarrow> nat \<Rightarrow> (nat \<Rightarrow> seg_desc_6460) \<Rightarrow> nat list \<times> (nat \<Rightarrow> seg_desc_6460)" where
  "dma_6460_link_src first second segs =
     (first @ [second],
      if first \<noteq> [] then set_next_6460 (last first) (s_paddr (segs second)) segs else segs)"

text \<open>
  Splicing the chain of a destination. A destination without sources is a null pointer here, where the
  RapidIO driver passes it over; and the first descriptor of an empty chain is the list head misread.
\<close>

definition dma_6460_link_dst ::
  "nat list \<Rightarrow> nat list option \<Rightarrow> (nat \<Rightarrow> seg_desc_6460) \<Rightarrow> (nat list \<times> (nat \<Rightarrow> seg_desc_6460)) cres" where
  "dma_6460_link_dst first srcs segs =
     (case srcs of
        None \<Rightarrow> Undef
      | Some chain \<Rightarrow>
          if first \<noteq> [] then
            (case chain of
               [] \<Rightarrow> Undef
             | r # _ \<Rightarrow> Val (first @ chain, set_next_6460 (last first) (s_paddr (segs r)) segs))
          else Val (first @ chain, segs))"

text \<open>\<open>xf_cb\<close>: the callback is the address test; the field exists so that a null one can be told apart.\<close>

record xfer_object_6460 =
  x_desc :: nat
  x_cb :: bool
  x_flags :: u32
  x_len :: u32

definition dma_6460_link_bind :: "nat list \<Rightarrow> vfi_bind_param \<Rightarrow> xfer_object_6460 cres" where
  "dma_6460_link_bind chain d =
     (case chain of
        [] \<Rightarrow> Undef
      | s # _ \<Rightarrow> Val \<lparr>x_desc = s, x_cb = True, x_flags = VFI_BIND_READY, x_len = extent (src d)\<rparr>)"

text \<open>
  Loading and linking the sources of one destination, and the destinations of a bind, as
  \<open>vfi_dst_load_srcs\<close> and \<open>vfi_bind_load_dsts\<close> call these operations.
\<close>

definition load_srcs_6460 ::
  "(u64 \<Rightarrow> u32) \<Rightarrow> bool \<Rightarrow> src_obj list \<Rightarrow> nat list \<times> (nat \<Rightarrow> seg_desc_6460) \<times> (u32 \<Rightarrow> u32)
    \<Rightarrow> nat list \<times> (nat \<Rightarrow> seg_desc_6460) \<times> (u32 \<Rightarrow> u32)" where
  "load_srcs_6460 pa_of after srcs st =
     fold (\<lambda>so (chain, segs, mem).
        if rde (src (so_desc so)) \<noteq> None
        then (let (sd, mem') = dma_6460_load pa_of after (so_pa so) (so_desc so) (segs (so_seg so)) mem;
                  (chain', segs') = dma_6460_link_src chain (so_seg so) (segs(so_seg so := sd))
              in (chain', segs', mem'))
        else (chain, segs, mem)) srcs st"

fun link_dsts_6460 :: "(bool \<times> nat list option) list \<Rightarrow> nat list \<Rightarrow> (nat \<Rightarrow> seg_desc_6460) \<Rightarrow> (nat list \<times> (nat \<Rightarrow> seg_desc_6460)) cres" where
  "link_dsts_6460 [] chain segs = Val (chain, segs)"
| "link_dsts_6460 ((has_rde, srcs) # ds) chain segs =
     (if has_rde then cres_bind (dma_6460_link_dst chain srcs segs) (\<lambda>(chain', segs'). link_dsts_6460 ds chain' segs')
      else link_dsts_6460 ds chain segs)"

text \<open>
  \<open>address_test_completion\<close>: \<open>Some True\<close> when every destination word equals its source word, \<open>Some False\<close>
  at the first segment where one does not; \<open>None\<close> when the chain does not end. Whatever it finds, it
  calls \<open>vfi_dma_complete\<close> next.
\<close>

fun words_equal :: "(u32 \<Rightarrow> u32) \<Rightarrow> u32 \<Rightarrow> u32 \<Rightarrow> nat \<Rightarrow> bool" where
  "words_equal mem p p2 0 = True"
| "words_equal mem p p2 (Suc k) = (mem p = mem p2 \<and> words_equal mem (p + 4) (p2 + 4) k)"

definition segment_equal :: "(u32 \<Rightarrow> u32) \<Rightarrow> (u32 \<Rightarrow> u32) \<Rightarrow> seg_desc_6460 \<Rightarrow> bool" where
  "segment_equal data_virt mem sd =
     words_equal mem (data_virt (l_daddr (s_hw sd))) (data_virt (l_saddr (s_hw sd))) (unat (l_nbytes (s_hw sd) div 4))"

partial_function (option) address_test_completion ::
  "(u32 \<Rightarrow> nat) \<Rightarrow> (u32 \<Rightarrow> u32) \<Rightarrow> (u32 \<Rightarrow> u32) \<Rightarrow> (nat \<Rightarrow> seg_desc_6460) \<Rightarrow> nat \<Rightarrow> bool option" where
  "address_test_completion seg_virt data_virt mem segs i =
     (if \<not> segment_equal data_virt mem (segs i) then Some False
      else if l_next (s_hw (segs i)) AND 1 = 0
      then address_test_completion seg_virt data_virt mem segs (seg_virt (l_next (s_hw (segs i)) AND 0xffffffe0))
      else Some True)"

section \<open>Chains\<close>

text \<open>The descriptors as those of the other driver: only the links and the addresses matter.\<close>

definition seg_view :: "(nat \<Rightarrow> seg_desc_6460) \<Rightarrow> nat \<Rightarrow> seg_desc" where
  "seg_view segs i =
     \<lparr>seg_hw = \<lparr>src_attr = 0, saddr = l_saddr (s_hw (segs i)), dest_attr = 0, daddr = l_daddr (s_hw (segs i)),
                next_ext = l_next_ext (s_hw (segs i)), dl_next = l_next (s_hw (segs i)), nbytes = l_nbytes (s_hw (segs i))\<rparr>,
      seg_paddr = s_paddr (segs i)\<rparr>"

lemma seg_view_simps [simp]: "seg_paddr (seg_view segs i) = s_paddr (segs i)"
  "dl_next (seg_hw (seg_view segs i)) = l_next (s_hw (segs i))"
  by (simp_all add: seg_view_def)

lemma low_address: "(ucast ((pa :: u64) AND 0xffffffe0) :: u32) = ucast (pa AND NOT 0x1f)"
proof -
  have a: "(0xffffffe0 :: u64) = mask 32 AND NOT (mask 5)" by (simp add: mask_eq_exp_minus_1)
  have b: "(0x1f :: u64) = mask 5" by (simp add: mask_eq_exp_minus_1)
  show ?thesis unfolding a b by (rule bit_word_eqI) (auto simp: bit_simps)
qed

text \<open>On a chain that ends, clearing the end bit and adding the address is writing the address.\<close>

lemma seg_view_set_next:
  "l_next (s_hw (segs i)) = DMA_END_OF_CHAIN
    \<Longrightarrow> seg_view (set_next_6460 i pa segs) = set_next i pa (seg_view segs)"
  by (rule ext) (simp add: set_next_6460_def set_next_def seg_view_def Let_def low_address)

lemma linked_last: "linked segs ch \<Longrightarrow> ch \<noteq> [] \<Longrightarrow> dl_next (seg_hw (segs (last ch))) = DMA_END_OF_CHAIN"
  by (induction segs ch rule: linked.induct) auto

lemma link_src_view:
  assumes "linked (seg_view segs) chain"
  shows "dma_rio_link_src chain i (seg_view segs)
    = (fst (dma_6460_link_src chain i segs), seg_view (snd (dma_6460_link_src chain i segs)))"
  using linked_last [OF assms]
  by (simp add: dma_rio_link_src_def dma_6460_link_src_def seg_view_set_next)

lemma link_dst_view:
  assumes "linked (seg_view segs) chain" and "dma_6460_link_dst chain srcs segs = Val (chain', segs')"
  shows "dma_rio_link_dst chain srcs (seg_view segs) = Val (chain', seg_view segs')"
  using linked_last [OF assms(1)] assms(2)
  by (auto simp: dma_rio_link_dst_def dma_6460_link_dst_def seg_view_set_next split: option.splits list.splits if_splits)

lemma set_next_6460_other [simp]: "j \<noteq> i \<Longrightarrow> set_next_6460 i pa segs j = segs j"
  "s_paddr (set_next_6460 i pa segs j) = s_paddr (segs j)"
  by (simp_all add: set_next_6460_def Let_def)

lemma seg_view_cong: "(\<And>i. i \<in> set ch \<Longrightarrow> segs' i = segs i) \<Longrightarrow> linked (seg_view segs') ch = linked (seg_view segs) ch"
  by (rule linked_cong) (simp add: seg_view_def)

lemma link_src_6460_linked:
  assumes "linked (seg_view segs) chain" and "distinct (chain @ [i])" and "l_next (s_hw (segs i)) = DMA_END_OF_CHAIN"
  shows "linked (seg_view (snd (dma_6460_link_src chain i segs))) (chain @ [i])"
  using link_src_linked [of "seg_view segs" chain i] assms link_src_view [OF assms(1), of i] by simp

lemma load_6460_simps [simp]:
  "s_paddr (fst (dma_6460_load f after pa d rio mem)) = pa"
  "l_next (s_hw (fst (dma_6460_load f after pa d rio mem))) = DMA_END_OF_CHAIN"
  by (simp_all add: dma_6460_load_def)

lemma load_srcs_6460_linked:
  assumes "linked (seg_view segs) chain" and "distinct (chain @ map so_seg srcs)" and "\<forall>so \<in> set srcs. rde (src (so_desc so)) \<noteq> None"
  shows "\<exists>segs' mem'. load_srcs_6460 f after srcs (chain, segs, mem) = (chain @ map so_seg srcs, segs', mem')
    \<and> linked (seg_view segs') (chain @ map so_seg srcs)
    \<and> (\<forall>so \<in> set srcs. s_paddr (segs' (so_seg so)) = so_pa so)
    \<and> (\<forall>j. j \<notin> so_seg ` set srcs \<longrightarrow> s_paddr (segs' j) = s_paddr (segs j)
          \<and> (j \<notin> set chain \<longrightarrow> segs' j = segs j))"
  using assms
proof (induction srcs arbitrary: chain segs mem)
  case Nil
  then show ?case by (simp add: load_srcs_6460_def)
next
  case (Cons so srcs)
  let ?i = "so_seg so"
  let ?load = "dma_6460_load f after (so_pa so) (so_desc so) (segs ?i) mem"
  let ?segs = "segs(?i := fst ?load)"
  let ?segs1 = "snd (dma_6460_link_src chain ?i ?segs)"
  have "linked (seg_view ?segs) chain" using Cons.prems by (subst seg_view_cong [of chain _ segs]) auto
  then have l1: "linked (seg_view ?segs1) (chain @ [?i])" using Cons.prems by (intro link_src_6460_linked) auto
  have other: "s_paddr (?segs1 j) = (if j = ?i then so_pa so else s_paddr (segs j))"
    "j \<notin> set chain \<Longrightarrow> j \<noteq> ?i \<Longrightarrow> ?segs1 j = segs j" for j
    by (auto simp: dma_6460_link_src_def set_next_6460_def Let_def)
  have step: "load_srcs_6460 f after (so # srcs) (chain, segs, mem)
      = load_srcs_6460 f after srcs (chain @ [?i], ?segs1, snd ?load)"
    using Cons.prems(3) by (simp add: load_srcs_6460_def dma_6460_link_src_def split_beta)
  have "distinct ((chain @ [?i]) @ map so_seg srcs)" "\<forall>so \<in> set srcs. rde (src (so_desc so)) \<noteq> None"
    using Cons.prems by auto
  from Cons.IH [OF l1 this, of "snd ?load"] obtain segs' mem' where IH:
    "load_srcs_6460 f after srcs (chain @ [?i], ?segs1, snd ?load) = ((chain @ [?i]) @ map so_seg srcs, segs', mem')"
    "linked (seg_view segs') ((chain @ [?i]) @ map so_seg srcs)"
    "\<forall>so \<in> set srcs. s_paddr (segs' (so_seg so)) = so_pa so"
    "\<forall>j. j \<notin> so_seg ` set srcs \<longrightarrow> s_paddr (segs' j) = s_paddr (?segs1 j)
          \<and> (j \<notin> set (chain @ [?i]) \<longrightarrow> segs' j = ?segs1 j)" by blast
  have "?i \<notin> so_seg ` set srcs" using Cons.prems(2) by auto
  then have "s_paddr (segs' ?i) = so_pa so" using IH(4) other(1) [of ?i] by metis
  moreover have "s_paddr (segs' j) = s_paddr (segs j) \<and> (j \<notin> set chain \<longrightarrow> segs' j = segs j)"
    if "j \<notin> so_seg ` set (so # srcs)" for j
  proof -
    from that have "j \<notin> so_seg ` set srcs" "j \<noteq> ?i" by auto
    with IH(4) other [of j] show ?thesis by (metis Un_iff empty_iff empty_set insert_iff list.simps(15) set_append)
  qed
  ultimately show ?case unfolding step using IH(1-3) by simp
qed

lemma link_dsts_6460_linked:
  assumes "linked (seg_view segs) chain" and "\<forall>c \<in> set cs. c \<noteq> [] \<and> linked (seg_view segs) c" and "distinct (chain @ concat cs)"
  shows "\<exists>segs'. link_dsts_6460 (map (\<lambda>c. (True, Some c)) cs) chain segs = Val (chain @ concat cs, segs')
    \<and> linked (seg_view segs') (chain @ concat cs) \<and> (\<forall>j. s_paddr (segs' j) = s_paddr (segs j))"
  using assms
proof (induction cs arbitrary: chain segs)
  case (Cons c cs)
  obtain y ys where c: "c = y # ys" using Cons.prems(2) by (cases c) auto
  show ?case
  proof (cases "chain = []")
    case True
    have "linked (seg_view segs) c" "\<forall>c \<in> set cs. c \<noteq> [] \<and> linked (seg_view segs) c" "distinct (c @ concat cs)"
      using Cons.prems True by auto
    from Cons.IH [OF this] show ?thesis using True by (simp add: dma_6460_link_dst_def)
  next
    case False
    let ?segs = "set_next_6460 (last chain) (s_paddr (segs y)) segs"
    have v: "seg_view ?segs = set_next (last chain) (s_paddr (segs y)) (seg_view segs)"
      using linked_last [OF Cons.prems(1) False] by (simp add: seg_view_set_next)
    have "linked (seg_view segs) (y # ys)" "distinct (chain @ y # ys)" using Cons.prems unfolding c by auto
    from linked_append [OF Cons.prems(1) this False]
    have "linked (seg_view ?segs) (chain @ c)" unfolding v c by simp
    moreover have "last chain \<notin> set (concat cs)" using Cons.prems(3) last_in_set [OF False] by auto
    then have "linked (seg_view ?segs) e = linked (seg_view segs) e" if "e \<in> set cs" for e
      using that by (intro seg_view_cong set_next_6460_other) auto
    then have "\<forall>c \<in> set cs. c \<noteq> [] \<and> linked (seg_view ?segs) c" using Cons.prems(2) by simp
    moreover have "distinct ((chain @ c) @ concat cs)" using Cons.prems(3) by auto
    ultimately obtain segs' where "link_dsts_6460 (map (\<lambda>c. (True, Some c)) cs) (chain @ c) ?segs = Val ((chain @ c) @ concat cs, segs')"
      "linked (seg_view segs') ((chain @ c) @ concat cs)" "\<forall>j. s_paddr (segs' j) = s_paddr (?segs j)"
      using Cons.IH by blast
    then show ?thesis using False c by (simp add: dma_6460_link_dst_def)
  qed
qed simp

text \<open>Loading all destinations of a bind, each from an empty chain.\<close>

fun load_all_6460 ::
  "(u64 \<Rightarrow> u32) \<Rightarrow> bool \<Rightarrow> src_obj list list \<Rightarrow> (nat \<Rightarrow> seg_desc_6460) \<Rightarrow> (u32 \<Rightarrow> u32)
    \<Rightarrow> nat list list \<times> (nat \<Rightarrow> seg_desc_6460) \<times> (u32 \<Rightarrow> u32)" where
  "load_all_6460 f after [] segs mem = ([], segs, mem)"
| "load_all_6460 f after (srcs # ds) segs mem =
     (let (c, segs1, mem1) = load_srcs_6460 f after srcs ([], segs, mem);
          (cs, segs2, mem2) = load_all_6460 f after ds segs1 mem1 in (c # cs, segs2, mem2))"

lemma load_all_6460_linked:
  assumes "distinct (map so_seg (concat ds))" and "\<forall>so \<in> set (concat ds). rde (src (so_desc so)) \<noteq> None"
  shows "\<exists>segs' mem'. load_all_6460 f after ds segs mem = (map (map so_seg) ds, segs', mem')
    \<and> (\<forall>d \<in> set ds. linked (seg_view segs') (map so_seg d))
    \<and> (\<forall>so \<in> set (concat ds). s_paddr (segs' (so_seg so)) = so_pa so)
    \<and> (\<forall>j. j \<notin> so_seg ` set (concat ds) \<longrightarrow> segs' j = segs j)"
  using assms
proof (induction ds arbitrary: segs mem)
  case (Cons srcs ds)
  have "distinct ([] @ map so_seg srcs)" "\<forall>so \<in> set srcs. rde (src (so_desc so)) \<noteq> None"
    using Cons.prems by auto
  from load_srcs_6460_linked [OF _ this, of segs f after mem] obtain segs1 mem1 where
    1: "load_srcs_6460 f after srcs ([], segs, mem) = (map so_seg srcs, segs1, mem1)" "linked (seg_view segs1) (map so_seg srcs)"
      "\<forall>so \<in> set srcs. s_paddr (segs1 (so_seg so)) = so_pa so"
      "\<forall>j. j \<notin> so_seg ` set srcs \<longrightarrow> segs1 j = segs j" by auto
  have "distinct (map so_seg (concat ds))" "\<forall>so \<in> set (concat ds). rde (src (so_desc so)) \<noteq> None"
    using Cons.prems by auto
  from Cons.IH [OF this, of segs1 mem1] obtain segs2 mem2 where
    2: "load_all_6460 f after ds segs1 mem1 = (map (map so_seg) ds, segs2, mem2)"
      "\<forall>d \<in> set ds. linked (seg_view segs2) (map so_seg d)"
      "\<forall>so \<in> set (concat ds). s_paddr (segs2 (so_seg so)) = so_pa so"
      "\<forall>j. j \<notin> so_seg ` set (concat ds) \<longrightarrow> segs2 j = segs1 j" by blast
  have "so_seg ` set srcs \<inter> so_seg ` set (concat ds) = {}" using Cons.prems(1) by auto
  then have same: "\<forall>so \<in> set srcs. segs2 (so_seg so) = segs1 (so_seg so)" using 2(4) by blast
  then have "linked (seg_view segs2) (map so_seg srcs)" using 1(2) by (subst seg_view_cong [of _ segs2 segs1]) auto
  with 1 2 same show ?case by (simp add: ball_Un image_Un)
qed simp

lemma address_test_linked:
  "linked (seg_view segs) (i # is) \<Longrightarrow> \<forall>j \<in> set (i # is). seg_at v (seg_view segs) j
    \<Longrightarrow> address_test_completion v dv mem segs i = Some (\<forall>j \<in> set (i # is). segment_equal dv mem (segs j))"
proof (induction "is" arbitrary: i)
  case Nil
  then show ?case by (simp add: address_test_completion.simps)
next
  case (Cons j js)
  then have "address_test_completion v dv mem segs j = Some (\<forall>k \<in> set (j # js). segment_equal dv mem (segs k))" by simp
  then show ?case using Cons.prems aligned_low [of "s_paddr (segs j)"]
    by (subst address_test_completion.simps) (simp add: seg_at_def aligned_mask)
qed

text \<open>A transfer loaded from the sources of all its destinations is one chain, which the controller walks to its end
  from the descriptor its transfer object names; so the address test that runs when it has completed ends, and it
  passes just when every segment's destination holds what its source holds.\<close>

theorem address_test_ends:
  assumes dist: "distinct (map so_seg (concat ds))"
    and rdes: "\<forall>so \<in> set (concat ds). rde (src (so_desc so)) \<noteq> None"
    and ne: "ds \<noteq> []" "[] \<notin> set ds"
    and at: "\<forall>so \<in> set (concat ds). so_pa so AND 0x1f = 0 \<and> seg_virt (ucast (so_pa so)) = so_seg so"
    and load: "load_all_6460 pa_of after ds segs mem = (chs, segs1, mem1)"
  shows "\<exists>segs2 xfo. link_dsts_6460 (map (\<lambda>c. (True, Some c)) chs) [] segs1 = Val (concat chs, segs2)
    \<and> dma_6460_link_bind (concat chs) d = Val xfo
    \<and> walk_chain seg_virt (seg_view segs2) (ucast (s_paddr (segs2 (x_desc xfo)))) = Some (map so_seg (concat ds))
    \<and> address_test_completion seg_virt data_virt mem2 segs2 (x_desc xfo)
        = Some (\<forall>so \<in> set (concat ds). segment_equal data_virt mem2 (segs2 (so_seg so)))"
proof -
  from load_all_6460_linked [OF dist rdes, of pa_of after segs mem] load have
    l: "chs = map (map so_seg) ds" "\<forall>c \<in> set chs. linked (seg_view segs1) c"
      "\<forall>so \<in> set (concat ds). s_paddr (segs1 (so_seg so)) = so_pa so" by auto
  have cc: "concat chs = map so_seg (concat ds)" by (simp add: l(1) map_concat)
  have "\<forall>c \<in> set chs. c \<noteq> [] \<and> linked (seg_view segs1) c" using l ne by auto
  from link_dsts_6460_linked [of segs1 "[]", OF _ this] dist obtain segs2 where
    s2: "link_dsts_6460 (map (\<lambda>c. (True, Some c)) chs) [] segs1 = Val (concat chs, segs2)"
      "linked (seg_view segs2) (concat chs)" "\<forall>j. s_paddr (segs2 j) = s_paddr (segs1 j)" by (auto simp: cc)
  have "concat ds \<noteq> []" using ne by (cases ds) auto
  then obtain so rest where so: "concat ds = so # rest" by (cases "concat ds") auto
  have seg: "\<forall>j \<in> set (map so_seg (concat ds)). seg_at seg_virt (seg_view segs2) j"
    using at l(3) s2(3) by (auto simp: seg_at_def)
  have lk: "linked (seg_view segs2) (so_seg so # map so_seg rest)" using s2(2) by (simp add: cc so)
  have "walk_chain seg_virt (seg_view segs2) (ucast (s_paddr (segs2 (so_seg so)))) = Some (map so_seg (concat ds))"
    using walk_linked [OF lk, of seg_virt] seg by (simp add: so)
  moreover have "address_test_completion seg_virt data_virt mem2 segs2 (so_seg so)
      = Some (\<forall>so \<in> set (concat ds). segment_equal data_virt mem2 (segs2 (so_seg so)))"
    using address_test_linked [OF lk, of seg_virt] seg by (simp add: so)
  ultimately show ?thesis using s2(1) by (simp add: dma_6460_link_bind_def cc so)
qed

theorem address_test_ends_witness:
  "\<exists>segs2 i. walk_chain (\<lambda>p. unat p div 32) (seg_view segs2) (ucast (s_paddr (segs2 i))) = Some [1, 2, 3]
    \<and> address_test_completion (\<lambda>p. unat p div 32) (\<lambda>p. p) (\<lambda>_. 0) segs2 i \<noteq> None"
proof -
  let ?d = "zero_desc\<lparr>rde := Some 0\<rparr>"
  let ?b = "\<lparr>xfer = ?d, dst = ?d, src = ?d\<rparr>"
  let ?so = "\<lambda>i. \<lparr>so_seg = i, so_pa = of_nat (32 * i), so_desc = ?b\<rparr>"
  let ?ds = "[[?so 1, ?so 2], [?so 3]]"
  obtain chs segs1 mem1 where l: "load_all_6460 ucast False ?ds (\<lambda>_. undefined) (\<lambda>_. 0) = (chs, segs1, mem1)"
    by (metis prod_cases3)
  have at: "\<forall>so \<in> set (concat ?ds). so_pa so AND 0x1f = 0 \<and> (\<lambda>p. unat p div 32) (ucast (so_pa so) :: u32) = so_seg so"
    by simp
  from address_test_ends [OF _ _ _ _ at l, of ?b "\<lambda>p. p" "\<lambda>_. 0"] show ?thesis by (simp add: zero_desc_def) blast
qed

section \<open>Channels and the driver's state\<close>

text \<open>
  A channel, as in the other driver; \<open>c_mr\<close>, \<open>c_cdar\<close> and \<open>c_acked\<close> hold what was last written to its mode
  register, its descriptor address register and its status register. The states are the same five.
\<close>

record ppc_dma_chan_6460 =
  c_state :: dma_state
  c_op_mode :: u32
  c_num :: nat
  c_q :: "nat list"
  c_seg_int :: int
  c_chain_int :: int
  c_bogus_int :: int
  c_err_int :: int
  c_bytes_queued :: u32
  c_bytes_tx :: u64
  c_mr :: u32
  c_cdar :: u32
  c_acked :: u32

text \<open>
  The engine with the static variables of the file, the transfer objects and the descriptors they refer to
  by number. \<open>e_completed\<close> lists the transfers whose callback has run.
\<close>

record dma_engine_6460 =
  e_chans :: "nat \<Rightarrow> ppc_dma_chan_6460"
  e_nchans :: nat
  e_next_channel :: nat
  e_first_chan :: nat
  e_last_chan :: nat
  e_events :: "nat \<Rightarrow> ppc_dma_event"
  e_ring_in :: "nat ringbuf"
  e_ring_out :: "nat ringbuf"
  e_xfos :: "nat \<Rightarrow> xfer_object_6460"
  e_segs :: "nat \<Rightarrow> seg_desc_6460"
  e_held :: "nat option"
  e_completed :: "nat list"

definition on_chan_6460 :: "nat \<Rightarrow> (ppc_dma_chan_6460 \<Rightarrow> ppc_dma_chan_6460) \<Rightarrow> dma_engine_6460 \<Rightarrow> dma_engine_6460" where
  "on_chan_6460 c f s = s\<lparr>e_chans := (e_chans s)(c := f (e_chans s c))\<rparr>"

definition on_xfo_6460 :: "nat \<Rightarrow> (xfer_object_6460 \<Rightarrow> xfer_object_6460) \<Rightarrow> dma_engine_6460 \<Rightarrow> dma_engine_6460" where
  "on_xfo_6460 x f s = s\<lparr>e_xfos := (e_xfos s)(x := f (e_xfos s x))\<rparr>"

section \<open>Starting, queueing, completing\<close>

definition start_dma_6460 :: "nat \<Rightarrow> nat \<Rightarrow> dma_engine_6460 \<Rightarrow> dma_engine_6460" where
  "start_dma_6460 c sd s =
     on_chan_6460 c (\<lambda>ch. ch\<lparr>c_state := DMA_RUNNING, c_cdar := ucast (s_paddr (e_segs s sd)),
                             c_mr := c_op_mode ch OR DMA_MODE_START\<rparr>) s"

definition ppcdma_queue_chain_6460 :: "nat \<Rightarrow> nat \<Rightarrow> dma_engine_6460 \<Rightarrow> errno \<times> dma_engine_6460" where
  "ppcdma_queue_chain_6460 c x s =
     (if c_state (e_chans s c) \<noteq> DMA_IDLE \<and> c_state (e_chans s c) \<noteq> DMA_RUNNING then (- EAGAIN, s)
      else
        (let s1 = on_xfo_6460 x (\<lambda>xf. xf\<lparr>x_flags := VFI_BIND_QUEUED\<rparr>) (on_chan_6460 c (\<lambda>ch. ch\<lparr>c_q := c_q ch @ [x]\<rparr>) s)
         in if c_state (e_chans s1 c) = DMA_IDLE then
              (0, start_dma_6460 c (x_desc (e_xfos s1 x))
                    (on_xfo_6460 x (\<lambda>xf. xf\<lparr>x_flags := VFI_BIND_DMA_RUNNING\<rparr>)
                      (on_chan_6460 c (\<lambda>ch. ch\<lparr>c_bytes_queued := c_bytes_queued ch + x_len (e_xfos s1 x)\<rparr>) s1)))
            else (0, s1)))"

definition send_completion_6460 :: "nat \<Rightarrow> nat \<Rightarrow> int \<Rightarrow> dma_engine_6460 \<Rightarrow> dma_engine_6460" where
  "send_completion_6460 c x st s =
     (case ringbuf_get (e_ring_in s) of
        (None, _) \<Rightarrow> s
      | (Some e, ring) \<Rightarrow>
          s\<lparr>e_ring_in := ring,
            e_events := (e_events s)(e := \<lparr>ev_desc = x, ev_chan_num = c_num (e_chans s c), ev_status = st\<rparr>),
            e_ring_out := snd (ringbuf_put (e_ring_out s) (Some e))\<rparr>)"

text \<open>
  \<open>do_interrupt\<close>. An interrupt of a channel that is still busy is only counted. Of the two states the code
  compares with before reporting a failure, \<open>DMA_ERROR\<close> is the number of a status, which no state has.
\<close>

definition busy_interrupt_6460 :: "u32 \<Rightarrow> nat \<Rightarrow> dma_engine_6460 \<Rightarrow> dma_engine_6460" where
  "busy_interrupt_6460 status c s =
     on_chan_6460 c (\<lambda>ch.
        let ch = ch\<lparr>c_acked := status, c_state := DMA_RUNNING\<rparr>
        in if status AND DMA_STAT_SEGMENT_INTERRUPT \<noteq> 0 then ch\<lparr>c_seg_int := c_seg_int ch + 1\<rparr>
           else ch\<lparr>c_bogus_int := c_bogus_int ch + 1\<rparr>) s"

definition note_status_6460 :: "u32 \<Rightarrow> nat \<Rightarrow> dma_engine_6460 \<Rightarrow> dma_engine_6460" where
  "note_status_6460 status c s =
     on_chan_6460 c (\<lambda>ch.
        let ch = ch\<lparr>c_acked := status\<rparr>;
            ch = (if status AND (DMA_STAT_PCI_ERR OR DMA_STAT_MEM_ERR) \<noteq> 0
                  then ch\<lparr>c_err_int := c_err_int ch + 1, c_state := DMA_ERR_STOP\<rparr>
                  else ch\<lparr>c_state := DMA_IDLE\<rparr>);
            ch = (if status AND DMA_STAT_SEGMENT_INTERRUPT \<noteq> 0 then ch\<lparr>c_seg_int := c_seg_int ch + 1\<rparr> else ch)
        in if status AND DMA_STAT_CHAIN_INTERRUPT \<noteq> 0 then ch\<lparr>c_chain_int := c_chain_int ch + 1\<rparr> else ch) s"

definition do_interrupt_6460 :: "u32 \<Rightarrow> nat \<Rightarrow> dma_engine_6460 \<Rightarrow> dma_engine_6460" where
  "do_interrupt_6460 status c s =
     (if status AND DMA_STAT_CB \<noteq> 0 then busy_interrupt_6460 status c s
      else
        (let s1 = note_status_6460 status c s
         in case c_q (e_chans s1 c) of
              [] \<Rightarrow> on_chan_6460 c (\<lambda>ch. ch\<lparr>c_bogus_int := c_bogus_int ch + 1, c_state := DMA_IDLE\<rparr>) s1
            | x # rest \<Rightarrow>
                (let s2 = on_chan_6460 c (\<lambda>ch. ch\<lparr>c_q := rest\<rparr>) s1
                 in if c_state (e_chans s2 c) = DMA_ERR_STOP then send_completion_6460 c x DMA_ERROR s2
                    else
                      (let s3 = send_completion_6460 c x DMA_OK
                                  (on_chan_6460 c (\<lambda>ch. ch\<lparr>c_bytes_tx := c_bytes_tx ch + ucast (x_len (e_xfos s2 x))\<rparr>) s2)
                       in case c_q (e_chans s3 c) of
                            [] \<Rightarrow> s3
                          | y # _ \<Rightarrow>
                              start_dma_6460 c (x_desc (e_xfos s3 y))
                                (on_xfo_6460 y (\<lambda>xf. xf\<lparr>x_flags := VFI_BIND_DMA_RUNNING\<rparr>) s3)))))"

text \<open>
  One round of \<open>dma_completion_thread\<close> in the same three parts as in \<open>Vfi_Dma_Rio\<close>: taking an event, the
  callback, giving the event back. The transfer's flags become the event's status as it is.
\<close>

definition completion_take_6460 :: "dma_engine_6460 \<Rightarrow> dma_engine_6460" where
  "completion_take_6460 s =
     (case ringbuf_get (e_ring_out s) of
        (None, _) \<Rightarrow> s
      | (Some e, ring) \<Rightarrow>
          (let ev = e_events s e; x = ev_desc ev
           in on_xfo_6460 x (\<lambda>xf. xf\<lparr>x_flags := of_int (ev_status ev)\<rparr>)
                (on_chan_6460 (ev_chan_num ev) (\<lambda>ch. ch\<lparr>c_bytes_queued := c_bytes_queued ch - x_len (e_xfos s x)\<rparr>)
                  (s\<lparr>e_ring_out := ring, e_held := Some e\<rparr>))))"

definition completion_callback_6460 :: "(nat \<Rightarrow> dma_engine_6460 \<Rightarrow> dma_engine_6460) \<Rightarrow> dma_engine_6460 \<Rightarrow> dma_engine_6460" where
  "completion_callback_6460 cb s =
     (case e_held s of
        None \<Rightarrow> s
      | Some e \<Rightarrow> (let x = ev_desc (e_events s e)
                   in if x_cb (e_xfos s x) then (cb x s)\<lparr>e_completed := e_completed (cb x s) @ [x]\<rparr> else s))"

definition completion_return_6460 :: "dma_engine_6460 \<Rightarrow> dma_engine_6460" where
  "completion_return_6460 s =
     (case e_held s of
        None \<Rightarrow> s
      | Some e \<Rightarrow> s\<lparr>e_ring_in := snd (ringbuf_put (e_ring_in s) (Some e)), e_held := None\<rparr>)"

section \<open>Choosing a channel\<close>

fun shortest_queue_6460 :: "(nat \<Rightarrow> ppc_dma_chan_6460) \<Rightarrow> nat list \<Rightarrow> nat \<times> u32 \<Rightarrow> nat \<times> u32" where
  "shortest_queue_6460 ch [] best = best"
| "shortest_queue_6460 ch (i # is) (avail, queue_len) =
     (if c_bytes_queued (ch i) <s queue_len then shortest_queue_6460 ch is (i, c_bytes_queued (ch i))
      else shortest_queue_6460 ch is (avail, queue_len))"

text \<open>
  \<open>load_balance\<close>: the candidate is the channel \<open>next_channel\<close>. It is \<open>next_channel\<close> that is moved on, not
  the channel chosen. Looking at a channel past the array of two is undefined.
\<close>

definition load_balance_6460 :: "dma_engine_6460 \<Rightarrow> (nat \<times> dma_engine_6460) cres" where
  "load_balance_6460 s =
     (if e_next_channel s \<ge> MPC10X_DMA_NCHANS \<or> (e_first_chan s \<le> e_last_chan s \<and> e_last_chan s \<ge> MPC10X_DMA_NCHANS)
      then Undef
      else
        (let (avail, _) = shortest_queue_6460 (e_chans s) [e_first_chan s..<Suc (e_last_chan s)]
                            (e_next_channel s, c_bytes_queued (e_chans s (e_next_channel s)))
         in Val (avail, s\<lparr>e_next_channel := (if avail = e_last_chan s then e_first_chan s else e_next_channel s + 1)\<rparr>)))"

definition dma_6460_queue_transfer :: "nat \<Rightarrow> dma_engine_6460 \<Rightarrow> (errno \<times> dma_engine_6460) cres" where
  "dma_6460_queue_transfer x s =
     (if e_nchans s = 1 then Val (ppcdma_queue_chain_6460 (e_first_chan s) x s)
      else cres_bind (load_balance_6460 s) (\<lambda>(c, s1). Val (ppcdma_queue_chain_6460 c x s1)))"

section \<open>Setting up and closing\<close>

definition blank_chan_6460 :: ppc_dma_chan_6460 where
  "blank_chan_6460 = \<lparr>c_state = DMA_UNINIT, c_op_mode = 0, c_num = 0, c_q = [], c_seg_int = 0, c_chain_int = 0,
     c_bogus_int = 0, c_err_int = 0, c_bytes_queued = 0, c_bytes_tx = 0, c_mr = 0, c_cdar = 0, c_acked = 0\<rparr>"

text \<open>
  \<open>setup_vfi_channel\<close>: \<open>irq_err\<close> is the answer of \<open>request_irq\<close>. The second test lets an index of two pass,
  which is past the array.
\<close>

definition setup_vfi_channel_6460 :: "errno \<Rightarrow> int \<Rightarrow> dma_engine_6460 \<Rightarrow> (errno \<times> dma_engine_6460) cres" where
  "setup_vfi_channel_6460 irq_err index s =
     (if index < int (e_first_chan s) \<or> index < 0 then Val (- ELNRNG, s)
      else if index > int (e_last_chan s) \<or> index > int MPC10X_DMA_NCHANS then Val (- ELNRNG, s)
      else if nat index \<ge> MPC10X_DMA_NCHANS then Undef
      else
        (let c = nat index; mode = DMA_MODE_PCI_DELAY2 OR DMA_MODE_ERR_INT_EN OR DMA_MODE_CHAIN_INT_EN;
             s1 = on_chan_6460 c (\<lambda>ch. ch\<lparr>c_num := c, c_op_mode := mode, c_mr := mode\<rparr>) s
         in if irq_err \<noteq> 0 then Val (irq_err, on_chan_6460 c (\<lambda>ch. ch\<lparr>c_state := DMA_UNINIT\<rparr>) s1)
            else Val (0, on_chan_6460 c (\<lambda>ch. ch\<lparr>c_q := [], c_state := DMA_IDLE\<rparr>) (s1\<lparr>e_nchans := e_nchans s1 + 1\<rparr>))))"

text \<open>
  \<open>dma_6460_init\<close>. Only the allocation of the engine is checked. When one of the arrays cannot be allocated
  or the thread cannot be made the code goes on with the null or error pointer: \<open>Undef\<close>. A failing
  registration leaves the thread and the rings behind.
\<close>

definition dma_6460_init ::
  "nat \<Rightarrow> nat \<Rightarrow> nat \<Rightarrow> bool \<times> bool \<times> bool \<times> bool \<times> bool \<Rightarrow> nat \<Rightarrow> (nat \<Rightarrow> xfer_object_6460) \<Rightarrow> (nat \<Rightarrow> seg_desc_6460)
    \<Rightarrow> (nat \<Rightarrow> ppc_dma_event) \<Rightarrow> registry \<Rightarrow> (errno \<times> dma_engine_6460 option \<times> registry) cres" where
  "dma_6460_init fc lc n mem r xs sds evs g =
     (let (m_de, m_arr, m_in, m_out, thread) = mem
      in if \<not> m_de then Val (- ENOMEM, None, g)
         else if \<not> m_arr \<or> \<not> m_in \<or> \<not> m_out \<or> \<not> thread then Undef
         else
           (let event_in = map Some [0..<n] @ [None]; event_out = replicate (n + 1) None;
                s = \<lparr>e_chans = (\<lambda>_. blank_chan_6460), e_nchans = 0, e_next_channel = fc, e_first_chan = fc, e_last_chan = lc,
                     e_events = evs, e_ring_in = ringbuf_init event_in (int n + 1) True,
                     e_ring_out = ringbuf_init event_out (int n + 1) False,
                     e_xfos = xs, e_segs = sds, e_held = None, e_completed = []\<rparr>;
                (err, g') = vfi_dma_register r g
            in Val (err, Some s, g')))"

definition dma_6460_close :: "registry \<Rightarrow> registry" where
  "dma_6460_close g = vfi_dma_unregister ''ppc8245'' g"

section \<open>The rings are those of the other driver\<close>

definition ring_view :: "dma_engine_6460 \<Rightarrow> dma_engine" where
  "ring_view s = \<lparr>chan = (\<lambda>c. blank_chan\<lparr>ch_num := c_num (e_chans s c)\<rparr>), nchans = 0, next_channel = 0,
     first_chan = 0, last_chan = 0, event_array = e_events s, event_ring_in = e_ring_in s,
     event_ring_out = e_ring_out s, xfos = (\<lambda>_. demo_xfo), held = e_held s, delivered = []\<rparr>"

abbreviation mailbox_6460 :: "dma_engine_6460 \<Rightarrow> (nat \<times> nat \<times> int) list" where
  "mailbox_6460 s \<equiv> mailbox (ring_view s)"

abbreviation outstanding_6460 :: "dma_engine_6460 \<Rightarrow> nat" where
  "outstanding_6460 s \<equiv> outstanding (ring_view s)"

lemma view_simps [simp]:
  "held (ring_view s) = e_held s" "ch_num (chan (ring_view s) c) = c_num (e_chans s c)"
  "event_array (ring_view s) = e_events s" "event_ring_in (ring_view s) = e_ring_in s"
  "event_ring_out (ring_view s) = e_ring_out s"
  by (simp_all add: ring_view_def)

lemma view_xfo [simp]: "ring_view (on_xfo_6460 x f s) = ring_view s"
  by (simp add: ring_view_def on_xfo_6460_def)

lemma view_chan [simp]:
  "mailbox (ring_view (on_chan_6460 c f s)) = mailbox (ring_view s)"
  "outstanding (ring_view (on_chan_6460 c f s)) = outstanding (ring_view s)"
  "events_ok n (ring_view (on_chan_6460 c f s)) = events_ok n (ring_view s)"
  by (simp_all add: ring_view_def on_chan_6460_def mailbox_def outstanding_def events_ok_def held_mset_def)

lemma send_completion_view:
  "ring_view (send_completion_6460 c x st s) = send_completion c x st (ring_view s)"
  by (simp add: send_completion_6460_def send_completion_def ring_view_def split: prod.split option.split)

lemma completion_return_view: "ring_view (completion_return_6460 s) = completion_return (ring_view s)"
  by (simp add: completion_return_6460_def completion_return_def ring_view_def split: option.split)

lemma completion_take_view:
  "mailbox_6460 (completion_take_6460 s) = mailbox (completion_take (ring_view s))"
  "events_ok n (ring_view (completion_take_6460 s)) = events_ok n (completion_take (ring_view s))"
  "e_held (completion_take_6460 s) = held (completion_take (ring_view s))"
  by (simp_all add: completion_take_6460_def completion_take_def ring_view_def Let_def on_chan_6460_def on_xfo_6460_def
      mailbox_def events_ok_def held_mset_def split: prod.split option.split)

section \<open>Runs of the driver\<close>

lemma on_chan_simps_6460 [simp]:
  "e_chans (on_chan_6460 c f s) d = (if d = c then f (e_chans s c) else e_chans s d)"
  "e_xfos (on_chan_6460 c f s) = e_xfos s" "e_segs (on_chan_6460 c f s) = e_segs s" "e_held (on_chan_6460 c f s) = e_held s"
  "e_nchans (on_chan_6460 c f s) = e_nchans s" "e_next_channel (on_chan_6460 c f s) = e_next_channel s"
  "e_first_chan (on_chan_6460 c f s) = e_first_chan s" "e_last_chan (on_chan_6460 c f s) = e_last_chan s"
  by (simp_all add: on_chan_6460_def)

lemma on_xfo_simps_6460 [simp]:
  "e_xfos (on_xfo_6460 x f s) y = (if y = x then f (e_xfos s x) else e_xfos s y)"
  "e_chans (on_xfo_6460 x f s) = e_chans s" "e_segs (on_xfo_6460 x f s) = e_segs s" "e_held (on_xfo_6460 x f s) = e_held s"
  "e_nchans (on_xfo_6460 x f s) = e_nchans s" "e_next_channel (on_xfo_6460 x f s) = e_next_channel s"
  "e_first_chan (on_xfo_6460 x f s) = e_first_chan s" "e_last_chan (on_xfo_6460 x f s) = e_last_chan s"
  by (simp_all add: on_xfo_6460_def)

lemma frame_send_6460 [simp]:
  "e_chans (send_completion_6460 c x st s) = e_chans s" "e_xfos (send_completion_6460 c x st s) = e_xfos s"
  "e_held (send_completion_6460 c x st s) = e_held s" "e_segs (send_completion_6460 c x st s) = e_segs s"
  by (simp_all add: send_completion_6460_def split: prod.split option.split)

text \<open>
  \<open>run_6460 n h l d s\<close>: the driver reaches \<open>s\<close> from its initialisation with \<open>n\<close> events. \<open>h\<close> lists the transfers the
  channels accepted (with the channel), \<open>l\<close> those of them that found their channel idle, \<open>d\<close> those the completion
  thread took up. Channels are probed once; at most \<open>n\<close> completions are outstanding;
  what a callback does to the driver, queueing transfers for one, are other steps of the run.
\<close>

definition transfer_chan_6460 :: "dma_engine_6460 \<Rightarrow> nat" where
  "transfer_chan_6460 s =
     (if e_nchans s = 1 then e_first_chan s else (case load_balance_6460 s of Val (c, _) \<Rightarrow> c | Undef \<Rightarrow> 0))"

inductive run_6460 :: "nat \<Rightarrow> (nat \<times> nat) list \<Rightarrow> (nat \<times> nat) list \<Rightarrow> (nat \<times> nat) list \<Rightarrow> dma_engine_6460 \<Rightarrow> bool" for n where
  boot: "dma_6460_init fc lc n mem r xs sds evs g = Val (0, Some s, g') \<Longrightarrow> run_6460 n [] [] [] s"
| probe: "run_6460 n h l d s \<Longrightarrow> 0 \<le> i \<Longrightarrow> c_state (e_chans s (nat i)) = DMA_UNINIT
    \<Longrightarrow> setup_vfi_channel_6460 e i s = Val (ret, s') \<Longrightarrow> run_6460 n h l d s'"
| queue: "run_6460 n h l d s \<Longrightarrow> dma_6460_queue_transfer x s = Val (ret, s')
    \<Longrightarrow> run_6460 n (if ret = 0 then h @ [(transfer_chan_6460 s, x)] else h)
         (if ret = 0 \<and> c_state (e_chans s (transfer_chan_6460 s)) = DMA_IDLE then l @ [(transfer_chan_6460 s, x)] else l) d s'"
| irq: "run_6460 n h l d s \<Longrightarrow> c_state (e_chans s c) \<noteq> DMA_UNINIT \<Longrightarrow> outstanding_6460 s < n
    \<Longrightarrow> run_6460 n h l d (do_interrupt_6460 st c s)"
| take_event: "run_6460 n h l d s \<Longrightarrow> e_held s = None
    \<Longrightarrow> run_6460 n h l (d @ map (\<lambda>(x, c, _). (c, x)) (take 1 (mailbox_6460 s))) (completion_take_6460 s)"
| callback: "run_6460 n h l d s \<Longrightarrow> run_6460 n h l d (completion_callback_6460 (\<lambda>_ s. s) s)"
| give_back: "run_6460 n h l d s \<Longrightarrow> run_6460 n h l d (completion_return_6460 s)"

text \<open>
  What holds in every run. The sum of lengths, \<open>bytes\<close>, of a list of transfers on a channel, is a 32-bit number.
\<close>

definition bytes_6460 :: "dma_engine_6460 \<Rightarrow> nat \<Rightarrow> (nat \<times> nat) list \<Rightarrow> u32" where
  "bytes_6460 s c h = (\<Sum>x\<leftarrow>on_chan c h. x_len (e_xfos s x))"

lemma bytes_simps_6460 [simp]: "bytes_6460 s c [] = 0" "bytes_6460 s c (h @ h') = bytes_6460 s c h + bytes_6460 s c h'"
  "bytes_6460 s c ((k, x) # h) = (if k = c then x_len (e_xfos s x) else 0) + bytes_6460 s c h"
  by (simp_all add: bytes_6460_def)

definition run_inv_6460 ::
  "nat \<Rightarrow> (nat \<times> nat) list \<Rightarrow> (nat \<times> nat) list \<Rightarrow> (nat \<times> nat) list \<Rightarrow> dma_engine_6460 \<Rightarrow> bool" where
  "run_inv_6460 n h l d s \<longleftrightarrow> events_ok n (ring_view s)
     \<and> (\<forall>c. on_chan c h = on_chan c d @ mail_for c (mailbox_6460 s) @ c_q (e_chans s c))
     \<and> (\<forall>c. c_bytes_queued (e_chans s c) = bytes_6460 s c l - bytes_6460 s c d)
     \<and> (\<forall>c. if c_state (e_chans s c) = DMA_UNINIT
            then mail_for c (mailbox_6460 s) = [] \<and> c_q (e_chans s c) = [] else c_num (e_chans s c) = c)"

lemma run_inv_boot_6460:
  assumes "dma_6460_init fc lc n mem r xs sds evs g = Val (0, Some s, g')"
  shows "run_inv_6460 n [] [] [] s"
proof -
  have e: "e_ring_in s = ringbuf_init (map Some [0..<n] @ [None]) (int n + 1) True"
    "e_ring_out s = ringbuf_init (replicate (n + 1) None) (int n + 1) False"
    "e_held s = None" "e_chans s = (\<lambda>_. blank_chan_6460)"
    using assms by (auto simp: dma_6460_init_def Let_def split: prod.splits if_splits)
  have n: "nat (int n + 1) = Suc n" by simp
  have r: "ring_list (e_ring_in s) = map Some [0..<n]" "ring_list (e_ring_out s) = []"
    unfolding e by (simp_all add: ring_list_init_full ring_list_init_empty n)
  have "ring_ok (e_ring_in s)" "ring_ok (e_ring_out s)"
    unfolding e by (auto intro!: ring_ok_init simp: n)
  moreover have "ring_capacity (e_ring_in s) = n" "ring_capacity (e_ring_out s) = n"
    unfolding e by (simp_all add: ring_capacity_def ringbuf_init_def n)
  ultimately show ?thesis
    by (simp add: run_inv_6460_def events_ok_def r e(3,4) held_mset_def mailbox_def blank_chan_6460_def)
qed

text \<open>A step that changes one channel at most, keeping what the invariant reads of the others.\<close>

definition frame_6460 :: "dma_engine_6460 \<Rightarrow> dma_engine_6460 \<Rightarrow> bool" where
  "frame_6460 s' s \<longleftrightarrow> (\<forall>x. x_len (e_xfos s' x) = x_len (e_xfos s x))
     \<and> (\<forall>c. c_state (e_chans s' c) = DMA_UNINIT \<longleftrightarrow> c_state (e_chans s c) = DMA_UNINIT)
     \<and> (\<forall>c. c_num (e_chans s' c) = c_num (e_chans s c))"

lemma frame_bytes: "frame_6460 s' s \<Longrightarrow> bytes_6460 s' c h = bytes_6460 s c h"
  by (simp add: frame_6460_def bytes_6460_def)

lemma queue_chain_6460_books:
  assumes "ppcdma_queue_chain_6460 c x s = (ret, s')"
  shows "frame_6460 s' s \<and> events_ok n (ring_view s') = events_ok n (ring_view s)
    \<and> mailbox_6460 s' = mailbox_6460 s
    \<and> (\<forall>d. c_q (e_chans s' d) = c_q (e_chans s d) @ (if ret = 0 \<and> d = c then [x] else [])
         \<and> c_bytes_queued (e_chans s' d) = c_bytes_queued (e_chans s d)
             + (if ret = 0 \<and> d = c \<and> c_state (e_chans s c) = DMA_IDLE then x_len (e_xfos s x) else 0))
    \<and> (ret = 0 \<longrightarrow> c_state (e_chans s c) \<noteq> DMA_UNINIT)"
  using assms by (auto simp: ppcdma_queue_chain_6460_def Let_def start_dma_6460_def frame_6460_def split: if_splits)

lemma frame_send_view [simp]: "events_ok n (ring_view (s\<lparr>e_next_channel := k\<rparr>)) = events_ok n (ring_view s)"
  "mailbox_6460 (s\<lparr>e_next_channel := k\<rparr>) = mailbox_6460 s"
  by (simp_all add: ring_view_def events_ok_def held_mset_def mailbox_def)

lemma load_balance_6460_state: "load_balance_6460 s = Val (c, s') \<Longrightarrow> \<exists>k. s' = s\<lparr>e_next_channel := k\<rparr>"
  by (auto simp: load_balance_6460_def split: if_splits prod.splits)

lemma queue_transfer_6460_chain:
  assumes "dma_6460_queue_transfer x s = Val (ret, s')"
  shows "\<exists>k. ppcdma_queue_chain_6460 (transfer_chan_6460 s) x (s\<lparr>e_next_channel := k\<rparr>) = (ret, s')"
proof (cases "e_nchans s = 1")
  case True
  have "s\<lparr>e_next_channel := e_next_channel s\<rparr> = s" by simp
  with assms True show ?thesis
    by (intro exI [of _ "e_next_channel s"]) (simp add: dma_6460_queue_transfer_def transfer_chan_6460_def)
next
  case False
  with assms obtain c s1 where "load_balance_6460 s = Val (c, s1)" "ppcdma_queue_chain_6460 c x s1 = (ret, s')"
    by (auto simp: dma_6460_queue_transfer_def cres_bind_eq_Val)
  with False load_balance_6460_state show ?thesis by (fastforce simp: transfer_chan_6460_def)
qed

lemma run_inv_queue_6460:
  assumes inv: "run_inv_6460 n h l d s" and q: "dma_6460_queue_transfer x s = Val (ret, s')"
  shows "run_inv_6460 n (if ret = 0 then h @ [(transfer_chan_6460 s, x)] else h)
    (if ret = 0 \<and> c_state (e_chans s (transfer_chan_6460 s)) = DMA_IDLE then l @ [(transfer_chan_6460 s, x)] else l) d s'"
proof -
  obtain k where "ppcdma_queue_chain_6460 (transfer_chan_6460 s) x (s\<lparr>e_next_channel := k\<rparr>) = (ret, s')"
    using queue_transfer_6460_chain [OF q] by blast
  from queue_chain_6460_books [OF this, of n] have fr: "frame_6460 s' s"
    and b: "events_ok n (ring_view s') = events_ok n (ring_view s)" "mailbox_6460 s' = mailbox_6460 s"
      "\<And>d. c_q (e_chans s' d) = c_q (e_chans s d) @ (if ret = 0 \<and> d = transfer_chan_6460 s then [x] else [])"
      "\<And>d. c_bytes_queued (e_chans s' d) = c_bytes_queued (e_chans s d)
         + (if ret = 0 \<and> d = transfer_chan_6460 s \<and> c_state (e_chans s (transfer_chan_6460 s)) = DMA_IDLE then x_len (e_xfos s x) else 0)"
      "ret = 0 \<longrightarrow> c_state (e_chans s (transfer_chan_6460 s)) \<noteq> DMA_UNINIT"
    by (auto simp: frame_6460_def)
  have fifo: "on_chan c (if ret = 0 then h @ [(transfer_chan_6460 s, x)] else h)
      = on_chan c d @ mail_for c (mailbox_6460 s') @ c_q (e_chans s' c)" for c
    using inv b(2,3) by (auto simp: run_inv_6460_def)
  have bytes: "c_bytes_queued (e_chans s' c) = bytes_6460 s' c
      (if ret = 0 \<and> c_state (e_chans s (transfer_chan_6460 s)) = DMA_IDLE then l @ [(transfer_chan_6460 s, x)] else l)
      - bytes_6460 s' c d" for c
    using inv b(4) [of c] by (auto simp: run_inv_6460_def frame_bytes [OF fr])
  have "if c_state (e_chans s' c) = DMA_UNINIT
            then mail_for c (mailbox_6460 s') = [] \<and> c_q (e_chans s' c) = [] else c_num (e_chans s' c) = c" for c
    using inv b(2) b(3) [of c] b(5) fr by (auto simp: run_inv_6460_def frame_6460_def)
  with fifo bytes inv b(1) show ?thesis by (simp add: run_inv_6460_def)
qed

lemma run_inv_probe_6460:
  assumes inv: "run_inv_6460 n h l d s" and "0 \<le> i" and un: "c_state (e_chans s (nat i)) = DMA_UNINIT"
    and set: "setup_vfi_channel_6460 e i s = Val (ret, s')"
  shows "run_inv_6460 n h l d s'"
proof -
  have xs: "e_xfos s' = e_xfos s" and v: "mailbox_6460 s' = mailbox_6460 s" "events_ok n (ring_view s') = events_ok n (ring_view s)"
    using set by (auto simp: setup_vfi_channel_6460_def Let_def on_chan_6460_def ring_view_def mailbox_def events_ok_def
        held_mset_def split: if_splits)
  have ch: "c \<noteq> nat i \<Longrightarrow> e_chans s' c = e_chans s c"
    "c_q (e_chans s' (nat i)) = c_q (e_chans s (nat i)) \<or> c_q (e_chans s' (nat i)) = []"
    "c_bytes_queued (e_chans s' c) = c_bytes_queued (e_chans s c)"
    "c_state (e_chans s' (nat i)) \<noteq> DMA_UNINIT \<Longrightarrow> c_num (e_chans s' (nat i)) = nat i" for c
    using set un by (auto simp: setup_vfi_channel_6460_def Let_def on_chan_6460_def split: if_splits)
  have nil: "mail_for (nat i) (mailbox_6460 s) = []" "c_q (e_chans s (nat i)) = []"
    using inv un by (auto simp: run_inv_6460_def split: if_splits)
  then have q: "c_q (e_chans s' c) = c_q (e_chans s c)" for c using ch(1) [of c] ch(2) by (cases "c = nat i") auto
  have "if c_state (e_chans s' c) = DMA_UNINIT
            then mail_for c (mailbox_6460 s) = [] \<and> c_q (e_chans s c) = [] else c_num (e_chans s' c) = c" for c
    using inv ch(1) [of c] ch(4) nil by (cases "c = nat i") (auto simp: run_inv_6460_def)
  then show ?thesis using inv unfolding run_inv_6460_def v ch(3) q bytes_6460_def xs by blast
qed

text \<open>What an interrupt does to the books: nothing, or the head of the queue becomes a completion.\<close>

lemma busy_interrupt_books:
  "frame_6460 (busy_interrupt_6460 st c s) s \<or> c_state (e_chans s c) = DMA_UNINIT"
  by (auto simp: busy_interrupt_6460_def frame_6460_def Let_def)

lemma note_status_frame_6460 [simp]:
  "c_q (e_chans (note_status_6460 st c s) d) = c_q (e_chans s d)"
  "c_bytes_queued (e_chans (note_status_6460 st c s) d) = c_bytes_queued (e_chans s d)"
  "c_num (e_chans (note_status_6460 st c s) d) = c_num (e_chans s d)"
  "c_cdar (e_chans (note_status_6460 st c s) d) = c_cdar (e_chans s d)"
  "d \<noteq> c \<Longrightarrow> c_state (e_chans (note_status_6460 st c s) d) = c_state (e_chans s d)"
  "c_state (e_chans (note_status_6460 st c s) c)
     = (if st AND (DMA_STAT_PCI_ERR OR DMA_STAT_MEM_ERR) \<noteq> 0 then DMA_ERR_STOP else DMA_IDLE)"
  "e_xfos (note_status_6460 st c s) = e_xfos s" "e_held (note_status_6460 st c s) = e_held s"
  "e_segs (note_status_6460 st c s) = e_segs s"
  "mailbox_6460 (note_status_6460 st c s) = mailbox_6460 s"
  "outstanding_6460 (note_status_6460 st c s) = outstanding_6460 s"
  "events_ok n (ring_view (note_status_6460 st c s)) = events_ok n (ring_view s)"
  by (simp_all add: note_status_6460_def Let_def)

lemma do_interrupt_quiet_6460:
  assumes "st AND DMA_STAT_CB \<noteq> 0 \<or> c_q (e_chans s c) = []"
  shows "mailbox_6460 (do_interrupt_6460 st c s) = mailbox_6460 s
    \<and> events_ok n (ring_view (do_interrupt_6460 st c s)) = events_ok n (ring_view s)
    \<and> (\<forall>d. c_q (e_chans (do_interrupt_6460 st c s) d) = c_q (e_chans s d)
         \<and> c_bytes_queued (e_chans (do_interrupt_6460 st c s) d) = c_bytes_queued (e_chans s d))
    \<and> (c_state (e_chans s c) \<noteq> DMA_UNINIT \<longrightarrow> frame_6460 (do_interrupt_6460 st c s) s)"
  using assms by (auto simp: do_interrupt_6460_def busy_interrupt_6460_def frame_6460_def Let_def)

lemma do_interrupt_dequeues_6460:
  assumes ok: "events_ok n (ring_view s)" and room: "outstanding_6460 s < n"
    and q: "c_q (e_chans s c) = x # rest" and cb: "st AND DMA_STAT_CB = 0" and "c_state (e_chans s c) \<noteq> DMA_UNINIT"
  shows "events_ok n (ring_view (do_interrupt_6460 st c s))
    \<and> mailbox_6460 (do_interrupt_6460 st c s) = mailbox_6460 s
        @ [(x, c_num (e_chans s c), if st AND (DMA_STAT_PCI_ERR OR DMA_STAT_MEM_ERR) \<noteq> 0 then DMA_ERROR else DMA_OK)]
    \<and> outstanding_6460 (do_interrupt_6460 st c s) = Suc (outstanding_6460 s)
    \<and> (\<forall>d. c_q (e_chans (do_interrupt_6460 st c s) d) = (if d = c then rest else c_q (e_chans s d))
         \<and> c_bytes_queued (e_chans (do_interrupt_6460 st c s) d) = c_bytes_queued (e_chans s d))
    \<and> frame_6460 (do_interrupt_6460 st c s) s"
proof -
  define s2 where "s2 = on_chan_6460 c (\<lambda>ch. ch\<lparr>c_q := rest\<rparr>) (note_status_6460 st c s)"
  have s2: "events_ok n (ring_view s2)" "outstanding_6460 s2 = outstanding_6460 s" "mailbox_6460 s2 = mailbox_6460 s"
    "c_num (e_chans s2 c) = c_num (e_chans s c)" using ok by (simp_all add: s2_def)
  show ?thesis
  proof (cases "st AND (DMA_STAT_PCI_ERR OR DMA_STAT_MEM_ERR) \<noteq> 0")
    case True
    then have run: "do_interrupt_6460 st c s = send_completion_6460 c x DMA_ERROR s2"
      using q cb by (simp add: do_interrupt_6460_def s2_def Let_def)
    show ?thesis unfolding run using send_completion_room [OF s2(1), of c x DMA_ERROR] room s2 True assms(5)
      by (simp add: send_completion_view frame_6460_def) (simp add: s2_def)
  next
    case False
    define s3 where "s3 = send_completion_6460 c x DMA_OK
      (on_chan_6460 c (\<lambda>ch. ch\<lparr>c_bytes_tx := c_bytes_tx ch + ucast (x_len (e_xfos s2 x))\<rparr>) s2)"
    from False have run: "do_interrupt_6460 st c s = (case c_q (e_chans s3 c) of
                            [] \<Rightarrow> s3
                          | y # _ \<Rightarrow>
                              start_dma_6460 c (x_desc (e_xfos s3 y))
                                (on_xfo_6460 y (\<lambda>xf. xf\<lparr>x_flags := VFI_BIND_DMA_RUNNING\<rparr>) s3))"
      using q cb unfolding do_interrupt_6460_def s3_def s2_def Let_def by simp
    have s3: "events_ok n (ring_view s3)" "mailbox_6460 s3 = mailbox_6460 s @ [(x, c_num (e_chans s c), DMA_OK)]"
      "outstanding_6460 s3 = Suc (outstanding_6460 s)"
      unfolding s3_def send_completion_view
      using send_completion_room [of n "ring_view (on_chan_6460 c (\<lambda>ch. ch\<lparr>c_bytes_tx := c_bytes_tx ch + ucast (x_len (e_xfos s2 x))\<rparr>) s2)" c x DMA_OK]
        room s2 by simp_all
    have c3: "c_q (e_chans s3 d) = (if d = c then rest else c_q (e_chans s d))"
      "c_bytes_queued (e_chans s3 d) = c_bytes_queued (e_chans s d)" "c_num (e_chans s3 d) = c_num (e_chans s d)"
      "c_state (e_chans s3 d) = DMA_UNINIT \<longleftrightarrow> c_state (e_chans s d) = DMA_UNINIT" "e_xfos s3 = e_xfos s" for d
      using False assms(5) by (auto simp: s3_def s2_def)
    show ?thesis unfolding run using s3 False assms(5)
      by (cases rest) (auto simp: c3 start_dma_6460_def frame_6460_def)
  qed
qed

lemma run_inv_irq_6460:
  assumes inv: "run_inv_6460 n h l d s" and st: "c_state (e_chans s c) \<noteq> DMA_UNINIT" and room: "outstanding_6460 s < n"
  shows "run_inv_6460 n h l d (do_interrupt_6460 st c s)"
proof -
  let ?s = "do_interrupt_6460 st c s"
  have num: "c_num (e_chans s c) = c" and ok: "events_ok n (ring_view s)" using inv st by (auto simp: run_inv_6460_def)
  show ?thesis
  proof (cases "st AND DMA_STAT_CB \<noteq> 0 \<or> c_q (e_chans s c) = []")
    case True
    note b = do_interrupt_quiet_6460 [OF this, of n]
    with st have fr: "frame_6460 ?s s" by blast
    with b inv show ?thesis by (simp add: run_inv_6460_def frame_bytes [OF fr]) (simp add: frame_6460_def)
  next
    case False
    then obtain x rest where q: "c_q (e_chans s c) = x # rest" by (cases "c_q (e_chans s c)") auto
    from False have "st AND DMA_STAT_CB = 0" by simp
    from do_interrupt_dequeues_6460 [OF ok room q this st] num
    have b: "events_ok n (ring_view ?s)" "\<exists>r. mailbox_6460 ?s = mailbox_6460 s @ [(x, c, r)]"
      "\<And>e. c_q (e_chans ?s e) = (if e = c then rest else c_q (e_chans s e))"
      "\<And>e. c_bytes_queued (e_chans ?s e) = c_bytes_queued (e_chans s e)" "frame_6460 ?s s" by auto
    then obtain r where r: "mailbox_6460 ?s = mailbox_6460 s @ [(x, c, r)]" by blast
    have "on_chan e h = on_chan e d @ mail_for e (mailbox_6460 ?s) @ c_q (e_chans ?s e)" for e
      using inv b(3) r q by (auto simp: run_inv_6460_def)
    moreover have "if c_state (e_chans ?s e) = DMA_UNINIT
        then mail_for e (mailbox_6460 ?s) = [] \<and> c_q (e_chans ?s e) = [] else c_num (e_chans ?s e) = e" for e
      using inv b(3) r b(5) st num by (cases "e = c") (auto simp: run_inv_6460_def frame_6460_def)
    ultimately show ?thesis using inv b(1,4) by (simp add: run_inv_6460_def frame_bytes [OF b(5)])
  qed
qed

lemma completion_take_6460_books:
  assumes ok: "events_ok n (ring_view s)" and "e_held s = None" and mb: "mailbox_6460 s = (x, c, st) # rest"
  shows "(\<forall>d. c_num (e_chans (completion_take_6460 s) d) = c_num (e_chans s d)
      \<and> c_state (e_chans (completion_take_6460 s) d) = c_state (e_chans s d)
      \<and> c_q (e_chans (completion_take_6460 s) d) = c_q (e_chans s d)
      \<and> c_bytes_queued (e_chans (completion_take_6460 s) d) = c_bytes_queued (e_chans s d) - (if d = c then x_len (e_xfos s x) else 0))
    \<and> (\<forall>y. x_len (e_xfos (completion_take_6460 s) y) = x_len (e_xfos s y))
    \<and> x_flags (e_xfos (completion_take_6460 s) x) = of_int st"
proof -
  obtain y ys where y: "ring_list (e_ring_out s) = y # ys"
    and ev: "ev_desc (e_events s (the y)) = x" "ev_chan_num (e_events s (the y)) = c" "ev_status (e_events s (the y)) = st"
    using mb by (auto simp: mailbox_def Let_def)
  obtain e where e: "y = Some e" using events_ok_out [OF ok, of y] y by auto
  have "ring_ok (e_ring_out s)" using ok by (simp add: events_ok_def)
  from ring.get_head [OF this y] have get: "ringbuf_get (e_ring_out s) = (Some e, snd (ringbuf_get (e_ring_out s)))"
    using e by (simp add: prod_eq_iff)
  show ?thesis unfolding completion_take_6460_def
    by (subst get, use ev e in \<open>simp add: Let_def on_chan_6460_def on_xfo_6460_def\<close>)+
qed

lemma run_inv_take_6460:
  assumes inv: "run_inv_6460 n h l d s" and held: "e_held s = None"
  shows "run_inv_6460 n h l (d @ map (\<lambda>(x, c, _). (c, x)) (take 1 (mailbox_6460 s))) (completion_take_6460 s)"
proof -
  let ?s = "completion_take_6460 s"
  have ok: "events_ok n (ring_view s)" using inv by (simp add: run_inv_6460_def)
  have t: "events_ok n (ring_view ?s)" "mailbox_6460 ?s = tl (mailbox_6460 s)"
    using completion_take_events [OF ok] held by (simp_all add: completion_take_view)
  show ?thesis
  proof (cases "mailbox_6460 s")
    case Nil
    then have "ring_list (e_ring_out s) = []" by (simp add: mailbox_def)
    then have "?s = s" using ok by (simp add: completion_take_6460_def ring.get_empty events_ok_def)
    with inv Nil show ?thesis by simp
  next
    case (Cons m rest)
    obtain x c st where m: "m = (x, c, st)" by (cases m) auto
    note b = completion_take_6460_books [OF ok held Cons [unfolded m]]
    have len: "bytes_6460 ?s e k = bytes_6460 s e k" for e k using b by (simp add: bytes_6460_def)
    have "c_bytes_queued (e_chans ?s e) = bytes_6460 ?s e l - bytes_6460 ?s e (d @ [(c, x)])" for e
      using inv b by (simp add: run_inv_6460_def len)
    moreover have "on_chan e h = on_chan e (d @ [(c, x)]) @ mail_for e (mailbox_6460 ?s) @ c_q (e_chans ?s e)" for e
      using inv t b Cons m by (cases "e = c") (simp_all add: run_inv_6460_def)
    moreover have "if c_state (e_chans ?s e) = DMA_UNINIT
        then mail_for e rest = [] \<and> c_q (e_chans ?s e) = [] else c_num (e_chans ?s e) = e" for e
      using inv t b Cons m by (cases "e = c") (auto simp: run_inv_6460_def split: if_splits)
    ultimately show ?thesis using t Cons m by (simp add: run_inv_6460_def)
  qed
qed

lemma run_6460_inv: "run_6460 n h l d s \<Longrightarrow> run_inv_6460 n h l d s"
proof (induction rule: run_6460.induct)
  case (give_back h l d s)
  have ok: "events_ok n (ring_view s)" using give_back.IH by (simp add: run_inv_6460_def)
  have "e_chans (completion_return_6460 s) = e_chans s" "e_xfos (completion_return_6460 s) = e_xfos s"
    by (simp_all add: completion_return_6460_def split: option.split)
  with give_back.IH completion_return_events [OF ok] show ?case
    by (simp add: run_inv_6460_def completion_return_view bytes_6460_def)
next
  case (callback h l d s)
  have "ring_view (completion_callback_6460 (\<lambda>_ s. s) s) = ring_view s"
    "e_chans (completion_callback_6460 (\<lambda>_ s. s) s) = e_chans s" "e_xfos (completion_callback_6460 (\<lambda>_ s. s) s) = e_xfos s"
    by (simp_all add: completion_callback_6460_def ring_view_def Let_def split: option.split)
  with callback.IH show ?case by (simp add: run_inv_6460_def bytes_6460_def)
next
  case (take_event h l d s)
  from run_inv_take_6460 [OF take_event.IH take_event.hyps(2)] show ?case .
qed (rule run_inv_boot_6460 run_inv_probe_6460 run_inv_queue_6460 run_inv_irq_6460; assumption)+

text \<open>The example: two events, one channel, two transfers queued on it.\<close>

definition boot_6460 :: dma_engine_6460 where
  "boot_6460 = (case dma_6460_init 0 1 2 (True, True, True, True, True) 1
       (\<lambda>x. \<lparr>x_desc = x, x_cb = True, x_flags = 2, x_len = 64\<rparr>)
       (\<lambda>i. \<lparr>s_hw = \<lparr>l_saddr = 0, l_saddr_ext = 0, l_daddr = 0, l_daddr_ext = 0, l_next = 1, l_next_ext = 0, l_nbytes = 64\<rparr>,
              s_paddr = of_nat (32 * i)\<rparr>)
       (\<lambda>_. \<lparr>ev_desc = 0, ev_chan_num = 0, ev_status = 0\<rparr>) demo_registry of
     Val (_, Some s, _) \<Rightarrow> s)"

definition probed_6460 :: dma_engine_6460 where
  "probed_6460 = (case setup_vfi_channel_6460 0 0 boot_6460 of Val (_, s) \<Rightarrow> s)"

definition busy_6460 :: dma_engine_6460 where
  "busy_6460 = (case dma_6460_queue_transfer 7 probed_6460 of Val (_, s) \<Rightarrow>
     (case dma_6460_queue_transfer 8 s of Val (_, s) \<Rightarrow> s))"

lemmas demo_6460_defs = busy_6460_def probed_6460_def boot_6460_def dma_6460_init_def vfi_dma_register_def demo_registry_def
  setup_vfi_channel_6460_def blank_chan_6460_def dma_6460_queue_transfer_def ppcdma_queue_chain_6460_def
  start_dma_6460_def Let_def on_chan_6460_def on_xfo_6460_def

lemma busy_run_6460: "run_6460 2 [(0, 7), (0, 8)] [(0, 7)] [] busy_6460"
proof -
  have b: "run_6460 2 [] [] [] boot_6460"
    by (rule boot [where fc = 0 and lc = 1 and mem = "(True, True, True, True, True)" and r = 1
          and xs = "\<lambda>x. \<lparr>x_desc = x, x_cb = True, x_flags = 2, x_len = 64\<rparr>"
          and sds = "\<lambda>i. \<lparr>s_hw = \<lparr>l_saddr = 0, l_saddr_ext = 0, l_daddr = 0, l_daddr_ext = 0, l_next = 1, l_next_ext = 0, l_nbytes = 64\<rparr>,
              s_paddr = of_nat (32 * i)\<rparr>"
          and evs = "\<lambda>_. \<lparr>ev_desc = 0, ev_chan_num = 0, ev_status = 0\<rparr>" and g = demo_registry
          and g' = "snd (vfi_dma_register 1 demo_registry)"])
      (simp add: boot_6460_def dma_6460_init_def vfi_dma_register_def demo_registry_def Let_def)
  have p: "run_6460 2 [] [] [] probed_6460"
    by (rule probe [OF b, of 0 0 0]) (simp_all add: demo_6460_defs)
  obtain s1 where s1: "dma_6460_queue_transfer 7 probed_6460 = Val (0, s1)" "c_state (e_chans s1 0) = DMA_RUNNING"
    "e_nchans s1 = 1" "e_first_chan s1 = 0" by (simp add: demo_6460_defs)
  have c0: "transfer_chan_6460 probed_6460 = 0" "c_state (e_chans probed_6460 0) = DMA_IDLE"
    "transfer_chan_6460 s1 = 0"
    using s1 by (simp_all add: transfer_chan_6460_def demo_6460_defs)
  from queue [OF p s1(1)] c0 have q1: "run_6460 2 [(0, 7)] [(0, 7)] [] s1" by simp
  have "dma_6460_queue_transfer 8 s1 = Val (0, busy_6460)"
    using s1 by (simp add: busy_6460_def) (simp add: dma_6460_queue_transfer_def ppcdma_queue_chain_6460_def Let_def)
  from queue [OF q1 this] c0 s1(2) show ?thesis by simp
qed

section \<open>Properties of the driver\<close>



text \<open>A channel stopped by an error: its queue, and the descriptor its controller was last started on.\<close>

definition stopped_6460 :: "nat \<Rightarrow> nat list \<Rightarrow> u32 \<Rightarrow> dma_engine_6460 \<Rightarrow> bool" where
  "stopped_6460 c q addr s \<longleftrightarrow> c_state (e_chans s c) = DMA_ERR_STOP \<and> c_q (e_chans s c) = q \<and> c_cdar (e_chans s c) = addr"

lemma stopped_others:
  assumes "stopped_6460 c q addr s"
  shows "d \<noteq> c \<Longrightarrow> stopped_6460 c q addr (do_interrupt_6460 st d s)"
    "stopped_6460 c q addr (completion_take_6460 s)" "stopped_6460 c q addr (completion_return_6460 s)"
    "stopped_6460 c q addr (snd (ppcdma_queue_chain_6460 e z s))"
proof -
  show "stopped_6460 c q addr (do_interrupt_6460 st d s)" if "d \<noteq> c"
    using that assms by (auto simp: stopped_6460_def do_interrupt_6460_def busy_interrupt_6460_def note_status_6460_def
        start_dma_6460_def Let_def split: list.split)
  show "stopped_6460 c q addr (completion_take_6460 s)"
    using assms by (auto simp: stopped_6460_def completion_take_6460_def Let_def on_chan_6460_def on_xfo_6460_def
        split: prod.split option.split)
  show "stopped_6460 c q addr (completion_return_6460 s)"
    using assms by (simp add: stopped_6460_def completion_return_6460_def split: option.split)
  show "stopped_6460 c q addr (snd (ppcdma_queue_chain_6460 e z s))"
    using assms by (auto simp: stopped_6460_def ppcdma_queue_chain_6460_def start_dma_6460_def Let_def)
qed

text \<open>C39: An error stops a channel for good. The interrupt that reports it completes the transfer at the head of the queue
  as failed, and no other: the next one is not started, the channel refuses every transfer it is given from then on,
  without telling anyone, and what is in its queue stays there; the steps of the thread and the interrupts of other
  channels leave it so.\<close>

theorem error_stops_the_channel:
  assumes ok: "events_ok n (ring_view s)" and room: "outstanding_6460 s < n"
    and q: "c_q (e_chans s c) = x # rest" and cb: "st AND DMA_STAT_CB = 0"
    and err: "st AND (DMA_STAT_PCI_ERR OR DMA_STAT_MEM_ERR) \<noteq> 0"
  shows "mailbox_6460 (do_interrupt_6460 st c s) = mailbox_6460 s @ [(x, c_num (e_chans s c), DMA_ERROR)]
    \<and> stopped_6460 c rest (c_cdar (e_chans s c)) (do_interrupt_6460 st c s)
    \<and> (\<forall>t addr. stopped_6460 c rest addr t \<longrightarrow>
          (\<forall>z. ppcdma_queue_chain_6460 c z t = (- EAGAIN, t))
        \<and> (\<forall>d st'. d \<noteq> c \<longrightarrow> stopped_6460 c rest addr (do_interrupt_6460 st' d t))
        \<and> stopped_6460 c rest addr (completion_take_6460 t) \<and> stopped_6460 c rest addr (completion_return_6460 t)
        \<and> (\<forall>e z. stopped_6460 c rest addr (snd (ppcdma_queue_chain_6460 e z t))))"
proof (intro conjI allI impI)
  define s2 where "s2 = on_chan_6460 c (\<lambda>ch. ch\<lparr>c_q := rest\<rparr>) (note_status_6460 st c s)"
  have run: "do_interrupt_6460 st c s = send_completion_6460 c x DMA_ERROR s2"
    using q cb err by (simp add: do_interrupt_6460_def s2_def Let_def)
  have s2: "events_ok n (ring_view s2)" "outstanding_6460 s2 < n" "mailbox_6460 s2 = mailbox_6460 s"
    using ok room by (simp_all add: s2_def)
  show "mailbox_6460 (do_interrupt_6460 st c s) = mailbox_6460 s @ [(x, c_num (e_chans s c), DMA_ERROR)]"
    unfolding run send_completion_view using send_completion_room [OF s2(1,2), of c x DMA_ERROR] s2(3) by (simp add: s2_def)
  show "stopped_6460 c rest (c_cdar (e_chans s c)) (do_interrupt_6460 st c s)"
    unfolding run using err by (simp add: stopped_6460_def s2_def)
next
  fix t addr z
  assume "stopped_6460 c rest addr t"
  then show "ppcdma_queue_chain_6460 c z t = (- EAGAIN, t)" by (simp add: stopped_6460_def ppcdma_queue_chain_6460_def)
qed (simp_all add: stopped_others)

theorem error_stops_the_channel_witness:
  "mailbox_6460 (do_interrupt_6460 0x80 0 busy_6460) = [(7, 0, DMA_ERROR)]
    \<and> c_q (e_chans (do_interrupt_6460 0x80 0 busy_6460) 0) = [8]"
proof -
  have m: "mailbox_6460 busy_6460 = []" "e_held busy_6460 = None" "c_num (e_chans busy_6460 0) = 0"
    by (simp_all add: demo_6460_defs ring_view_def mailbox_def ring_list_def ring_count_def ringbuf_init_def)
  have q: "c_q (e_chans busy_6460 0) = [7, 8]"
    using run_6460_inv [OF busy_run_6460] m(1) by (auto simp: run_inv_6460_def dest: spec [of _ 0])
  have "events_ok 2 (ring_view busy_6460)" "outstanding_6460 busy_6460 < 2"
    using run_6460_inv [OF busy_run_6460] m by (simp_all add: run_inv_6460_def outstanding_def)
  from error_stops_the_channel [OF this q, where st = "0x80"] m show ?thesis by (simp add: stopped_6460_def)
qed

text \<open>The choice of a channel runs off the array. With both channels set up and the second one next, a transfer given
  while the first has the shorter queue goes to the first, and \<open>next_channel\<close> moves on to two; the next transfer
  looks at a channel past the array.\<close>

lemma next_channel_leaves_the_array:
  assumes "e_first_chan s = 0" "e_last_chan s = 1" "e_next_channel s = 1" and "e_nchans s = 2"
    and "c_bytes_queued (e_chans s 0) <s c_bytes_queued (e_chans s 1)"
  shows "\<exists>s'. dma_6460_queue_transfer x s = Val (ppcdma_queue_chain_6460 0 x s')
    \<and> e_next_channel s' = 2 \<and> dma_6460_queue_transfer y (snd (ppcdma_queue_chain_6460 0 x s')) = Undef"
proof -
  have "[0..<Suc 1] = [0, 1 :: nat]" by (simp add: upt_rec)
  then have lb: "load_balance_6460 s = Val (0, s\<lparr>e_next_channel := 2\<rparr>)"
    using assms by (simp add: load_balance_6460_def)
  have keep: "e_next_channel (snd (ppcdma_queue_chain_6460 0 x t)) = e_next_channel t"
    "e_nchans (snd (ppcdma_queue_chain_6460 0 x t)) = e_nchans t" for t
    by (auto simp: ppcdma_queue_chain_6460_def start_dma_6460_def Let_def)
  show ?thesis using lb assms(4)
    by (intro exI [of _ "s\<lparr>e_next_channel := 2\<rparr>"])
      (simp add: dma_6460_queue_transfer_def load_balance_6460_def [of "snd _"] keep)
qed

text \<open>Loading a transfer overwrites its source: a word of the source holds its own address afterwards.\<close>

lemma stamp_above: "unat p + 4 * k \<le> 2 ^ 32 \<Longrightarrow> unat q < unat p \<Longrightarrow> address_stamp after k p mem q = mem q"
proof (induction k arbitrary: p mem)
  case (Suc k)
  show ?case
  proof (cases k)
    case 0
    with Suc.prems show ?thesis by auto
  next
    case (Suc k')
    then have "unat (p + 4) = unat p + 4" using Suc.prems by (simp add: unat_word_ariths)
    with Suc.IH [of "p + 4"] Suc.prems show ?thesis by auto
  qed
qed simp

lemma loading_overwrites_the_source:
  assumes "unat p + 4 * k \<le> 2 ^ 32" and "j < k"
  shows "address_stamp False k p mem (p + 4 * of_nat j) = p + 4 * of_nat j"
  using assms
proof (induction k arbitrary: p mem j)
  case (Suc k)
  show ?case
  proof (cases k)
    case 0
    with Suc.prems show ?thesis by simp
  next
    case (Suc k')
    then have u: "unat (p + 4) = unat p + 4" using Suc.prems by (simp add: unat_word_ariths)
    show ?thesis
    proof (cases j)
      case 0
      with Suc.prems u show ?thesis by (simp add: stamp_above)
    next
      case (Suc i)
      from Suc.IH [of "p + 4" i] Suc.prems u Suc show ?thesis by (simp add: algebra_simps)
    qed
  qed
qed simp

end
