(* ===== verification/Vfi_Dma_Net.thy ===== *)
theory Vfi_Dma_Net
  imports Vfi_Dma_Rio
begin

text \<open>
  The DMA engine without hardware, \<open>vfi_dma_net.c\<close>: it links descriptors as the RapidIO engine does (the
  structures of \<open>vfi_dma_net.h\<close> are those of \<open>vfi_dma_rio.h\<close>), but fills none in and queues nothing.
\<close>

section \<open>Operations\<close>

definition dma_net_load :: "seg_desc \<Rightarrow> seg_desc" where
  "dma_net_load rio = rio"

definition dma_net_link_src :: "nat list \<Rightarrow> nat \<Rightarrow> (nat \<Rightarrow> seg_desc) \<Rightarrow> nat list \<times> (nat \<Rightarrow> seg_desc)" where
  "dma_net_link_src first second segs =
     (first @ [second], if first \<noteq> [] then set_next (last first) (seg_paddr (segs second)) segs else segs)"

definition dma_net_link_dst ::
  "nat list \<Rightarrow> nat list option \<Rightarrow> (nat \<Rightarrow> seg_desc) \<Rightarrow> (nat list \<times> (nat \<Rightarrow> seg_desc)) cres" where
  "dma_net_link_dst first srcs segs =
     (case srcs of
        None \<Rightarrow> Val (first, segs)
      | Some chain \<Rightarrow>
          if first \<noteq> [] then
            (case chain of
               [] \<Rightarrow> Undef
             | r # _ \<Rightarrow> Val (first @ chain, set_next (last first) (seg_paddr (segs r)) segs))
          else Val (first @ chain, segs))"

text \<open>The transfer object, whose physical address is left as it was (\<open>pa\<close>), has no callback.\<close>

definition dma_net_link_bind :: "u64 \<Rightarrow> nat list \<Rightarrow> vfi_bind_param \<Rightarrow> (nat \<Rightarrow> seg_desc) \<Rightarrow> u32 \<Rightarrow> my_xfer_object cres" where
  "dma_net_link_bind pa chain d segs ex =
     (case chain of
        [] \<Rightarrow> Undef
      | s # _ \<Rightarrow> Val \<lparr>xfo_hw = \<lparr>list_next_ext = 0, list_next = DMA_END_OF_CHAIN, link_ext = 0,
                                link = ucast (seg_paddr (segs s)), src_stride = 0, dest_stride = 0\<rparr>,
                      xfo_paddr = pa, has_cb = False, flags = VFI_XFO_READY, xf_len = extent (src d), extra = ex\<rparr>)"

definition dma_net_queue_transfer :: "nat \<Rightarrow> (nat \<Rightarrow> my_xfer_object) \<Rightarrow> nat \<Rightarrow> my_xfer_object" where
  "dma_net_queue_transfer x xs = xs"

definition dma_net_cancel_transfer :: "nat \<Rightarrow> (nat \<Rightarrow> my_xfer_object) \<Rightarrow> nat \<Rightarrow> my_xfer_object" where
  "dma_net_cancel_transfer x xs = xs"

definition dma_net_init :: "bool \<Rightarrow> nat \<Rightarrow> registry \<Rightarrow> errno \<times> registry" where
  "dma_net_init ka r g = (if \<not> ka then (- ENOMEM, g) else vfi_dma_register r g)"

definition dma_net_close :: "registry \<Rightarrow> registry" where
  "dma_net_close g = vfi_dma_unregister ''vfi_net_dma'' g"

section \<open>The same chains, and nothing done with them\<close>

lemma net_links_as_rio:
  "dma_net_link_src = dma_rio_link_src" "dma_net_link_dst = dma_rio_link_dst"
  by (simp_all add: fun_eq_iff dma_net_link_src_def dma_rio_link_src_def dma_net_link_dst_def dma_rio_link_dst_def)

text \<open>A transfer given to this engine stays as linking has left it, ready, never queued nor complete; and even a
  completion would reach nobody, as there is no callback.\<close>

lemma net_transfers_stay_ready:
  assumes "dma_net_link_bind pa chain d segs ex = Val xfo" and "xs x = xfo"
  shows "XFO_STATUS (dma_net_queue_transfer x xs x) = VFI_XFO_READY \<and> \<not> has_cb (dma_net_queue_transfer x xs x)
    \<and> chain \<noteq> [] \<and> link (xfo_hw (dma_net_queue_transfer x xs x)) = ucast (seg_paddr (segs (hd chain)))"
  using assms(1) unfolding dma_net_queue_transfer_def assms(2)
  by (auto simp: dma_net_link_bind_def XFO_STATUS_def split: list.splits)

end
