(* ===== verification/Vfi_Rionet_Net.thy ===== *)
theory Vfi_Rionet_Net
  imports Vfi_Fabric_Net Vfi_Rionet
begin

text \<open>
  The RapidIO back end, \<open>vfi_fabric_rionet.c\<close>, without its event manager (\<open>Vfi_Rionet\<close>): messages go in
  Ethernet frames over the rionet device, doorbells go to the RapidIO identity of a node.

  What the file shares with the Ethernet back end, the table of addresses and the locations, is the field
  \<open>rn_net\<close>, a state of \<open>Vfi_Fabric_Net\<close>; the frame, the header and the question whether a frame is stale
  are the same too. What it does otherwise is written out here: a failing allocation gives a null address, an
  address has a RapidIO identity, the last byte of its MAC, and a frame for another node is not dropped.
  Names that the Ethernet back end has as well carry the suffix \<open>_rio\<close>.
\<close>

section \<open>State\<close>

text \<open>
  \<open>rn_dbmgr\<close> is the manager of doorbells, \<open>rn_packs\<close> the devices that the packet handler was added for,
  \<open>rn_sent\<close> the doorbells given to the RapidIO port: the identity of the node and the number.
\<close>

record rionet =
  rn_net :: net
  rn_rio_id :: "nat \<Rightarrow> u16"
  rn_dbmgr :: "event_mgr option"
  rn_first_probe :: bool
  rn_packs :: "nat list"
  rn_sent :: "(u16 \<times> u16) list"

abbreviation VFI_DOORBELL_START :: int where "VFI_DOORBELL_START \<equiv> 0x2000"
abbreviation VFI_DOORBELL_END :: int where "VFI_DOORBELL_END \<equiv> 0x4000"
abbreviation VFI_DOORBELL_HASHLEN :: nat where "VFI_DOORBELL_HASHLEN \<equiv> 256"

definition get_rio_id :: "nat option \<Rightarrow> rionet \<Rightarrow> int" where
  "get_rio_id rfa R = (case rfa of None \<Rightarrow> - 1 | Some a \<Rightarrow> uint (rn_rio_id R a))"

section \<open>The table of addresses\<close>

text \<open>The fields shared with the Ethernet back end are updated as there; a MAC brings an identity with it.\<close>

definition update_fabric_address_rio ::
  "nat \<Rightarrow> u32 \<Rightarrow> u8 list option \<Rightarrow> nat option \<Rightarrow> rionet \<Rightarrow> rionet" where
  "update_fabric_address_rio a sidx hw dev R =
     R\<lparr>rn_net := set_fna a (update_fabric_address sidx hw dev) (rn_net R),
       rn_rio_id := (case hw of None \<Rightarrow> rn_rio_id R | Some h \<Rightarrow> (rn_rio_id R)(a := ucast (h ! 5)))\<rparr>"

definition new_fabric_address_rio ::
  "bool \<Rightarrow> u32 \<Rightarrow> u32 \<Rightarrow> u8 list option \<Rightarrow> nat option \<Rightarrow> rionet \<Rightarrow> rpc \<Rightarrow> nat option \<times> rionet \<times> rpc" where
  "new_fabric_address_rio ka i sidx hw dev R n =
     (if \<not> ka then (None, R, n)
      else let N = rn_net R; a = fresh_fna N;
             fp = \<lparr>hw_address = replicate ETH_ALEN 0, fn_idx = i, src_idx = 0, reg_loc = None, ndev = None\<rparr>;
             R1 = R\<lparr>rn_net := N\<lparr>fresh_fna := Suc a, fnas := (fnas N)(a := fp)\<rparr>, rn_rio_id := (rn_rio_id R)(a := 0)\<rparr>
        in (Some a, update_fabric_address_rio a sidx hw dev R1,
            n\<lparr>regn := (regn n)\<lparr>fabs := (fabs (regn n))(a :=
               \<lparr>fa_owner = this_module N, fa_has_get = True, fa_name = [], fa_refs = 1\<rparr>)\<rparr>\<rparr>))"

text \<open>\<open>_fabric_get\<close> and \<open>_fabric_put\<close> do nothing with a null address.\<close>

definition fabric_get_rio :: "nat option \<Rightarrow> int \<Rightarrow> rpc \<Rightarrow> rpc" where
  "fabric_get_rio a d n = (case a of None \<Rightarrow> n | Some a \<Rightarrow> fna_ref a d n)"

definition find_fabric_mac_rio :: "u8 list option \<Rightarrow> rionet \<Rightarrow> rpc \<Rightarrow> nat option \<times> rpc" where
  "find_fabric_mac_rio hw R n =
     (case hw of
        None \<Rightarrow> (None, n)
      | Some h \<Rightarrow>
          (let a = find (\<lambda>a. hw_address (fnas (rn_net R) a) = h) (concat (map (address_table (rn_net R)) [0..<16]))
           in (a, fabric_get_rio a 1 n)))"

definition find_fabric_address_rio ::
  "bool \<Rightarrow> u32 \<Rightarrow> u32 \<Rightarrow> u8 list option \<Rightarrow> nat option \<Rightarrow> rionet \<Rightarrow> rpc \<Rightarrow> nat option \<times> rionet \<times> rpc" where
  "find_fabric_address_rio ka i sidx hw dev R n =
     (let slot = unat (i AND 15) in
      if i = UNKNOWN_IDX then
        (case find_fabric_mac_rio hw R n of
           (Some a, n) \<Rightarrow> (Some a, R, n)
         | (None, n) \<Rightarrow> (case new_fabric_address_rio ka i 0 hw dev R n of (a, R, n) \<Rightarrow> (a, R, fabric_get_rio a 1 n)))
      else
        (case find (\<lambda>a. fn_idx (fnas (rn_net R) a) = i) (address_table (rn_net R) slot) of
           Some a \<Rightarrow> (Some a, update_fabric_address_rio a sidx hw dev R, fna_ref a 1 n)
         | None \<Rightarrow>
             (case new_fabric_address_rio ka i sidx hw dev R n of
                (None, R, n) \<Rightarrow> (None, R, n)
              | (Some a, R, n) \<Rightarrow>
                  (Some a,
                   R\<lparr>rn_net := (rn_net R)\<lparr>address_table := (address_table (rn_net R))(slot := address_table (rn_net R) slot @ [a])\<rparr>\<rparr>,
                   fna_ref a 1 n))))"

section \<open>Frames\<close>

definition fabric_transmit_rio :: "rionet \<Rightarrow> errno \<Rightarrow> transmit" where
  "fabric_transmit_rio R q a i n =
     (case skbs n i of
        None \<Rightarrow> Undef
      | Some m \<Rightarrow>
          (case ndev (fnas (rn_net R) a) of
             Some d \<Rightarrow>
               cres_bind (free_skb i (fna_ref a (- 1) n))
                 (\<lambda>n. Val (dev_queue_xmit q d (put_hdr (header (rn_net R) (fnas (rn_net R) a) d 0) @ m) n))
           | None \<Rightarrow> cres_bind (free_skb i (fna_ref a (- 1) n)) (\<lambda>n. Val (NET_XMIT_DROP, n))))"

text \<open>
  \<open>vfi_rx_packet\<close>. When the frame names another node than the one that the sender's location has this node
  under, the sender's MAC is looked up a second time, under the index of the destination. \<open>ka\<close> and \<open>kb\<close>
  answer the two allocations.
\<close>

definition rx_forget_rio :: "nat \<Rightarrow> rionet \<Rightarrow> rpc \<Rightarrow> (errno \<times> rionet \<times> rpc) cres" where
  "rx_forget_rio i R n = cres_bind (free_skb i n) (\<lambda>n. Val (NET_RX_DROP, R, n))"

definition rx_deliver_rio :: "u32 option \<Rightarrow> bool \<Rightarrow> string \<Rightarrow> nat \<Rightarrow> nat \<Rightarrow> rionet \<Rightarrow> rpc \<Rightarrow> (errno \<times> rionet \<times> rpc) cres" where
  "rx_deliver_rio kt room f a i R n =
     cres_bind (payload_text room (drop hdr_size f)) (\<lambda>m.
       cres_bind (vfi_fabric_receive kt a i (n\<lparr>skbs := (skbs n)(i \<mapsto> m)\<rparr>)) (\<lambda>(ret, n). Val (ret, R, n)))"

definition vfi_rx_packet_rio ::
  "bool \<Rightarrow> bool \<Rightarrow> u32 option \<Rightarrow> bool \<Rightarrow> nat \<Rightarrow> nat \<Rightarrow> rionet \<Rightarrow> rpc \<Rightarrow> (errno \<times> rionet \<times> rpc) cres" where
  "vfi_rx_packet_rio ka kb kt room i dev R n =
     (case skbs n i of
        None \<Rightarrow> Undef
      | Some f \<Rightarrow>
         if length f < hdr_size then Undef
         else let h = vfi_hdr f in
           (case find_fabric_address_rio ka (h_srcidx h) 0 (Some (h_source h)) (Some dev) R n of
              (None, R, n) \<Rightarrow> rx_forget_rio i R n
            | (Some a, R, n) \<Rightarrow>
                if rx_stale (rn_net R) a (h_dstidx h) then
                  (case find_fabric_address_rio kb (h_dstidx h) 0 (Some (h_source h)) (Some dev) R (fna_ref a (- 1) n) of
                     (None, R, n) \<Rightarrow> rx_forget_rio i R n
                   | (Some b, R, n) \<Rightarrow> rx_deliver_rio kt room f b i R n)
                else rx_deliver_rio kt room f a i R n))"

section \<open>Doorbells\<close>

definition doorbell_send :: "nat option \<Rightarrow> int \<Rightarrow> rionet \<Rightarrow> (errno \<times> rionet) cres" where
  "doorbell_send rfa info R =
     (case rfa of
        None \<Rightarrow> Undef
      | Some a \<Rightarrow> Val (0, R\<lparr>rn_sent := rn_sent R @ [(rn_rio_id R a, of_int info)]\<rparr>))"

section \<open>Locations\<close>

definition register_device_rio :: "rionet \<Rightarrow> vfi_desc_param \<Rightarrow> nat option cres" where
  "register_device_rio R d =
     cres_bind (vfi_get_option d ''netdev='') (\<lambda>opt.
       case opt of
         Some k \<Rightarrow> cres_bind (text_of d (Some k)) (\<lambda>nm. Val (dev_get_by_name (rn_net R) nm))
       | None \<Rightarrow>
           (case (case address d of None \<Rightarrow> None | Some old \<Rightarrow> ndev (fnas (rn_net R) old)) of
              Some dev \<Rightarrow> Val (Some dev)
            | None \<Rightarrow> Val (dev_get_by_name (rn_net R) (netdev_name (rn_net R)))))"

text \<open>
  The new address takes over the identity of the old one, whatever it had. Without memory for an address
  the null pointer is used.
\<close>

definition fabric_register_rio :: "bool \<Rightarrow> nat \<Rightarrow> rionet \<Rightarrow> rpc \<Rightarrow> (errno \<times> rionet \<times> rpc) cres" where
  "fabric_register_rio ka l R n =
     (let d = l_desc (locs (rn_net R) l); old = address d in
      cres_bind (register_device_rio R d) (\<lambda>dev.
        case dev of
          None \<Rightarrow> Val (- ENODEV, R, n)
        | Some _ \<Rightarrow>
            (case find_fabric_address_rio ka (ucast (offset d)) (extent d) None dev R n of
               (None, _, _) \<Rightarrow> Undef
             | (Some a, R, n) \<Rightarrow>
                 (let N = rn_net R;
                      N1 = N\<lparr>locs := (locs N)(l := (locs N l)\<lparr>l_desc := d\<lparr>address := Some a\<rparr>\<rparr>)\<rparr>;
                      ids = (case old of None \<Rightarrow> rn_rio_id R | Some o' \<Rightarrow> (rn_rio_id R)(a := rn_rio_id R o'));
                      old_loc = reg_loc (fnas N1 a);
                      N2 = loc_ref l 1 (set_fna a (\<lambda>fp. fp\<lparr>reg_loc := Some l\<rparr>) N1);
                      N3 = (case old_loc of None \<Rightarrow> N2 | Some l' \<Rightarrow> loc_ref l' (- 1) N2)
                  in Val (0, R\<lparr>rn_net := N3, rn_rio_id := ids\<rparr>, fabric_get_rio old (- 1) n)))))"

definition fabric_unregister_rio :: "nat \<Rightarrow> rionet \<Rightarrow> rpc \<Rightarrow> (rionet \<times> rpc) cres" where
  "fabric_unregister_rio l R n =
     (case address (l_desc (locs (rn_net R) l)) of
        None \<Rightarrow> Undef
      | Some old \<Rightarrow> Val (R\<lparr>rn_net := loc_ref l (- 1) (set_fna old (\<lambda>fp. fp\<lparr>reg_loc := None\<rparr>) (rn_net R))\<rparr>, fna_ref old (- 1) n))"

section \<open>Set-up\<close>

text \<open>
  \<open>fabric_rionet_probe\<close>, called for each RapidIO device. \<open>cap\<close> tells whether the port can send and receive
  doorbells, \<open>rq\<close> is the answer to the request for the range of doorbells, \<open>ka\<close> and \<open>kb\<close> answer the
  allocations of the manager, \<open>kf\<close> that of the address. The variable that should let only the first call
  through is set to the value it has from the start.
\<close>

definition fabric_rionet_probe ::
  "bool \<Rightarrow> errno \<Rightarrow> bool \<Rightarrow> bool \<Rightarrow> bool \<Rightarrow> rionet \<Rightarrow> rpc \<Rightarrow> errno \<times> rionet \<times> rpc" where
  "fabric_rionet_probe cap rq ka kb kf R n =
     (if \<not> rn_first_probe R then (0, R, n)
      else
        (let R = R\<lparr>rn_first_probe := True\<rparr>
         in if \<not> cap then (- EINVAL, R, n)
            else if rq < 0 then (- EINVAL, R, n)
            else
              (let R = R\<lparr>rn_dbmgr := vfi_events_init ka kb VFI_DOORBELL_START VFI_DOORBELL_END VFI_DOORBELL_HASHLEN\<rparr>
               in case new_fabric_address_rio kf UNKNOWN_IDX 0 None None R n of
                    (None, R, n) \<Rightarrow> (- ENOMEM, R, n)
                  | (Some a, R, n) \<Rightarrow>
                      (let n = n\<lparr>regn := (regn n)\<lparr>fabs := (fabs (regn n))(a := (fabs (regn n) a)\<lparr>fa_name := ''vfi_fabric_rionet''\<rparr>)\<rparr>\<rparr>
                       in case dev_get_by_name (rn_net R) (netdev_name (rn_net R)) of
                            None \<Rightarrow> (- ENODEV, R, n)
                          | Some d \<Rightarrow>
                              (let R = update_fabric_address_rio a 0 (Some (dev_addr (netdevs (rn_net R) d))) (Some d) R;
                                   R = R\<lparr>rn_packs := rn_packs R @ [d]\<rparr>;
                                   (ret, g) = vfi_fabric_register a (regn n)
                               in (ret, R, n\<lparr>regn := g\<rparr>))))))"

text \<open>\<open>vfi_doorbells_uninit\<close> and \<open>fabric_rionet_close\<close>; \<open>dev_remove_pack\<close> removes the handler once.\<close>

definition vfi_doorbells_uninit :: "rionet \<Rightarrow> rionet" where
  "vfi_doorbells_uninit R = R\<lparr>rn_dbmgr := None\<rparr>"

definition fabric_rionet_close :: "rionet \<Rightarrow> rpc \<Rightarrow> rionet \<times> rpc" where
  "fabric_rionet_close R n =
     (vfi_doorbells_uninit (R\<lparr>rn_packs := tl (rn_packs R)\<rparr>), n\<lparr>regn := vfi_fabric_unregister ''vfi_fabric_rionet'' (regn n)\<rparr>)"

section \<open>The two back ends agree\<close>

lemma fabric_transmit_rio_eq: "fabric_transmit_rio R = fabric_transmit (rn_net R)"
  by (intro ext) (auto simp: fabric_transmit_rio_def fabric_transmit_def free_skb_def fna_ref_def dev_queue_xmit_def
      split: option.split)

interpretation rio_transport: transport "{fabric_transmit_rio R q | R q. True}"
proof
  fix xmit a i n ret n'
  assume "xmit \<in> {fabric_transmit_rio R q | R q. True}" and x: "xmit a i n = Val (ret, n')"
  then have "xmit \<in> {fabric_transmit N q | N q. True}" by (auto simp: fabric_transmit_rio_eq)
  from net_transport.only_the_buffer [OF this x]
  show "same_calls n n' \<and> (\<exists>v. skbs n' = (skbs n)(i := v))" .
qed

text \<open>For a known index both tables do the same; the RapidIO one notes an identity with every MAC.\<close>

lemma find_rio_net:
  assumes "i \<noteq> UNKNOWN_IDX" and "find_fabric_address True i s hw dev (rn_net R) n = Val (a, N', n')"
  shows "\<exists>R'. find_fabric_address_rio True i s hw dev R n = (Some a, R', n') \<and> rn_net R' = N'
    \<and> (\<forall>h. hw = Some h \<longrightarrow> rn_rio_id R' a = ucast (h ! 5))
    \<and> (\<forall>b. b \<noteq> a \<longrightarrow> rn_rio_id R' b = rn_rio_id R b)
    \<and> rn_dbmgr R' = rn_dbmgr R \<and> rn_sent R' = rn_sent R \<and> rn_packs R' = rn_packs R \<and> rn_first_probe R' = rn_first_probe R"
  using assms
  by (auto simp: find_fabric_address_rio_def find_fabric_address_def new_fabric_address_rio_def new_fabric_address_def
      update_fabric_address_rio_def set_fna_def Let_def split: option.splits)

section \<open>Properties\<close>


definition demo_rionet :: rionet where
  "demo_rionet = \<lparr>rn_net = demo_net, rn_rio_id = (\<lambda>_. 0), rn_dbmgr = None, rn_first_probe = True, rn_packs = [], rn_sent = []\<rparr>"


text \<open>Over this fabric, too, a caller that sleeps can return, whatever has come in between.\<close>

lemma every_rionet_call_returns:
  assumes "rpc_run {fabric_transmit_rio R q | R q. True} n0 n" "idle n0" "a \<in> set (waiting n)"
  shows "\<exists>ret r n'. fabric_call_return a n = Val (ret, r, n')
    \<and> (case r of
         None \<Rightarrow> ret = - EIO
       | Some i \<Rightarrow> ret = 0 \<and> (\<exists>m. skbs n' i = Some m \<and> reply_tag m = Some a) \<and> (\<forall>h. \<not> holds n' h i))"
  by (rule rio_transport.sleeper_returns [OF assms])

text \<open>A frame for another node is not dropped: the address of that node takes over the sender's MAC and identity, so
  that messages and doorbells for it go to the sender from then on, and the message is handled as if it came from there.\<close>

lemma frame_for_another_node_moves_it:
  assumes f: "skbs n i = Some f" "hdr_size \<le> length f" and B: "table_ok (rn_net B)"
    and h: "h_srcidx (vfi_hdr f) \<noteq> UNKNOWN_IDX" "h_dstidx (vfi_hdr f) \<noteq> UNKNOWN_IDX"
    and a: "node_of (rn_net B) (h_srcidx (vfi_hdr f)) = Some a" and b: "node_of (rn_net B) (h_dstidx (vfi_hdr f)) = Some b"
    and l: "reg_loc (fnas (rn_net B) a) = Some l" "extent (l_desc (locs (rn_net B) l)) \<noteq> h_dstidx (vfi_hdr f)"
  shows "\<exists>B' n'. vfi_rx_packet_rio True True kt room i e B n = rx_deliver_rio kt room f b i B' n'
    \<and> node_of (rn_net B') (h_dstidx (vfi_hdr f)) = Some b
    \<and> hw_address (fnas (rn_net B') b) = h_source (vfi_hdr f) \<and> rn_rio_id B' b = ucast (h_source (vfi_hdr f) ! 5)"
proof -
  let ?h = "vfi_hdr f"
  let ?up = "\<lambda>c R. update_fabric_address_rio c 0 (Some (h_source ?h)) (Some e) R"
  have idx: "fn_idx (fnas (rn_net (?up c R)) x) = fn_idx (fnas (rn_net R) x)" "address_table (rn_net (?up c R)) = address_table (rn_net R)"
    for c R x by (simp_all add: update_fabric_address_rio_def set_fna_def)
  have node: "node_of (rn_net (?up c R)) = node_of (rn_net R)" for c R
    by (simp add: node_of_def idx fun_eq_iff)
  have look: "find_fabric_address_rio True j 0 (Some (h_source ?h)) (Some e) R m = (Some c, ?up c R, fna_ref c 1 m)"
    if "j \<noteq> UNKNOWN_IDX" "node_of (rn_net R) j = Some c" for j R m c
    using that by (simp add: find_fabric_address_rio_def node_of_def)
  have "rx_stale (rn_net (?up a B)) a (h_dstidx ?h)"
    using l h(2) by (simp add: rx_stale_def update_fabric_address_rio_def set_fna_def)
  then have "vfi_rx_packet_rio True True kt room i e B n = rx_deliver_rio kt room f b i (?up b (?up a B)) (fna_ref b 1 (fna_ref a (- 1) (fna_ref a 1 n)))"
    using f look [OF h(1) a, of n] look [of "h_dstidx ?h" "?up a B" b "fna_ref a (- 1) (fna_ref a 1 n)"] h(2) b
    by (simp add: vfi_rx_packet_rio_def Let_def node not_less)
  moreover have "hw_address (fnas (rn_net (?up b (?up a B))) b) = h_source ?h" "rn_rio_id (?up b (?up a B)) b = ucast (h_source ?h ! 5)"
    by (simp_all add: update_fabric_address_rio_def set_fna_def)
  ultimately show ?thesis using b by (metis node)
qed

text \<open>Registering a location gives its address the identity of the one it had before. That is the address of the
  fabric itself when the location is made, whose identity is this node's: what a message has taught is lost,
  and doorbells for the node come back here until its next message.\<close>

lemma registering_forgets_identity:
  assumes reg: "fabric_register_rio True l R n = Val (0, R', n')"
    and old: "address (l_desc (locs (rn_net R) l)) = Some old" "old < fresh_fna (rn_net R)"
    and i: "ucast (offset (l_desc (locs (rn_net R) l))) \<noteq> UNKNOWN_IDX" and ok: "table_ok (rn_net R)"
  shows "\<exists>a. address (l_desc (locs (rn_net R') l)) = Some a
    \<and> node_of (rn_net R') (ucast (offset (l_desc (locs (rn_net R) l)))) = Some a \<and> rn_rio_id R' a = rn_rio_id R old"
proof -
  let ?d = "l_desc (locs (rn_net R) l)" and ?i = "ucast (offset (l_desc (locs (rn_net R) l))) :: u32"
  from reg obtain dev where dev: "register_device_rio R ?d = Val (Some dev)"
    by (auto simp: fabric_register_rio_def Let_def cres_bind_eq_Val split: option.splits)
  from one_address_per_node [OF ok i, of "extent ?d" None "Some dev" n] obtain a N1 n1 where
    find: "find_fabric_address True ?i (extent ?d) None (Some dev) (rn_net R) n = Val (a, N1, n1)" "node_of N1 ?i = Some a"
    by auto
  have idx: "fn_idx (fnas N1 b) = fn_idx (fnas N1 b)" for b ..
  from find_rio_net [OF i find(1)] obtain R1 where
    R1: "find_fabric_address_rio True ?i (extent ?d) None (Some dev) R n = (Some a, R1, n1)" "rn_net R1 = N1"
      "\<And>b. b \<noteq> a \<Longrightarrow> rn_rio_id R1 b = rn_rio_id R b" by blast
  have same: "rn_rio_id R1 old = rn_rio_id R old"
  proof (cases "old = a")
    case True
    then have "node_of (rn_net R) ?i = Some a"
      using find_fabric_address_run [OF ok i, of "extent ?d" None "Some dev" n] find(1) old(2)
      by (metis (no_types, lifting) cres.inject less_irrefl prod.inject)
    then have "R1 = update_fabric_address_rio a (extent ?d) None (Some dev) R"
      using R1(1) i by (simp add: find_fabric_address_rio_def node_of_def)
    then show ?thesis by (simp add: update_fabric_address_rio_def)
  qed (rule R1(3))
  from reg dev R1(1) old(1) have
    "rn_rio_id R' = (rn_rio_id R1)(a := rn_rio_id R1 old)" "address (l_desc (locs (rn_net R') l)) = Some a"
    "address_table (rn_net R') = address_table N1" "\<And>b. fn_idx (fnas (rn_net R') b) = fn_idx (fnas N1 b)"
    by (auto simp: fabric_register_rio_def Let_def R1(2) loc_ref_def set_fna_def split: option.splits)
  then show ?thesis using same find(2) by (simp add: node_of_def)
qed

text \<open>Probing a second device sets everything up a second time: the doorbells registered so far are forgotten
  with their manager, and the packet handler is added again.\<close>

lemma second_probe_starts_afresh:
  assumes one: "fabric_rionet_probe True rq True True True R n = (0, R1, n1)" "0 \<le> rq" "rn_first_probe R"
  shows "rn_first_probe R1 \<and> (\<exists>d. rn_packs R1 = rn_packs R @ [d])
    \<and> (\<exists>m. rn_dbmgr (fst (snd (fabric_rionet_probe True rq True True True (R1\<lparr>rn_dbmgr := used\<rparr>) n2))) = Some m
           \<and> event_at m = Map.empty)"
proof -
  from events_init_ok [of VFI_DOORBELL_START VFI_DOORBELL_HASHLEN VFI_DOORBELL_END] obtain m where
    m: "vfi_events_init True True VFI_DOORBELL_START VFI_DOORBELL_END VFI_DOORBELL_HASHLEN = Some m" "event_at m = Map.empty" by auto
  have p: "rn_first_probe R1" "\<exists>d. rn_packs R1 = rn_packs R @ [d]"
    using one by (auto simp: fabric_rionet_probe_def new_fabric_address_rio_def update_fabric_address_rio_def Let_def
        split: option.splits prod.splits)
  then have "rn_dbmgr (fst (snd (fabric_rionet_probe True rq True True True (R1\<lparr>rn_dbmgr := used\<rparr>) n2))) = Some m"
    using one(2) m(1) by (simp add: fabric_rionet_probe_def new_fabric_address_rio_def update_fabric_address_rio_def Let_def
        split: option.split prod.split)
  with p m(2) show ?thesis by blast
qed

end
